(* ===== verification/Prelude.thy ===== *)
theory Prelude
  imports Main "HOL-Library.Word"
begin

text \<open>
  Shared vocabulary of the TaskWorker development.

  Go strings and byte slices are byte sequences; a byte is an Isabelle \<open>char\<close>, so both are
  \<open>string\<close>. A Go call that may fail returns a value of the sum \<open>'e + 'a\<close>, \<open>Inl\<close> for the
  error. The theory also holds the generic facts on lists and sums that several components
  use, and the theorem collections \<open>unfolds\<close> (definitions a component proof opens) and
  \<open>wf_intros\<close> (well-formedness introduction rules).
\<close>

named_theorems unfolds \<open>definitions that the component proofs unfold\<close>
named_theorems wf_intros \<open>introduction rules for well-formedness predicates\<close>

type_synonym bytes = string

abbreviation byte :: "char \<Rightarrow> nat" where
  "byte c \<equiv> of_char c"

lemma unat64_max: "unat (- 1 :: 64 word) = 18446744073709551615"
  by (simp add: unsigned_minus_1_eq_mask mask_eq_exp_minus_1)

lemma unat64_less: "unat (x :: 64 word) < 18446744073709551616"
  using unsigned_less [of x] by simp

subsection \<open>Sums as results\<close>

definition is_ok :: "'e + 'a \<Rightarrow> bool" where
  "is_ok r = (case r of Inl _ \<Rightarrow> False | Inr _ \<Rightarrow> True)"

lemma is_ok_simps [simp]: "is_ok (Inr x)" "\<not> is_ok (Inl e)"
  by (simp_all add: is_ok_def)

lemma is_ok_iff: "is_ok r \<longleftrightarrow> (\<exists>x. r = Inr x)"
  by (cases r) auto

text \<open>A Go loop that returns at the first error: a left fold in the sum type.\<close>

fun fold_result :: "('s \<Rightarrow> 'a \<Rightarrow> 'e + 's) \<Rightarrow> 's \<Rightarrow> 'a list \<Rightarrow> 'e + 's" where
  "fold_result f s [] = Inr s"
| "fold_result f s (x # xs) = (case f s x of Inl e \<Rightarrow> Inl e | Inr s' \<Rightarrow> fold_result f s' xs)"

lemma fold_result_append:
  "fold_result f s (xs @ ys) =
     (case fold_result f s xs of Inl e \<Rightarrow> Inl e | Inr s' \<Rightarrow> fold_result f s' ys)"
  by (induction xs arbitrary: s) (auto split: sum.split)

lemma fold_result_invariant:
  assumes "fold_result f s xs = Inr s'" and "P s"
    and "\<And>s x s'. f s x = Inr s' \<Longrightarrow> P s \<Longrightarrow> P s'"
  shows "P s'"
  using assms(1,2)
  by (induction xs arbitrary: s) (auto split: sum.splits intro: assms(3))

lemma fold_result_relation:
  assumes "fold_result f s xs = Inr s'" and "\<And>s. R s s"
    and "\<And>s x s'. f s x = Inr s' \<Longrightarrow> R s s'"
    and "\<And>a b c. R a b \<Longrightarrow> R b c \<Longrightarrow> R a c"
  shows "R s s'"
  using assms(1)
proof (induction xs arbitrary: s)
  case Nil
  then show ?case by (simp add: assms(2))
next
  case (Cons x xs)
  then obtain s1 where "f s x = Inr s1" and "fold_result f s1 xs = Inr s'"
    by (auto split: sum.splits)
  then show ?case using Cons.IH assms(3,4) by blast
qed

lemma hd_tl_nth: "1 < length xs \<Longrightarrow> hd (tl xs) = xs ! 1"
  by (cases xs; cases "tl xs") auto

subsection \<open>First index with a property\<close>

text \<open>The loop \<open>for i := range xs { if p(xs[i]) { return i } }\<close>; \<open>None\<close> for Go's \<open>-1\<close>.\<close>

fun find_index :: "('a \<Rightarrow> bool) \<Rightarrow> 'a list \<Rightarrow> nat option" where
  "find_index p [] = None"
| "find_index p (x # xs) = (if p x then Some 0 else map_option Suc (find_index p xs))"

lemma find_index_None: "find_index p xs = None \<longleftrightarrow> (\<forall>x\<in>set xs. \<not> p x)"
  by (induction xs) auto

lemma find_index_Some: "find_index p xs = Some i \<Longrightarrow> i < length xs \<and> p (xs ! i)"
  by (induction xs arbitrary: i) (auto split: if_splits)

lemma find_index_eq_find: "find p xs = map_option ((!) xs) (find_index p xs)"
  by (induction xs) (auto simp: option.map_comp comp_def)

lemma find_index_distinct:
  assumes "distinct (map f xs)" and "i < length xs"
  shows "find_index (\<lambda>x. f x = f (xs ! i)) xs = Some i"
  using assms
proof (induction xs arbitrary: i)
  case (Cons x xs)
  then show ?case by (cases i) auto
qed simp

lemma find_distinct:
  assumes "distinct (map f xs)" and "x \<in> set xs"
  shows "find (\<lambda>y. f y = f x) xs = Some x"
proof -
  from assms(2) obtain i where "i < length xs" and "xs ! i = x"
    by (auto simp: in_set_conv_nth)
  with assms(1) show ?thesis
    using find_index_distinct [OF assms(1), of i] by (auto simp: find_index_eq_find)
qed

end
