(* ===== verification/Utf8.thy ===== *)
theory Utf8
  imports Prelude
begin

text \<open>
  The parts of Go's \<open>unicode/utf8\<close> and \<open>strings\<close> packages that the worker relies on:
  \<open>utf8.ValidString\<close>, \<open>utf8.RuneStart\<close> and \<open>strings.TrimSpace\<close> on byte strings, the
  coercion of invalid bytes that a JSON round trip performs, and the splitting of output
  text at character boundaries.
\<close>

subsection \<open>Runes\<close>

definition cont :: "char \<Rightarrow> bool" where
  "cont b = (0x80 \<le> byte b \<and> byte b \<le> 0xBF)"

definition rune_start :: "char \<Rightarrow> bool" where
  "rune_start b = (\<not> cont b)"

text \<open>
  The number of bytes the first byte announces (0 for a byte that starts no rune) and the
  range it allows for the second byte: the table of \<open>unicode/utf8\<close>.
\<close>

definition rune_size :: "char \<Rightarrow> nat" where
  "rune_size b = (let x = byte b in
     if x < 0x80 then 1 else if x < 0xC2 then 0 else if x < 0xE0 then 2
     else if x < 0xF0 then 3 else if x < 0xF5 then 4 else 0)"

definition second_ok :: "char \<Rightarrow> char \<Rightarrow> bool" where
  "second_ok b0 b1 = (let x = byte b0; y = byte b1;
       lo = (if x = 0xE0 then 0xA0 else if x = 0xF0 then 0x90 else 0x80);
       hi = (if x = 0xED then 0x9F else if x = 0xF4 then 0x8F else 0xBF)
     in lo \<le> y \<and> y \<le> hi)"

text \<open>The length of the valid rune at the head of a string, \<open>None\<close> where there is none.\<close>

definition rune_len :: "bytes \<Rightarrow> nat option" where
  "rune_len s = (case s of [] \<Rightarrow> None | b0 # bs \<Rightarrow>
     (let n = rune_size b0 in
      if n = 0 \<or> length s < n then None
      else if 1 < n \<and> \<not> (second_ok b0 (hd bs) \<and> list_all cont (take (n - 2) (tl bs))) then None
      else Some n))"

lemma rune_size_le: "rune_size b \<le> 4"
  by (simp add: rune_size_def Let_def)

lemma rune_len_bounds: "rune_len s = Some n \<Longrightarrow> 0 < n \<and> n \<le> 4 \<and> n \<le> length s"
  using rune_size_le by (auto simp: rune_len_def Let_def split: list.splits if_splits)

lemma rune_len_Nil [simp]: "rune_len [] = None"
  by (simp add: rune_len_def)

lemma rune_len_ascii: "byte c < 0x80 \<Longrightarrow> rune_len (c # s) = Some 1"
  by (simp add: rune_len_def rune_size_def)

text \<open>The rune at the head only depends on its own bytes.\<close>

lemma rune_len_Cons:
  "rune_len (b # bs) = Some n \<longleftrightarrow> n = rune_size b \<and> 0 < n \<and> n \<le> length (b # bs) \<and>
     (1 < n \<longrightarrow> second_ok b (hd bs) \<and> list_all cont (take (n - 2) (tl bs)))"
  by (simp add: rune_len_def Let_def) auto

lemma rune_len_prefix:
  assumes s: "rune_len s = Some n" and n: "n \<le> length t" and e: "take n t = take n s"
  shows "rune_len t = Some n"
proof -
  note b = rune_len_bounds [OF s]
  have s0: "s = hd s # tl s" using b by (cases s) auto
  have t0: "t = hd t # tl t" using b n by (cases t) auto
  have at: "t ! i = s ! i" if "i < n" for i
    using e that by (metis nth_take)
  have h: "hd t = hd s" using at [of 0] b s0 t0 by (metis nth_Cons_0)
  have "rune_len (hd s # tl s) = Some n" using s s0 by metis
  then have c: "n = rune_size (hd s) \<and> (1 < n \<longrightarrow> second_ok (hd s) (hd (tl s)) \<and>
      list_all cont (take (n - 2) (tl (tl s))))"
    unfolding rune_len_Cons by blast
  have "take (n - 2) (tl (tl t)) = take (n - 2) (tl (tl s))" if "1 < n"
  proof -
    have "drop 2 (take n t) = drop 2 (take n s)" using e by simp
    then show ?thesis by (simp add: drop_take drop_Suc numeral_2_eq_2)
  qed
  moreover have "hd (tl t) = hd (tl s)" if "1 < n"
  proof -
    have "1 < length t" "1 < length s" using that b n by auto
    then have "hd (tl t) = t ! 1" "hd (tl s) = s ! 1"
      by (simp_all add: hd_tl_nth)
    then show ?thesis using at that by simp
  qed
  ultimately have "rune_len (hd t # tl t) = Some n"
    unfolding rune_len_Cons using c b n h t0 by (metis)
  then show ?thesis using t0 by metis
qed

lemma rune_len_append: "rune_len s = Some n \<Longrightarrow> rune_len (s @ t) = Some n"
  by (rule rune_len_prefix) (auto dest: rune_len_bounds)

lemma rune_len_take: "rune_len s = Some n \<Longrightarrow> n \<le> m \<Longrightarrow> rune_len (take m s) = Some n"
  by (rule rune_len_prefix) (auto dest: rune_len_bounds simp: min_def)

lemma rune_len_start: "rune_len s = Some n \<Longrightarrow> rune_start (s ! 0)"
  by (cases s) (auto simp: rune_len_Cons rune_start_def cont_def rune_size_def Let_def split: if_splits)

lemma second_ok_cont: "second_ok b0 b1 \<Longrightarrow> cont b1"
  by (auto simp: second_ok_def cont_def Let_def split: if_splits)

lemma rune_len_cont:
  assumes "rune_len s = Some n" and "0 < i" and "i < n"
  shows "cont (s ! i)"
proof -
  from assms obtain b0 b1 bs where s: "s = b0 # b1 # bs" and "second_ok b0 b1"
    and l: "list_all cont (take (n - 2) bs)" and "n \<le> length s"
    by (cases s; cases "tl s") (auto simp: rune_len_Cons)
  show ?thesis
  proof (cases "i = 1")
    case True
    with s \<open>second_ok b0 b1\<close> show ?thesis by (simp add: second_ok_cont)
  next
    case False
    with assms have "i - 2 < length (take (n - 2) bs)" using s \<open>n \<le> length s\<close> by auto
    with l have "cont (take (n - 2) bs ! (i - 2))" by (auto simp: list_all_length)
    with assms False s show ?thesis by (auto simp: nth_Cons' numeral_2_eq_2)
  qed
qed

subsection \<open>Valid strings\<close>

text \<open>\<open>utf8.ValidString\<close>: the string is a sequence of valid runes.\<close>

function valid_utf8 :: "bytes \<Rightarrow> bool" where
  "valid_utf8 s = (s = [] \<or> (case rune_len s of None \<Rightarrow> False | Some n \<Rightarrow> valid_utf8 (drop n s)))"
  by pat_completeness auto
termination
  by (relation "measure length") (auto dest: rune_len_bounds)

declare valid_utf8.simps [simp del]

lemma valid_utf8_Nil [simp]: "valid_utf8 []"
  by (simp add: valid_utf8.simps)

lemma valid_utf8_step: "rune_len s = Some n \<Longrightarrow> valid_utf8 s \<longleftrightarrow> valid_utf8 (drop n s)"
  by (subst valid_utf8.simps) auto

lemma valid_utf8_rune: "valid_utf8 s \<Longrightarrow> s \<noteq> [] \<Longrightarrow> \<exists>n. rune_len s = Some n"
  by (subst (asm) valid_utf8.simps) (auto split: option.splits)

lemma valid_utf8_induct [consumes 1, case_names Nil Rune]:
  assumes "valid_utf8 s" and "P []"
    and "\<And>s n. rune_len s = Some n \<Longrightarrow> valid_utf8 (drop n s) \<Longrightarrow> P (drop n s) \<Longrightarrow> P s"
  shows "P s"
  using assms(1)
proof (induction s rule: valid_utf8.induct)
  case (1 s)
  show ?case
  proof (cases "s = []")
    case False
    with "1.prems" obtain n where n: "rune_len s = Some n"
      using valid_utf8_rune by blast
    moreover from "1.prems" n have "valid_utf8 (drop n s)" by (simp add: valid_utf8_step)
    ultimately show ?thesis using "1.IH" False assms(3) by blast
  qed (simp add: assms(2))
qed

lemma valid_utf8_append: "valid_utf8 s \<Longrightarrow> valid_utf8 (s @ t) \<longleftrightarrow> valid_utf8 t"
proof (induction rule: valid_utf8_induct)
  case (Rune s n)
  then show ?case
    using valid_utf8_step [OF rune_len_append, of s n t] rune_len_bounds [of s n] by simp
qed simp

lemma valid_utf8_ascii: "list_all (\<lambda>c. byte c < 0x80) s \<Longrightarrow> valid_utf8 s"
  by (induction s) (auto simp: valid_utf8_step [OF rune_len_ascii])

text \<open>A valid string splits into valid strings at every position where a rune starts.\<close>

lemma valid_utf8_split:
  assumes "valid_utf8 s" and "m = length s \<or> m < length s \<and> rune_start (s ! m)"
  shows "valid_utf8 (take m s) \<and> valid_utf8 (drop m s)"
  using assms
proof (induction arbitrary: m rule: valid_utf8_induct)
  case (Rune s n)
  note b = rune_len_bounds [OF Rune.hyps(1)]
  consider "m = 0" | "0 < m" "m < n" | "n \<le> m" by linarith
  then show ?case
  proof cases
    case 1
    with Rune.hyps show ?thesis by (simp add: valid_utf8_step)
  next
    case 2
    with Rune.hyps Rune.prems b have False
      using rune_len_cont by (auto simp: rune_start_def)
    then show ?thesis ..
  next
    case 3
    with Rune.prems b have "m - n = length (drop n s) \<or>
        m - n < length (drop n s) \<and> rune_start (drop n s ! (m - n))"
      by auto
    then have IH: "valid_utf8 (take (m - n) (drop n s)) \<and> valid_utf8 (drop (m - n) (drop n s))"
      by (rule Rune.IH)
    have "rune_len (take m s) = Some n" using Rune.hyps(1) 3 by (rule rune_len_take)
    then show ?thesis using IH 3 by (simp add: valid_utf8_step drop_take)
  qed
qed simp

text \<open>Walking back from any position of a valid string meets a rune start within three bytes.\<close>

lemma valid_utf8_back:
  assumes "valid_utf8 s" and "m < length s"
  shows "\<exists>k\<le>3. k \<le> m \<and> rune_start (s ! (m - k)) \<and> (\<forall>j<k. cont (s ! (m - j)))"
  using assms
proof (induction arbitrary: m rule: valid_utf8_induct)
  case (Rune s n)
  note b = rune_len_bounds [OF Rune.hyps(1)]
  show ?case
  proof (cases "m < n")
    case True
    have "\<forall>j<m. cont (s ! (m - j))"
      using True rune_len_cont [OF Rune.hyps(1)] by auto
    then show ?thesis using True b rune_len_start [OF Rune.hyps(1)] by (intro exI [of _ m]) auto
  next
    case False
    with Rune.prems have "m - n < length (drop n s)" by auto
    then obtain k where "k \<le> 3" "k \<le> m - n" "rune_start (drop n s ! (m - n - k))"
      "\<forall>j<k. cont (drop n s ! (m - n - j))"
      using Rune.IH by blast
    with False Rune.prems show ?thesis by (intro exI [of _ k]) auto
  qed
qed simp

subsection \<open>Coercion to valid UTF-8\<close>

text \<open>
  Encoding a string as JSON and decoding it again replaces every byte that belongs to no
  valid rune by U+FFFD and keeps the rest.
\<close>

function to_valid :: "bytes \<Rightarrow> bytes" where
  "to_valid s = (if s = [] then [] else
     (case rune_len s of
        None \<Rightarrow> [CHR 0xEF, CHR 0xBF, CHR 0xBD] @ to_valid (tl s)
      | Some n \<Rightarrow> take n s @ to_valid (drop n s)))"
  by pat_completeness auto
termination
  by (relation "measure length") (auto dest: rune_len_bounds)

declare to_valid.simps [simp del]

lemma to_valid_id: "valid_utf8 s \<Longrightarrow> to_valid s = s"
proof (induction rule: valid_utf8_induct)
  case (Rune s n)
  then show ?case by (subst to_valid.simps) (auto dest: rune_len_bounds)
qed (simp add: to_valid.simps)

lemma replacement_rune: "rune_len ([CHR 0xEF, CHR 0xBF, CHR 0xBD] @ s) = Some 3"
  by (simp add: rune_len_Cons rune_size_def second_ok_def cont_def)

lemma to_valid_valid: "valid_utf8 (to_valid s)"
proof (induction s rule: to_valid.induct)
  case (1 s)
  show ?case
  proof (cases "s = [] \<or> rune_len s = None")
    case True
    with 1 show ?thesis
      by (subst to_valid.simps) (auto simp: valid_utf8_step [OF replacement_rune, simplified])
  next
    case False
    then obtain n where n: "rune_len s = Some n" and ne: "s \<noteq> []" by auto
    have "valid_utf8 (take n s)"
      using rune_len_take [OF n order.refl] by (simp add: valid_utf8_step)
    with 1(2) [OF ne n] n ne show ?thesis
      by (subst to_valid.simps) (simp add: valid_utf8_append)
  qed
qed

lemma to_valid_idem [simp]: "to_valid (to_valid s) = to_valid s"
  by (simp add: to_valid_id to_valid_valid)

subsection \<open>\<open>strings.TrimSpace\<close>\<close>

text \<open>The UTF-8 encodings of the runes with \<open>unicode.IsSpace\<close>.\<close>

definition space_runes :: "bytes list" where
  "space_runes =
     [[CHR 0x20], [CHR 0x09], [CHR 0x0A], [CHR 0x0B], [CHR 0x0C], [CHR 0x0D],
      [CHR 0xC2, CHR 0x85], [CHR 0xC2, CHR 0xA0], [CHR 0xE1, CHR 0x9A, CHR 0x80]]
     @ map (\<lambda>c. [CHR 0xE2, CHR 0x80, c])
         [CHR 0x80, CHR 0x81, CHR 0x82, CHR 0x83, CHR 0x84, CHR 0x85, CHR 0x86, CHR 0x87,
          CHR 0x88, CHR 0x89, CHR 0x8A, CHR 0xA8, CHR 0xA9, CHR 0xAF]
     @ [[CHR 0xE2, CHR 0x81, CHR 0x9F], [CHR 0xE3, CHR 0x80, CHR 0x80]]"

function strip_all :: "bytes list \<Rightarrow> bytes \<Rightarrow> bytes" where
  "strip_all ps s =
     (case find (\<lambda>p. p \<noteq> [] \<and> take (length p) s = p) ps of
        None \<Rightarrow> s
      | Some p \<Rightarrow> strip_all ps (drop (length p) s))"
  by pat_completeness auto
termination
proof (relation "measure (\<lambda>(ps, s). length s)")
  fix ps :: "bytes list" and s p
  assume "find (\<lambda>p. p \<noteq> [] \<and> take (length p) s = p) ps = Some p"
  then have "p \<noteq> []" and "take (length p) s = p"
    by (auto simp: find_Some_iff)
  then have "0 < length p" and "length p \<le> length s"
    by (simp, metis length_take min.cobounded1)
  then have "length s - length p < length s" by linarith
  then show "((ps, drop (length p) s), ps, s) \<in> measure (\<lambda>(ps, s). length s)" by simp
qed simp

declare strip_all.simps [simp del]

definition TrimSpace :: "bytes \<Rightarrow> bytes" where
  "TrimSpace s = rev (strip_all (map rev space_runes) (rev (strip_all space_runes s)))"

text \<open>Trimming removes a prefix and a suffix and nothing else.\<close>

lemma strip_all_suffix: "\<exists>p. s = p @ strip_all ps s"
proof (induction ps s rule: strip_all.induct)
  case (1 ps s)
  show ?case
  proof (cases "find (\<lambda>p. p \<noteq> [] \<and> take (length p) s = p) ps")
    case None
    then show ?thesis by (subst strip_all.simps) simp
  next
    case (Some p)
    from "1" [OF Some] obtain q where q: "drop (length p) s = q @ strip_all ps (drop (length p) s)"
      by blast
    have "s = take (length p) s @ q @ strip_all ps (drop (length p) s)"
      using q by (metis append_take_drop_id)
    with Some show ?thesis by (subst strip_all.simps) (auto intro!: exI [of _ "take (length p) s @ q"])
  qed
qed

lemma TrimSpace_infix: "\<exists>p q. s = p @ TrimSpace s @ q"
proof -
  obtain p where p: "s = p @ strip_all space_runes s" using strip_all_suffix by blast
  obtain q where "rev (strip_all space_runes s) = q @ rev (TrimSpace s)"
    using strip_all_suffix [of "rev (strip_all space_runes s)" "map rev space_runes"]
    by (auto simp: TrimSpace_def)
  then have "strip_all space_runes s = TrimSpace s @ rev q"
    by (metis rev_append rev_rev_ident)
  with p show ?thesis by metis
qed

lemma TrimSpace_length: "length (TrimSpace s) \<le> length s"
  using TrimSpace_infix [of s] by (metis length_append le_add2 le_add1 order_trans)

end
