(* ===== verification/Json.thy ===== *)
theory Json
  imports Utf8
begin

text \<open>
  The text that Go's \<open>encoding/json\<close> writes: decimal integers, escaped strings, arrays and
  objects in declaration order with no white space. Component theories describe each struct
  as a \<open>json\<close> value (field order and \<open>omitempty\<close> as in its tags) and obtain the bytes of
  \<open>json.Marshal\<close> from \<open>json_text\<close>; the size bounds of the service are bounds on the length
  of that text.
\<close>

subsection \<open>Decimal numerals\<close>

definition digit :: "nat \<Rightarrow> char" where
  "digit d = char_of (48 + d)"

fun dec_nat :: "nat \<Rightarrow> bytes" where
  "dec_nat n = (if n < 10 then [digit n] else dec_nat (n div 10) @ [digit (n mod 10)])"

declare dec_nat.simps [simp del]

definition dec_int :: "int \<Rightarrow> bytes" where
  "dec_int i = (if i < 0 then CHR ''-'' # dec_nat (nat (- i)) else dec_nat (nat i))"

lemma byte_digit: "d < 10 \<Longrightarrow> byte (digit d) = 48 + d"
  by (simp add: digit_def)

lemma dec_nat_small: "n < 10 \<Longrightarrow> dec_nat n = [digit n]"
  by (simp add: dec_nat.simps)

lemma dec_nat_nonempty [simp]: "dec_nat n \<noteq> []"
  by (subst dec_nat.simps) simp

lemma dec_nat_length: "n < 10 ^ k \<Longrightarrow> 0 < k \<Longrightarrow> length (dec_nat n) \<le> k"
proof (induction n arbitrary: k rule: dec_nat.induct)
  case (1 n)
  show ?case
  proof (cases "n < 10")
    case True
    with "1.prems" show ?thesis by (simp add: dec_nat_small)
  next
    case False
    with "1.prems" obtain j where k: "k = Suc j" "0 < j"
      by (cases k; cases "k - 1") auto
    with "1.prems" have "n div 10 < 10 ^ j" by (simp add: less_mult_imp_div_less mult.commute)
    with "1.IH" [OF False, of j] k have "length (dec_nat (n div 10)) \<le> j" by simp
    with False k show ?thesis by (subst dec_nat.simps) simp
  qed
qed

lemma dec_nat_digits: "c \<in> set (dec_nat n) \<Longrightarrow> \<exists>d<10. c = digit d"
proof (induction n rule: dec_nat.induct)
  case (1 n)
  then show ?case
    by (subst (asm) (2) dec_nat.simps) (auto split: if_splits intro: exI [of _ n] exI [of _ "n mod 10"])
qed

text \<open>A canonical numeral has no leading zero.\<close>

lemma dec_nat_hd: "1 < length (dec_nat n) \<Longrightarrow> hd (dec_nat n) \<noteq> digit 0"
proof (induction n rule: dec_nat.induct)
  case (1 n)
  show ?case
  proof (cases "n < 10")
    case True
    with "1.prems" show ?thesis by (simp add: dec_nat_small)
  next
    case False
    then have e: "dec_nat n = dec_nat (n div 10) @ [digit (n mod 10)]"
      by (subst dec_nat.simps) simp
    show ?thesis
    proof (cases "1 < length (dec_nat (n div 10))")
      case True
      with "1.IH" [OF False] e show ?thesis by simp
    next
      case small: False
      then have "n div 10 < 10"
      proof (rule contrapos_np)
        assume "\<not> n div 10 < 10"
        then show "1 < length (dec_nat (n div 10))"
          by (subst dec_nat.simps) (simp add: Suc_le_eq)
      qed
      with False e show ?thesis by (simp add: dec_nat_small digit_def)
    qed
  qed
qed

text \<open>The value of a decimal numeral, and that canonical numerals and numbers correspond.\<close>

definition is_digit :: "char \<Rightarrow> bool" where
  "is_digit c = (48 \<le> byte c \<and> byte c \<le> 57)"

definition dec_val :: "bytes \<Rightarrow> nat" where
  "dec_val s = foldl (\<lambda>v c. v * 10 + (byte c - 48)) 0 s"

lemma dec_val_simps [simp]:
  "dec_val [] = 0" "dec_val (s @ [c]) = dec_val s * 10 + (byte c - 48)"
  by (simp_all add: dec_val_def)

lemma is_digit_digit: "d < 10 \<Longrightarrow> is_digit (digit d)"
  by (simp add: is_digit_def byte_digit)

lemma digit_of_digit: "is_digit c \<Longrightarrow> digit (byte c - 48) = c"
  by (simp add: digit_def is_digit_def)

lemma dec_nat_is_digit: "list_all is_digit (dec_nat n)"
  using dec_nat_digits is_digit_digit by (fastforce simp: list_all_iff)

lemma dec_val_dec_nat [simp]: "dec_val (dec_nat n) = n"
proof (induction n rule: dec_nat.induct)
  case (1 n)
  show ?case
  proof (cases "n < 10")
    case True
    then show ?thesis using dec_val_simps(2) [of "[]" "digit n"]
      by (simp add: dec_nat_small byte_digit)
  next
    case False
    with 1 show ?thesis by (subst dec_nat.simps) (simp add: byte_digit)
  qed
qed

lemma dec_val_pos: "list_all is_digit s \<Longrightarrow> s \<noteq> [] \<Longrightarrow> hd s \<noteq> digit 0 \<Longrightarrow> 0 < dec_val s"
proof (induction s rule: rev_induct)
  case (snoc c s)
  show ?case
  proof (cases "s = []")
    case True
    with snoc.prems have "byte c \<noteq> 48" using digit_of_digit [of c] by auto
    with True snoc.prems show ?thesis using dec_val_simps(2) [of "[]" c] by (simp add: is_digit_def)
  next
    case False
    with snoc show ?thesis by simp
  qed
qed simp

lemma dec_nat_dec_val:
  "list_all is_digit s \<Longrightarrow> s \<noteq> [] \<Longrightarrow> (1 < length s \<longrightarrow> hd s \<noteq> digit 0) \<Longrightarrow> dec_nat (dec_val s) = s"
proof (induction s rule: rev_induct)
  case (snoc c s)
  then have c: "byte c - 48 < 10" "digit (byte c - 48) = c"
    by (auto simp: is_digit_def digit_of_digit)
  show ?case
  proof (cases "s = []")
    case True
    with c show ?thesis using dec_val_simps(2) [of "[]" c] by (simp add: dec_nat_small)
  next
    case False
    with snoc have "dec_nat (dec_val s) = s" and "0 < dec_val s"
      by (auto intro!: dec_val_pos simp: Suc_le_eq)
    with c show ?thesis by (subst dec_nat.simps) simp
  qed
qed simp

lemma dec_val_Cons: "foldl (\<lambda>v c. v * 10 + (byte c - 48)) m s = m * 10 ^ length s + dec_val s"
proof (induction s arbitrary: m rule: rev_induct)
  case (snoc c s)
  then show ?case by (simp add: add_mult_distrib)
qed simp

lemma digit_0: "digit 0 = CHR ''0''"
  by code_simp

subsection \<open>Strings\<close>

definition hex_digit :: "nat \<Rightarrow> char" where
  "hex_digit d = (if d < 10 then char_of (48 + d) else char_of (87 + d))"

text \<open>\<open>hex.EncodeToString\<close>.\<close>

definition hex_byte :: "char \<Rightarrow> bytes" where
  "hex_byte c = [hex_digit (byte c div 16), hex_digit (byte c mod 16)]"

definition hex_encode :: "bytes \<Rightarrow> bytes" where
  "hex_encode s = concat (map hex_byte s)"

lemma hex_encode_length [simp]: "length (hex_encode s) = 2 * length s"
  by (induction s) (auto simp: hex_encode_def hex_byte_def)

text \<open>The escapes of a single ASCII byte, as \<open>json.Marshal\<close> writes them.\<close>

definition esc_ascii :: "char \<Rightarrow> bytes" where
  "esc_ascii c =
     (let x = byte c in
      if x = 0x22 \<or> x = 0x5C then [CHR 0x5C, c]
      else if x = 0x08 then [CHR 0x5C, CHR ''b'']
      else if x = 0x0C then [CHR 0x5C, CHR ''f'']
      else if x = 0x0A then [CHR 0x5C, CHR ''n'']
      else if x = 0x0D then [CHR 0x5C, CHR ''r'']
      else if x = 0x09 then [CHR 0x5C, CHR ''t'']
      else if x < 0x20 \<or> x = 0x3C \<or> x = 0x3E \<or> x = 0x26
        then [CHR 0x5C, CHR ''u'', CHR ''0'', CHR ''0''] @ hex_byte c
      else [c])"

function escape :: "bytes \<Rightarrow> bytes" where
  "escape s = (if s = [] then [] else
     (case rune_len s of
        None \<Rightarrow> CHR 0x5C # ''ufffd'' @ escape (tl s)
      | Some n \<Rightarrow>
          (if n = 1 then esc_ascii (hd s)
           else if take n s = [CHR 0xE2, CHR 0x80, CHR 0xA8] then CHR 0x5C # ''u2028''
           else if take n s = [CHR 0xE2, CHR 0x80, CHR 0xA9] then CHR 0x5C # ''u2029''
           else take n s) @ escape (drop n s)))"
  by pat_completeness auto
termination
  by (relation "measure length") (auto dest: rune_len_bounds)

declare escape.simps [simp del]

lemma escape_Nil [simp]: "escape [] = []"
  by (simp add: escape.simps)

definition json_string :: "bytes \<Rightarrow> bytes" where
  "json_string s = CHR 0x22 # escape s @ [CHR 0x22]"

lemma esc_ascii_length: "length (esc_ascii c) \<le> 6"
  by (simp add: esc_ascii_def hex_byte_def Let_def)

text \<open>No byte of a string takes more than six bytes in JSON.\<close>

lemma escape_length: "length (escape s) \<le> 6 * length s"
proof (induction s rule: escape.induct)
  case (1 s)
  show ?case
  proof (cases s)
    case Nil
    then show ?thesis by simp
  next
    case (Cons b bs)
    show ?thesis
    proof (cases "rune_len s")
      case None
      with 1(1) Cons show ?thesis by (subst escape.simps) simp
    next
      case (Some n)
      note b = rune_len_bounds [OF Some]
      define h where "h = (if n = 1 then esc_ascii (hd s)
           else if take n s = [CHR 0xE2, CHR 0x80, CHR 0xA8] then CHR 0x5C # ''u2028''
           else if take n s = [CHR 0xE2, CHR 0x80, CHR 0xA9] then CHR 0x5C # ''u2029''
           else take n s)"
      have "length h \<le> 6 * n" using b esc_ascii_length [of "hd s"] by (auto simp: h_def)
      moreover have "length (escape (drop n s)) \<le> 6 * (length s - n)"
        using 1(2) [OF _ Some] Cons by simp
      moreover have "escape s = h @ escape (drop n s)"
        using Some Cons by (subst escape.simps) (simp add: h_def)
      ultimately have "length (escape s) \<le> 6 * n + 6 * (length s - n)" by simp
      then show ?thesis using b by linarith
    qed
  qed
qed

lemma json_string_length: "length (json_string s) \<le> 6 * length s + 2"
  using escape_length [of s] by (simp add: json_string_def)

text \<open>Bytes that JSON writes as they are: ASCII identifiers, digits, hexadecimal.\<close>

definition plain_byte :: "char \<Rightarrow> bool" where
  "plain_byte c = (0x20 \<le> byte c \<and> byte c < 0x80 \<and> byte c \<notin> {0x22, 0x5C, 0x3C, 0x3E, 0x26})"

lemma escape_plain: "list_all plain_byte s \<Longrightarrow> escape s = s"
proof (induction s)
  case (Cons c s)
  then have "rune_len (c # s) = Some 1"
    by (intro rune_len_ascii) (simp add: plain_byte_def)
  moreover from Cons have "esc_ascii c = [c]"
    by (auto simp: plain_byte_def esc_ascii_def Let_def)
  ultimately show ?case using Cons by (subst escape.simps) simp
qed simp

lemma json_string_plain: "list_all plain_byte s \<Longrightarrow> length (json_string s) = length s + 2"
  by (simp add: json_string_def escape_plain)

subsection \<open>Values\<close>

datatype json =
    JNull
  | JBool bool
  | JNum bytes
  | JStr bytes
  | JArr "json list"
  | JObj "(bytes \<times> json) list"

fun commas :: "bytes list \<Rightarrow> bytes" where
  "commas [] = []"
| "commas [x] = x"
| "commas (x # y # xs) = x @ CHR '','' # commas (y # xs)"

fun json_text :: "json \<Rightarrow> bytes" where
  "json_text JNull = ''null''"
| "json_text (JBool b) = (if b then ''true'' else ''false'')"
| "json_text (JNum t) = t"
| "json_text (JStr s) = json_string s"
| "json_text (JArr vs) = CHR ''['' # commas (map json_text vs) @ '']''"
| "json_text (JObj fs) =
     CHR 0x7B # commas (map (\<lambda>kv. json_string (fst kv) @ CHR '':'' # json_text (snd kv)) fs)
       @ [CHR 0x7D]"

abbreviation JInt :: "int \<Rightarrow> json" where
  "JInt i \<equiv> JNum (dec_int i)"

text \<open>Fields with \<open>omitempty\<close>: a nil pointer, an empty string or an empty slice is left out.\<close>

definition opt_field :: "bytes \<Rightarrow> ('a \<Rightarrow> json) \<Rightarrow> 'a option \<Rightarrow> (bytes \<times> json) list" where
  "opt_field k f x = (case x of None \<Rightarrow> [] | Some v \<Rightarrow> [(k, f v)])"

definition str_field :: "bytes \<Rightarrow> bytes \<Rightarrow> (bytes \<times> json) list" where
  "str_field k s = (if s = [] then [] else [(k, JStr s)])"

lemma opt_field_simps [simp]: "opt_field k f None = []" "opt_field k f (Some v) = [(k, f v)]"
  by (simp_all add: opt_field_def)

text \<open>
  Lengths are additive up to separators: \<open>field_size\<close> counts a member with one comma, so an
  object's text is bounded by the sum of its members.
\<close>

definition field_size :: "bytes \<times> json \<Rightarrow> nat" where
  "field_size kv = length (json_string (fst kv)) + length (json_text (snd kv)) + 2"

definition fields_size :: "(bytes \<times> json) list \<Rightarrow> nat" where
  "fields_size fs = sum_list (map field_size fs)"

lemma fields_size_simps [simp]:
  "fields_size [] = 0"
  "fields_size (f # fs) = field_size f + fields_size fs"
  "fields_size (fs @ gs) = fields_size fs + fields_size gs"
  by (simp_all add: fields_size_def)

lemma commas_length: "length (commas xs) = sum_list (map length xs) + (length xs - 1)"
  by (induction xs rule: commas.induct) auto

lemma fields_size_alt:
  "fields_size fs = sum_list (map (\<lambda>kv. length (json_string (fst kv) @ CHR '':'' # json_text (snd kv))) fs)
     + length fs"
  by (induction fs) (auto simp: field_size_def)

lemma json_text_obj_length:
  "length (json_text (JObj fs)) = fields_size fs + 2 - (if fs = [] then 0 else 1)"
  by (cases fs) (simp_all add: commas_length fields_size_alt comp_def)

lemma json_text_obj_append:
  "gs \<noteq> [] \<Longrightarrow> length (json_text (JObj (fs @ gs))) = fields_size fs + length (json_text (JObj gs))"
proof -
  assume "gs \<noteq> []"
  then have "0 < fields_size gs" by (cases gs) (auto simp: field_size_def)
  with \<open>gs \<noteq> []\<close> show ?thesis by (simp add: json_text_obj_length del: json_text.simps)
qed

text \<open>An upper bound on the length of a text, computed from the value alone.\<close>

fun json_bound :: "json \<Rightarrow> nat" where
  "json_bound JNull = 4"
| "json_bound (JBool b) = 5"
| "json_bound (JNum t) = length t"
| "json_bound (JStr s) = 6 * length s + 2"
| "json_bound (JArr vs) = 2 + sum_list (map (\<lambda>v. Suc (json_bound v)) vs)"
| "json_bound (JObj fs) = 2 + sum_list (map (\<lambda>kv. 6 * length (fst kv) + 4 + json_bound (snd kv)) fs)"

lemma json_bound: "length (json_text v) \<le> json_bound v"
proof (induction v)
  case (JStr s)
  then show ?case using json_string_length [of s] by simp
next
  case (JArr vs)
  have "sum_list (map (length \<circ> json_text) vs) + (length vs - 1) \<le> sum_list (map (\<lambda>v. Suc (json_bound v)) vs)"
    using JArr by (induction vs) (auto, fastforce)
  then show ?case by (simp add: commas_length comp_def)
next
  case (JObj fs)
  have "fields_size fs \<le> sum_list (map (\<lambda>kv. 6 * length (fst kv) + 4 + json_bound (snd kv)) fs)"
  proof -
    have "field_size kv \<le> 6 * length (fst kv) + 4 + json_bound (snd kv)" if "kv \<in> set fs" for kv
      using JObj that json_string_length [of "fst kv"] by (cases kv) (fastforce simp: field_size_def)
    then show ?thesis unfolding fields_size_def by (rule sum_list_mono)
  qed
  then show ?case using json_text_obj_length [of fs] by (simp del: json_text.simps split: if_splits)
qed simp_all

end
