(* ===== verification/Contract.thy ===== *)
theory Contract
  imports Json
begin

text \<open>
  The data contract of \<open>internal/core\<close>: the types of \<open>errors.go\<close>, \<open>jobs.go\<close>, \<open>events.go\<close>
  and \<open>ports.go\<close>, with the JSON value of each (field order, names and \<open>omitempty\<close> from the
  struct tags) and the deep copy \<open>Clone\<close> of \<open>state.go\<close>.

  A Go string type with named constants is a datatype with one constructor per constant and
  one for any other string. \<open>int\<close> and \<open>int64\<close> fields, which the core only compares, are
  \<open>int\<close>; event sequences are \<open>64 word\<close>. An instant is its number of nanoseconds since Go's
  zero time; a \<open>float64\<close> is its IEEE 754 bit pattern.

  What the Go runtime and standard library supply from outside the program is the record
  \<open>host\<close>: the clock (the \<open>n\<close>-th call of \<open>time.Now\<close>), the random source (the \<open>n\<close>-th read of
  16 bytes), SHA-256, and the text of floats and instants with its parsers.
\<close>

unbundle bit_operations_syntax

type_synonym time = int
type_synonym f64 = "64 word"
type_synonym JobID = bytes

record host =
  h_now :: "nat \<Rightarrow> time"
  h_rand :: "nat \<Rightarrow> bytes option"
  h_sha :: "bytes \<Rightarrow> bytes"
  h_float :: "f64 \<Rightarrow> bytes"
  h_time :: "time \<Rightarrow> bytes"
  h_unfloat :: "bytes \<Rightarrow> f64 option"
  h_untime :: "bytes \<Rightarrow> time option"

text \<open>NaN and the infinities have all exponent bits set; only they and years outside 0 to 9999
  make \<open>json.Marshal\<close> fail on the contract types.\<close>

definition f64_special :: "f64 \<Rightarrow> bool" where
  "f64_special x = (drop_bit 52 x AND 0x7FF = 0x7FF)"

definition f64_negative :: "f64 \<Rightarrow> bool" where
  "f64_negative x = (0x8000000000000000 < x)"

definition time_encodable :: "time \<Rightarrow> bool" where
  "time_encodable t = (- 31622400000000000 \<le> t \<and> t < 315537897600000000000)"

subsection \<open>Errors (\<open>errors.go\<close>)\<close>

datatype ErrorCode =
    ErrInvalidRequest | ErrNotFound | ErrConflict | ErrQueueFull | ErrLimitExceeded
  | ErrUnsupported | ErrBackendUnavailable | ErrBackendFailure | ErrCancelled | ErrInterrupted
  | ErrCursorExpired | ErrCursorInvalid | ErrSlowConsumer | ErrStorage | ErrUnavailable
  | ErrInternal | OtherCode bytes

fun code_str :: "ErrorCode \<Rightarrow> bytes" where
  "code_str ErrInvalidRequest = ''invalid_request''"
| "code_str ErrNotFound = ''not_found''"
| "code_str ErrConflict = ''conflict''"
| "code_str ErrQueueFull = ''queue_full''"
| "code_str ErrLimitExceeded = ''limit_exceeded''"
| "code_str ErrUnsupported = ''unsupported''"
| "code_str ErrBackendUnavailable = ''backend_unavailable''"
| "code_str ErrBackendFailure = ''backend_failure''"
| "code_str ErrCancelled = ''cancelled''"
| "code_str ErrInterrupted = ''interrupted''"
| "code_str ErrCursorExpired = ''cursor_expired''"
| "code_str ErrCursorInvalid = ''cursor_invalid''"
| "code_str ErrSlowConsumer = ''slow_consumer''"
| "code_str ErrStorage = ''storage_failure''"
| "code_str ErrUnavailable = ''unavailable''"
| "code_str ErrInternal = ''internal''"
| "code_str (OtherCode s) = s"

record Fault =
  ft_Code :: ErrorCode
  ft_Message :: bytes
  ft_Retryable :: bool
  ft_Details :: "(bytes \<times> bytes) list"

definition fault :: "ErrorCode \<Rightarrow> bytes \<Rightarrow> Fault" where
  "fault c m = \<lparr>ft_Code = c, ft_Message = m, ft_Retryable = False, ft_Details = []\<rparr>"

text \<open>
  A Go \<open>error\<close> value: a fault, a nil \<open>*Fault\<close>, a context error, end of stream, some other
  error, an error wrapping another one; and a panic, which no caller sees as a value.
\<close>

datatype goerr =
    FaultErr Fault | NilFault | Canceled | DeadlineExceeded | EOF | OtherErr bytes
  | Wrapped bytes goerr | Panicked

text \<open>\<open>errors.As(err, &f)\<close> for \<open>f *Fault\<close>: \<open>None\<close> is false, \<open>Some None\<close> a nil pointer.\<close>

fun errors_as :: "goerr \<Rightarrow> Fault option option" where
  "errors_as (FaultErr f) = Some (Some f)"
| "errors_as NilFault = Some None"
| "errors_as (Wrapped _ e) = errors_as e"
| "errors_as _ = None"

subsection \<open>Jobs (\<open>jobs.go\<close>)\<close>

datatype JobState =
    JobQueued | JobRunning | JobCancelling | JobSucceeded | JobFailed | JobCancelled
  | JobInterrupted | OtherState bytes

fun state_str :: "JobState \<Rightarrow> bytes" where
  "state_str JobQueued = ''queued''"
| "state_str JobRunning = ''running''"
| "state_str JobCancelling = ''cancelling''"
| "state_str JobSucceeded = ''succeeded''"
| "state_str JobFailed = ''failed''"
| "state_str JobCancelled = ''cancelled''"
| "state_str JobInterrupted = ''interrupted''"
| "state_str (OtherState s) = s"

record GenerationOptions =
  op_ContextTokens :: "int option"
  op_MaxOutputTokens :: int
  op_Temperature :: "f64 option"
  op_Seed :: "int option"

record Request =
  rq_Model :: bytes
  rq_Role :: bytes
  rq_SystemPrompt :: bytes
  rq_Prompt :: bytes
  rq_Options :: GenerationOptions

datatype MessageRole = MessageUser | MessageAssistant | OtherRole bytes

fun role_str :: "MessageRole \<Rightarrow> bytes" where
  "role_str MessageUser = ''user''"
| "role_str MessageAssistant = ''assistant''"
| "role_str (OtherRole s) = s"

record Message =
  ms_Role :: MessageRole
  ms_Content :: bytes

record Instructions =
  in_System :: bytes
  in_History :: "Message list"
  in_Prompt :: bytes

datatype Relation = RelationRetry | RelationBranch | OtherRelation bytes

fun relation_str :: "Relation \<Rightarrow> bytes" where
  "relation_str RelationRetry = ''retry''"
| "relation_str RelationBranch = ''branch''"
| "relation_str (OtherRelation s) = s"

record Lineage =
  ln_ParentID :: JobID
  ln_Relation :: Relation

record Usage =
  us_InputTokens :: "int option"
  us_OutputTokens :: "int option"
  us_TotalDurationNS :: "int option"
  us_LoadDurationNS :: "int option"
  us_GenerateDurationNS :: "int option"

record TokenEstimate =
  te_Tokens :: int
  te_Method :: bytes
  te_Exact :: bool

record ContextObservation =
  co_Tokens :: int
  co_Model :: bytes
  co_Source :: bytes
  co_ObservedAt :: time

record ContextInfo =
  ci_ModelCapacityTokens :: "int option"
  ci_ModelCapacitySource :: bytes
  ci_ModelCapacityObservedAt :: "time option"
  ci_RequestedTokens :: "int option"
  ci_Loaded :: "ContextObservation option"
  ci_InputEstimate :: "TokenEstimate option"
  ci_ReservedOutputTokens :: int

record Result =
  rs_Text :: bytes
  rs_FinishReason :: bytes
  rs_EffectiveModel :: bytes
  rs_EffectiveOptions :: "GenerationOptions option"
  rs_Context :: ContextInfo
  rs_Usage :: Usage

record Job =
  jb_ID :: JobID
  jb_State :: JobState
  jb_Request :: Request
  jb_Instructions :: Instructions
  jb_Origin :: bytes
  jb_Lineage :: "Lineage option"
  jb_CreatedAt :: time
  jb_StartedAt :: "time option"
  jb_FinishedAt :: "time option"
  jb_Result :: Result
  jb_Error :: "Fault option"

text \<open>The zero values \<open>Result{}\<close> and \<open>Request{}\<close>.\<close>

definition zero_ContextInfo :: ContextInfo where
  "zero_ContextInfo = \<lparr>ci_ModelCapacityTokens = None, ci_ModelCapacitySource = [],
     ci_ModelCapacityObservedAt = None, ci_RequestedTokens = None, ci_Loaded = None,
     ci_InputEstimate = None, ci_ReservedOutputTokens = 0\<rparr>"

definition zero_Usage :: Usage where
  "zero_Usage = \<lparr>us_InputTokens = None, us_OutputTokens = None, us_TotalDurationNS = None,
     us_LoadDurationNS = None, us_GenerateDurationNS = None\<rparr>"

definition zero_Result :: Result where
  "zero_Result = \<lparr>rs_Text = [], rs_FinishReason = [], rs_EffectiveModel = [],
     rs_EffectiveOptions = None, rs_Context = zero_ContextInfo, rs_Usage = zero_Usage\<rparr>"

definition zero_Request :: Request where
  "zero_Request = \<lparr>rq_Model = [], rq_Role = [], rq_SystemPrompt = [], rq_Prompt = [],
     rq_Options = \<lparr>op_ContextTokens = None, op_MaxOutputTokens = 0, op_Temperature = None,
       op_Seed = None\<rparr>\<rparr>"

subsection \<open>Events (\<open>events.go\<close>)\<close>

record Cursor =
  cu_StoreID :: bytes
  cu_Sequence :: "64 word"

datatype EventKind =
    EventJobAccepted | EventJobState | EventJobOutput | EventJobResult | EventQueueState
  | OtherEvent bytes

fun kind_str :: "EventKind \<Rightarrow> bytes" where
  "kind_str EventJobAccepted = ''job.accepted''"
| "kind_str EventJobState = ''job.state''"
| "kind_str EventJobOutput = ''job.output''"
| "kind_str EventJobResult = ''job.result''"
| "kind_str EventQueueState = ''queue.state''"
| "kind_str (OtherEvent s) = s"

record OutputDelta =
  od_OffsetBytes :: int
  od_Text :: bytes

text \<open>\<open>Pending\<close> is a Go slice: \<open>None\<close> is the nil slice, which JSON writes as \<open>null\<close>.\<close>

record QueueState =
  qs_Paused :: bool
  qs_Pending :: "JobID list option"
  qs_Active :: "JobID option"
  qs_MaxPending :: int

definition pending_ids :: "QueueState \<Rightarrow> JobID list" where
  "pending_ids q = (case qs_Pending q of None \<Rightarrow> [] | Some ids \<Rightarrow> ids)"

record Event =
  ev_Cursor :: Cursor
  ev_At :: time
  ev_Kind :: EventKind
  ev_JobID :: JobID
  ev_Job :: "Job option"
  ev_Output :: "OutputDelta option"
  ev_Queue :: "QueueState option"

record Snapshot =
  sn_Cursor :: Cursor
  sn_Queue :: QueueState
  sn_Jobs :: "Job list"

subsection \<open>Commands and commits (\<open>ports.go\<close>)\<close>

record Capabilities =
  cp_TextGeneration :: bool
  cp_Streaming :: bool
  cp_Cancellation :: bool
  cp_ContextRequest :: bool
  cp_LoadedContext :: bool
  cp_ExactPauseResume :: bool
  cp_Checkpoints :: bool

record Model =
  md_ID :: bytes
  md_Capabilities :: Capabilities
  md_Context :: ContextInfo

record InferenceInput =
  ii_Request :: Request
  ii_Instructions :: Instructions

record SubmitCommand =
  sc_Key :: bytes
  sc_Origin :: bytes
  sc_Request :: Request

record RetryCommand =
  rt_Key :: bytes
  rt_Origin :: bytes
  rt_ParentID :: JobID

record BranchCommand =
  bc_Key :: bytes
  bc_Origin :: bytes
  bc_ParentID :: JobID
  bc_Request :: Request

record Receipt =
  rc_Key :: bytes
  rc_Digest :: bytes
  rc_JobID :: JobID

record Commit =
  cm_Version :: int
  cm_Events :: "Event list"
  cm_Receipt :: "Receipt option"

record Recovery =
  rv_Snapshot :: Snapshot
  rv_Receipts :: "Receipt list"

end
