(* ===== verification/Encoding.thy ===== *)
theory Encoding
  imports Contract
begin

text \<open>
  The JSON values of the contract types, from the struct tags of \<open>jobs.go\<close>, \<open>events.go\<close>,
  \<open>ports.go\<close> and \<open>errors.go\<close>, when \<open>json.Marshal\<close> fails on them, and \<open>Clone\<close>, the deep copy
  through JSON: it keeps every value whose strings are valid UTF-8 and coerces the others.
\<close>

subsection \<open>JSON values\<close>

definition float_json :: "host \<Rightarrow> f64 \<Rightarrow> json" where
  "float_json h x = JNum (h_float h x)"

definition time_json :: "host \<Rightarrow> time \<Rightarrow> json" where
  "time_json h t = JStr (h_time h t)"

definition options_json :: "host \<Rightarrow> GenerationOptions \<Rightarrow> json" where
  "options_json h o' = JObj (
     opt_field ''context_tokens'' JInt (op_ContextTokens o') @
     [(''max_output_tokens'', JInt (op_MaxOutputTokens o'))] @
     opt_field ''temperature'' (float_json h) (op_Temperature o') @
     opt_field ''seed'' JInt (op_Seed o'))"

definition request_json :: "host \<Rightarrow> Request \<Rightarrow> json" where
  "request_json h r = JObj (
     [(''model'', JStr (rq_Model r))] @
     str_field ''role'' (rq_Role r) @
     str_field ''system_prompt'' (rq_SystemPrompt r) @
     [(''prompt'', JStr (rq_Prompt r)), (''options'', options_json h (rq_Options r))])"

definition message_json :: "Message \<Rightarrow> json" where
  "message_json m = JObj [(''role'', JStr (role_str (ms_Role m))), (''content'', JStr (ms_Content m))]"

definition instructions_json :: "Instructions \<Rightarrow> json" where
  "instructions_json i = JObj (
     [(''system'', JStr (in_System i))] @
     (if in_History i = [] then [] else [(''history'', JArr (map message_json (in_History i)))]) @
     [(''prompt'', JStr (in_Prompt i))])"

definition lineage_json :: "Lineage \<Rightarrow> json" where
  "lineage_json l = JObj [(''parent_id'', JStr (ln_ParentID l)),
     (''relation'', JStr (relation_str (ln_Relation l)))]"

definition usage_json :: "Usage \<Rightarrow> json" where
  "usage_json u = JObj (
     opt_field ''input_tokens'' JInt (us_InputTokens u) @
     opt_field ''output_tokens'' JInt (us_OutputTokens u) @
     opt_field ''total_duration_ns'' JInt (us_TotalDurationNS u) @
     opt_field ''load_duration_ns'' JInt (us_LoadDurationNS u) @
     opt_field ''generate_duration_ns'' JInt (us_GenerateDurationNS u))"

definition estimate_json :: "TokenEstimate \<Rightarrow> json" where
  "estimate_json e = JObj [(''tokens'', JInt (te_Tokens e)), (''method'', JStr (te_Method e)),
     (''exact'', JBool (te_Exact e))]"

definition observation_json :: "host \<Rightarrow> ContextObservation \<Rightarrow> json" where
  "observation_json h c = JObj [(''tokens'', JInt (co_Tokens c)), (''model'', JStr (co_Model c)),
     (''source'', JStr (co_Source c)), (''observed_at'', time_json h (co_ObservedAt c))]"

definition context_json :: "host \<Rightarrow> ContextInfo \<Rightarrow> json" where
  "context_json h c = JObj (
     opt_field ''model_capacity_tokens'' JInt (ci_ModelCapacityTokens c) @
     str_field ''model_capacity_source'' (ci_ModelCapacitySource c) @
     opt_field ''model_capacity_observed_at'' (time_json h) (ci_ModelCapacityObservedAt c) @
     opt_field ''requested_tokens'' JInt (ci_RequestedTokens c) @
     opt_field ''loaded'' (observation_json h) (ci_Loaded c) @
     opt_field ''input_estimate'' estimate_json (ci_InputEstimate c) @
     [(''reserved_output_tokens'', JInt (ci_ReservedOutputTokens c))])"

definition result_json :: "host \<Rightarrow> Result \<Rightarrow> json" where
  "result_json h r = JObj (
     [(''text'', JStr (rs_Text r))] @
     str_field ''finish_reason'' (rs_FinishReason r) @
     str_field ''effective_model'' (rs_EffectiveModel r) @
     opt_field ''effective_options'' (options_json h) (rs_EffectiveOptions r) @
     [(''context'', context_json h (rs_Context r)), (''usage'', usage_json (rs_Usage r))])"

definition fault_json :: "Fault \<Rightarrow> json" where
  "fault_json f = JObj (
     [(''code'', JStr (code_str (ft_Code f))), (''message'', JStr (ft_Message f)),
      (''retryable'', JBool (ft_Retryable f))] @
     (if ft_Details f = [] then []
      else [(''details'', JObj (map (\<lambda>(k, v). (k, JStr v)) (ft_Details f)))]))"

definition job_json :: "host \<Rightarrow> Job \<Rightarrow> json" where
  "job_json h j = JObj (
     [(''id'', JStr (jb_ID j)), (''state'', JStr (state_str (jb_State j))),
      (''request'', request_json h (jb_Request j)),
      (''instructions'', instructions_json (jb_Instructions j))] @
     str_field ''origin'' (jb_Origin j) @
     opt_field ''lineage'' lineage_json (jb_Lineage j) @
     [(''created_at'', time_json h (jb_CreatedAt j))] @
     opt_field ''started_at'' (time_json h) (jb_StartedAt j) @
     opt_field ''finished_at'' (time_json h) (jb_FinishedAt j) @
     [(''result'', result_json h (jb_Result j))] @
     opt_field ''error'' fault_json (jb_Error j))"

definition cursor_json :: "Cursor \<Rightarrow> json" where
  "cursor_json c = JObj [(''store_id'', JStr (cu_StoreID c)),
     (''sequence'', JStr (dec_nat (unat (cu_Sequence c))))]"

definition output_json :: "OutputDelta \<Rightarrow> json" where
  "output_json d = JObj [(''offset_bytes'', JInt (od_OffsetBytes d)), (''text'', JStr (od_Text d))]"

definition queue_json :: "QueueState \<Rightarrow> json" where
  "queue_json q = JObj (
     [(''paused'', JBool (qs_Paused q)),
      (''pending'', (case qs_Pending q of None \<Rightarrow> JNull | Some ids \<Rightarrow> JArr (map JStr ids)))] @
     opt_field ''active'' JStr (qs_Active q) @
     [(''max_pending'', JInt (qs_MaxPending q))])"

definition event_json :: "host \<Rightarrow> Event \<Rightarrow> json" where
  "event_json h e = JObj (
     [(''cursor'', cursor_json (ev_Cursor e)), (''at'', time_json h (ev_At e)),
      (''kind'', JStr (kind_str (ev_Kind e)))] @
     str_field ''job_id'' (ev_JobID e) @
     opt_field ''job'' (job_json h) (ev_Job e) @
     opt_field ''output'' output_json (ev_Output e) @
     opt_field ''queue'' queue_json (ev_Queue e))"

definition receipt_json :: "Receipt \<Rightarrow> json" where
  "receipt_json r = JObj [(''key'', JStr (rc_Key r)), (''digest'', JStr (rc_Digest r)),
     (''job_id'', JStr (rc_JobID r))]"

definition commit_json :: "host \<Rightarrow> Commit \<Rightarrow> json" where
  "commit_json h c = JObj (
     [(''version'', JInt (cm_Version c)), (''events'', JArr (map (event_json h) (cm_Events c)))] @
     opt_field ''receipt'' receipt_json (cm_Receipt c))"

subsection \<open>When \<open>json.Marshal\<close> fails\<close>

definition opt_all :: "('a \<Rightarrow> bool) \<Rightarrow> 'a option \<Rightarrow> bool" where
  "opt_all p x = (case x of None \<Rightarrow> True | Some v \<Rightarrow> p v)"

lemma opt_all_simps [simp]: "opt_all p None" "opt_all p (Some v) = p v"
  by (simp_all add: opt_all_def)

definition options_encodable :: "GenerationOptions \<Rightarrow> bool" where
  "options_encodable o' = opt_all (\<lambda>x. \<not> f64_special x) (op_Temperature o')"

definition result_encodable :: "Result \<Rightarrow> bool" where
  "result_encodable r =
     (opt_all options_encodable (rs_EffectiveOptions r) \<and>
      opt_all time_encodable (ci_ModelCapacityObservedAt (rs_Context r)) \<and>
      opt_all (\<lambda>c. time_encodable (co_ObservedAt c)) (ci_Loaded (rs_Context r)))"

definition job_encodable :: "Job \<Rightarrow> bool" where
  "job_encodable j =
     (options_encodable (rq_Options (jb_Request j)) \<and> time_encodable (jb_CreatedAt j) \<and>
      opt_all time_encodable (jb_StartedAt j) \<and> opt_all time_encodable (jb_FinishedAt j) \<and>
      result_encodable (jb_Result j))"

definition event_encodable :: "Event \<Rightarrow> bool" where
  "event_encodable e = (time_encodable (ev_At e) \<and> opt_all job_encodable (ev_Job e))"

definition marshal_job :: "host \<Rightarrow> Job \<Rightarrow> bytes option" where
  "marshal_job h j = (if job_encodable j then Some (json_text (job_json h j)) else None)"

definition marshal_result :: "host \<Rightarrow> Result \<Rightarrow> bytes option" where
  "marshal_result h r = (if result_encodable r then Some (json_text (result_json h r)) else None)"

definition marshal_event :: "host \<Rightarrow> Event \<Rightarrow> bytes option" where
  "marshal_event h e = (if event_encodable e then Some (json_text (event_json h e)) else None)"

definition marshal_commit :: "host \<Rightarrow> Commit \<Rightarrow> bytes option" where
  "marshal_commit h c =
     (if list_all event_encodable (cm_Events c) then Some (json_text (commit_json h c)) else None)"

text \<open>\<open>b, _ := json.Marshal(v)\<close>: the length of the text, 0 where the encoding failed.\<close>

definition text_len :: "bytes option \<Rightarrow> nat" where
  "text_len b = (case b of None \<Rightarrow> 0 | Some t \<Rightarrow> length t)"

lemma text_len_simps [simp]: "text_len None = 0" "text_len (Some t) = length t"
  by (simp_all add: text_len_def)

subsection \<open>\<open>Clone\<close>\<close>

definition clone_request :: "Request \<Rightarrow> Request" where
  "clone_request r = r\<lparr>rq_Model := to_valid (rq_Model r), rq_Role := to_valid (rq_Role r),
     rq_SystemPrompt := to_valid (rq_SystemPrompt r), rq_Prompt := to_valid (rq_Prompt r)\<rparr>"

fun clone_role :: "MessageRole \<Rightarrow> MessageRole" where
  "clone_role (OtherRole s) = OtherRole (to_valid s)"
| "clone_role r = r"

fun clone_relation :: "Relation \<Rightarrow> Relation" where
  "clone_relation (OtherRelation s) = OtherRelation (to_valid s)"
| "clone_relation r = r"

fun clone_state :: "JobState \<Rightarrow> JobState" where
  "clone_state (OtherState s) = OtherState (to_valid s)"
| "clone_state s = s"

fun clone_code :: "ErrorCode \<Rightarrow> ErrorCode" where
  "clone_code (OtherCode s) = OtherCode (to_valid s)"
| "clone_code c = c"

definition clone_message :: "Message \<Rightarrow> Message" where
  "clone_message m = m\<lparr>ms_Role := clone_role (ms_Role m), ms_Content := to_valid (ms_Content m)\<rparr>"

definition clone_instructions :: "Instructions \<Rightarrow> Instructions" where
  "clone_instructions i = \<lparr>in_System = to_valid (in_System i),
     in_History = map clone_message (in_History i), in_Prompt = to_valid (in_Prompt i)\<rparr>"

definition clone_lineage :: "Lineage \<Rightarrow> Lineage" where
  "clone_lineage l = \<lparr>ln_ParentID = to_valid (ln_ParentID l),
     ln_Relation = clone_relation (ln_Relation l)\<rparr>"

definition clone_estimate :: "TokenEstimate \<Rightarrow> TokenEstimate" where
  "clone_estimate e = e\<lparr>te_Method := to_valid (te_Method e)\<rparr>"

definition clone_observation :: "ContextObservation \<Rightarrow> ContextObservation" where
  "clone_observation c = c\<lparr>co_Model := to_valid (co_Model c), co_Source := to_valid (co_Source c)\<rparr>"

definition clone_context :: "ContextInfo \<Rightarrow> ContextInfo" where
  "clone_context c = c\<lparr>ci_ModelCapacitySource := to_valid (ci_ModelCapacitySource c),
     ci_Loaded := map_option clone_observation (ci_Loaded c),
     ci_InputEstimate := map_option clone_estimate (ci_InputEstimate c)\<rparr>"

definition clone_result :: "Result \<Rightarrow> Result" where
  "clone_result r = r\<lparr>rs_Text := to_valid (rs_Text r), rs_FinishReason := to_valid (rs_FinishReason r),
     rs_EffectiveModel := to_valid (rs_EffectiveModel r), rs_Context := clone_context (rs_Context r)\<rparr>"

definition clone_fault :: "Fault \<Rightarrow> Fault" where
  "clone_fault f = f\<lparr>ft_Code := clone_code (ft_Code f), ft_Message := to_valid (ft_Message f),
     ft_Details := map (map_prod to_valid to_valid) (ft_Details f)\<rparr>"

definition clone_job :: "Job \<Rightarrow> Job" where
  "clone_job j = j\<lparr>jb_ID := to_valid (jb_ID j), jb_State := clone_state (jb_State j),
     jb_Request := clone_request (jb_Request j),
     jb_Instructions := clone_instructions (jb_Instructions j),
     jb_Origin := to_valid (jb_Origin j), jb_Lineage := map_option clone_lineage (jb_Lineage j),
     jb_Result := clone_result (jb_Result j), jb_Error := map_option clone_fault (jb_Error j)\<rparr>"

definition clone_queue :: "QueueState \<Rightarrow> QueueState" where
  "clone_queue q = q\<lparr>qs_Pending := map_option (map to_valid) (qs_Pending q),
     qs_Active := map_option to_valid (qs_Active q)\<rparr>"

text \<open>\<open>Clone\<close> panics where the value has no JSON encoding.\<close>

definition Clone_job :: "Job \<Rightarrow> goerr + Job" where
  "Clone_job j = (if job_encodable j then Inr (clone_job j) else Inl Panicked)"

definition Clone_result :: "Result \<Rightarrow> goerr + Result" where
  "Clone_result r = (if result_encodable r then Inr (clone_result r) else Inl Panicked)"

lemma clone_role_idem [simp]: "clone_role (clone_role r) = clone_role r"
  by (cases r) simp_all

lemma clone_relation_idem [simp]: "clone_relation (clone_relation r) = clone_relation r"
  by (cases r) simp_all

lemma clone_state_idem [simp]: "clone_state (clone_state s) = clone_state s"
  by (cases s) simp_all

lemma clone_code_idem [simp]: "clone_code (clone_code c) = clone_code c"
  by (cases c) simp_all

lemma clone_message_idem [simp]: "clone_message (clone_message m) = clone_message m"
  by (simp add: clone_message_def)

lemma clone_lineage_idem [simp]: "clone_lineage (clone_lineage l) = clone_lineage l"
  by (simp add: clone_lineage_def)

lemma clone_request_idem [simp]: "clone_request (clone_request r) = clone_request r"
  by (simp add: clone_request_def)

lemma clone_instructions_idem [simp]: "clone_instructions (clone_instructions i) = clone_instructions i"
  by (simp add: clone_instructions_def)

lemma clone_observation_idem [simp]: "clone_observation (clone_observation c) = clone_observation c"
  by (simp add: clone_observation_def)

lemma clone_estimate_idem [simp]: "clone_estimate (clone_estimate e) = clone_estimate e"
  by (simp add: clone_estimate_def)

lemma clone_context_idem [simp]: "clone_context (clone_context c) = clone_context c"
  by (simp add: clone_context_def option.map_comp comp_def)

lemma clone_result_idem [simp]: "clone_result (clone_result r) = clone_result r"
  by (simp add: clone_result_def)

lemma clone_fault_idem [simp]: "clone_fault (clone_fault f) = clone_fault f"
  by (simp add: clone_fault_def prod.map_comp comp_def)

text \<open>A copy of a copy is that copy: after one round trip every string is valid UTF-8.\<close>

lemma clone_job_idem [simp]: "clone_job (clone_job j) = clone_job j"
  by (simp add: clone_job_def option.map_comp comp_def)

text \<open>A job is its own copy exactly when each of its parts is.\<close>

lemma clone_job_fix_iff:
  "clone_job j = j \<longleftrightarrow>
     to_valid (jb_ID j) = jb_ID j \<and> clone_state (jb_State j) = jb_State j \<and>
     clone_request (jb_Request j) = jb_Request j \<and>
     clone_instructions (jb_Instructions j) = jb_Instructions j \<and>
     to_valid (jb_Origin j) = jb_Origin j \<and>
     map_option clone_lineage (jb_Lineage j) = jb_Lineage j \<and>
     clone_result (jb_Result j) = jb_Result j \<and> map_option clone_fault (jb_Error j) = jb_Error j"
  by (cases j) (simp add: clone_job_def)

lemma clone_fault_ascii:
  "list_all (\<lambda>c. byte c < 0x80) m \<Longrightarrow> clone_code c = c \<Longrightarrow> clone_fault (fault c m) = fault c m"
  by (simp add: clone_fault_def fault_def to_valid_id valid_utf8_ascii)

lemma clone_queue_idem [simp]: "clone_queue (clone_queue q) = clone_queue q"
  by (simp add: clone_queue_def option.map_comp comp_def)

lemma job_encodable_clone [simp]: "job_encodable (clone_job j) = job_encodable j"
  by (simp add: job_encodable_def result_encodable_def clone_job_def clone_result_def
      clone_context_def clone_observation_def clone_request_def opt_all_def split: option.split)

end
