(* ===== verification/Reducer.thy ===== *)
theory Reducer
  imports Encoding
begin

text \<open>
  \<open>internal/core/state.go\<close>: request validation, instruction composition, the job lifecycle
  and \<open>ApplyCommit\<close>, the reducer that both the live worker and journal recovery use. The
  reducer is a fold of \<open>apply_event\<close> over the events of a commit, followed by the receipt
  and queue checks at the commit edge.
\<close>

subsection \<open>Limits\<close>

definition MaxPending :: nat where "MaxPending = 64"
definition MaxJobs :: nat where "MaxJobs = 1000"
definition MaxInputBytes :: nat where "MaxInputBytes = 1048576"
definition MaxOutputBytes :: nat where "MaxOutputBytes = 8388608"
definition MaxCommitBytes :: nat where "MaxCommitBytes = 16777216"
definition MaxChunkBytes :: nat where "MaxChunkBytes = 16384"
definition MaxObserverEvents :: nat where "MaxObserverEvents = 256"
definition MaxObserverBytes :: nat where "MaxObserverBytes = 33554432"
definition MetadataReserve :: nat where "MetadataReserve = 65536"

subsection \<open>Lifecycle\<close>

definition Terminal :: "JobState \<Rightarrow> bool" where
  "Terminal s = (s = JobSucceeded \<or> s = JobFailed \<or> s = JobCancelled \<or> s = JobInterrupted)"

fun transition :: "JobState \<Rightarrow> JobState \<Rightarrow> bool" where
  "transition JobQueued b = (b = JobRunning \<or> b = JobCancelled)"
| "transition JobRunning b = (b = JobCancelling \<or> b = JobSucceeded \<or> b = JobFailed \<or> b = JobInterrupted)"
| "transition JobCancelling b = (b = JobCancelled \<or> b = JobInterrupted)"
| "transition _ b = False"

subsection \<open>Requests\<close>

fun history_bytes :: "Message list \<Rightarrow> nat \<Rightarrow> nat option" where
  "history_bytes [] n = Some n"
| "history_bytes (m # ms) n =
     (if (ms_Role m \<noteq> MessageUser \<and> ms_Role m \<noteq> MessageAssistant) \<or> \<not> valid_utf8 (ms_Content m)
      then None else history_bytes ms (n + length (ms_Content m)))"

definition options_invalid :: "GenerationOptions \<Rightarrow> bool" where
  "options_invalid o' =
     (op_MaxOutputTokens o' \<le> 0 \<or>
      (case op_ContextTokens o' of None \<Rightarrow> False | Some c \<Rightarrow> c \<le> 0 \<or> c \<le> op_MaxOutputTokens o') \<or>
      (case op_Temperature o' of None \<Rightarrow> False | Some t \<Rightarrow> f64_special t \<or> f64_negative t))"

definition ValidateRequest :: "Request \<Rightarrow> Instructions \<Rightarrow> Fault option" where
  "ValidateRequest r i =
     (if TrimSpace (rq_Model r) = [] \<or> TrimSpace (rq_Prompt r) = []
      then Some (fault ErrInvalidRequest ''model and prompt are required'')
      else if \<not> list_all valid_utf8
          [rq_Model r, rq_Role r, rq_SystemPrompt r, rq_Prompt r, in_System i, in_Prompt i]
      then Some (fault ErrInvalidRequest ''input must be UTF-8'')
      else if options_invalid (rq_Options r)
      then Some (fault ErrInvalidRequest ''invalid generation budget or options'')
      else (case history_bytes (in_History i) (length (in_System i) + length (in_Prompt i)) of
          None \<Rightarrow> Some (fault ErrInvalidRequest ''invalid history'')
        | Some n \<Rightarrow>
            if n > MaxInputBytes \<or>
               length (rq_Model r) + length (rq_Role r) + length (rq_SystemPrompt r)
                 + length (rq_Prompt r) > MaxInputBytes
            then Some (fault ErrLimitExceeded ''input limit exceeded'')
            else None))"

text \<open>\<open>strings.Join(parts, sep)\<close>.\<close>

fun join :: "bytes \<Rightarrow> bytes list \<Rightarrow> bytes" where
  "join sep [] = []"
| "join sep [x] = x"
| "join sep (x # y # xs) = x @ sep @ join sep (y # xs)"

definition Compose :: "Request \<Rightarrow> Instructions" where
  "Compose r = \<lparr>in_System = join [CHR 0x0A, CHR 0x0A]
       (filter (\<lambda>s. s \<noteq> []) (map TrimSpace [rq_Role r, rq_SystemPrompt r])),
     in_History = [], in_Prompt = rq_Prompt r\<rparr>"

subsection \<open>\<open>reflect.DeepEqual\<close>\<close>

text \<open>
  Deep equality is equality of the records, except that floats compare by value: a NaN
  differs from itself and the two zeros are equal.
\<close>

definition f64_eq :: "f64 \<Rightarrow> f64 \<Rightarrow> bool" where
  "f64_eq x y =
     ((x = y \<and> \<not> (f64_special x \<and> x AND 0xFFFFFFFFFFFFF \<noteq> 0)) \<or>
      (x AND 0x7FFFFFFFFFFFFFFF = 0 \<and> y AND 0x7FFFFFFFFFFFFFFF = 0))"

definition opt_eq :: "('a \<Rightarrow> 'a \<Rightarrow> bool) \<Rightarrow> 'a option \<Rightarrow> 'a option \<Rightarrow> bool" where
  "opt_eq r x y = (case (x, y) of (None, None) \<Rightarrow> True | (Some a, Some b) \<Rightarrow> r a b | _ \<Rightarrow> False)"

definition options_eq :: "GenerationOptions \<Rightarrow> GenerationOptions \<Rightarrow> bool" where
  "options_eq a b =
     (op_ContextTokens a = op_ContextTokens b \<and> op_MaxOutputTokens a = op_MaxOutputTokens b \<and>
      opt_eq f64_eq (op_Temperature a) (op_Temperature b) \<and> op_Seed a = op_Seed b)"

definition request_eq :: "Request \<Rightarrow> Request \<Rightarrow> bool" where
  "request_eq a b =
     (rq_Model a = rq_Model b \<and> rq_Role a = rq_Role b \<and> rq_SystemPrompt a = rq_SystemPrompt b \<and>
      rq_Prompt a = rq_Prompt b \<and> options_eq (rq_Options a) (rq_Options b))"

definition result_eq :: "Result \<Rightarrow> Result \<Rightarrow> bool" where
  "result_eq a b =
     (rs_Text a = rs_Text b \<and> rs_FinishReason a = rs_FinishReason b \<and>
      rs_EffectiveModel a = rs_EffectiveModel b \<and>
      opt_eq options_eq (rs_EffectiveOptions a) (rs_EffectiveOptions b) \<and>
      rs_Context a = rs_Context b \<and> rs_Usage a = rs_Usage b)"

subsection \<open>Bounds on encoded jobs\<close>

definition CheckJobFits :: "host \<Rightarrow> Job \<Rightarrow> Fault option" where
  "CheckJobFits h j =
     (case marshal_job h j of
        None \<Rightarrow> Some (fault ErrLimitExceeded ''encoded job exceeds terminal record budget'')
      | Some b \<Rightarrow> if length b + MetadataReserve + 8192 > MaxCommitBytes
          then Some (fault ErrLimitExceeded ''encoded job exceeds terminal record budget'')
          else None)"

definition job_reserve :: "host \<Rightarrow> Job \<Rightarrow> nat" where
  "job_reserve h j =
     (if Terminal (jb_State j) then 0
      else (if jb_State j = JobQueued then 3 else if jb_State j = JobRunning then 2 else 1)
             * (text_len (marshal_job h j) + 4096) + MetadataReserve)"

definition TerminalReserve :: "host \<Rightarrow> Snapshot \<Rightarrow> nat" where
  "TerminalReserve h s = 8192 + sum_list (map (job_reserve h) (sn_Jobs s))"

subsection \<open>\<open>ApplyCommit\<close>\<close>

definition bad :: "goerr + 'a" where
  "bad = Inl (FaultErr (fault ErrStorage ''invalid journal transaction''))"

definition find_job :: "Job list \<Rightarrow> JobID \<Rightarrow> Job option" where
  "find_job js i = find (\<lambda>j. jb_ID j = i) js"

definition branch_instructions :: "Instructions \<Rightarrow> Job \<Rightarrow> Instructions" where
  "branch_instructions i p = i\<lparr>in_History := in_History i @ in_History (jb_Instructions p)
     @ [\<lparr>ms_Role = MessageUser, ms_Content = in_Prompt (jb_Instructions p)\<rparr>]
     @ (if rs_Text (jb_Result p) = [] then []
        else [\<lparr>ms_Role = MessageAssistant, ms_Content = rs_Text (jb_Result p)\<rparr>])\<rparr>"

text \<open>The instructions an accepted job must carry; \<open>None\<close> where its lineage is invalid.\<close>

definition expected_instructions :: "Job list \<Rightarrow> Job \<Rightarrow> Instructions option" where
  "expected_instructions js j =
     (case jb_Lineage j of
        None \<Rightarrow> Some (Compose (jb_Request j))
      | Some l \<Rightarrow>
          (case find_job js (ln_ParentID l) of
             None \<Rightarrow> None
           | Some p \<Rightarrow>
               if \<not> Terminal (jb_State p) then None
               else (case ln_Relation l of
                   RelationRetry \<Rightarrow>
                     if request_eq (jb_Request j) (jb_Request p) then Some (jb_Instructions p) else None
                 | RelationBranch \<Rightarrow> Some (branch_instructions (Compose (jb_Request j)) p)
                 | OtherRelation _ \<Rightarrow> None)))"

text \<open>\<open>accepted\<close> is the ID of the job this commit accepted, empty before.\<close>

definition accept_job ::
  "host \<Rightarrow> Snapshot \<Rightarrow> JobID \<Rightarrow> nat option \<Rightarrow> Job \<Rightarrow> goerr + (Snapshot \<times> JobID)" where
  "accept_job h s accepted i j =
     (if CheckJobFits h j \<noteq> None then bad
      else if i \<noteq> None \<or> accepted \<noteq> [] \<or> length (sn_Jobs s) \<ge> MaxJobs \<or> jb_State j \<noteq> JobQueued \<or>
        jb_StartedAt j \<noteq> None \<or> jb_FinishedAt j \<noteq> None \<or> \<not> result_eq (jb_Result j) zero_Result \<or>
        jb_Error j \<noteq> None then bad
      else (case expected_instructions (sn_Jobs s) j of
          None \<Rightarrow> bad
        | Some ex \<Rightarrow> if ex \<noteq> jb_Instructions j then bad
            else Inr (s\<lparr>sn_Jobs := sn_Jobs s @ [j]\<rparr>, jb_ID j)))"

definition replace_ok :: "QueueState \<Rightarrow> EventKind \<Rightarrow> Job \<Rightarrow> Job \<Rightarrow> bool" where
  "replace_ok q k old j =
     (transition (jb_State old) (jb_State j) \<and>
      (jb_State j = JobRunning \<longrightarrow> \<not> qs_Paused q \<and> qs_Active q = None \<and>
         pending_ids q \<noteq> [] \<and> hd (pending_ids q) = jb_ID j) \<and>
      request_eq (jb_Request old) (jb_Request j) \<and> jb_Instructions old = jb_Instructions j \<and>
      jb_Lineage old = jb_Lineage j \<and> jb_Origin old = jb_Origin j \<and>
      jb_CreatedAt old = jb_CreatedAt j \<and> rs_Text (jb_Result old) = rs_Text (jb_Result j) \<and>
      (Terminal (jb_State j) \<longleftrightarrow> k = EventJobResult) \<and>
      (Terminal (jb_State j) \<longleftrightarrow> jb_FinishedAt j \<noteq> None) \<and>
      ((jb_State j = JobRunning \<or> jb_State j = JobCancelling \<or> jb_StartedAt old \<noteq> None)
         \<longrightarrow> jb_StartedAt j \<noteq> None) \<and>
      (jb_StartedAt old \<noteq> None \<longrightarrow> jb_StartedAt old = jb_StartedAt j) \<and>
      (\<not> Terminal (jb_State j) \<longrightarrow> result_eq (jb_Result old) (jb_Result j) \<and> jb_Error j = None) \<and>
      (jb_State j = JobSucceeded \<longrightarrow> jb_Error j = None) \<and>
      (Terminal (jb_State j) \<and> jb_State j \<noteq> JobSucceeded \<longrightarrow>
         (case jb_Error j of None \<Rightarrow> False | Some f \<Rightarrow> code_str (ft_Code f) \<noteq> [])))"

definition replace_job ::
  "Snapshot \<Rightarrow> JobID \<Rightarrow> nat option \<Rightarrow> EventKind \<Rightarrow> Job \<Rightarrow> goerr + (Snapshot \<times> JobID)" where
  "replace_job s accepted i k j =
     (case i of
        None \<Rightarrow> bad
      | Some n \<Rightarrow>
          if \<not> replace_ok (sn_Queue s) k (sn_Jobs s ! n) j then bad
          else Inr (s\<lparr>sn_Jobs := (sn_Jobs s)[n := j]\<rparr>, accepted))"

definition apply_job ::
  "host \<Rightarrow> Snapshot \<Rightarrow> JobID \<Rightarrow> nat option \<Rightarrow> Event \<Rightarrow> goerr + (Snapshot \<times> JobID)" where
  "apply_job h s accepted i e =
     (case ev_Job e of
        None \<Rightarrow> bad
      | Some ej \<Rightarrow>
          if jb_ID ej = [] \<or> ev_JobID e \<noteq> jb_ID ej then bad
          else (case Clone_job ej of
              Inl p \<Rightarrow> Inl p
            | Inr j \<Rightarrow>
                if ValidateRequest (jb_Request j) (jb_Instructions j) \<noteq> None \<or> jb_CreatedAt j = 0 \<or>
                   \<not> valid_utf8 (rs_Text (jb_Result j)) \<or>
                   length (rs_Text (jb_Result j)) > MaxOutputBytes then bad
                else if \<not> valid_utf8 (jb_Origin j) \<or> length (jb_Origin j) > 1024 then bad
                else if ev_Kind e = EventJobAccepted then accept_job h s accepted i j
                else replace_job s accepted i (ev_Kind e) j))"

definition append_text :: "Job \<Rightarrow> bytes \<Rightarrow> Job" where
  "append_text j t = j\<lparr>jb_Result := (jb_Result j)\<lparr>rs_Text := rs_Text (jb_Result j) @ t\<rparr>\<rparr>"

definition apply_output ::
  "host \<Rightarrow> Snapshot \<Rightarrow> JobID \<Rightarrow> nat option \<Rightarrow> Event \<Rightarrow> goerr + (Snapshot \<times> JobID)" where
  "apply_output h s accepted i e =
     (case (ev_Output e, i) of
        (Some d, Some n) \<Rightarrow>
          (let j = sn_Jobs s ! n in
           if (jb_State j \<noteq> JobRunning \<and> jb_State j \<noteq> JobCancelling) \<or>
              od_OffsetBytes d \<noteq> int (length (rs_Text (jb_Result j))) \<or>
              od_Text d = [] \<or> length (od_Text d) > MaxChunkBytes \<or> \<not> valid_utf8 (od_Text d) \<or>
              length (rs_Text (jb_Result j)) + length (od_Text d) > MaxOutputBytes then bad
           else if CheckJobFits h (append_text j (od_Text d)) \<noteq> None then bad
           else Inr (s\<lparr>sn_Jobs := (sn_Jobs s)[n := append_text j (od_Text d)]\<rparr>, accepted))
      | _ \<Rightarrow> bad)"

definition apply_queue :: "Snapshot \<Rightarrow> JobID \<Rightarrow> Event \<Rightarrow> goerr + (Snapshot \<times> JobID)" where
  "apply_queue s accepted e =
     (case ev_Queue e of
        None \<Rightarrow> bad
      | Some q \<Rightarrow>
          if ev_JobID e \<noteq> [] \<or> qs_MaxPending q \<noteq> int MaxPending then bad
          else Inr (s\<lparr>sn_Queue := clone_queue q\<rparr>, accepted))"

definition payload_count :: "Event \<Rightarrow> nat" where
  "payload_count e = (if ev_Job e = None then 0 else 1) + (if ev_Output e = None then 0 else 1)
     + (if ev_Queue e = None then 0 else 1)"

definition apply_payload ::
  "host \<Rightarrow> Snapshot \<Rightarrow> JobID \<Rightarrow> Event \<Rightarrow> goerr + (Snapshot \<times> JobID)" where
  "apply_payload h s accepted e =
     (let i = find_index (\<lambda>j. jb_ID j = ev_JobID e) (sn_Jobs s) in
      case ev_Kind e of
        EventJobAccepted \<Rightarrow> apply_job h s accepted i e
      | EventJobState \<Rightarrow> apply_job h s accepted i e
      | EventJobResult \<Rightarrow> apply_job h s accepted i e
      | EventJobOutput \<Rightarrow> apply_output h s accepted i e
      | EventQueueState \<Rightarrow> apply_queue s accepted e
      | OtherEvent _ \<Rightarrow> bad)"

definition apply_event :: "host \<Rightarrow> Snapshot \<times> JobID \<Rightarrow> Event \<Rightarrow> goerr + (Snapshot \<times> JobID)" where
  "apply_event h sa e =
     (let s = fst sa; accepted = snd sa in
      if cu_Sequence (sn_Cursor s) = - 1 \<or>
         cu_StoreID (ev_Cursor e) \<noteq> cu_StoreID (sn_Cursor s) \<or>
         cu_Sequence (ev_Cursor e) \<noteq> cu_Sequence (sn_Cursor s) + 1 \<or> ev_At e = 0 then bad
      else if payload_count e \<noteq> 1 then bad
      else (case apply_payload h s accepted e of
          Inl x \<Rightarrow> Inl x
        | Inr (s', accepted') \<Rightarrow> Inr (s'\<lparr>sn_Cursor := ev_Cursor e\<rparr>, accepted')))"

definition hex_lower :: "char \<Rightarrow> bool" where
  "hex_lower c = (c \<in> set ''0123456789abcdef'')"

definition receipt_ok :: "JobID \<Rightarrow> Receipt option \<Rightarrow> bool" where
  "receipt_ok accepted r =
     ((accepted \<noteq> [] \<longleftrightarrow> r \<noteq> None) \<and>
      opt_all (\<lambda>r. rc_JobID r = accepted \<and> rc_Key r \<noteq> [] \<and> length (rc_Key r) \<le> 128 \<and>
        valid_utf8 (rc_Key r) \<and> length (rc_Digest r) = 64 \<and> list_all hex_lower (rc_Digest r)) r)"

text \<open>The scan that recomputes the pending queue and the active job from the job list.\<close>

fun scan_jobs :: "Job list \<Rightarrow> JobID list \<Rightarrow> JobID \<Rightarrow> (JobID list \<times> JobID) option" where
  "scan_jobs [] pending active = Some (pending, active)"
| "scan_jobs (j # js) pending active =
     (let pending' = (if jb_State j = JobQueued then pending @ [jb_ID j] else pending) in
      if jb_State j = JobRunning \<or> jb_State j = JobCancelling
      then (if active \<noteq> [] then None else scan_jobs js pending' (jb_ID j))
      else scan_jobs js pending' active)"

definition queue_ok :: "Snapshot \<Rightarrow> bool" where
  "queue_ok s =
     (case scan_jobs (sn_Jobs s) [] [] of
        None \<Rightarrow> False
      | Some (pending, active) \<Rightarrow>
          length pending \<le> MaxPending \<and> pending = pending_ids (sn_Queue s) \<and>
          (active = [] \<longleftrightarrow> qs_Active (sn_Queue s) = None) \<and>
          opt_all (\<lambda>a. a = active) (qs_Active (sn_Queue s)))"

definition ApplyCommit :: "host \<Rightarrow> Snapshot \<Rightarrow> Commit \<Rightarrow> goerr + Snapshot" where
  "ApplyCommit h s c =
     (if cm_Version c \<noteq> 1 \<or> cm_Events c = [] then bad
      else (case fold_result (apply_event h) (s\<lparr>sn_Queue := clone_queue (sn_Queue s)\<rparr>, []) (cm_Events c) of
          Inl x \<Rightarrow> Inl x
        | Inr (s', accepted) \<Rightarrow>
            if \<not> receipt_ok accepted (cm_Receipt c) then bad
            else if \<not> queue_ok s' then bad
            else Inr s'))"

subsection \<open>Cursors\<close>

definition ValidateCursor :: "Cursor \<Rightarrow> Cursor \<Rightarrow> Fault option" where
  "ValidateCursor c end' =
     (if cu_StoreID c \<noteq> cu_StoreID end' \<or> cu_Sequence c > cu_Sequence end'
      then Some (fault ErrCursorInvalid ''cursor does not belong to available history'')
      else None)"

text \<open>The digit loop of \<open>Cursor.UnmarshalJSON\<close> on \<open>uint64\<close>, with its overflow guard.\<close>

fun parse_digits :: "bytes \<Rightarrow> 64 word \<Rightarrow> 64 word option" where
  "parse_digits [] n = Some n"
| "parse_digits (c # cs) n =
     (if byte c < 48 \<or> 57 < byte c \<or> n > (- 1 - of_nat (byte c - 48)) div 10 then None
      else parse_digits cs (n * 10 + of_nat (byte c - 48)))"

definition parse_sequence :: "bytes \<Rightarrow> 64 word option" where
  "parse_sequence w = (if w = [] \<or> (1 < length w \<and> hd w = CHR ''0'') then None else parse_digits w 0)"

subsection \<open>The invariant of a snapshot\<close>

text \<open>What each lifecycle state says of the other fields of a job.\<close>

definition has_error :: "Job \<Rightarrow> bool" where
  "has_error j = (case jb_Error j of None \<Rightarrow> False | Some f \<Rightarrow> code_str (ft_Code f) \<noteq> [])"

fun stage_ok :: "JobState \<Rightarrow> Job \<Rightarrow> bool" where
  "stage_ok JobQueued j = (jb_StartedAt j = None \<and> jb_FinishedAt j = None \<and> jb_Error j = None \<and>
     result_eq (jb_Result j) zero_Result)"
| "stage_ok JobRunning j = (jb_StartedAt j \<noteq> None \<and> jb_FinishedAt j = None \<and> jb_Error j = None)"
| "stage_ok JobCancelling j = (jb_StartedAt j \<noteq> None \<and> jb_FinishedAt j = None \<and> jb_Error j = None)"
| "stage_ok JobSucceeded j = (jb_StartedAt j \<noteq> None \<and> jb_FinishedAt j \<noteq> None \<and> jb_Error j = None)"
| "stage_ok JobFailed j = (jb_StartedAt j \<noteq> None \<and> jb_FinishedAt j \<noteq> None \<and> has_error j)"
| "stage_ok JobCancelled j = (jb_FinishedAt j \<noteq> None \<and> has_error j)"
| "stage_ok JobInterrupted j = (jb_StartedAt j \<noteq> None \<and> jb_FinishedAt j \<noteq> None \<and> has_error j)"
| "stage_ok (OtherState _) j = False"

definition job_wf :: "Job \<Rightarrow> bool" where
  "job_wf j =
     (jb_ID j \<noteq> [] \<and> clone_job j = j \<and> job_encodable j \<and>
      ValidateRequest (jb_Request j) (jb_Instructions j) = None \<and> jb_CreatedAt j \<noteq> 0 \<and>
      valid_utf8 (rs_Text (jb_Result j)) \<and> length (rs_Text (jb_Result j)) \<le> MaxOutputBytes \<and>
      valid_utf8 (jb_Origin j) \<and> length (jb_Origin j) \<le> 1024 \<and> stage_ok (jb_State j) j)"

text \<open>Every job's instructions are the ones its request and lineage prescribe.\<close>

definition lineage_inv :: "Job list \<Rightarrow> bool" where
  "lineage_inv js = list_all (\<lambda>i. expected_instructions (take i js) (js ! i)
     = Some (jb_Instructions (js ! i))) [0..<length js]"

definition jobs_inv :: "Job list \<Rightarrow> bool" where
  "jobs_inv js =
     (distinct (map jb_ID js) \<and> list_all job_wf js \<and> length js \<le> MaxJobs \<and> lineage_inv js)"

definition queue_wf :: "QueueState \<Rightarrow> bool" where
  "queue_wf q = (clone_queue q = q \<and> qs_MaxPending q = int MaxPending)"

definition snap_inv :: "Snapshot \<Rightarrow> bool" where
  "snap_inv s = (jobs_inv (sn_Jobs s) \<and> queue_wf (sn_Queue s) \<and> queue_ok s)"

text \<open>The snapshot of a fresh store.\<close>

definition fresh_snapshot :: "bytes \<Rightarrow> Snapshot" where
  "fresh_snapshot store = \<lparr>sn_Cursor = \<lparr>cu_StoreID = store, cu_Sequence = 0\<rparr>,
     sn_Queue = \<lparr>qs_Paused = False, qs_Pending = None, qs_Active = None,
       qs_MaxPending = int MaxPending\<rparr>, sn_Jobs = []\<rparr>"

subsection \<open>Deep equality is an equivalence on encodable values\<close>

lemma f64_eq_sym: "f64_eq x y \<Longrightarrow> f64_eq y x"
  by (auto simp: f64_eq_def)

lemma f64_eq_trans: "f64_eq x y \<Longrightarrow> f64_eq y z \<Longrightarrow> f64_eq x z"
  by (auto simp: f64_eq_def)

lemma f64_eq_refl: "\<not> f64_special x \<Longrightarrow> f64_eq x x"
  by (simp add: f64_eq_def)

lemma opt_eq_simps [simp]:
  "opt_eq r None None" "opt_eq r (Some a) (Some b) = r a b"
  "\<not> opt_eq r None (Some b)" "\<not> opt_eq r (Some a) None"
  by (simp_all add: opt_eq_def)

lemma opt_eq_sym: "(\<And>a b. r a b \<Longrightarrow> r b a) \<Longrightarrow> opt_eq r x y \<Longrightarrow> opt_eq r y x"
  by (cases x; cases y) auto

lemma opt_eq_trans:
  "(\<And>a b c. r a b \<Longrightarrow> r b c \<Longrightarrow> r a c) \<Longrightarrow> opt_eq r x y \<Longrightarrow> opt_eq r y z \<Longrightarrow> opt_eq r x z"
  by (cases x; cases y; cases z) auto

lemma options_eq_sym: "options_eq a b \<Longrightarrow> options_eq b a"
  by (auto simp: options_eq_def intro: opt_eq_sym f64_eq_sym)

lemma options_eq_trans: "options_eq a b \<Longrightarrow> options_eq b c \<Longrightarrow> options_eq a c"
  by (auto simp: options_eq_def intro: opt_eq_trans f64_eq_trans)

lemma options_eq_refl: "options_encodable a \<Longrightarrow> options_eq a a"
  by (cases "op_Temperature a") (auto simp: options_eq_def options_encodable_def f64_eq_refl)

lemma request_eq_sym: "request_eq a b \<Longrightarrow> request_eq b a"
  by (auto simp: request_eq_def intro: options_eq_sym)

lemma request_eq_trans: "request_eq a b \<Longrightarrow> request_eq b c \<Longrightarrow> request_eq a c"
  by (auto simp: request_eq_def intro: options_eq_trans)

lemma request_eq_refl: "options_encodable (rq_Options r) \<Longrightarrow> request_eq r r"
  by (simp add: request_eq_def options_eq_refl)

lemma result_eq_refl: "result_encodable r \<Longrightarrow> result_eq r r"
  by (cases "rs_EffectiveOptions r") (auto simp: result_eq_def result_encodable_def options_eq_refl)

lemma Compose_cong: "request_eq a b \<Longrightarrow> Compose a = Compose b"
  by (simp add: request_eq_def Compose_def)

subsection \<open>The lifecycle order\<close>

text \<open>
  Lifecycle states are ordered by how far a job has come; a transition always moves up, so
  no job revisits a state.
\<close>

fun state_rank :: "JobState \<Rightarrow> nat" where
  "state_rank JobQueued = 0"
| "state_rank JobRunning = 1"
| "state_rank JobCancelling = 2"
| "state_rank _ = 3"

instantiation JobState :: order
begin
definition less_eq_JobState :: "JobState \<Rightarrow> JobState \<Rightarrow> bool" where
  "less_eq_JobState a b = (a = b \<or> state_rank a < state_rank b)"
definition less_JobState :: "JobState \<Rightarrow> JobState \<Rightarrow> bool" where
  "less_JobState a b = (state_rank a < state_rank b)"
instance
  by standard (auto simp: less_eq_JobState_def less_JobState_def)
end

lemma transition_less: "transition a b \<Longrightarrow> a < b"
  by (cases a) (auto simp: less_JobState_def)

lemma transition_from_terminal: "Terminal a \<Longrightarrow> \<not> transition a b"
  by (auto simp: Terminal_def)

subsection \<open>Looking up and replacing jobs\<close>

lemma find_job_Some: "find_job js i = Some j \<Longrightarrow> j \<in> set js \<and> jb_ID j = i"
  by (auto simp: find_job_def find_Some_iff)

lemma find_job_None: "find_job js i = None \<longleftrightarrow> i \<notin> jb_ID ` set js"
  by (auto simp: find_job_def find_None_iff)

lemma find_job_mem: "distinct (map jb_ID js) \<Longrightarrow> j \<in> set js \<Longrightarrow> find_job js (jb_ID j) = Some j"
  unfolding find_job_def by (rule find_distinct)

lemma find_job_append: "find_job (xs @ ys) i = (case find_job xs i of None \<Rightarrow> find_job ys i | r \<Rightarrow> r)"
  by (induction xs) (auto simp: find_job_def)

lemma map_ID_update: "n < length js \<Longrightarrow> jb_ID j = jb_ID (js ! n) \<Longrightarrow> map jb_ID (js[n := j]) = map jb_ID js"
  by (metis list_update_id map_update nth_map)

lemma find_job_update:
  assumes "distinct (map jb_ID js)" and "n < length js" and "jb_ID j = jb_ID (js ! n)"
  shows "find_job (js[n := j]) i = (if i = jb_ID j then Some j else find_job js i)"
proof (cases "i = jb_ID j")
  case True
  have "distinct (map jb_ID (js[n := j]))"
    using assms by (simp add: map_ID_update)
  with True assms(2) show ?thesis by (auto intro: find_job_mem set_update_memI)
next
  case False
  have "find_job (js[n := j]) i = find_job js i" using assms(2,3) False
  proof (induction js arbitrary: n)
    case (Cons x xs)
    then show ?case by (cases n) (auto simp: find_job_def)
  qed simp
  with False show ?thesis by simp
qed

text \<open>
  Replacing a job that is not terminal by one with the same identity, lineage and
  instructions disturbs no lineage: a parent is always terminal.
\<close>

definition same_identity :: "Job \<Rightarrow> Job \<Rightarrow> bool" where
  "same_identity old j =
     (jb_ID j = jb_ID old \<and> request_eq (jb_Request old) (jb_Request j) \<and>
      jb_Instructions j = jb_Instructions old \<and> jb_Lineage j = jb_Lineage old)"

lemma expected_instructions_cong:
  assumes "same_identity old j"
  shows "expected_instructions js j = expected_instructions js old"
proof -
  have "request_eq (jb_Request j) r \<longleftrightarrow> request_eq (jb_Request old) r" for r
    using assms by (auto simp: same_identity_def dest: request_eq_sym intro: request_eq_trans)
  moreover have "Compose (jb_Request j) = Compose (jb_Request old)"
    using assms by (auto simp: same_identity_def dest: Compose_cong)
  ultimately show ?thesis
    using assms by (auto simp: expected_instructions_def same_identity_def split: option.split Relation.split)
qed

lemma expected_instructions_update:
  assumes "distinct (map jb_ID js)" and "n < length js" and "jb_ID j = jb_ID (js ! n)"
    and "\<not> Terminal (jb_State (js ! n))" and "expected_instructions js x = Some i"
  shows "expected_instructions (js[n := j]) x = Some i"
proof (cases "jb_Lineage x")
  case None
  with assms(5) show ?thesis by (simp add: expected_instructions_def)
next
  case (Some l)
  with assms(5) obtain p where p: "find_job js (ln_ParentID l) = Some p" "Terminal (jb_State p)"
    by (auto simp: expected_instructions_def split: option.splits if_splits)
  have "ln_ParentID l \<noteq> jb_ID j"
  proof
    assume "ln_ParentID l = jb_ID j"
    then have "p = js ! n"
      using p assms(1-3) by (metis find_job_mem nth_mem option.inject)
    with p assms(4) show False by simp
  qed
  then have "find_job (js[n := j]) (ln_ParentID l) = find_job js (ln_ParentID l)"
    using assms(1-3) by (simp add: find_job_update)
  with Some assms(5) show ?thesis by (simp add: expected_instructions_def)
qed

lemma lineage_inv_iff:
  "lineage_inv js \<longleftrightarrow> (\<forall>i<length js. expected_instructions (take i js) (js ! i) = Some (jb_Instructions (js ! i)))"
  by (auto simp: lineage_inv_def list_all_iff)

lemma lineage_inv_append:
  "lineage_inv js \<Longrightarrow> expected_instructions js j = Some (jb_Instructions j) \<Longrightarrow> lineage_inv (js @ [j])"
  by (auto simp: lineage_inv_iff nth_append less_Suc_eq)

lemma lineage_inv_update:
  assumes "distinct (map jb_ID js)" and "n < length js" and "same_identity (js ! n) j"
    and "\<not> Terminal (jb_State (js ! n))" and "lineage_inv js"
  shows "lineage_inv (js[n := j])"
  unfolding lineage_inv_iff
proof (intro allI impI)
  fix i assume i: "i < length (js[n := j])"
  with assms(5) have e: "expected_instructions (take i js) (js ! i) = Some (jb_Instructions (js ! i))"
    by (simp add: lineage_inv_iff)
  show "expected_instructions (take i (js[n := j])) (js[n := j] ! i) = Some (jb_Instructions (js[n := j] ! i))"
  proof (cases "i \<le> n")
    case True
    with i assms(3) e show ?thesis
      by (cases "i = n") (auto simp: expected_instructions_cong [OF assms(3)] same_identity_def)
  next
    case False
    with i have "n < length (take i js)" "take i js ! n = js ! n" "distinct (map jb_ID (take i js))"
      using assms(1) by (auto simp: take_map distinct_take simp flip: take_map)
    with e assms(3,4) False show ?thesis
      by (auto simp: take_update_swap same_identity_def intro!: expected_instructions_update)
  qed
qed

subsection \<open>What an accepted event does\<close>

text \<open>
  The four effects an event can have on the job list and the queue, with the facts the
  reducer has checked. \<open>effect\<close> is the relational reading of \<open>apply_payload\<close>.
\<close>

definition content_ok :: "Job \<Rightarrow> bool" where
  "content_ok j =
     (ValidateRequest (jb_Request j) (jb_Instructions j) = None \<and> jb_CreatedAt j \<noteq> 0 \<and>
      valid_utf8 (rs_Text (jb_Result j)) \<and> length (rs_Text (jb_Result j)) \<le> MaxOutputBytes \<and>
      valid_utf8 (jb_Origin j) \<and> length (jb_Origin j) \<le> 1024)"

inductive effect :: "host \<Rightarrow> Snapshot \<Rightarrow> Event \<Rightarrow> JobID \<Rightarrow> Snapshot \<Rightarrow> JobID \<Rightarrow> bool"
  for h s e where
  accepts: "effect h s e [] (s\<lparr>sn_Jobs := sn_Jobs s @ [j]\<rparr>) (jb_ID j)"
    if "ev_Kind e = EventJobAccepted" "ev_Job e = Some ej" "j = clone_job ej" "job_encodable ej"
      "jb_ID ej = ev_JobID e" "ev_JobID e \<noteq> []" "ev_JobID e \<notin> jb_ID ` set (sn_Jobs s)"
      "content_ok j" "CheckJobFits h j = None" "length (sn_Jobs s) < MaxJobs" "jb_State j = JobQueued"
      "stage_ok JobQueued j" "expected_instructions (sn_Jobs s) j = Some (jb_Instructions j)"
| replaces: "effect h s e a (s\<lparr>sn_Jobs := (sn_Jobs s)[n := j]\<rparr>) a"
    if "ev_Kind e = EventJobState \<or> ev_Kind e = EventJobResult" "ev_Job e = Some ej"
      "j = clone_job ej" "job_encodable ej" "jb_ID ej = ev_JobID e" "ev_JobID e \<noteq> []"
      "n < length (sn_Jobs s)" "jb_ID (sn_Jobs s ! n) = ev_JobID e" "content_ok j"
      "replace_ok (sn_Queue s) (ev_Kind e) (sn_Jobs s ! n) j"
| outputs: "effect h s e a (s\<lparr>sn_Jobs := (sn_Jobs s)[n := append_text (sn_Jobs s ! n) (od_Text d)]\<rparr>) a"
    if "ev_Kind e = EventJobOutput" "ev_Output e = Some d" "n < length (sn_Jobs s)"
      "jb_ID (sn_Jobs s ! n) = ev_JobID e"
      "jb_State (sn_Jobs s ! n) = JobRunning \<or> jb_State (sn_Jobs s ! n) = JobCancelling"
      "od_OffsetBytes d = int (length (rs_Text (jb_Result (sn_Jobs s ! n))))"
      "od_Text d \<noteq> []" "length (od_Text d) \<le> MaxChunkBytes" "valid_utf8 (od_Text d)"
      "length (rs_Text (jb_Result (sn_Jobs s ! n))) + length (od_Text d) \<le> MaxOutputBytes"
      "CheckJobFits h (append_text (sn_Jobs s ! n) (od_Text d)) = None"
| queues: "effect h s e a (s\<lparr>sn_Queue := clone_queue q\<rparr>) a"
    if "ev_Kind e = EventQueueState" "ev_Queue e = Some q" "ev_JobID e = []"
      "qs_MaxPending q = int MaxPending"

lemma bad_neq [simp]: "bad \<noteq> Inr x" "Inr x \<noteq> bad"
  by (simp_all add: bad_def)

lemma apply_job_effect:
  assumes "apply_job h s a (find_index (\<lambda>j. jb_ID j = ev_JobID e) (sn_Jobs s)) e = Inr (s', a')"
    and "ev_Kind e = EventJobAccepted \<or> ev_Kind e = EventJobState \<or> ev_Kind e = EventJobResult"
  shows "effect h s e a s' a'"
proof -
  let ?i = "find_index (\<lambda>j. jb_ID j = ev_JobID e) (sn_Jobs s)"
  from assms(1) obtain ej where ej: "ev_Job e = Some ej" "jb_ID ej = ev_JobID e" "ev_JobID e \<noteq> []"
      "job_encodable ej" and c: "content_ok (clone_job ej)"
    and r: "(if ev_Kind e = EventJobAccepted then accept_job h s a ?i (clone_job ej)
             else replace_job s a ?i (ev_Kind e) (clone_job ej)) = Inr (s', a')"
    by (auto simp: apply_job_def Clone_job_def content_ok_def split: option.splits if_splits)
  show ?thesis
  proof (cases "ev_Kind e = EventJobAccepted")
    case True
    with r have "a = [] \<and> s' = s\<lparr>sn_Jobs := sn_Jobs s @ [clone_job ej]\<rparr> \<and> a' = jb_ID (clone_job ej) \<and>
        ?i = None \<and> CheckJobFits h (clone_job ej) = None \<and> length (sn_Jobs s) < MaxJobs \<and>
        jb_State (clone_job ej) = JobQueued \<and> stage_ok JobQueued (clone_job ej) \<and>
        expected_instructions (sn_Jobs s) (clone_job ej) = Some (jb_Instructions (clone_job ej))"
      by (auto simp: accept_job_def split: if_splits option.splits)
    with True ej c show ?thesis
      by (auto simp: find_index_None intro!: accepts)
  next
    case False
    with r obtain n where "?i = Some n" "replace_ok (sn_Queue s) (ev_Kind e) (sn_Jobs s ! n) (clone_job ej)"
        "s' = s\<lparr>sn_Jobs := (sn_Jobs s)[n := clone_job ej]\<rparr>" "a' = a"
      by (auto simp: replace_job_def split: option.splits if_splits)
    with False assms(2) ej c show ?thesis
      by (auto dest!: find_index_Some intro!: replaces)
  qed
qed

lemma apply_payload_effect:
  assumes "apply_payload h s a e = Inr (s', a')"
  shows "effect h s e a s' a'"
proof (cases "ev_Kind e")
  case EventJobOutput
  with assms obtain d n where "ev_Output e = Some d"
      and n: "find_index (\<lambda>j. jb_ID j = ev_JobID e) (sn_Jobs s) = Some n"
    by (auto simp: apply_payload_def apply_output_def split: option.splits)
  with find_index_Some [OF n] EventJobOutput assms show ?thesis
    by (auto simp: apply_payload_def apply_output_def Let_def split: if_splits intro!: outputs)
next
  case EventQueueState
  with assms show ?thesis
    by (auto simp: apply_payload_def apply_queue_def split: option.splits if_splits intro!: queues)
qed (use assms apply_job_effect in \<open>auto simp: apply_payload_def Let_def\<close>)

text \<open>Only well-identified events reach the reducer: job IDs are valid UTF-8.\<close>

definition event_id_ok :: "Event \<Rightarrow> bool" where
  "event_id_ok e = valid_utf8 (ev_JobID e)"

lemma apply_event_effect:
  assumes "apply_event h (s, a) e = Inr (s', a')"
  obtains s1 where "effect h s e a s1 a'" "s' = s1\<lparr>sn_Cursor := ev_Cursor e\<rparr>"
    "cu_Sequence (sn_Cursor s) \<noteq> - 1" "cu_StoreID (ev_Cursor e) = cu_StoreID (sn_Cursor s)"
    "cu_Sequence (ev_Cursor e) = cu_Sequence (sn_Cursor s) + 1"
  using assms
  by (auto simp: apply_event_def Let_def split: if_splits sum.splits prod.splits
      dest: apply_payload_effect)

subsection \<open>The reducer keeps the invariant\<close>

lemma replace_ok_stage:
  assumes "stage_ok (jb_State old) old" and r: "replace_ok q k old j"
  shows "stage_ok (jb_State j) j"
proof -
  have t: "transition (jb_State old) (jb_State j)"
    and fin: "Terminal (jb_State j) \<longleftrightarrow> jb_FinishedAt j \<noteq> None"
    and start: "jb_State j = JobRunning \<or> jb_State j = JobCancelling \<or> jb_StartedAt old \<noteq> None
      \<longrightarrow> jb_StartedAt j \<noteq> None"
    and live: "\<not> Terminal (jb_State j) \<longrightarrow> jb_Error j = None"
    and succ: "jb_State j = JobSucceeded \<longrightarrow> jb_Error j = None"
    and err: "Terminal (jb_State j) \<and> jb_State j \<noteq> JobSucceeded \<longrightarrow> has_error j"
    using r unfolding replace_ok_def has_error_def by blast+
  have started: "jb_StartedAt j \<noteq> None" if "jb_State old \<noteq> JobQueued"
    using that t assms(1) start by (cases "jb_State old") simp_all
  show ?thesis
  proof (cases "jb_State j")
    case JobQueued
    with t show ?thesis by (cases "jb_State old") simp_all
  next
    case JobCancelled
    with fin err show ?thesis by (simp add: Terminal_def)
  next
    case (OtherState x)
    with t show ?thesis by (cases "jb_State old") simp_all
  qed (use t fin start live succ err started in \<open>cases "jb_State old"; simp add: Terminal_def\<close>)+
qed

lemma replace_ok_identity:
  "replace_ok q k old j \<Longrightarrow> jb_ID j = jb_ID old \<Longrightarrow> same_identity old j"
  by (auto simp: replace_ok_def same_identity_def)

lemma replace_ok_not_terminal: "replace_ok q k old j \<Longrightarrow> \<not> Terminal (jb_State old)"
  by (auto simp: replace_ok_def dest: transition_from_terminal)

lemma job_wf_append_text:
  assumes "job_wf j" and "jb_State j = JobRunning \<or> jb_State j = JobCancelling" and "valid_utf8 t"
    and "length (rs_Text (jb_Result j)) + length t \<le> MaxOutputBytes"
  shows "job_wf (append_text j t)"
proof -
  have v: "valid_utf8 (rs_Text (jb_Result j) @ t)"
    using assms by (simp add: job_wf_def valid_utf8_append)
  have "clone_result (jb_Result j) = jb_Result j"
    using assms(1) by (simp add: job_wf_def clone_job_fix_iff)
  then have "clone_result ((jb_Result j)\<lparr>rs_Text := rs_Text (jb_Result j) @ t\<rparr>)
      = (jb_Result j)\<lparr>rs_Text := rs_Text (jb_Result j) @ t\<rparr>"
    using v by (cases "jb_Result j") (simp add: clone_result_def to_valid_id)
  with assms v show ?thesis
    by (auto simp: job_wf_def append_text_def clone_job_fix_iff job_encodable_def result_encodable_def)
qed

lemma same_identity_append_text: "job_wf j \<Longrightarrow> same_identity j (append_text j t)"
  by (auto simp: same_identity_def append_text_def job_wf_def job_encodable_def intro: request_eq_refl)

lemma jobs_inv_update:
  assumes "jobs_inv js" and "n < length js" and "same_identity (js ! n) j"
    and "\<not> Terminal (jb_State (js ! n))" and "job_wf j"
  shows "jobs_inv (js[n := j])"
  using assms lineage_inv_update [of js n j]
  by (auto simp: jobs_inv_def map_ID_update same_identity_def list_all_iff dest!: subsetD [OF set_update_subset_insert])

lemma jobs_inv_nth: "jobs_inv js \<Longrightarrow> n < length js \<Longrightarrow> job_wf (js ! n)"
  by (simp add: jobs_inv_def list_all_length)

lemma content_ok_wf:
  "content_ok (clone_job j) \<Longrightarrow> job_encodable j \<Longrightarrow> jb_ID (clone_job j) \<noteq> [] \<Longrightarrow>
   stage_ok (jb_State (clone_job j)) (clone_job j) \<Longrightarrow> job_wf (clone_job j)"
  by (simp add: job_wf_def content_ok_def)

lemma clone_job_ID: "valid_utf8 (jb_ID j) \<Longrightarrow> jb_ID (clone_job j) = jb_ID j"
  by (simp add: clone_job_def to_valid_id)

lemma clone_queue_MaxPending: "qs_MaxPending (clone_queue q) = qs_MaxPending q"
  by (simp add: clone_queue_def)

lemma effect_inv:
  assumes "effect h s e a s' a'" and "jobs_inv (sn_Jobs s)" and "queue_wf (sn_Queue s)"
    and "event_id_ok e"
  shows "jobs_inv (sn_Jobs s') \<and> queue_wf (sn_Queue s')"
  using assms
proof (induction rule: effect.induct)
  case (accepts ej j)
  then have id: "jb_ID j = ev_JobID e" by (metis clone_job_ID event_id_ok_def)
  with accepts have "job_wf j" by (metis content_ok_wf)
  with accepts id show ?case by (simp add: jobs_inv_def lineage_inv_append)
next
  case (replaces ej j n a)
  then have id: "jb_ID j = jb_ID (sn_Jobs s ! n)" by (metis clone_job_ID event_id_ok_def)
  from replaces have old: "job_wf (sn_Jobs s ! n)" by (simp add: jobs_inv_nth)
  then have "stage_ok (jb_State (sn_Jobs s ! n)) (sn_Jobs s ! n)" by (simp add: job_wf_def)
  then have "stage_ok (jb_State j) j" using replaces.hyps(10) by (rule replace_ok_stage)
  with replaces id have "job_wf j" by (metis content_ok_wf)
  then have "jobs_inv ((sn_Jobs s)[n := j])"
    using replaces.prems replaces.hyps(7) replace_ok_identity [OF replaces.hyps(10) id]
      replace_ok_not_terminal [OF replaces.hyps(10)] by (intro jobs_inv_update)
  with replaces.prems show ?case by simp
next
  case (outputs d n a)
  then have old: "job_wf (sn_Jobs s ! n)" by (simp add: jobs_inv_nth)
  with outputs have "job_wf (append_text (sn_Jobs s ! n) (od_Text d))"
    by (intro job_wf_append_text) auto
  then have "jobs_inv ((sn_Jobs s)[n := append_text (sn_Jobs s ! n) (od_Text d)])"
    using outputs.prems outputs.hyps(3,5) same_identity_append_text [OF old]
    by (intro jobs_inv_update) (auto simp: Terminal_def)
  with outputs.prems show ?case by simp
next
  case (queues q a)
  then show ?case by (simp add: queue_wf_def clone_queue_MaxPending)
qed

definition commit_ids_ok :: "Commit \<Rightarrow> bool" where
  "commit_ids_ok c = list_all event_id_ok (cm_Events c)"

lemma fold_effect_inv:
  assumes "fold_result (apply_event h) (s, a) es = Inr (s', a')" and "list_all event_id_ok es"
    and "jobs_inv (sn_Jobs s)" and "queue_wf (sn_Queue s)"
  shows "jobs_inv (sn_Jobs s') \<and> queue_wf (sn_Queue s')"
  using assms
proof (induction es arbitrary: s a)
  case (Cons e es)
  then obtain s1 a1 where e: "apply_event h (s, a) e = Inr (s1, a1)"
    and r: "fold_result (apply_event h) (s1, a1) es = Inr (s', a')"
    by (auto split: sum.splits)
  from e obtain s0 where "effect h s e a s0 a1" "s1 = s0\<lparr>sn_Cursor := ev_Cursor e\<rparr>"
    by (rule apply_event_effect)
  with Cons.prems have "jobs_inv (sn_Jobs s1) \<and> queue_wf (sn_Queue s1)"
    using effect_inv by auto
  with Cons.IH [OF r] Cons.prems show ?case by simp
qed simp

lemma ApplyCommit_fold:
  assumes "ApplyCommit h s c = Inr s'"
  obtains a where "fold_result (apply_event h) (s\<lparr>sn_Queue := clone_queue (sn_Queue s)\<rparr>, []) (cm_Events c) = Inr (s', a)"
    "receipt_ok a (cm_Receipt c)" "queue_ok s'" "cm_Events c \<noteq> []" "cm_Version c = 1"
  using assms by (auto simp: ApplyCommit_def split: if_splits sum.splits)

lemma ApplyCommit_snap_inv:
  assumes "snap_inv s" and "commit_ids_ok c" and "ApplyCommit h s c = Inr s'"
  shows "snap_inv s'"
proof -
  from assms(3) obtain a where
    f: "fold_result (apply_event h) (s\<lparr>sn_Queue := clone_queue (sn_Queue s)\<rparr>, []) (cm_Events c) = Inr (s', a)"
    and q: "queue_ok s'"
    by (rule ApplyCommit_fold)
  have "jobs_inv (sn_Jobs s') \<and> queue_wf (sn_Queue s')"
    using fold_effect_inv [OF f] assms(1,2) by (simp add: commit_ids_ok_def snap_inv_def queue_wf_def)
  with q show ?thesis by (simp add: snap_inv_def)
qed

text \<open>
  C1. The reducer keeps the snapshot invariant: job IDs stay distinct, every job stays
  well-formed for its lifecycle state, instructions stay those of request and lineage, at
  most 1000 jobs are retained, the pending queue is exactly the queued jobs in acceptance
  order (at most 64) and at most one job is active, the one the queue names.
\<close>

theorem ApplyCommit_inv:
  assumes "snap_inv s" and "commit_ids_ok c" and "ApplyCommit h s c = Inr s'"
  shows "snap_inv s'"
  using assms by (rule ApplyCommit_snap_inv)

subsection \<open>History is append-only\<close>

text \<open>
  How one job may change over time: identity, request (up to float equality), instructions,
  lineage, origin and creation time are fixed, output only grows, the lifecycle only moves
  up, and a terminal job never changes again.
\<close>

definition job_le :: "Job \<Rightarrow> Job \<Rightarrow> bool" where
  "job_le old j =
     (old = j \<or>
      (\<not> Terminal (jb_State old) \<and> same_identity old j \<and> jb_Origin j = jb_Origin old \<and>
       jb_CreatedAt j = jb_CreatedAt old \<and>
       (jb_StartedAt old \<noteq> None \<longrightarrow> jb_StartedAt j = jb_StartedAt old) \<and>
       take (length (rs_Text (jb_Result old))) (rs_Text (jb_Result j)) = rs_Text (jb_Result old) \<and>
       jb_State old \<le> jb_State j))"

definition jobs_le :: "Job list \<Rightarrow> Job list \<Rightarrow> bool" where
  "jobs_le js js' = (length js \<le> length js' \<and> list_all2 job_le js (take (length js) js'))"

lemma same_identity_trans: "same_identity a b \<Longrightarrow> same_identity b c \<Longrightarrow> same_identity a c"
  by (auto simp: same_identity_def intro: request_eq_trans)

lemma take_prefix_trans:
  "take (length a) b = a \<Longrightarrow> take (length b) c = b \<Longrightarrow> take (length a) c = a"
  by (metis take_take length_take min.absorb2 min.cobounded1 min.commute)

lemma job_le_refl [simp]: "job_le j j"
  by (simp add: job_le_def)

lemma job_le_trans:
  assumes "job_le a b" and "job_le b c"
  shows "job_le a c"
proof (cases "a = b \<or> b = c")
  case False
  with assms have a: "\<not> Terminal (jb_State a)" "same_identity a b" and b: "same_identity b c"
    by (auto simp: job_le_def)
  from a b have "same_identity a c" by (blast intro: same_identity_trans)
  moreover have "take (length (rs_Text (jb_Result a))) (rs_Text (jb_Result c)) = rs_Text (jb_Result a)"
    using assms False by (auto simp: job_le_def intro: take_prefix_trans)
  moreover have "jb_State a \<le> jb_State c" using assms False by (auto simp: job_le_def)
  ultimately show ?thesis using assms False by (auto simp: job_le_def)
qed (use assms in auto)

lemma jobs_le_iff:
  "jobs_le js js' \<longleftrightarrow> length js \<le> length js' \<and> (\<forall>i<length js. job_le (js ! i) (js' ! i))"
  by (auto simp: jobs_le_def list_all2_conv_all_nth)

lemma jobs_le_refl: "jobs_le js js"
  by (simp add: jobs_le_iff)

lemma jobs_le_trans: "jobs_le a b \<Longrightarrow> jobs_le b c \<Longrightarrow> jobs_le a c"
  unfolding jobs_le_iff by (metis job_le_trans order_trans order_less_le_trans)

lemma jobs_le_append: "jobs_le js (js @ js')"
  by (auto simp: jobs_le_iff nth_append)

lemma jobs_le_update: "n < length js \<Longrightarrow> job_le (js ! n) j \<Longrightarrow> jobs_le js (js[n := j])"
  by (auto simp: jobs_le_iff nth_list_update)

lemma job_le_replace:
  "replace_ok q k old j \<Longrightarrow> jb_ID j = jb_ID old \<Longrightarrow> job_le old j"
  unfolding job_le_def replace_ok_def same_identity_def
  by (metis less_imp_le order.refl take_all transition_from_terminal transition_less)

lemma job_le_append_text:
  "job_wf j \<Longrightarrow> \<not> Terminal (jb_State j) \<Longrightarrow> job_le j (append_text j t)"
  using same_identity_append_text [of j t] by (simp add: job_le_def append_text_def)

lemma effect_jobs_le:
  assumes "effect h s e a s' a'" and "jobs_inv (sn_Jobs s)" and "event_id_ok e"
  shows "jobs_le (sn_Jobs s) (sn_Jobs s')"
  using assms
proof (induction rule: effect.induct)
  case (replaces ej j n a)
  then have "jb_ID j = jb_ID (sn_Jobs s ! n)" by (metis clone_job_ID event_id_ok_def)
  with replaces show ?case by (simp add: jobs_le_update job_le_replace)
next
  case (outputs d n a)
  then show ?case
    by (auto intro!: jobs_le_update job_le_append_text simp: jobs_inv_nth Terminal_def)
qed (simp_all add: jobs_le_append jobs_le_refl)

lemma fold_jobs_le:
  assumes "fold_result (apply_event h) (s, a) es = Inr (s', a')" and "list_all event_id_ok es"
    and "jobs_inv (sn_Jobs s)" and "queue_wf (sn_Queue s)"
  shows "jobs_le (sn_Jobs s) (sn_Jobs s')"
  using assms
proof (induction es arbitrary: s a)
  case (Cons e es)
  then obtain s1 a1 where e: "apply_event h (s, a) e = Inr (s1, a1)"
    and r: "fold_result (apply_event h) (s1, a1) es = Inr (s', a')"
    by (auto split: sum.splits)
  from e obtain s0 where s0: "effect h s e a s0 a1" "s1 = s0\<lparr>sn_Cursor := ev_Cursor e\<rparr>"
    by (rule apply_event_effect)
  with Cons.prems have "jobs_inv (sn_Jobs s1) \<and> queue_wf (sn_Queue s1)"
    using effect_inv by auto
  moreover have "jobs_le (sn_Jobs s) (sn_Jobs s1)"
    using effect_jobs_le [OF s0(1)] s0(2) Cons.prems by simp
  ultimately show ?case using Cons.IH [OF r] Cons.prems by (auto intro: jobs_le_trans)
qed (simp add: jobs_le_refl)

lemma ApplyCommit_jobs_le:
  assumes "snap_inv s" and "commit_ids_ok c" and "ApplyCommit h s c = Inr s'"
  shows "jobs_le (sn_Jobs s) (sn_Jobs s')"
proof -
  from assms(3) obtain a where
    "fold_result (apply_event h) (s\<lparr>sn_Queue := clone_queue (sn_Queue s)\<rparr>, []) (cm_Events c) = Inr (s', a)"
    by (rule ApplyCommit_fold)
  from fold_jobs_le [OF this] assms(1,2) show ?thesis
    by (simp add: commit_ids_ok_def snap_inv_def queue_wf_def)
qed

text \<open>
  C2. Retained history is append-only: a commit keeps every job at its place, fixes its
  identity, instructions, lineage, origin and creation time, only appends output, only moves
  the lifecycle forward and leaves terminal jobs exactly as they were.
\<close>

theorem ApplyCommit_history:
  assumes "snap_inv s" and "commit_ids_ok c" and "ApplyCommit h s c = Inr s'"
  shows "jobs_le (sn_Jobs s) (sn_Jobs s')"
  using assms by (rule ApplyCommit_jobs_le)

lemma jobs_le_ids: "jobs_le js js' \<Longrightarrow> jb_ID ` set js \<subseteq> jb_ID ` set js'"
proof
  fix i assume le: "jobs_le js js'" and "i \<in> jb_ID ` set js"
  then obtain n where n: "n < length js" "jb_ID (js ! n) = i" by (auto simp: in_set_conv_nth)
  with le have "n < length js'" "jb_ID (js' ! n) = i"
    by (auto simp: jobs_le_iff job_le_def same_identity_def)
  then show "i \<in> jb_ID ` set js'" by auto
qed

lemma fold_accepted:
  assumes "fold_result (apply_event h) (s, a) es = Inr (s', a')" and "list_all event_id_ok es"
    and "jobs_inv (sn_Jobs s)" and "queue_wf (sn_Queue s)"
    and "a \<noteq> [] \<longrightarrow> a \<in> jb_ID ` set (sn_Jobs s)"
  shows "a' \<noteq> [] \<longrightarrow> a' \<in> jb_ID ` set (sn_Jobs s')"
  using assms
proof (induction es arbitrary: s a)
  case (Cons e es)
  then obtain s1 a1 where e: "apply_event h (s, a) e = Inr (s1, a1)"
    and r: "fold_result (apply_event h) (s1, a1) es = Inr (s', a')"
    by (auto split: sum.splits)
  from e obtain s0 where s0: "effect h s e a s0 a1" "s1 = s0\<lparr>sn_Cursor := ev_Cursor e\<rparr>"
    by (rule apply_event_effect)
  with Cons.prems have "jobs_inv (sn_Jobs s1) \<and> queue_wf (sn_Queue s1)"
    using effect_inv by auto
  moreover have "jb_ID ` set (sn_Jobs s) \<subseteq> jb_ID ` set (sn_Jobs s0)"
    using effect_jobs_le [OF s0(1)] Cons.prems by (auto intro!: jobs_le_ids)
  with s0(1) Cons.prems have "a1 \<noteq> [] \<longrightarrow> a1 \<in> jb_ID ` set (sn_Jobs s0)"
    by (cases rule: effect.cases) auto
  ultimately show ?case using Cons.IH [OF r] Cons.prems s0(2) by simp
qed simp

text \<open>A receipt always names a job of the snapshot it commits with.\<close>

lemma ApplyCommit_receipt:
  assumes "snap_inv s" and "commit_ids_ok c" and "ApplyCommit h s c = Inr s'" and "cm_Receipt c = Some r"
  shows "rc_JobID r \<in> jb_ID ` set (sn_Jobs s') \<and> valid_utf8 (rc_Key r) \<and> list_all hex_lower (rc_Digest r)"
proof -
  from assms(3) obtain a where
    f: "fold_result (apply_event h) (s\<lparr>sn_Queue := clone_queue (sn_Queue s)\<rparr>, []) (cm_Events c) = Inr (s', a)"
    and r: "receipt_ok a (cm_Receipt c)"
    by (rule ApplyCommit_fold)
  have "a \<noteq> [] \<longrightarrow> a \<in> jb_ID ` set (sn_Jobs s')"
    using fold_accepted [OF f] assms(1,2) by (simp add: commit_ids_ok_def snap_inv_def queue_wf_def)
  with r assms(4) show ?thesis by (auto simp: receipt_ok_def)
qed

subsection \<open>Event sequences\<close>

lemma seq_Suc:
  fixes x :: "64 word"
  assumes "x \<noteq> - 1"
  shows "unat (x + 1) = Suc (unat x)"
proof -
  have "1 + x \<noteq> 0" using assms by (metis add_eq_0_iff add.inverse_inverse)
  then show ?thesis using unatSuc [of x] by (simp add: add.commute)
qed

lemma effect_cursor: "effect h s e a s' a' \<Longrightarrow> sn_Cursor s' = sn_Cursor s"
  by (induction rule: effect.induct) simp_all

lemma fold_cursor:
  assumes "fold_result (apply_event h) (s, a) es = Inr (s', a')"
  shows "cu_StoreID (sn_Cursor s') = cu_StoreID (sn_Cursor s) \<and>
    unat (cu_Sequence (sn_Cursor s')) = unat (cu_Sequence (sn_Cursor s)) + length es \<and>
    (\<forall>i<length es. cu_StoreID (ev_Cursor (es ! i)) = cu_StoreID (sn_Cursor s) \<and>
      unat (cu_Sequence (ev_Cursor (es ! i))) = unat (cu_Sequence (sn_Cursor s)) + i + 1)"
  using assms
proof (induction es arbitrary: s a)
  case (Cons e es)
  then obtain s1 a1 where e: "apply_event h (s, a) e = Inr (s1, a1)"
    and r: "fold_result (apply_event h) (s1, a1) es = Inr (s', a')"
    by (auto split: sum.splits)
  from e obtain s0 where s0: "effect h s e a s0 a1" "s1 = s0\<lparr>sn_Cursor := ev_Cursor e\<rparr>"
    "cu_Sequence (sn_Cursor s) \<noteq> - 1" "cu_StoreID (ev_Cursor e) = cu_StoreID (sn_Cursor s)"
    "cu_Sequence (ev_Cursor e) = cu_Sequence (sn_Cursor s) + 1"
    by (rule apply_event_effect)
  with Cons.IH [OF r] seq_Suc show ?case by (auto simp: nth_Cons' less_Suc_eq_0_disj)
qed simp

lemma ApplyCommit_sequence:
  assumes "ApplyCommit h s c = Inr s'"
  shows "cu_StoreID (sn_Cursor s') = cu_StoreID (sn_Cursor s) \<and>
    unat (cu_Sequence (sn_Cursor s')) = unat (cu_Sequence (sn_Cursor s)) + length (cm_Events c) \<and>
    (\<forall>i<length (cm_Events c).
      unat (cu_Sequence (ev_Cursor (cm_Events c ! i))) = unat (cu_Sequence (sn_Cursor s)) + i + 1)"
proof -
  from assms obtain a where
    "fold_result (apply_event h) (s\<lparr>sn_Queue := clone_queue (sn_Queue s)\<rparr>, []) (cm_Events c) = Inr (s', a)"
    by (rule ApplyCommit_fold)
  from fold_cursor [OF this] show ?thesis by simp
qed

text \<open>
  C3. A commit numbers its events contiguously after the current cursor, stays in the same
  store and never wraps the 64-bit sequence: the new cursor is exactly the old one plus the
  number of events.
\<close>

theorem ApplyCommit_cursor:
  assumes "ApplyCommit h s c = Inr s'"
  shows "cu_StoreID (sn_Cursor s') = cu_StoreID (sn_Cursor s) \<and>
    unat (cu_Sequence (sn_Cursor s')) = unat (cu_Sequence (sn_Cursor s)) + length (cm_Events c) \<and>
    (\<forall>i<length (cm_Events c).
      unat (cu_Sequence (ev_Cursor (cm_Events c ! i))) = unat (cu_Sequence (sn_Cursor s)) + i + 1)"
  using assms by (rule ApplyCommit_sequence)

subsection \<open>Cursor text\<close>

lemma parse_digits_step:
  fixes n :: "64 word"
  assumes "d < 10"
  shows "n > (- 1 - of_nat d) div 10 \<longleftrightarrow> 2 ^ 64 \<le> unat n * 10 + d"
    and "unat n * 10 + d < 2 ^ 64 \<Longrightarrow> unat (n * 10 + of_nat d) = unat n * 10 + d"
proof -
  have u: "unat (of_nat d :: 64 word) = d"
    using assms by (simp add: unat_of_nat)
  have "unat (- 1 - of_nat d :: 64 word) = unat (- 1 :: 64 word) - d"
    using u assms by (subst unat_sub) (simp_all add: word_le_nat_alt unat64_max)
  then have "unat ((- 1 - of_nat d) div 10 :: 64 word) = (2 ^ 64 - 1 - d) div 10"
    by (simp add: unat_div unat64_max)
  then show "n > (- 1 - of_nat d) div 10 \<longleftrightarrow> 2 ^ 64 \<le> unat n * 10 + d"
    using assms by (simp add: word_less_nat_alt) linarith
  assume "unat n * 10 + d < 2 ^ 64"
  then show "unat (n * 10 + of_nat d) = unat n * 10 + d"
    using u by (simp add: unat_word_ariths)
qed

lemma parse_digits_iff:
  "parse_digits s n = Some m \<longleftrightarrow>
     list_all is_digit s \<and> unat n * 10 ^ length s + dec_val s < 2 ^ 64 \<and>
     unat m = unat n * 10 ^ length s + dec_val s"
proof (induction s arbitrary: n)
  case Nil
  show ?case using unat64_less [of n] by (auto simp: word_unat_eq_iff)
next
  case (Cons c s)
  have v: "dec_val (c # s) = (byte c - 48) * 10 ^ length s + dec_val s"
    using dec_val_Cons [of "byte c - 48" s] by (simp add: dec_val_def)
  show ?case
  proof (cases "is_digit c")
    case False
    then show ?thesis by (auto simp: is_digit_def)
  next
    case True
    then have d: "byte c - 48 < 10" by (auto simp: is_digit_def)
    let ?d = "byte c - 48"
    have e: "(unat n * 10 + ?d) * 10 ^ length s + dec_val s = unat n * 10 ^ length (c # s) + dec_val (c # s)"
      by (simp add: v algebra_simps)
    have g: "(unat n * 10 + ?d) \<le> (unat n * 10 + ?d) * 10 ^ length s" by simp
    show ?thesis
    proof (cases "2 ^ 64 \<le> unat n * 10 + ?d")
      case big: True
      then have "\<not> unat n * 10 ^ length (c # s) + dec_val (c # s) < 2 ^ 64"
        using e g by linarith
      with big parse_digits_step(1) [OF d] show ?thesis by simp
    next
      case small: False
      then have "unat (n * 10 + of_nat ?d) = unat n * 10 + ?d"
        using parse_digits_step(2) [OF d] by simp
      with Cons.IH [of "n * 10 + of_nat ?d"] True small e parse_digits_step(1) [OF d, of n]
      show ?thesis by (simp add: is_digit_def)
    qed
  qed
qed

lemma parse_sequence_iff:
  "parse_sequence s = Some n \<longleftrightarrow> s = dec_nat (unat n)"
proof
  assume "parse_sequence s = Some n"
  then have "s \<noteq> []" "\<not> (1 < length s \<and> hd s = digit 0)" "parse_digits s 0 = Some n"
    by (auto simp: parse_sequence_def digit_0 split: if_splits)
  then show "s = dec_nat (unat n)"
    using dec_nat_dec_val [of s] by (auto simp: parse_digits_iff)
next
  assume s: "s = dec_nat (unat n)"
  have "parse_digits s 0 = Some n"
    using unat64_less [of n] by (simp add: s parse_digits_iff dec_nat_is_digit)
  then show "parse_sequence s = Some n"
    using dec_nat_hd [of "unat n"] by (auto simp: s parse_sequence_def digit_0)
qed

lemma parse_sequence_dec: "parse_sequence (dec_nat (unat n)) = Some n"
  by (simp add: parse_sequence_iff)

text \<open>
  Decoding a cursor sequence accepts exactly the canonical decimal text of each 64-bit
  value: every \<open>uint64\<close> survives the round trip through its text, and no other spelling
  (empty, signed, leading zeros, overflow) is accepted.
\<close>

theorem parse_sequence_canonical:
  "parse_sequence s = Some n \<longleftrightarrow> s = dec_nat (unat n)"
  by (rule parse_sequence_iff)

subsection \<open>The queue at a commit edge\<close>

definition is_active :: "Job \<Rightarrow> bool" where
  "is_active j = (jb_State j = JobRunning \<or> jb_State j = JobCancelling)"

definition queued_ids :: "Job list \<Rightarrow> JobID list" where
  "queued_ids js = map jb_ID (filter (\<lambda>j. jb_State j = JobQueued) js)"

definition active_ids :: "Job list \<Rightarrow> JobID list" where
  "active_ids js = map jb_ID (filter is_active js)"

lemma scan_jobs_busy:
  "active \<noteq> [] \<Longrightarrow> scan_jobs js pending active =
     (if active_ids js = [] then Some (pending @ queued_ids js, active) else None)"
  by (induction js arbitrary: pending) (auto simp: active_ids_def queued_ids_def is_active_def)

lemma scan_jobs_eq:
  assumes "list_all (\<lambda>j. jb_ID j \<noteq> []) js"
  shows "scan_jobs js pending [] =
     (case active_ids js of
        [] \<Rightarrow> Some (pending @ queued_ids js, [])
      | [a] \<Rightarrow> Some (pending @ queued_ids js, a)
      | _ \<Rightarrow> None)"
  using assms
  by (induction js arbitrary: pending)
    (auto simp: active_ids_def queued_ids_def is_active_def scan_jobs_busy split: list.splits)

text \<open>
  The queue agrees with the job list exactly when its pending IDs are the queued jobs in
  list order, within the bound, and its active entry is the only active job.
\<close>

lemma queue_ok_iff:
  assumes "list_all (\<lambda>j. jb_ID j \<noteq> []) (sn_Jobs s)"
  shows "queue_ok s \<longleftrightarrow>
     pending_ids (sn_Queue s) = queued_ids (sn_Jobs s) \<and> length (queued_ids (sn_Jobs s)) \<le> MaxPending \<and>
     active_ids (sn_Jobs s) = (case qs_Active (sn_Queue s) of None \<Rightarrow> [] | Some a \<Rightarrow> [a])"
proof -
  have ne: "[] \<notin> set (active_ids (sn_Jobs s))"
    using assms by (auto simp: active_ids_def list_all_iff)
  consider "active_ids (sn_Jobs s) = []" | a where "active_ids (sn_Jobs s) = [a]" "a \<noteq> []"
    | a b xs where "active_ids (sn_Jobs s) = a # b # xs"
    using ne by (cases "active_ids (sn_Jobs s)" rule: remdups_adj.cases) auto
  then show ?thesis
    by cases (auto simp: queue_ok_def scan_jobs_eq [OF assms] split: option.splits)
qed

lemma jobs_inv_ids: "jobs_inv js \<Longrightarrow> list_all (\<lambda>j. jb_ID j \<noteq> []) js"
  by (auto simp: jobs_inv_def job_wf_def list_all_iff)

lemma snap_inv_queue:
  assumes "snap_inv s"
  shows "pending_ids (sn_Queue s) = queued_ids (sn_Jobs s)"
    and "length (queued_ids (sn_Jobs s)) \<le> MaxPending"
    and "active_ids (sn_Jobs s) = (case qs_Active (sn_Queue s) of None \<Rightarrow> [] | Some a \<Rightarrow> [a])"
  using assms queue_ok_iff [OF jobs_inv_ids, of s] by (auto simp: snap_inv_def)

lemma snap_inv_fresh: "snap_inv (fresh_snapshot store)"
  by (simp add: snap_inv_def fresh_snapshot_def jobs_inv_def queue_wf_def lineage_inv_def
      clone_queue_def queue_ok_def pending_ids_def MaxPending_def MaxJobs_def)

end
