(* ===== verification/Streams.thy ===== *)
theory Streams
  imports Reducer
begin

text \<open>
  The bounded observer streams of \<open>internal/core/watch.go\<close>: the queue of events a stream
  holds for its reader and the operations the worker applies to it under its lock. The
  operations that also involve the worker or the store (\<open>watch\<close>, \<open>Next\<close>, \<open>Close\<close>) are in the
  theory \<open>Watch\<close>.
\<close>

definition clone_output :: "OutputDelta \<Rightarrow> OutputDelta" where
  "clone_output d = d\<lparr>od_Text := to_valid (od_Text d)\<rparr>"

fun clone_kind :: "EventKind \<Rightarrow> EventKind" where
  "clone_kind (OtherEvent s) = OtherEvent (to_valid s)"
| "clone_kind k = k"

text \<open>\<open>Clone(e)\<close>. The reducer has already encoded the event's job, so the copy cannot fail.\<close>

definition clone_event :: "Event \<Rightarrow> Event" where
  "clone_event e = e\<lparr>ev_Cursor := (ev_Cursor e)\<lparr>cu_StoreID := to_valid (cu_StoreID (ev_Cursor e))\<rparr>,
     ev_Kind := clone_kind (ev_Kind e), ev_JobID := to_valid (ev_JobID e),
     ev_Job := map_option clone_job (ev_Job e), ev_Output := map_option clone_output (ev_Output e),
     ev_Queue := map_option clone_queue (ev_Queue e)\<rparr>"

record Stream =
  st_cursor :: Cursor
  st_through :: "64 word"
  st_queue :: "(Event \<times> nat) list"
  st_bytes :: int
  st_wake :: bool
  st_closed :: bool
  st_err :: "goerr option"

definition signal :: "Stream \<Rightarrow> Stream" where
  "signal s = s\<lparr>st_wake := True\<rparr>"

definition finish :: "goerr option \<Rightarrow> Stream \<Rightarrow> Stream" where
  "finish err s =
     (if st_closed s then s
      else signal (s\<lparr>st_closed := True, st_err := err, st_queue := [], st_bytes := 0\<rparr>))"

definition slow_consumer :: goerr where
  "slow_consumer =
     FaultErr (fault ErrSlowConsumer ''observer backlog exceeded; reconnect from last applied cursor'')"

definition push :: "Event \<Rightarrow> nat \<Rightarrow> Stream \<Rightarrow> Stream \<times> bool" where
  "push e n s =
     (if st_closed s then (s, False)
      else if length (st_queue s) \<ge> MaxObserverEvents \<or>
              int n > int MaxObserverBytes - st_bytes s
      then (signal (s\<lparr>st_closed := True, st_err := Some slow_consumer, st_queue := [], st_bytes := 0\<rparr>),
            False)
      else (signal (s\<lparr>st_queue := st_queue s @ [(clone_event e, n)],
              st_bytes := st_bytes s + int n\<rparr>), True))"

text \<open>The stream \<open>watch\<close> creates at a cursor, with the live boundary it registers.\<close>

definition new_stream :: "Cursor \<Rightarrow> 64 word \<Rightarrow> Stream" where
  "new_stream c through = \<lparr>st_cursor = c, st_through = through, st_queue = [], st_bytes = 0,
     st_wake = False, st_closed = False, st_err = None\<rparr>"

subsection \<open>Bounds\<close>

definition queue_bytes :: "(Event \<times> nat) list \<Rightarrow> int" where
  "queue_bytes q = sum_list (map (\<lambda>x. int (snd x)) q)"

text \<open>The backlog is bounded, its byte count exact, and a closed stream holds nothing.\<close>

definition stream_inv :: "Stream \<Rightarrow> bool" where
  "stream_inv s =
     (st_bytes s = queue_bytes (st_queue s) \<and> length (st_queue s) \<le> MaxObserverEvents \<and>
      st_bytes s \<le> int MaxObserverBytes \<and> (st_closed s \<longrightarrow> st_queue s = []))"

lemma queue_bytes_simps [simp]:
  "queue_bytes [] = 0" "queue_bytes (q @ r) = queue_bytes q + queue_bytes r"
  "queue_bytes ((e, n) # q) = int n + queue_bytes q"
  by (simp_all add: queue_bytes_def)

lemma stream_inv_new [simp]: "stream_inv (new_stream c t)"
  by (simp add: stream_inv_def new_stream_def)

lemma finish_inv: "stream_inv s \<Longrightarrow> stream_inv (finish err s)"
  by (simp add: stream_inv_def finish_def signal_def)

lemma finish_closed [simp]: "st_closed (finish err s)"
  by (simp add: finish_def signal_def)

lemma push_inv: "stream_inv s \<Longrightarrow> stream_inv (fst (push e n s))"
  by (auto simp: stream_inv_def push_def signal_def)

text \<open>
  C5. Pushing an event to an observer keeps its backlog within 256 events and 32 MiB with an
  exact byte count; the event is queued at the end exactly when both bounds still hold, and
  otherwise the stream is closed with a slow-consumer fault and drops its backlog.
\<close>

theorem push_bounded:
  assumes "stream_inv s"
  shows "stream_inv (fst (push e n s)) \<and>
    (\<not> st_closed s \<longrightarrow>
      (if length (st_queue s) < MaxObserverEvents \<and> st_bytes s + int n \<le> int MaxObserverBytes
       then push e n s = (signal (s\<lparr>st_queue := st_queue s @ [(clone_event e, n)],
              st_bytes := st_bytes s + int n\<rparr>), True)
       else \<not> snd (push e n s) \<and> st_closed (fst (push e n s)) \<and>
         st_err (fst (push e n s)) = Some slow_consumer \<and> st_queue (fst (push e n s)) = []))"
  using push_inv [OF assms] by (auto simp: push_def signal_def)

end
