(* ===== verification/Worker.thy ===== *)
theory Worker
  imports Streams
begin

text \<open>
  \<open>internal/core/worker.go\<close>: the serialized worker. Every operation below is the critical
  section one method runs under \<open>Worker.mu\<close>, as a function from worker to worker; the store
  is a record of operations on a store state of any type, so the definitions hold for every
  implementation of \<open>core.Store\<close>. The backend is the environment: \<open>dispatch\<close> records the
  goroutine it starts in \<open>w_gens\<close>, and the environment later calls \<open>emit\<close> and \<open>complete\<close>
  for it.

  A panic ends the process; it is the flag \<open>w_panicked\<close>. \<open>w_ticks\<close> and \<open>w_draws\<close> count the
  reads of the clock and of the random source. Streams live in the list \<open>w_streams\<close>, whose
  indices are the pointers the observer map holds.
\<close>

subsection \<open>Ports\<close>

text \<open>\<open>core.Store\<close>; the second argument of an operation is \<open>ctx.Err()\<close>.\<close>

record 'st store_ops =
  so_Recover :: "'st \<Rightarrow> goerr option \<Rightarrow> 'st \<times> (goerr + Recovery)"
  so_Append :: "'st \<Rightarrow> goerr option \<Rightarrow> Commit \<Rightarrow> 'st \<times> goerr option"
  so_ReadEvents :: "'st \<Rightarrow> goerr option \<Rightarrow> Cursor \<Rightarrow> int \<Rightarrow> 'st \<times> (goerr + Event list)"
  so_Close :: "'st \<Rightarrow> 'st \<times> goerr option"

record 'st Worker =
  w_store :: 'st
  w_state :: Snapshot
  w_receipts :: "bytes \<Rightarrow> Receipt option"
  w_streams :: "Stream list"
  w_observers :: "nat list"
  w_cancel :: bool
  w_ctxdone :: bool
  w_outputErr :: "goerr option"
  w_fatal :: "goerr option"
  w_stopping :: bool
  w_closed :: bool
  w_gens :: "(JobID \<times> InferenceInput) list"
  w_ticks :: nat
  w_draws :: nat
  w_panicked :: bool

definition panic :: "'st Worker \<Rightarrow> 'st Worker" where
  "panic w = w\<lparr>w_panicked := True\<rparr>"

subsection \<open>Committing\<close>

definition jobEvent :: "EventKind \<Rightarrow> Job \<Rightarrow> Event" where
  "jobEvent k j = \<lparr>ev_Cursor = \<lparr>cu_StoreID = [], cu_Sequence = 0\<rparr>, ev_At = 0, ev_Kind = k,
     ev_JobID = jb_ID j, ev_Job = Some j, ev_Output = None, ev_Queue = None\<rparr>"

definition queueEvent :: "QueueState \<Rightarrow> Event" where
  "queueEvent q = \<lparr>ev_Cursor = \<lparr>cu_StoreID = [], cu_Sequence = 0\<rparr>, ev_At = 0,
     ev_Kind = EventQueueState, ev_JobID = [], ev_Job = None, ev_Output = None, ev_Queue = Some q\<rparr>"

definition outputEvent :: "JobID \<Rightarrow> nat \<Rightarrow> bytes \<Rightarrow> Event" where
  "outputEvent i offset chunk = \<lparr>ev_Cursor = \<lparr>cu_StoreID = [], cu_Sequence = 0\<rparr>, ev_At = 0,
     ev_Kind = EventJobOutput, ev_JobID = i, ev_Job = None,
     ev_Output = Some \<lparr>od_OffsetBytes = int offset, od_Text = chunk\<rparr>, ev_Queue = None\<rparr>"

definition available :: "'st Worker \<Rightarrow> goerr option" where
  "available w =
     (case w_fatal w of
        Some e \<Rightarrow> Some e
      | None \<Rightarrow> if w_stopping w then Some (FaultErr (fault ErrUnavailable ''worker is shutting down''))
          else None)"

text \<open>\<open>for s := range w.observers { s.finish(err) }; clear(w.observers)\<close>\<close>

definition finish_observers :: "goerr option \<Rightarrow> 'st Worker \<Rightarrow> 'st Worker" where
  "finish_observers err w =
     w\<lparr>w_streams := fold (\<lambda>i ss. ss[i := finish err (ss ! i)]) (w_observers w) (w_streams w),
       w_observers := []\<rparr>"

definition poison :: "goerr \<Rightarrow> 'st Worker \<Rightarrow> 'st Worker" where
  "poison err w =
     finish_observers (Some err)
       (w\<lparr>w_fatal := Some err, w_ctxdone := w_ctxdone w \<or> w_cancel w\<rparr>)"

text \<open>Numbering: \<open>None\<close> when the sequence is exhausted; with the clock reads it took.\<close>

fun stamp :: "host \<Rightarrow> bytes \<Rightarrow> 64 word \<Rightarrow> nat \<Rightarrow> Event list \<Rightarrow> Event list option \<times> nat" where
  "stamp h store n t [] = (Some [], t)"
| "stamp h store n t (e # es) =
     (if n = - 1 then (None, t)
      else (case stamp h store (n + 1) (Suc t) es of
          (None, t') \<Rightarrow> (None, t')
        | (Some es', t') \<Rightarrow>
            (Some (e\<lparr>ev_Cursor := \<lparr>cu_StoreID = store, cu_Sequence = n + 1\<rparr>, ev_At := h_now h t\<rparr> # es'), t')))"

text \<open>One event to every observer; an observer that does not take it is dropped.\<close>

fun push_all :: "Event \<Rightarrow> nat \<Rightarrow> nat list \<Rightarrow> Stream list \<Rightarrow> Stream list \<times> nat list" where
  "push_all e n [] ss = (ss, [])"
| "push_all e n (i # is) ss =
     (let (s', ok) = push e n (ss ! i); (ss', is') = push_all e n is (ss[i := s'])
      in (ss', if ok then i # is' else is'))"

definition publish_event :: "host \<Rightarrow> Event \<Rightarrow> 'st Worker \<Rightarrow> 'st Worker" where
  "publish_event h e w =
     (let (ss, os) = push_all e (text_len (marshal_event h e)) (w_observers w) (w_streams w)
      in w\<lparr>w_streams := ss, w_observers := os\<rparr>)"

definition publish :: "host \<Rightarrow> Event list \<Rightarrow> 'st Worker \<Rightarrow> 'st Worker" where
  "publish h es w = fold (publish_event h) es w"

text \<open>
  The failure branch of the append: anything but a limit fault poisons the worker; reading
  the code of a nil \<open>*Fault\<close> panics.
\<close>

definition append_failed :: "goerr \<Rightarrow> 'st Worker \<Rightarrow> 'st Worker" where
  "append_failed err w =
     (if err = Panicked then panic w
      else (case errors_as err of
          None \<Rightarrow> poison err w
        | Some None \<Rightarrow> panic w
        | Some (Some f) \<Rightarrow> if ft_Code f \<noteq> ErrLimitExceeded then poison err w else w))"

definition exhausted :: goerr where
  "exhausted = FaultErr (fault ErrStorage ''event sequence exhausted'')"

definition commit ::
  "host \<Rightarrow> 'st store_ops \<Rightarrow> Event list \<Rightarrow> Receipt option \<Rightarrow> 'st Worker \<Rightarrow> 'st Worker \<times> goerr option" where
  "commit h ops es r w =
     (case stamp h (cu_StoreID (sn_Cursor (w_state w))) (cu_Sequence (sn_Cursor (w_state w))) (w_ticks w) es of
        (None, t) \<Rightarrow> (poison exhausted (w\<lparr>w_ticks := t\<rparr>), Some exhausted)
      | (Some es', t) \<Rightarrow>
          (let w1 = w\<lparr>w_ticks := t\<rparr>; c = \<lparr>cm_Version = 1, cm_Events = es', cm_Receipt = r\<rparr> in
           case ApplyCommit h (w_state w1) c of
             Inl Panicked \<Rightarrow> (panic w1, Some Panicked)
           | Inl err \<Rightarrow> (poison err w1, Some err)
           | Inr next \<Rightarrow>
               (case so_Append ops (w_store w1) None c of
                  (st, Some err) \<Rightarrow> (append_failed err (w1\<lparr>w_store := st\<rparr>), Some err)
                | (st, None) \<Rightarrow>
                    (publish h es' (w1\<lparr>w_store := st, w_state := next,
                       w_receipts := (case r of None \<Rightarrow> w_receipts w1
                         | Some rc \<Rightarrow> (w_receipts w1)(rc_Key rc \<mapsto> rc))\<rparr>), None))))"

subsection \<open>Dispatch\<close>

text \<open>\<open>*w.job(id)\<close> cloned; a nil job and an unencodable one panic.\<close>

definition clone_of :: "'st Worker \<Rightarrow> JobID \<Rightarrow> Job option" where
  "clone_of w i =
     (case find_job (sn_Jobs (w_state w)) i of
        None \<Rightarrow> None
      | Some j \<Rightarrow> (case Clone_job j of Inl _ \<Rightarrow> None | Inr j' \<Rightarrow> Some j'))"

definition idle :: "'st Worker \<Rightarrow> bool" where
  "idle w =
     (w_stopping w \<or> w_fatal w \<noteq> None \<or> qs_Paused (sn_Queue (w_state w)) \<or>
      qs_Active (sn_Queue (w_state w)) \<noteq> None \<or> pending_ids (sn_Queue (w_state w)) = [])"

definition dispatch :: "host \<Rightarrow> 'st store_ops \<Rightarrow> 'st Worker \<Rightarrow> 'st Worker" where
  "dispatch h ops w =
     (if idle w then w
      else (case clone_of w (hd (pending_ids (sn_Queue (w_state w)))) of
          None \<Rightarrow> panic w
        | Some j0 \<Rightarrow>
            (let j = j0\<lparr>jb_State := JobRunning, jb_StartedAt := Some (h_now h (w_ticks w))\<rparr>;
                 q0 = clone_queue (sn_Queue (w_state w));
                 q = q0\<lparr>qs_Pending := Some (tl (pending_ids q0)), qs_Active := Some (jb_ID j)\<rparr> in
             case commit h ops [jobEvent EventJobState j, queueEvent q] None
                    (w\<lparr>w_ticks := Suc (w_ticks w)\<rparr>) of
               (w1, Some err) \<Rightarrow> if w_panicked w1 then w1 else poison err w1
             | (w1, None) \<Rightarrow>
                 w1\<lparr>w_cancel := True, w_ctxdone := False, w_outputErr := None,
                   w_gens := w_gens w1 @ [(jb_ID j, \<lparr>ii_Request = clone_request (jb_Request j),
                     ii_Instructions = clone_instructions (jb_Instructions j)\<rparr>)]\<rparr>)))"

subsection \<open>Creating jobs\<close>

definition canonical_json :: "host \<Rightarrow> bytes \<Rightarrow> JobID \<Rightarrow> bytes \<Rightarrow> Request \<Rightarrow> json" where
  "canonical_json h op parent origin r = JObj [(''operation'', JStr op), (''parent'', JStr parent),
     (''origin'', JStr origin), (''request'', request_json h r)]"

text \<open>The receipt digest: lower-case hexadecimal SHA-256 of the canonical command.\<close>

definition digest_of :: "host \<Rightarrow> bytes \<Rightarrow> JobID \<Rightarrow> bytes \<Rightarrow> Request \<Rightarrow> bytes option" where
  "digest_of h op parent origin r =
     (if options_encodable (rq_Options r)
      then Some (hex_encode (h_sha h (json_text (canonical_json h op parent origin r)))) else None)"

definition relation_of :: "bytes \<Rightarrow> Relation" where
  "relation_of op =
     (if op = ''retry'' then RelationRetry else if op = ''branch'' then RelationBranch
      else OtherRelation op)"

text \<open>Request, instructions and lineage of the job to create, from its parent if it has one.\<close>

definition derive ::
  "Snapshot \<Rightarrow> bytes \<Rightarrow> JobID \<Rightarrow> Request \<Rightarrow> goerr + (Request \<times> Instructions \<times> Lineage option)" where
  "derive s op parent r =
     (if parent \<noteq> [] then
        (case find_job (sn_Jobs s) parent of
           None \<Rightarrow> Inl (FaultErr (fault ErrNotFound ''parent not found''))
         | Some p \<Rightarrow>
             if \<not> Terminal (jb_State p) then Inl (FaultErr (fault ErrConflict ''parent must be terminal''))
             else let l = Some \<lparr>ln_ParentID = parent, ln_Relation = relation_of op\<rparr> in
               if op = ''retry'' then
                 (if options_encodable (rq_Options (jb_Request p))
                  then Inr (clone_request (jb_Request p), clone_instructions (jb_Instructions p), l)
                  else Inl Panicked)
               else Inr (r, branch_instructions (Compose r) p, l))
      else if op \<noteq> ''submit'' then Inl (FaultErr (fault ErrInvalidRequest ''parent is required''))
      else Inr (r, Compose r, None))"

definition new_job ::
  "JobID \<Rightarrow> time \<Rightarrow> bytes \<Rightarrow> Request \<Rightarrow> Instructions \<Rightarrow> Lineage option \<Rightarrow> Job" where
  "new_job i t origin r ins l =
     \<lparr>jb_ID = i, jb_State = JobQueued, jb_Request = clone_request r,
      jb_Instructions = clone_instructions ins, jb_Origin = origin, jb_Lineage = l, jb_CreatedAt = t,
      jb_StartedAt = None, jb_FinishedAt = None, jb_Result = zero_Result, jb_Error = None\<rparr>"

text \<open>The end of \<open>create\<close>: admission of a derived job under the queue and history bounds.\<close>

definition admit ::
  "host \<Rightarrow> 'st store_ops \<Rightarrow> bytes \<Rightarrow> bytes \<Rightarrow> bytes \<Rightarrow> Request \<Rightarrow> Instructions \<Rightarrow> Lineage option
    \<Rightarrow> 'st Worker \<Rightarrow> 'st Worker \<times> (goerr + Job)" where
  "admit h ops key d origin r ins l w =
     (case ValidateRequest r ins of
        Some f \<Rightarrow> (w, Inl (FaultErr f))
      | None \<Rightarrow>
          if length (pending_ids (sn_Queue (w_state w))) \<ge> MaxPending
          then (w, Inl (FaultErr (fault ErrQueueFull ''pending queue is full'')))
          else if length (sn_Jobs (w_state w)) \<ge> MaxJobs
          then (w, Inl (FaultErr (fault ErrLimitExceeded ''retained job limit reached'')))
          else (case h_rand h (w_draws w) of
              None \<Rightarrow> (w\<lparr>w_draws := Suc (w_draws w)\<rparr>,
                 Inl (FaultErr (fault ErrInternal ''cannot allocate job identity'')))
            | Some b \<Rightarrow>
                (let j = new_job (hex_encode b) (h_now h (w_ticks w)) origin r ins l;
                     w1 = w\<lparr>w_draws := Suc (w_draws w), w_ticks := Suc (w_ticks w)\<rparr> in
                 if \<not> options_encodable (rq_Options r) then (panic w1, Inl Panicked)
                 else (case CheckJobFits h j of
                     Some f \<Rightarrow> (w1, Inl (FaultErr f))
                   | None \<Rightarrow>
                       (let q0 = clone_queue (sn_Queue (w_state w1));
                            q = q0\<lparr>qs_Pending := Some (pending_ids q0 @ [jb_ID j])\<rparr> in
                        case commit h ops [jobEvent EventJobAccepted j, queueEvent q]
                               (Some \<lparr>rc_Key = key, rc_Digest = d, rc_JobID = jb_ID j\<rparr>) w1 of
                          (w2, Some err) \<Rightarrow> (w2, Inl err)
                        | (w2, None) \<Rightarrow>
                            (let w3 = dispatch h ops w2 in
                             if w_panicked w3 then (w3, Inl Panicked)
                             else (case clone_of w3 (jb_ID j) of
                                 None \<Rightarrow> (panic w3, Inl Panicked)
                               | Some j' \<Rightarrow> (w3, Inr j'))))))))"

definition create ::
  "host \<Rightarrow> 'st store_ops \<Rightarrow> goerr option \<Rightarrow> bytes \<Rightarrow> bytes \<Rightarrow> bytes \<Rightarrow> JobID \<Rightarrow> Request
    \<Rightarrow> 'st Worker \<Rightarrow> 'st Worker \<times> (goerr + Job)" where
  "create h ops ctx op key origin parent r w =
     (case ctx of Some e \<Rightarrow> (w, Inl e) | None \<Rightarrow>
     (case available w of Some e \<Rightarrow> (w, Inl e) | None \<Rightarrow>
      if key = [] \<or> length key > 128 \<or> \<not> valid_utf8 key \<or> \<not> valid_utf8 origin \<or> length origin > 1024
      then (w, Inl (FaultErr (fault ErrInvalidRequest ''invalid idempotency key or origin'')))
      else (case (if op \<noteq> ''retry'' then ValidateRequest r (Compose r) else None) of
          Some f \<Rightarrow> (w, Inl (FaultErr f))
        | None \<Rightarrow>
            (case digest_of h op parent origin r of
               None \<Rightarrow> (w, Inl (FaultErr (fault ErrInvalidRequest ''invalid command encoding'')))
             | Some d \<Rightarrow>
                 (case w_receipts w key of
                    Some rc \<Rightarrow>
                      if rc_Digest rc \<noteq> d
                      then (w, Inl (FaultErr (fault ErrConflict ''idempotency key reused for different content'')))
                      else (case clone_of w (rc_JobID rc) of
                          None \<Rightarrow> (panic w, Inl Panicked)
                        | Some j \<Rightarrow> (w, Inr j))
                  | None \<Rightarrow>
                      (case derive (w_state w) op parent r of
                         Inl Panicked \<Rightarrow> (panic w, Inl Panicked)
                       | Inl e \<Rightarrow> (w, Inl e)
                       | Inr (r', ins, l) \<Rightarrow> admit h ops key d origin r' ins l w))))))"

subsection \<open>Streaming output\<close>

text \<open>
  The inner loop that moves a chunk boundary back to the start of a rune; \<open>None\<close> is the
  index panic below 0.
\<close>

fun step_back :: "bytes \<Rightarrow> nat \<Rightarrow> nat option" where
  "step_back t 0 = (if 0 < length t \<and> \<not> rune_start (t ! 0) then None else Some 0)"
| "step_back t (Suc n) =
     (if Suc n < length t \<and> \<not> rune_start (t ! Suc n) then step_back t n else Some (Suc n))"

definition chunk_len :: "bytes \<Rightarrow> nat option" where
  "chunk_len t = step_back t (min (length t) MaxChunkBytes)"

text \<open>\<open>w.cancel()\<close>: calling a nil function panics.\<close>

definition call_cancel :: "'st Worker \<Rightarrow> 'st Worker" where
  "call_cancel w = (if w_cancel w then w\<lparr>w_ctxdone := True\<rparr> else panic w)"

definition output_failed :: "goerr \<Rightarrow> 'st Worker \<Rightarrow> 'st Worker \<times> goerr option" where
  "output_failed err w = (call_cancel (w\<lparr>w_outputErr := Some err\<rparr>), Some err)"

definition emit_chunk ::
  "host \<Rightarrow> 'st store_ops \<Rightarrow> JobID \<Rightarrow> bytes \<Rightarrow> 'st Worker \<Rightarrow> 'st Worker \<times> goerr option" where
  "emit_chunk h ops i chunk w =
     (case find_job (sn_Jobs (w_state w)) i of
        None \<Rightarrow> (panic w, Some Panicked)
      | Some j \<Rightarrow>
          (let offset = length (rs_Text (jb_Result j)); j' = append_text j chunk in
           case (if length (rs_Text (jb_Result j')) > MaxOutputBytes
                 then Some (fault ErrLimitExceeded ''output limit exceeded'') else CheckJobFits h j') of
             Some f \<Rightarrow> output_failed (FaultErr f) w
           | None \<Rightarrow>
               (case commit h ops [outputEvent i offset chunk] None w of
                  (w1, Some err) \<Rightarrow> if w_panicked w1 then (w1, Some Panicked) else output_failed err w1
                | (w1, None) \<Rightarrow> (w1, None))))"

lemma stamp_single:
  "stamp h store n t [e] =
     (if n = - 1 then (None, t)
      else (Some [e\<lparr>ev_Cursor := \<lparr>cu_StoreID = store, cu_Sequence = n + 1\<rparr>, ev_At := h_now h t\<rparr>], Suc t))"
  by simp

text \<open>An empty chunk is never committed, so the loop of \<open>emit\<close> makes progress or stops.\<close>

lemma ApplyCommit_empty_output:
  assumes "ev_Kind e = EventJobOutput" and "ev_Output e = Some d" and "od_Text d = []"
  shows "\<exists>x. ApplyCommit h s \<lparr>cm_Version = 1, cm_Events = [e], cm_Receipt = r\<rparr> = Inl x"
  using assms
  by (auto simp: ApplyCommit_def apply_event_def apply_payload_def apply_output_def bad_def Let_def
      split: option.splits)

lemma commit_rejected:
  assumes "\<And>es' t. stamp h (cu_StoreID (sn_Cursor (w_state w))) (cu_Sequence (sn_Cursor (w_state w)))
      (w_ticks w) es = (Some es', t) \<Longrightarrow>
    \<exists>x. ApplyCommit h (w_state w) \<lparr>cm_Version = 1, cm_Events = es', cm_Receipt = r\<rparr> = Inl x"
  shows "snd (commit h ops es r w) \<noteq> None"
proof (cases "stamp h (cu_StoreID (sn_Cursor (w_state w))) (cu_Sequence (sn_Cursor (w_state w))) (w_ticks w) es")
  case (Pair o' t)
  show ?thesis
  proof (cases o')
    case None
    with Pair show ?thesis by (simp add: commit_def)
  next
    case (Some es')
    with assms Pair obtain x where
      "ApplyCommit h (w_state w) \<lparr>cm_Version = 1, cm_Events = es', cm_Receipt = r\<rparr> = Inl x"
      by blast
    with Some Pair show ?thesis by (cases x) (simp_all add: commit_def)
  qed
qed

lemma emit_chunk_empty: "snd (emit_chunk h ops i [] w) \<noteq> None"
proof -
  have "snd (commit h ops [outputEvent i n []] None w') \<noteq> None" for n w'
    by (rule commit_rejected)
      (auto simp: outputEvent_def split: if_splits intro: ApplyCommit_empty_output)
  then show ?thesis
    by (auto simp: emit_chunk_def output_failed_def Let_def split: option.splits prod.splits)
      (metis option.distinct(1) snd_conv)
qed

function emit_loop ::
  "host \<Rightarrow> 'st store_ops \<Rightarrow> JobID \<Rightarrow> bytes \<Rightarrow> 'st Worker \<Rightarrow> 'st Worker \<times> goerr option" where
  "emit_loop h ops i xs w =
     (if xs = [] then (w, None)
      else (case chunk_len xs of
          None \<Rightarrow> (panic w, Some Panicked)
        | Some n \<Rightarrow>
            (case emit_chunk h ops i (take n xs) w of
               (w1, Some err) \<Rightarrow> (w1, Some err)
             | (w1, None) \<Rightarrow> emit_loop h ops i (drop n xs) w1)))"
  by pat_completeness auto
termination
proof (relation "measure (\<lambda>(h, ops, i, xs, w). length xs)", goal_cases)
  case (2 h ops i xs w n)
  then have "n \<noteq> 0"
    using emit_chunk_empty [of h ops i w] by (cases n) (auto, metis option.distinct(1) snd_conv)
  with 2 show ?case by simp
qed simp

declare emit_loop.simps [simp del]

definition emit ::
  "host \<Rightarrow> 'st store_ops \<Rightarrow> JobID \<Rightarrow> bytes \<Rightarrow> 'st Worker \<Rightarrow> 'st Worker \<times> goerr option" where
  "emit h ops i xs w =
     (case w_fatal w of Some e \<Rightarrow> (w, Some e) | None \<Rightarrow>
     (case w_outputErr w of Some e \<Rightarrow> (w, Some e) | None \<Rightarrow>
      if \<not> valid_utf8 xs
      then output_failed (FaultErr (fault ErrBackendFailure ''backend output is not UTF-8'')) w
      else emit_loop h ops i xs w))"

subsection \<open>Completion\<close>

definition publicBackendError :: "goerr \<Rightarrow> Fault" where
  "publicBackendError err =
     (case errors_as err of
        Some (Some f) \<Rightarrow>
          (case ft_Code f of
             ErrInvalidRequest \<Rightarrow> fault ErrInvalidRequest ''backend rejected the request''
           | ErrUnsupported \<Rightarrow>
               fault ErrUnsupported ''backend does not support the requested operation or option''
           | ErrLimitExceeded \<Rightarrow> fault ErrLimitExceeded ''backend or worker resource limit exceeded''
           | ErrBackendUnavailable \<Rightarrow>
               (fault ErrBackendUnavailable ''backend is unavailable'')\<lparr>ft_Retryable := ft_Retryable f\<rparr>
           | ErrBackendFailure \<Rightarrow>
               (fault ErrBackendFailure ''backend operation failed'')\<lparr>ft_Retryable := ft_Retryable f\<rparr>
           | _ \<Rightarrow> fault ErrBackendFailure ''backend operation failed'')
      | _ \<Rightarrow> fault ErrBackendFailure ''backend operation failed'')"

text \<open>\<open>close(w.done)\<close> is part of \<open>w_closed\<close>: both happen here and only here.\<close>

definition closeStore :: "'st store_ops \<Rightarrow> 'st Worker \<Rightarrow> 'st Worker" where
  "closeStore ops w =
     (if w_closed w then w
      else let w1 = finish_observers None w; (st, err) = so_Close ops (w_store w1) in
        w1\<lparr>w_store := st, w_closed := True,
          w_fatal := (case (err, w_fatal w1) of (Some e, None) \<Rightarrow> Some e | _ \<Rightarrow> w_fatal w1)\<rparr>)"

text \<open>Backend metadata is bounded; the recorded text is the committed one.\<close>

definition check_metadata ::
  "host \<Rightarrow> Result \<Rightarrow> goerr option \<Rightarrow> Result \<times> goerr option" where
  "check_metadata h result err =
     (let r = result\<lparr>rs_Text := []\<rparr> in
      case marshal_result h r of
        None \<Rightarrow> (zero_Result, Some (FaultErr (fault ErrBackendFailure ''invalid or oversized backend metadata'')))
      | Some b \<Rightarrow>
          if length b > MetadataReserve div 2 \<or> \<not> valid_utf8 (rs_FinishReason r) \<or>
             \<not> valid_utf8 (rs_EffectiveModel r)
          then (zero_Result, Some (FaultErr (fault ErrBackendFailure ''invalid or oversized backend metadata'')))
          else (r, err))"

definition outcome :: "bool \<Rightarrow> JobState \<Rightarrow> goerr option \<Rightarrow> goerr option \<Rightarrow> JobState \<times> Fault option" where
  "outcome stopping state outputErr backendErr =
     (if stopping
      then (JobInterrupted, Some (fault ErrInterrupted ''service shutdown interrupted inference''))
      else if state = JobCancelling then (JobCancelled, Some (fault ErrCancelled ''job cancelled''))
      else (case outputErr of
          Some e \<Rightarrow> (JobFailed, Some (publicBackendError e))
        | None \<Rightarrow>
            (case backendErr of
               Some e \<Rightarrow> (JobFailed, Some (publicBackendError e))
             | None \<Rightarrow> (JobSucceeded, None))))"

definition finish_job ::
  "host \<Rightarrow> 'st store_ops \<Rightarrow> JobID \<Rightarrow> Result \<Rightarrow> goerr option \<Rightarrow> 'st Worker \<Rightarrow> 'st Worker" where
  "finish_job h ops i result backendErr w =
     (case clone_of w i of
        None \<Rightarrow> panic w
      | Some j0 \<Rightarrow>
          (let (r, err) = check_metadata h result backendErr;
               (state, f) = outcome (w_stopping w) (jb_State j0) (w_outputErr w) err;
               j = j0\<lparr>jb_State := state, jb_FinishedAt := Some (h_now h (w_ticks w)),
                 jb_Result := clone_result (r\<lparr>rs_Text := rs_Text (jb_Result j0)\<rparr>),
                 jb_Error := (case f of None \<Rightarrow> jb_Error j0 | Some e \<Rightarrow> Some e)\<rparr>;
               q = (clone_queue (sn_Queue (w_state w)))\<lparr>qs_Active := None\<rparr> in
           case commit h ops [jobEvent EventJobResult j, queueEvent q] None
                  (w\<lparr>w_ticks := Suc (w_ticks w)\<rparr>) of
             (w1, Some e) \<Rightarrow> if w_panicked w1 then w1 else poison e w1
           | (w1, None) \<Rightarrow> w1))"

definition complete ::
  "host \<Rightarrow> 'st store_ops \<Rightarrow> JobID \<Rightarrow> Result \<Rightarrow> goerr option \<Rightarrow> 'st Worker \<Rightarrow> 'st Worker" where
  "complete h ops i result backendErr w =
     (let w0 = w\<lparr>w_gens := filter (\<lambda>g. fst g \<noteq> i) (w_gens w)\<rparr>;
          w1 = (if w_cancel w0 then w0\<lparr>w_ctxdone := True, w_cancel := False\<rparr> else w0);
          w2 = (if w_fatal w1 = None then finish_job h ops i result backendErr w1 else w1) in
      if w_panicked w2 then w2
      else if w_stopping w2 then closeStore ops w2 else dispatch h ops w2)"

subsection \<open>Controls and queries\<close>

definition cancelJob ::
  "host \<Rightarrow> 'st store_ops \<Rightarrow> goerr option \<Rightarrow> JobID \<Rightarrow> 'st Worker \<Rightarrow> 'st Worker \<times> (goerr + Job)" where
  "cancelJob h ops ctx i w =
     (case ctx of Some e \<Rightarrow> (w, Inl e) | None \<Rightarrow>
     (case available w of Some e \<Rightarrow> (w, Inl e) | None \<Rightarrow>
     (case find_job (sn_Jobs (w_state w)) i of
        None \<Rightarrow> (w, Inl (FaultErr (fault ErrNotFound ''job not found'')))
      | Some p \<Rightarrow>
     (case Clone_job p of
        Inl _ \<Rightarrow> (panic w, Inl Panicked)
      | Inr j0 \<Rightarrow>
          if Terminal (jb_State j0) \<or> jb_State j0 = JobCancelling then (w, Inr j0)
          else
            (let q0 = clone_queue (sn_Queue (w_state w));
                 queued = (jb_State j0 = JobQueued);
                 j = (if queued
                      then j0\<lparr>jb_State := JobCancelled, jb_FinishedAt := Some (h_now h (w_ticks w)),
                        jb_Error := Some (fault ErrCancelled ''job cancelled'')\<rparr>
                      else j0\<lparr>jb_State := JobCancelling\<rparr>);
                 q = (if queued then q0\<lparr>qs_Pending := map_option (remove1 i) (qs_Pending q0)\<rparr> else q0);
                 k = (if queued then EventJobResult else EventJobState);
                 w0 = (if queued then w\<lparr>w_ticks := Suc (w_ticks w)\<rparr> else w) in
             case commit h ops [jobEvent k j, queueEvent q] None w0 of
               (w1, Some err) \<Rightarrow> (w1, Inl err)
             | (w1, None) \<Rightarrow>
                 if jb_State j = JobCancelling then
                   (let w2 = call_cancel w1 in (w2, if w_panicked w2 then Inl Panicked else Inr (clone_job j)))
                 else (w1, Inr (clone_job j)))))))"

definition setQueuePaused ::
  "host \<Rightarrow> 'st store_ops \<Rightarrow> goerr option \<Rightarrow> bool \<Rightarrow> 'st Worker \<Rightarrow> 'st Worker \<times> (goerr + QueueState)" where
  "setQueuePaused h ops ctx paused w =
     (case ctx of Some e \<Rightarrow> (w, Inl e) | None \<Rightarrow>
     (case available w of Some e \<Rightarrow> (w, Inl e) | None \<Rightarrow>
       (let q = clone_queue (sn_Queue (w_state w)) in
        case (if qs_Paused q \<noteq> paused
              then commit h ops [queueEvent (q\<lparr>qs_Paused := paused\<rparr>)] None w else (w, None)) of
          (w1, Some err) \<Rightarrow> (w1, Inl err)
        | (w1, None) \<Rightarrow>
            (let w2 = dispatch h ops w1 in
             (w2, if w_panicked w2 then Inl Panicked else Inr (clone_queue (sn_Queue (w_state w2))))))))"

definition getJob :: "goerr option \<Rightarrow> JobID \<Rightarrow> 'st Worker \<Rightarrow> goerr + Job" where
  "getJob ctx i w =
     (case ctx of Some e \<Rightarrow> Inl e | None \<Rightarrow>
     (case find_job (sn_Jobs (w_state w)) i of
        None \<Rightarrow> Inl (FaultErr (fault ErrNotFound ''job not found''))
      | Some j \<Rightarrow> Clone_job j))"

definition snapshot_encodable :: "Snapshot \<Rightarrow> bool" where
  "snapshot_encodable s = list_all job_encodable (sn_Jobs s)"

definition clone_snapshot :: "Snapshot \<Rightarrow> Snapshot" where
  "clone_snapshot s = s\<lparr>sn_Cursor := (sn_Cursor s)\<lparr>cu_StoreID := to_valid (cu_StoreID (sn_Cursor s))\<rparr>,
     sn_Queue := clone_queue (sn_Queue s), sn_Jobs := map clone_job (sn_Jobs s)\<rparr>"

definition snapshot :: "goerr option \<Rightarrow> 'st Worker \<Rightarrow> goerr + Snapshot" where
  "snapshot ctx w =
     (case ctx of Some e \<Rightarrow> Inl e
      | None \<Rightarrow> if snapshot_encodable (w_state w) then Inr (clone_snapshot (w_state w)) else Inl Panicked)"

definition model_encodable :: "Model \<Rightarrow> bool" where
  "model_encodable m =
     (opt_all time_encodable (ci_ModelCapacityObservedAt (md_Context m)) \<and>
      opt_all (\<lambda>c. time_encodable (co_ObservedAt c)) (ci_Loaded (md_Context m)))"

definition clone_model :: "Model \<Rightarrow> Model" where
  "clone_model m = m\<lparr>md_ID := to_valid (md_ID m), md_Context := clone_context (md_Context m)\<rparr>"

text \<open>\<open>models\<close> on the answer of \<open>backend.Models\<close>.\<close>

definition models :: "goerr + Model list \<Rightarrow> goerr + Model list" where
  "models answer =
     (case answer of
        Inl err \<Rightarrow> Inl (FaultErr (publicBackendError err))
      | Inr ms \<Rightarrow>
          if list_all model_encodable ms then Inr (map clone_model ms)
          else Inl (FaultErr (fault ErrBackendFailure ''invalid model metadata'')))"

subsection \<open>Shutdown\<close>

text \<open>The request \<open>Shutdown\<close> makes under the lock, and what it returns once it stops waiting:
  the context error, or the fatal error after \<open>done\<close> is closed.\<close>

definition Shutdown :: "'st store_ops \<Rightarrow> 'st Worker \<Rightarrow> 'st Worker" where
  "Shutdown ops w =
     (if w_stopping w then w
      else let w1 = w\<lparr>w_stopping := True\<rparr> in
        if w_cancel w1 then w1\<lparr>w_ctxdone := True\<rparr> else closeStore ops w1)"

definition Shutdown_wait :: "goerr option \<Rightarrow> 'st Worker \<Rightarrow> goerr option option" where
  "Shutdown_wait ctx w =
     (case ctx of Some e \<Rightarrow> Some (Some e) | None \<Rightarrow> if w_closed w then Some (w_fatal w) else None)"

subsection \<open>Startup\<close>

definition initial_worker :: "'st \<Rightarrow> Recovery \<Rightarrow> 'st Worker" where
  "initial_worker st r =
     \<lparr>w_store = st, w_state = rv_Snapshot r,
      w_receipts = fold (\<lambda>v m. m(rc_Key v \<mapsto> v)) (rv_Receipts r) Map.empty, w_streams = [],
      w_observers = [], w_cancel = False, w_ctxdone = False, w_outputErr = None, w_fatal = None,
      w_stopping = False, w_closed = False, w_gens = [], w_ticks = 0, w_draws = 0, w_panicked = False\<rparr>"

text \<open>The job that was active when the service stopped is recorded as interrupted.\<close>

definition interrupt_active ::
  "host \<Rightarrow> 'st store_ops \<Rightarrow> 'st Worker \<Rightarrow> 'st Worker \<times> goerr option" where
  "interrupt_active h ops w =
     (case qs_Active (sn_Queue (w_state w)) of
        None \<Rightarrow> (w, None)
      | Some a \<Rightarrow>
          (case clone_of w a of
             None \<Rightarrow> (panic w, Some Panicked)
           | Some j0 \<Rightarrow>
               (let j = j0\<lparr>jb_State := JobInterrupted, jb_FinishedAt := Some (h_now h (w_ticks w)),
                      jb_Error := Some (fault ErrInterrupted ''service stopped during inference'')\<rparr>;
                    q = (clone_queue (sn_Queue (w_state w)))\<lparr>qs_Active := None\<rparr> in
                commit h ops [jobEvent EventJobResult j, queueEvent q] None
                  (w\<lparr>w_ticks := Suc (w_ticks w)\<rparr>))))"

text \<open>\<open>NewWorker\<close> on a non-nil store and backend; the clock and random reads start anew.\<close>

definition NewWorker :: "host \<Rightarrow> 'st store_ops \<Rightarrow> 'st \<Rightarrow> 'st \<times> (goerr + 'st Worker)" where
  "NewWorker h ops st =
     (case so_Recover ops st None of
        (st1, Inl e) \<Rightarrow> (st1, Inl e)
      | (st1, Inr r) \<Rightarrow>
          (case interrupt_active h ops (initial_worker st1 r) of
             (w1, Some e) \<Rightarrow> (w_store w1, Inl e)
           | (w1, None) \<Rightarrow>
               (let w2 = dispatch h ops w1 in
                (w_store w2, if w_panicked w2 then Inl Panicked
                   else case w_fatal w2 of Some e \<Rightarrow> Inl e | None \<Rightarrow> Inr w2))))"

subsection \<open>Calls\<close>

text \<open>
  What the caller's context does during one \<open>call\<close>: its error on entry, its error when the
  function holds the lock, and whether the caller stops waiting first.
\<close>

record call_ctx =
  cc_entry :: "goerr option"
  cc_locked :: "goerr option"
  cc_detached :: "goerr option"

definition call ::
  "call_ctx \<Rightarrow> (goerr option \<Rightarrow> 'w \<Rightarrow> 'w \<times> (goerr + 'a)) \<Rightarrow> 'w \<Rightarrow> 'w \<times> (goerr + 'a)" where
  "call cc f w =
     (case cc_entry cc of Some e \<Rightarrow> (w, Inl e) | None \<Rightarrow>
      (let (w', r) = f (cc_locked cc) w in
       (w', case cc_detached cc of Some e \<Rightarrow> Inl e | None \<Rightarrow> r)))"

definition Submit ::
  "host \<Rightarrow> 'st store_ops \<Rightarrow> call_ctx \<Rightarrow> SubmitCommand \<Rightarrow> 'st Worker \<Rightarrow> 'st Worker \<times> (goerr + Job)" where
  "Submit h ops cc c =
     call cc (\<lambda>ctx. create h ops ctx ''submit'' (sc_Key c) (sc_Origin c) [] (sc_Request c))"

definition Retry ::
  "host \<Rightarrow> 'st store_ops \<Rightarrow> call_ctx \<Rightarrow> RetryCommand \<Rightarrow> 'st Worker \<Rightarrow> 'st Worker \<times> (goerr + Job)" where
  "Retry h ops cc c =
     call cc (\<lambda>ctx. create h ops ctx ''retry'' (rt_Key c) (rt_Origin c) (rt_ParentID c) zero_Request)"

definition Branch ::
  "host \<Rightarrow> 'st store_ops \<Rightarrow> call_ctx \<Rightarrow> BranchCommand \<Rightarrow> 'st Worker \<Rightarrow> 'st Worker \<times> (goerr + Job)" where
  "Branch h ops cc c =
     call cc (\<lambda>ctx. create h ops ctx ''branch'' (bc_Key c) (bc_Origin c) (bc_ParentID c) (bc_Request c))"

definition Cancel ::
  "host \<Rightarrow> 'st store_ops \<Rightarrow> call_ctx \<Rightarrow> JobID \<Rightarrow> 'st Worker \<Rightarrow> 'st Worker \<times> (goerr + Job)" where
  "Cancel h ops cc i = call cc (\<lambda>ctx. cancelJob h ops ctx i)"

definition SetQueuePaused ::
  "host \<Rightarrow> 'st store_ops \<Rightarrow> call_ctx \<Rightarrow> bool \<Rightarrow> 'st Worker \<Rightarrow> 'st Worker \<times> (goerr + QueueState)" where
  "SetQueuePaused h ops cc paused = call cc (\<lambda>ctx. setQueuePaused h ops ctx paused)"

end
