(* ===== verification/Disk.thy ===== *)
theory Disk
  imports Worker
begin

text \<open>
  The file of the journal as Go's \<open>os.File\<close> presents it (the methods of \<open>diskFile\<close> and
  \<open>Seek\<close>): bytes, a write position, and the outcome the operating system gives to the
  \<open>n\<close>-th call, so that every failure and every short write at every point is a case.
  \<open>writeFull\<close> of \<open>journal.go\<close>, the big-endian integers of \<open>encoding/binary\<close> and the text of
  an error are here too.
\<close>

datatype io = IoOk | IoFail goerr | IoShort int "goerr option"

record File =
  f_bytes :: bytes
  f_pos :: nat
  f_calls :: nat
  f_env :: "nat \<Rightarrow> io"

definition io_now :: "File \<Rightarrow> io" where
  "io_now f = f_env f (f_calls f)"

definition called :: "File \<Rightarrow> File" where
  "called f = f\<lparr>f_calls := Suc (f_calls f)\<rparr>"

text \<open>The error of a call that does not write.\<close>

definition io_err :: "io \<Rightarrow> goerr option" where
  "io_err r = (case r of IoOk \<Rightarrow> None | IoFail e \<Rightarrow> Some e | IoShort _ e \<Rightarrow> e)"

definition put :: "bytes \<Rightarrow> File \<Rightarrow> File" where
  "put b f = f\<lparr>f_bytes := take (f_pos f) (f_bytes f) @ b @ drop (f_pos f + length b) (f_bytes f),
     f_pos := f_pos f + length b\<rparr>"

definition file_Write :: "bytes \<Rightarrow> File \<Rightarrow> File \<times> int \<times> goerr option" where
  "file_Write b f =
     (case io_now f of
        IoOk \<Rightarrow> (put b (called f), int (length b), None)
      | IoFail e \<Rightarrow> (called f, 0, Some e)
      | IoShort n e \<Rightarrow> (put (take (nat n) b) (called f), n, e))"

definition file_ReadAt :: "nat \<Rightarrow> nat \<Rightarrow> File \<Rightarrow> File \<times> (goerr + bytes)" where
  "file_ReadAt off n f =
     (called f, case io_err (io_now f) of
        Some e \<Rightarrow> Inl e
      | None \<Rightarrow> if off + n \<le> length (f_bytes f) then Inr (take n (drop off (f_bytes f))) else Inl EOF)"

definition file_Sync :: "File \<Rightarrow> File \<times> goerr option" where
  "file_Sync f = (called f, io_err (io_now f))"

definition file_Truncate :: "nat \<Rightarrow> File \<Rightarrow> File \<times> goerr option" where
  "file_Truncate n f =
     (case io_err (io_now f) of
        Some e \<Rightarrow> (called f, Some e)
      | None \<Rightarrow> ((called f)\<lparr>f_bytes := take n (f_bytes f)\<rparr>, None))"

definition file_Seek :: "nat \<Rightarrow> File \<Rightarrow> File \<times> goerr option" where
  "file_Seek n f =
     (case io_err (io_now f) of
        Some e \<Rightarrow> (called f, Some e)
      | None \<Rightarrow> ((called f)\<lparr>f_pos := n\<rparr>, None))"

definition file_Size :: "File \<Rightarrow> File \<times> (goerr + nat)" where
  "file_Size f = (called f, case io_err (io_now f) of Some e \<Rightarrow> Inl e | None \<Rightarrow> Inr (length (f_bytes f)))"

definition file_Close :: "File \<Rightarrow> File \<times> goerr option" where
  "file_Close f = (called f, io_err (io_now f))"

subsection \<open>\<open>writeFull\<close>\<close>

definition ErrShortWrite :: goerr where
  "ErrShortWrite = OtherErr ''short write''"

function writeFull :: "bytes \<Rightarrow> File \<Rightarrow> File \<times> goerr option" where
  "writeFull b f =
     (if b = [] then (f, None)
      else (case file_Write b f of
          (f1, n, Some e) \<Rightarrow> (f1, Some e)
        | (f1, n, None) \<Rightarrow>
            if n \<le> 0 \<or> n > int (length b) then (f1, Some ErrShortWrite)
            else writeFull (drop (nat n) b) f1))"
  by pat_completeness auto
termination
  by (relation "measure (length \<circ> fst)") auto

declare writeFull.simps [simp del]

definition at_end :: "File \<Rightarrow> bool" where
  "at_end f = (f_pos f = length (f_bytes f))"

lemma called_simps [simp]:
  "f_bytes (called f) = f_bytes f" "f_pos (called f) = f_pos f" "at_end (called f) = at_end f"
  "f_env (called f) = f_env f"
  by (simp_all add: called_def at_end_def)

lemma put_end: "at_end f \<Longrightarrow> f_bytes (put b f) = f_bytes f @ b \<and> at_end (put b f)"
  by (simp add: put_def at_end_def)

lemma put_env [simp]: "f_env (put b f) = f_env f"
  by (simp add: put_def)

lemma take_min: "take (min n (length b)) b = take n b"
  by (simp add: min_def)

lemma file_Write_end:
  assumes "at_end f" and "file_Write b f = (f', n, e)"
  shows "at_end f' \<and> (\<exists>k\<le>length b. f_bytes f' = f_bytes f @ take k b \<and>
    (e = None \<and> 0 < n \<and> n \<le> int (length b) \<longrightarrow> k = nat n)) \<and> f_env f' = f_env f"
proof (cases "io_now f")
  case IoOk
  then show ?thesis using assms put_end [of "called f" b] by (auto simp: file_Write_def put_def)
next
  case (IoFail x)
  then show ?thesis using assms by (auto simp: file_Write_def intro: exI [of _ 0])
next
  case (IoShort m x)
  then have f': "f' = put (take (nat m) b) (called f)" and "m = n"
    using assms(2) by (auto simp: file_Write_def)
  from f' have "f_bytes f' = f_bytes f @ take (min (nat m) (length b)) b" "at_end f'" "f_env f' = f_env f"
    using put_end [of "called f" "take (nat m) b"] assms(1) by (simp_all add: take_min)
  moreover have "min (nat m) (length b) = nat n" if "e = None \<and> 0 < n \<and> n \<le> int (length b)"
    using that \<open>m = n\<close> by (simp add: min_def nat_le_iff)
  ultimately show ?thesis by (intro conjI exI [of _ "min (nat m) (length b)"]) auto
qed

text \<open>
  Whatever happens, a write at the end of the file leaves the old contents followed by a
  prefix of the new bytes, all of them exactly when it reports success.
\<close>

lemma writeFull_prefix:
  assumes "at_end f" and "writeFull b f = (f', r)"
  shows "at_end f' \<and> f_env f' = f_env f \<and>
    (\<exists>k\<le>length b. f_bytes f' = f_bytes f @ take k b \<and> (r = None \<longrightarrow> k = length b))"
  using assms
proof (induction b f arbitrary: f' r rule: writeFull.induct)
  case (1 b f)
  show ?case
  proof (cases "b = []")
    case True
    then show ?thesis using 1 by (simp add: writeFull.simps)
  next
    case False
    obtain f1 n e where w: "file_Write b f = (f1, n, e)" by (cases "file_Write b f") auto
    note k = file_Write_end [OF 1(2) w]
    show ?thesis
    proof (cases "e = None \<and> 0 < n \<and> n \<le> int (length b)")
      case True
      then have rec: "writeFull (drop (nat n) b) f1 = (f', r)"
        using 1(3) False w by (simp add: writeFull.simps [of b f])
      from True k have f1: "f_bytes f1 = f_bytes f @ take (nat n) b" "at_end f1" "f_env f1 = f_env f" by auto
      from True False w have guard: "\<not> (n \<le> 0 \<or> int (length b) < n)" by auto
      from 1(1) [OF False w [symmetric] refl _ guard f1(2) rec] True obtain m where
        m: "m \<le> length (drop (nat n) b)" "f_bytes f' = f_bytes f1 @ take m (drop (nat n) b)"
          "r = None \<longrightarrow> m = length (drop (nat n) b)" "at_end f'" "f_env f' = f_env f1"
        by auto
      have "take (nat n) b @ take m (drop (nat n) b) = take (nat n + m) b"
        by (simp add: take_add)
      then show ?thesis using m f1 True by (auto intro!: exI [of _ "nat n + m"])
    next
      case bad: False
      then have "f' = f1 \<and> r \<noteq> None"
        using 1(3) False w by (cases e) (auto simp: writeFull.simps [of b f] split: if_splits)
      then show ?thesis using k by auto
    qed
  qed
qed

text \<open>A file whose calls all succeed takes everything.\<close>

definition calm :: "File \<Rightarrow> bool" where
  "calm f = (\<forall>n. f_env f n = IoOk)"

lemma writeFull_calm: "calm f \<Longrightarrow> snd (writeFull b f) = None"
  by (cases "b = []") (auto simp: writeFull.simps [of b] writeFull.simps [of "[]"] file_Write_def io_now_def calm_def)

subsection \<open>Big-endian integers\<close>

definition be32 :: "nat \<Rightarrow> bytes" where
  "be32 n = [char_of (n div 16777216 mod 256), char_of (n div 65536 mod 256), char_of (n div 256 mod 256),
     char_of (n mod 256)]"

definition of_be32 :: "bytes \<Rightarrow> nat" where
  "of_be32 b = foldl (\<lambda>v c. v * 256 + byte c) 0 b"

lemma length_be32 [simp]: "length (be32 n) = 4"
  by (simp add: be32_def)

lemma of_be32_be32: "n < 4294967296 \<Longrightarrow> of_be32 (be32 n) = n"
proof -
  assume "n < 4294967296"
  then have "n div 16777216 mod 256 = n div 16777216" by simp
  moreover have "n div 16777216 = n div 65536 div 256" "n div 65536 = n div 256 div 256"
    by (simp_all flip: div_mult2_eq)
  ultimately show ?thesis
    using div_mult_mod_eq [of "n div 65536" 256] div_mult_mod_eq [of "n div 256" 256] div_mult_mod_eq [of n 256]
    by (simp add: of_be32_def be32_def)
qed

subsection \<open>Errors\<close>

text \<open>\<open>fmt.Sprintf("%v", err)\<close>; the text of a fault is that of \<open>(*Fault).Error\<close>.\<close>

definition fault_Error :: "Fault \<Rightarrow> bytes" where
  "fault_Error f = code_str (ft_Code f) @ '': '' @ ft_Message f"

fun err_text :: "goerr \<Rightarrow> bytes" where
  "err_text (FaultErr f) = fault_Error f"
| "err_text NilFault = ''<nil>''"
| "err_text Canceled = ''context canceled''"
| "err_text DeadlineExceeded = ''context deadline exceeded''"
| "err_text EOF = ''EOF''"
| "err_text (OtherErr t) = t"
| "err_text (Wrapped t e) = t"
| "err_text Panicked = []"

text \<open>\<open>errors.Join\<close>: nil when both are nil; \<open>errors.As\<close> finds the first match.\<close>

definition errors_Join :: "goerr option \<Rightarrow> goerr option \<Rightarrow> goerr option" where
  "errors_Join a b =
     (case (a, b) of
        (None, None) \<Rightarrow> None
      | (Some x, None) \<Rightarrow> Some (Wrapped (err_text x) x)
      | (None, Some y) \<Rightarrow> Some (Wrapped (err_text y) y)
      | (Some x, Some y) \<Rightarrow> Some (Wrapped (err_text x @ CHR 0x0A # err_text y)
          (if errors_as x \<noteq> None then x else y)))"

end
