(* ===== verification/Parse.thy ===== *)
theory Parse
  imports Json
begin

text \<open>
  Reading JSON text back. The parser accepts the compact form \<open>json.Marshal\<close> writes, which is
  all the journal needs: \<open>decode\<close> in \<open>journal.go\<close> refuses every record that is not the exact
  output of \<open>json.Marshal\<close>, so the white space, field order and escapes that Go's decoder
  tolerates beyond this form are rejected there as well.
\<close>

subsection \<open>Strings\<close>

definition unhex :: "char \<Rightarrow> nat option" where
  "unhex c =
     (if 48 \<le> byte c \<and> byte c \<le> 57 then Some (byte c - 48)
      else if 97 \<le> byte c \<and> byte c \<le> 102 then Some (byte c - 87)
      else if 65 \<le> byte c \<and> byte c \<le> 70 then Some (byte c - 55) else None)"

text \<open>The UTF-8 form of a code point of the basic plane that is not a surrogate.\<close>

definition utf8_encode :: "nat \<Rightarrow> bytes option" where
  "utf8_encode n =
     (if n < 0x80 then Some [char_of n]
      else if n < 0x800 then Some [char_of (0xC0 + n div 64), char_of (0x80 + n mod 64)]
      else if 0xD800 \<le> n \<and> n < 0xE000 then None
      else Some [char_of (0xE0 + n div 4096), char_of (0x80 + n div 64 mod 64), char_of (0x80 + n mod 64)])"

definition hex4 :: "char \<Rightarrow> char \<Rightarrow> char \<Rightarrow> char \<Rightarrow> bytes option" where
  "hex4 a b c d =
     (case (unhex a, unhex b, unhex c, unhex d) of
        (Some i, Some j, Some k, Some l) \<Rightarrow> utf8_encode (4096 * i + 256 * j + 16 * k + l)
      | _ \<Rightarrow> None)"

definition simple_escape :: "char \<Rightarrow> char option" where
  "simple_escape e =
     (if e = CHR 0x22 \<or> e = CHR 0x5C \<or> e = CHR ''/'' then Some e
      else if e = CHR ''b'' then Some (CHR 0x08) else if e = CHR ''f'' then Some (CHR 0x0C)
      else if e = CHR ''n'' then Some (CHR 0x0A) else if e = CHR ''r'' then Some (CHR 0x0D)
      else if e = CHR ''t'' then Some (CHR 0x09) else None)"

text \<open>The rest of a string literal up to its closing quote, and what follows it.\<close>

fun unescape :: "bytes \<Rightarrow> (bytes \<times> bytes) option" where
  "unescape [] = None"
| "unescape (c # cs) =
     (if c = CHR 0x22 then Some ([], cs)
      else if c \<noteq> CHR 0x5C then
        (if byte c < 0x20 then None else map_option (apfst ((#) c)) (unescape cs))
      else (case cs of
          [] \<Rightarrow> None
        | e # ds \<Rightarrow>
            if e = CHR ''u'' then
              (case ds of
                 w # x # y # z # es \<Rightarrow>
                   (case hex4 w x y z of None \<Rightarrow> None | Some b \<Rightarrow> map_option (apfst ((@) b)) (unescape es))
               | _ \<Rightarrow> None)
            else (case simple_escape e of None \<Rightarrow> None
                | Some d \<Rightarrow> map_option (apfst ((#) d)) (unescape ds))))"

lemma char_consts:
  "char_of (34 :: nat) = CHR 0x22" "char_of (92 :: nat) = CHR 0x5C" "char_of (8 :: nat) = CHR 0x08"
  "char_of (12 :: nat) = CHR 0x0C" "char_of (10 :: nat) = CHR 0x0A" "char_of (13 :: nat) = CHR 0x0D"
  "char_of (9 :: nat) = CHR 0x09" "char_of (226 :: nat) = CHR 0xE2" "char_of (128 :: nat) = CHR 0x80"
  "char_of (168 :: nat) = CHR 0xA8" "char_of (169 :: nat) = CHR 0xA9"
  by code_simp+

lemma unescape_raw:
  "list_all (\<lambda>c. 0x80 \<le> byte c) xs \<Longrightarrow> unescape (xs @ r) = map_option (apfst ((@) xs)) (unescape r)"
proof (induction xs)
  case Nil
  show ?case by (cases "unescape r") auto
next
  case (Cons c xs)
  then have "c \<noteq> CHR 0x22" "c \<noteq> CHR 0x5C" "\<not> byte c < 0x20" by auto
  with Cons show ?case by (cases "unescape r") auto
qed

lemma unhex_digit: "d < 16 \<Longrightarrow> unhex (hex_digit d) = Some d"
  by (auto simp: unhex_def hex_digit_def)

lemma unescape_ascii:
  assumes "byte c < 0x80"
  shows "unescape (esc_ascii c @ r) = map_option (apfst ((#) c)) (unescape r)"
proof -
  have special: "unescape ([CHR 0x5C, CHR ''u'', CHR ''0'', CHR ''0''] @ hex_byte c @ r)
      = map_option (apfst ((#) c)) (unescape r)"
  proof -
    have "byte c div 16 < 16" "byte c mod 16 < 16" using assms by auto
    then have "unhex (hex_digit (byte c div 16)) = Some (byte c div 16)"
        "unhex (hex_digit (byte c mod 16)) = Some (byte c mod 16)" by (simp_all add: unhex_digit)
    moreover have "unhex (CHR ''0'') = Some 0" by (simp add: unhex_def)
    moreover have "utf8_encode (byte c) = Some [c]" using assms by (simp add: utf8_encode_def)
    ultimately have "hex4 (CHR ''0'') (CHR ''0'') (hex_digit (byte c div 16)) (hex_digit (byte c mod 16)) = Some [c]"
      by (simp add: hex4_def)
    then show ?thesis by (cases "unescape r") (auto simp: hex_byte_def)
  qed
  have cs: "byte c = n \<Longrightarrow> c = char_of n" for n by auto
  have "byte c \<in> {0x22, 0x5C, 0x08, 0x0C, 0x0A, 0x0D, 0x09} \<or>
      esc_ascii c = [CHR 0x5C, CHR ''u'', CHR ''0'', CHR ''0''] @ hex_byte c \<or>
      esc_ascii c = [c] \<and> byte c \<noteq> 0x22 \<and> byte c \<noteq> 0x5C \<and> \<not> byte c < 0x20"
    by (auto simp: esc_ascii_def Let_def)
  then consider "byte c = 0x22" | "byte c = 0x5C" | "byte c = 0x08" | "byte c = 0x0C" | "byte c = 0x0A"
    | "byte c = 0x0D" | "byte c = 0x09"
    | "esc_ascii c = [CHR 0x5C, CHR ''u'', CHR ''0'', CHR ''0''] @ hex_byte c"
    | "esc_ascii c = [c]" "byte c \<noteq> 0x22" "byte c \<noteq> 0x5C" "\<not> byte c < 0x20"
    by blast
  then show ?thesis
  proof cases
    case 8
    with special show ?thesis by (metis append.assoc)
  next
    case 9
    then have "c \<noteq> CHR 0x22" "c \<noteq> CHR 0x5C" by auto
    with 9 show ?thesis by simp
  qed (drule cs, simp add: char_consts esc_ascii_def simple_escape_def)+
qed

lemma rune_len_high:
  assumes "rune_len s = Some n" and "n \<noteq> 1"
  shows "list_all (\<lambda>c. 0x80 \<le> byte c) (take n s)"
proof -
  have b: "0 < n" "n \<le> length s" using rune_len_bounds [OF assms(1)] by auto
  have "0x80 \<le> byte (s ! i)" if "i < n" for i
  proof (cases i)
    case 0
    obtain c r where s: "s = c # r" using b by (cases s) auto
    with assms rune_len_ascii [of c r] 0 show ?thesis by (cases "byte c < 0x80") auto
  next
    case (Suc j)
    have "cont (s ! i)" using rune_len_cont [OF assms(1)] that Suc by auto
    then show ?thesis by (simp add: cont_def)
  qed
  then show ?thesis using b(2) by (simp add: list_all_length)
qed

text \<open>Reading an escaped string gives the string back.\<close>

lemma unescape_escape:
  assumes "valid_utf8 s"
  shows "unescape (escape s @ CHR 0x22 # r) = Some (s, r)"
  using assms
proof (induction rule: valid_utf8_induct)
  case (Rune s n)
  note b = rune_len_bounds [OF Rune.hyps(1)]
  then obtain c t where s: "s = c # t" by (cases s) auto
  have e: "escape s = (if n = 1 then esc_ascii (hd s)
           else if take n s = [CHR 0xE2, CHR 0x80, CHR 0xA8] then CHR 0x5C # ''u2028''
           else if take n s = [CHR 0xE2, CHR 0x80, CHR 0xA9] then CHR 0x5C # ''u2029''
           else take n s) @ escape (drop n s)"
    using Rune.hyps(1) s by (subst escape.simps) simp
  have sd: "s = take n s @ drop n s" by simp
  have ls: "hex4 (CHR ''2'') (CHR ''0'') (CHR ''2'') (CHR ''8'') = Some [CHR 0xE2, CHR 0x80, CHR 0xA8]"
    "hex4 (CHR ''2'') (CHR ''0'') (CHR ''2'') (CHR ''9'') = Some [CHR 0xE2, CHR 0x80, CHR 0xA9]"
    by (simp_all add: hex4_def unhex_def utf8_encode_def char_consts)
  show ?case
  proof (cases "n = 1")
    case True
    have "byte c < 0x80"
      using Rune.hyps(1) True s by (auto simp: rune_len_def rune_size_def Let_def split: if_splits)
    with unescape_ascii [of c] Rune.IH e True s show ?thesis by simp
  next
    case False
    show ?thesis
    proof (cases "take n s = [CHR 0xE2, CHR 0x80, CHR 0xA8] \<or> take n s = [CHR 0xE2, CHR 0x80, CHR 0xA9]")
      case True
      have p: "u @ drop n s = s" if "take n s = u" for u using sd that by simp
      from True show ?thesis
      proof
        assume u: "take n s = [CHR 0xE2, CHR 0x80, CHR 0xA8]"
        with e False Rune.IH ls p [OF u] show ?thesis by simp
      next
        assume u: "take n s = [CHR 0xE2, CHR 0x80, CHR 0xA9]"
        with e False Rune.IH ls p [OF u] show ?thesis by simp
      qed
    next
      case plain: False
      then have "escape s = take n s @ escape (drop n s)" using e False by simp
      then show ?thesis
        using unescape_raw [OF rune_len_high [OF Rune.hyps(1) False]] Rune.IH by simp
    qed
  qed
qed simp

subsection \<open>Values\<close>

definition num_char :: "char \<Rightarrow> bool" where
  "num_char c = (c \<in> set ''0123456789+-.eE'')"

text \<open>
  Recursive descent with fuel: each call uses one unit, and twice the length of the input
  plus two is enough for every text \<open>json_text\<close> writes.
\<close>

fun parse_value :: "nat \<Rightarrow> bytes \<Rightarrow> (json \<times> bytes) option"
  and parse_elems :: "nat \<Rightarrow> bytes \<Rightarrow> (json list \<times> bytes) option"
  and parse_members :: "nat \<Rightarrow> bytes \<Rightarrow> ((bytes \<times> json) list \<times> bytes) option" where
  "parse_value 0 s = None"
| "parse_value (Suc n) s =
     (case s of
        [] \<Rightarrow> None
      | c # cs \<Rightarrow>
          if c = CHR 0x22 then map_option (apfst JStr) (unescape cs)
          else if c = CHR ''['' then
            (if cs \<noteq> [] \<and> hd cs = CHR '']'' then Some (JArr [], tl cs)
             else map_option (apfst JArr) (parse_elems n cs))
          else if c = CHR 0x7B then
            (if cs \<noteq> [] \<and> hd cs = CHR 0x7D then Some (JObj [], tl cs)
             else map_option (apfst JObj) (parse_members n cs))
          else if take 4 s = ''null'' then Some (JNull, drop 4 s)
          else if take 4 s = ''true'' then Some (JBool True, drop 4 s)
          else if take 5 s = ''false'' then Some (JBool False, drop 5 s)
          else if num_char c then Some (JNum (takeWhile num_char s), dropWhile num_char s)
          else None)"
| "parse_elems 0 s = None"
| "parse_elems (Suc n) s =
     (case parse_value n s of
        None \<Rightarrow> None
      | Some (v, r) \<Rightarrow>
          (case r of
             [] \<Rightarrow> None
           | c # r' \<Rightarrow>
               if c = CHR '','' then map_option (apfst ((#) v)) (parse_elems n r')
               else if c = CHR '']'' then Some ([v], r') else None))"
| "parse_members 0 s = None"
| "parse_members (Suc n) s =
     (case s of
        [] \<Rightarrow> None
      | q # cs \<Rightarrow>
          if q \<noteq> CHR 0x22 then None
          else (case unescape cs of
              None \<Rightarrow> None
            | Some (k, r0) \<Rightarrow>
                if r0 = [] \<or> hd r0 \<noteq> CHR '':'' then None
                else (case parse_value n (tl r0) of
                    None \<Rightarrow> None
                  | Some (v, r) \<Rightarrow>
                      (case r of
                         [] \<Rightarrow> None
                       | c # r' \<Rightarrow>
                           if c = CHR '','' then map_option (apfst ((#) (k, v))) (parse_members n r')
                           else if c = CHR 0x7D then Some ([(k, v)], r') else None))))"

definition parse_json :: "bytes \<Rightarrow> json option" where
  "parse_json s = (case parse_value (2 * length s + 2) s of Some (v, []) \<Rightarrow> Some v | _ \<Rightarrow> None)"

text \<open>Values whose text reads back: valid strings, number tokens.\<close>

definition num_token :: "bytes \<Rightarrow> bool" where
  "num_token t = (t \<noteq> [] \<and> list_all num_char t)"

fun json_ok :: "json \<Rightarrow> bool" where
  "json_ok JNull = True"
| "json_ok (JBool b) = True"
| "json_ok (JNum t) = num_token t"
| "json_ok (JStr s) = valid_utf8 s"
| "json_ok (JArr vs) = list_all json_ok vs"
| "json_ok (JObj fs) = list_all (\<lambda>kv. valid_utf8 (fst kv) \<and> json_ok (snd kv)) fs"

fun json_fuel :: "json \<Rightarrow> nat" where
  "json_fuel (JArr vs) = Suc (sum_list (map (\<lambda>v. Suc (json_fuel v)) vs))"
| "json_fuel (JObj fs) = Suc (sum_list (map (\<lambda>kv. Suc (json_fuel (snd kv))) fs))"
| "json_fuel _ = 1"

definition no_num :: "bytes \<Rightarrow> bool" where
  "no_num r = (r = [] \<or> \<not> num_char (hd r))"

lemma takeWhile_num:
  assumes "list_all num_char t" and "no_num r"
  shows "takeWhile num_char (t @ r) = t" and "dropWhile num_char (t @ r) = r"
  using assms by (induction t) (cases r; auto simp: no_num_def)+

lemma num_char_not:
  "\<not> num_char (CHR 0x22)" "\<not> num_char (CHR ''['')" "\<not> num_char (CHR 0x7B)" "\<not> num_char (CHR ''n'')"
  "\<not> num_char (CHR ''t'')" "\<not> num_char (CHR ''f'')" "\<not> num_char (CHR '','')" "\<not> num_char (CHR '']'')"
  "\<not> num_char (CHR 0x7D)" "\<not> num_char (CHR '':'')"
  by (simp_all add: num_char_def)

lemma json_text_hd:
  assumes "json_ok v"
  shows "json_text v \<noteq> []" and "hd (json_text v) \<noteq> CHR '']''" and "hd (json_text v) \<noteq> CHR 0x7D"
proof -
  have "json_text v \<noteq> [] \<and> hd (json_text v) \<noteq> CHR '']'' \<and> hd (json_text v) \<noteq> CHR 0x7D"
  proof (cases v)
    case (JNum t)
    with assms have "t \<noteq> []" "num_char (hd t)" by (cases t; simp add: num_token_def)+
    with JNum show ?thesis using num_char_not(8,9) by auto
  qed (auto simp: json_string_def)
  then show "json_text v \<noteq> []" "hd (json_text v) \<noteq> CHR '']''" "hd (json_text v) \<noteq> CHR 0x7D" by simp_all
qed

lemma commas_Cons: "commas (x # xs) = x @ (if xs = [] then [] else CHR '','' # commas xs)"
  by (cases xs) simp_all

lemma parse_elems_text:
  assumes "vs \<noteq> []" and "\<forall>v\<in>set vs. \<forall>n r. json_fuel v \<le> n \<longrightarrow> no_num r \<longrightarrow> parse_value n (json_text v @ r) = Some (v, r)"
    and "sum_list (map (\<lambda>v. Suc (json_fuel v)) vs) \<le> n"
  shows "parse_elems n (commas (map json_text vs) @ CHR '']'' # r) = Some (vs, r)"
  using assms
proof (induction vs arbitrary: n)
  case (Cons v vs)
  then obtain m where n: "n = Suc m" "json_fuel v \<le> m" "sum_list (map (\<lambda>v. Suc (json_fuel v)) vs) \<le> m"
    by (cases n) auto
  show ?case
  proof (cases "vs = []")
    case True
    have "parse_value m (json_text v @ CHR '']'' # r) = Some (v, CHR '']'' # r)"
      using Cons.prems(2) n(2) num_char_not(8) by (simp add: no_num_def)
    with True n(1) show ?thesis by simp
  next
    case False
    let ?r = "CHR '','' # commas (map json_text vs) @ CHR '']'' # r"
    have "parse_value m (json_text v @ ?r) = Some (v, ?r)"
      using Cons.prems(2) n(2) num_char_not(7) by (simp add: no_num_def)
    with Cons.IH [OF False _ n(3)] Cons.prems(2) False n(1) show ?thesis by (simp add: commas_Cons)
  qed
qed simp

definition member_text :: "bytes \<times> json \<Rightarrow> bytes" where
  "member_text kv = json_string (fst kv) @ CHR '':'' # json_text (snd kv)"

lemma parse_members_text:
  assumes "fs \<noteq> []" and "\<forall>kv\<in>set fs. valid_utf8 (fst kv) \<and> (\<forall>n r. json_fuel (snd kv) \<le> n \<longrightarrow> no_num r \<longrightarrow>
      parse_value n (json_text (snd kv) @ r) = Some (snd kv, r))"
    and "sum_list (map (\<lambda>kv. Suc (json_fuel (snd kv))) fs) \<le> n"
  shows "parse_members n (commas (map member_text fs) @ CHR 0x7D # r) = Some (fs, r)"
  using assms
proof (induction fs arbitrary: n)
  case (Cons kv fs)
  obtain k v where kv: "kv = (k, v)" by (cases kv)
  from Cons.prems(3) kv obtain m where n: "n = Suc m" "json_fuel v \<le> m" "sum_list (map (\<lambda>kv. Suc (json_fuel (snd kv))) fs) \<le> m"
    by (cases n) auto
  have k: "unescape (escape k @ CHR 0x22 # x) = Some (k, x)" for x
    using Cons.prems(2) kv by (intro unescape_escape) simp
  have v: "no_num x \<Longrightarrow> parse_value m (json_text v @ x) = Some (v, x)" for x
    using Cons.prems(2) kv n(2) by simp
  show ?case
  proof (cases "fs = []")
    case True
    have "parse_value m (json_text v @ CHR 0x7D # r) = Some (v, CHR 0x7D # r)"
      using num_char_not(9) by (intro v) (simp add: no_num_def)
    with True n(1) kv k show ?thesis by (simp add: member_text_def json_string_def)
  next
    case False
    let ?r = "CHR '','' # commas (map member_text fs) @ CHR 0x7D # r"
    have "parse_value m (json_text v @ ?r) = Some (v, ?r)"
      using num_char_not(7) by (intro v) (simp add: no_num_def)
    moreover have "member_text kv = CHR 0x22 # escape k @ CHR 0x22 # CHR '':'' # json_text v"
      by (simp add: kv member_text_def json_string_def)
    ultimately show ?thesis
      using Cons.IH [OF False _ n(3)] Cons.prems(2) False n(1) kv k by (simp add: commas_Cons)
  qed
qed simp

lemma json_text_obj: "json_text (JObj fs) = CHR 0x7B # commas (map member_text fs) @ [CHR 0x7D]"
  by (simp add: member_text_def [abs_def])

lemma parse_value_text:
  assumes "json_ok v" and "json_fuel v \<le> n" and "no_num r"
  shows "parse_value n (json_text v @ r) = Some (v, r)"
  using assms
proof (induction v arbitrary: n r)
  case (JNum t)
  then obtain m c t' where n: "n = Suc m" "t = c # t'" "num_char c" by (cases n; cases t) (auto simp: num_token_def)
  moreover have "c \<noteq> CHR 0x22" "c \<noteq> CHR ''[''" "c \<noteq> CHR 0x7B" "c \<noteq> CHR ''n''" "c \<noteq> CHR ''t''" "c \<noteq> CHR ''f''"
    using n(3) num_char_not by auto
  moreover have "list_all num_char t" using JNum.prems(1) by (simp add: num_token_def)
  note takeWhile_num [OF this JNum.prems(3)]
  ultimately show ?case by simp
next
  case (JStr s)
  then show ?case by (cases n) (auto simp: json_string_def unescape_escape)
next
  case (JArr vs)
  then obtain m where n: "n = Suc m" "sum_list (map (\<lambda>v. Suc (json_fuel v)) vs) \<le> m" by (cases n) auto
  show ?case
  proof (cases "vs = []")
    case False
    have "parse_elems m (commas (map json_text vs) @ CHR '']'' # r) = Some (vs, r)"
      using JArr.IH JArr.prems(1) n(2) False by (intro parse_elems_text) (auto simp: list_all_iff)
    moreover obtain v vs' where "vs = v # vs'" using False by (cases vs) auto
    then have "commas (map json_text vs) \<noteq> []" "hd (commas (map json_text vs)) \<noteq> CHR '']''"
      using json_text_hd [of v] JArr.prems(1) by (simp_all add: commas_Cons)
    ultimately show ?thesis using n(1) by simp
  qed (use n in simp)
next
  case (JObj fs)
  then obtain m where n: "n = Suc m" "sum_list (map (\<lambda>kv. Suc (json_fuel (snd kv))) fs) \<le> m" by (cases n) auto
  show ?case
  proof (cases "fs = []")
    case False
    have "parse_members m (commas (map member_text fs) @ CHR 0x7D # r) = Some (fs, r)"
    proof (rule parse_members_text [OF False _ n(2)], intro ballI conjI allI impI)
      fix kv assume kv: "kv \<in> set fs"
      then show "valid_utf8 (fst kv)" using JObj.prems(1) by (auto simp: list_all_iff)
      fix n r assume "json_fuel (snd kv) \<le> n" "no_num r"
      moreover have "json_ok (snd kv)" using kv JObj.prems(1) by (auto simp: list_all_iff)
      ultimately show "parse_value n (json_text (snd kv) @ r) = Some (snd kv, r)"
        using JObj.IH [of kv "snd kv"] kv by (cases kv) (simp add: snds.intros)
    qed
    moreover obtain f fs' where "fs = f # fs'" using False by (cases fs) auto
    then have "commas (map member_text fs) \<noteq> []" "hd (commas (map member_text fs)) \<noteq> CHR 0x7D"
      by (simp_all add: commas_Cons member_text_def json_string_def)
    ultimately show ?thesis using n(1) unfolding json_text_obj by simp
  qed (use n in simp)
qed (auto simp: Suc_le_eq gr0_conv_Suc)

lemma json_fuel_bound: "json_ok v \<Longrightarrow> json_fuel v \<le> 2 * length (json_text v)"
proof (induction v)
  case (JArr vs)
  have "sum_list (map (\<lambda>v. Suc (json_fuel v)) vs) \<le> 2 * sum_list (map (length \<circ> json_text) vs) + length vs"
    using JArr by (induction vs) (fastforce simp: list_all_iff)+
  then show ?case by (simp add: commas_length)
next
  case (JObj fs)
  have "json_fuel (snd kv) \<le> 2 * length (member_text kv)" if "kv \<in> set fs" for kv
    using JObj.IH [of kv "snd kv"] JObj.prems that by (auto simp: list_all_iff member_text_def snds.intros)
  then have "sum_list (map (\<lambda>kv. Suc (json_fuel (snd kv))) fs) \<le> 2 * sum_list (map (length \<circ> member_text) fs) + length fs"
    by (induction fs) fastforce+
  then show ?case unfolding json_text_obj by (simp add: commas_length)
qed (auto simp: json_string_def num_token_def Suc_le_eq)

text \<open>Parsing inverts printing.\<close>

lemma parse_json_text: "json_ok v \<Longrightarrow> parse_json (json_text v) = Some v"
  using parse_value_text [of v "2 * length (json_text v) + 2" "[]"] json_fuel_bound [of v]
  by (simp add: parse_json_def no_num_def)

end
