(* ===== verification/Decode.thy ===== *)
theory Decode
  imports Reducer Parse "HOL-Library.Monad_Syntax"
begin

text \<open>
  Decoding the contract types from JSON values, the reverse of the theory \<open>Encoding\<close>: one
  decoder per struct that takes its members in declaration order, allows exactly the
  \<open>omitempty\<close> ones to be absent and refuses unknown members. The round trip holds for every
  value in canonical form: valid UTF-8, encodable floats and instants.
\<close>

subsection \<open>Members\<close>

fun obj_of :: "json \<Rightarrow> (bytes \<times> json) list option" where
  "obj_of (JObj fs) = Some fs" | "obj_of _ = None"

fun str_of :: "json \<Rightarrow> bytes option" where
  "str_of (JStr s) = Some s" | "str_of _ = None"

fun bool_of :: "json \<Rightarrow> bool option" where
  "bool_of (JBool b) = Some b" | "bool_of _ = None"

definition parse_int :: "bytes \<Rightarrow> int option" where
  "parse_int t =
     (case t of
        [] \<Rightarrow> None
      | c # ds \<Rightarrow>
          if c = CHR ''-'' then (if ds \<noteq> [] \<and> list_all is_digit ds then Some (- int (dec_val ds)) else None)
          else if list_all is_digit t then Some (int (dec_val t)) else None)"

fun int_of :: "json \<Rightarrow> int option" where
  "int_of (JNum t) = parse_int t" | "int_of _ = None"

fun float_of :: "host \<Rightarrow> json \<Rightarrow> f64 option" where
  "float_of h (JNum t) = h_unfloat h t" | "float_of h _ = None"

fun time_of :: "host \<Rightarrow> json \<Rightarrow> time option" where
  "time_of h (JStr s) = h_untime h s" | "time_of h _ = None"

fun opts_of :: "('a \<Rightarrow> 'b option) \<Rightarrow> 'a list \<Rightarrow> 'b list option" where
  "opts_of d [] = Some []"
| "opts_of d (x # xs) = (case d x of None \<Rightarrow> None | Some y \<Rightarrow> map_option ((#) y) (opts_of d xs))"

fun arr_of :: "(json \<Rightarrow> 'a option) \<Rightarrow> json \<Rightarrow> 'a list option" where
  "arr_of d (JArr vs) = opts_of d vs" | "arr_of d _ = None"

definition req :: "bytes \<Rightarrow> (json \<Rightarrow> 'a option) \<Rightarrow> (bytes \<times> json) list \<Rightarrow> ('a \<times> (bytes \<times> json) list) option" where
  "req k d fs =
     (case fs of [] \<Rightarrow> None
      | (k', v) # fs' \<Rightarrow> if k' = k then map_option (\<lambda>x. (x, fs')) (d v) else None)"

definition opt :: "bytes \<Rightarrow> (json \<Rightarrow> 'a option) \<Rightarrow> (bytes \<times> json) list \<Rightarrow> ('a option \<times> (bytes \<times> json) list) option" where
  "opt k d fs =
     (case fs of [] \<Rightarrow> Some (None, [])
      | (k', v) # fs' \<Rightarrow> if k' = k then map_option (\<lambda>x. (Some x, fs')) (d v) else Some (None, fs))"

text \<open>A member with \<open>omitempty\<close> whose zero value is \<open>z\<close>.\<close>

definition dflt :: "bytes \<Rightarrow> 'a \<Rightarrow> (json \<Rightarrow> 'a option) \<Rightarrow> (bytes \<times> json) list \<Rightarrow> ('a \<times> (bytes \<times> json) list) option" where
  "dflt k z d fs =
     (case opt k d fs of None \<Rightarrow> None | Some (x, fs') \<Rightarrow> Some (case x of None \<Rightarrow> z | Some v \<Rightarrow> v, fs'))"

definition whole :: "(bytes \<times> json) list \<Rightarrow> 'a \<Rightarrow> 'a option" where
  "whole fs x = (if fs = [] then Some x else None)"

subsection \<open>Named constants\<close>

definition named :: "('a \<Rightarrow> bytes) \<Rightarrow> 'a list \<Rightarrow> (bytes \<Rightarrow> 'a) \<Rightarrow> bytes \<Rightarrow> 'a" where
  "named text known other s = (case find (\<lambda>x. text x = s) known of Some x \<Rightarrow> x | None \<Rightarrow> other s)"

definition code_of :: "bytes \<Rightarrow> ErrorCode" where
  "code_of = named code_str [ErrInvalidRequest, ErrNotFound, ErrConflict, ErrQueueFull, ErrLimitExceeded,
     ErrUnsupported, ErrBackendUnavailable, ErrBackendFailure, ErrCancelled, ErrInterrupted,
     ErrCursorExpired, ErrCursorInvalid, ErrSlowConsumer, ErrStorage, ErrUnavailable, ErrInternal] OtherCode"

definition state_of :: "bytes \<Rightarrow> JobState" where
  "state_of = named state_str [JobQueued, JobRunning, JobCancelling, JobSucceeded, JobFailed, JobCancelled,
     JobInterrupted] OtherState"

definition role_of :: "bytes \<Rightarrow> MessageRole" where
  "role_of = named role_str [MessageUser, MessageAssistant] OtherRole"

definition relation_named :: "bytes \<Rightarrow> Relation" where
  "relation_named = named relation_str [RelationRetry, RelationBranch] OtherRelation"

definition kind_of :: "bytes \<Rightarrow> EventKind" where
  "kind_of = named kind_str [EventJobAccepted, EventJobState, EventJobOutput, EventJobResult, EventQueueState] OtherEvent"

subsection \<open>Decoders\<close>

definition options_of :: "host \<Rightarrow> json \<Rightarrow> GenerationOptions option" where
  "options_of h v = do {
     fs \<leftarrow> obj_of v;
     (c, fs) \<leftarrow> opt ''context_tokens'' int_of fs;
     (m, fs) \<leftarrow> req ''max_output_tokens'' int_of fs;
     (t, fs) \<leftarrow> opt ''temperature'' (float_of h) fs;
     (s, fs) \<leftarrow> opt ''seed'' int_of fs;
     whole fs \<lparr>op_ContextTokens = c, op_MaxOutputTokens = m, op_Temperature = t, op_Seed = s\<rparr> }"

definition request_of :: "host \<Rightarrow> json \<Rightarrow> Request option" where
  "request_of h v = do {
     fs \<leftarrow> obj_of v;
     (m, fs) \<leftarrow> req ''model'' str_of fs;
     (r, fs) \<leftarrow> dflt ''role'' [] str_of fs;
     (s, fs) \<leftarrow> dflt ''system_prompt'' [] str_of fs;
     (p, fs) \<leftarrow> req ''prompt'' str_of fs;
     (o', fs) \<leftarrow> req ''options'' (options_of h) fs;
     whole fs \<lparr>rq_Model = m, rq_Role = r, rq_SystemPrompt = s, rq_Prompt = p, rq_Options = o'\<rparr> }"

definition message_of :: "json \<Rightarrow> Message option" where
  "message_of v = do {
     fs \<leftarrow> obj_of v;
     (r, fs) \<leftarrow> req ''role'' str_of fs;
     (c, fs) \<leftarrow> req ''content'' str_of fs;
     whole fs \<lparr>ms_Role = role_of r, ms_Content = c\<rparr> }"

definition instructions_of :: "json \<Rightarrow> Instructions option" where
  "instructions_of v = do {
     fs \<leftarrow> obj_of v;
     (s, fs) \<leftarrow> req ''system'' str_of fs;
     (h, fs) \<leftarrow> dflt ''history'' [] (arr_of message_of) fs;
     (p, fs) \<leftarrow> req ''prompt'' str_of fs;
     whole fs \<lparr>in_System = s, in_History = h, in_Prompt = p\<rparr> }"

definition lineage_of :: "json \<Rightarrow> Lineage option" where
  "lineage_of v = do {
     fs \<leftarrow> obj_of v;
     (p, fs) \<leftarrow> req ''parent_id'' str_of fs;
     (r, fs) \<leftarrow> req ''relation'' str_of fs;
     whole fs \<lparr>ln_ParentID = p, ln_Relation = relation_named r\<rparr> }"

definition usage_of :: "json \<Rightarrow> Usage option" where
  "usage_of v = do {
     fs \<leftarrow> obj_of v;
     (a, fs) \<leftarrow> opt ''input_tokens'' int_of fs;
     (b, fs) \<leftarrow> opt ''output_tokens'' int_of fs;
     (c, fs) \<leftarrow> opt ''total_duration_ns'' int_of fs;
     (d, fs) \<leftarrow> opt ''load_duration_ns'' int_of fs;
     (e, fs) \<leftarrow> opt ''generate_duration_ns'' int_of fs;
     whole fs \<lparr>us_InputTokens = a, us_OutputTokens = b, us_TotalDurationNS = c, us_LoadDurationNS = d,
       us_GenerateDurationNS = e\<rparr> }"

definition estimate_of :: "json \<Rightarrow> TokenEstimate option" where
  "estimate_of v = do {
     fs \<leftarrow> obj_of v;
     (t, fs) \<leftarrow> req ''tokens'' int_of fs;
     (m, fs) \<leftarrow> req ''method'' str_of fs;
     (e, fs) \<leftarrow> req ''exact'' bool_of fs;
     whole fs \<lparr>te_Tokens = t, te_Method = m, te_Exact = e\<rparr> }"

definition observation_of :: "host \<Rightarrow> json \<Rightarrow> ContextObservation option" where
  "observation_of h v = do {
     fs \<leftarrow> obj_of v;
     (t, fs) \<leftarrow> req ''tokens'' int_of fs;
     (m, fs) \<leftarrow> req ''model'' str_of fs;
     (s, fs) \<leftarrow> req ''source'' str_of fs;
     (a, fs) \<leftarrow> req ''observed_at'' (time_of h) fs;
     whole fs \<lparr>co_Tokens = t, co_Model = m, co_Source = s, co_ObservedAt = a\<rparr> }"

definition context_of :: "host \<Rightarrow> json \<Rightarrow> ContextInfo option" where
  "context_of h v = do {
     fs \<leftarrow> obj_of v;
     (a, fs) \<leftarrow> opt ''model_capacity_tokens'' int_of fs;
     (b, fs) \<leftarrow> dflt ''model_capacity_source'' [] str_of fs;
     (c, fs) \<leftarrow> opt ''model_capacity_observed_at'' (time_of h) fs;
     (d, fs) \<leftarrow> opt ''requested_tokens'' int_of fs;
     (e, fs) \<leftarrow> opt ''loaded'' (observation_of h) fs;
     (i, fs) \<leftarrow> opt ''input_estimate'' estimate_of fs;
     (r, fs) \<leftarrow> req ''reserved_output_tokens'' int_of fs;
     whole fs \<lparr>ci_ModelCapacityTokens = a, ci_ModelCapacitySource = b, ci_ModelCapacityObservedAt = c,
       ci_RequestedTokens = d, ci_Loaded = e, ci_InputEstimate = i, ci_ReservedOutputTokens = r\<rparr> }"

definition result_of :: "host \<Rightarrow> json \<Rightarrow> Result option" where
  "result_of h v = do {
     fs \<leftarrow> obj_of v;
     (t, fs) \<leftarrow> req ''text'' str_of fs;
     (f, fs) \<leftarrow> dflt ''finish_reason'' [] str_of fs;
     (m, fs) \<leftarrow> dflt ''effective_model'' [] str_of fs;
     (o', fs) \<leftarrow> opt ''effective_options'' (options_of h) fs;
     (c, fs) \<leftarrow> req ''context'' (context_of h) fs;
     (u, fs) \<leftarrow> req ''usage'' usage_of fs;
     whole fs \<lparr>rs_Text = t, rs_FinishReason = f, rs_EffectiveModel = m, rs_EffectiveOptions = o',
       rs_Context = c, rs_Usage = u\<rparr> }"

text \<open>A map is written with its keys in increasing byte order.\<close>

fun bytes_less :: "bytes \<Rightarrow> bytes \<Rightarrow> bool" where
  "bytes_less _ [] = False"
| "bytes_less [] (_ # _) = True"
| "bytes_less (a # as) (b # bs) = (byte a < byte b \<or> byte a = byte b \<and> bytes_less as bs)"

definition details_of :: "json \<Rightarrow> (bytes \<times> bytes) list option" where
  "details_of v = do {
     fs \<leftarrow> obj_of v;
     ds \<leftarrow> opts_of (\<lambda>kv. map_option (Pair (fst kv)) (str_of (snd kv))) fs;
     (if sorted_wrt bytes_less (map fst ds) then Some ds else None) }"

definition fault_of :: "json \<Rightarrow> Fault option" where
  "fault_of v = do {
     fs \<leftarrow> obj_of v;
     (c, fs) \<leftarrow> req ''code'' str_of fs;
     (m, fs) \<leftarrow> req ''message'' str_of fs;
     (r, fs) \<leftarrow> req ''retryable'' bool_of fs;
     (d, fs) \<leftarrow> dflt ''details'' [] details_of fs;
     whole fs \<lparr>ft_Code = code_of c, ft_Message = m, ft_Retryable = r, ft_Details = d\<rparr> }"

definition job_of :: "host \<Rightarrow> json \<Rightarrow> Job option" where
  "job_of h v = do {
     fs \<leftarrow> obj_of v;
     (i, fs) \<leftarrow> req ''id'' str_of fs;
     (s, fs) \<leftarrow> req ''state'' str_of fs;
     (r, fs) \<leftarrow> req ''request'' (request_of h) fs;
     (n, fs) \<leftarrow> req ''instructions'' instructions_of fs;
     (g, fs) \<leftarrow> dflt ''origin'' [] str_of fs;
     (l, fs) \<leftarrow> opt ''lineage'' lineage_of fs;
     (c, fs) \<leftarrow> req ''created_at'' (time_of h) fs;
     (a, fs) \<leftarrow> opt ''started_at'' (time_of h) fs;
     (f, fs) \<leftarrow> opt ''finished_at'' (time_of h) fs;
     (x, fs) \<leftarrow> req ''result'' (result_of h) fs;
     (e, fs) \<leftarrow> opt ''error'' fault_of fs;
     whole fs \<lparr>jb_ID = i, jb_State = state_of s, jb_Request = r, jb_Instructions = n, jb_Origin = g,
       jb_Lineage = l, jb_CreatedAt = c, jb_StartedAt = a, jb_FinishedAt = f, jb_Result = x, jb_Error = e\<rparr> }"

text \<open>\<open>Cursor.UnmarshalJSON\<close>: the sequence is a canonical decimal string (\<open>parse_sequence\<close>).\<close>

definition cursor_of :: "json \<Rightarrow> Cursor option" where
  "cursor_of v = do {
     fs \<leftarrow> obj_of v;
     (s, fs) \<leftarrow> req ''store_id'' str_of fs;
     (q, fs) \<leftarrow> req ''sequence'' (\<lambda>x. Option.bind (str_of x) parse_sequence) fs;
     whole fs \<lparr>cu_StoreID = s, cu_Sequence = q\<rparr> }"

definition output_of :: "json \<Rightarrow> OutputDelta option" where
  "output_of v = do {
     fs \<leftarrow> obj_of v;
     (n, fs) \<leftarrow> req ''offset_bytes'' int_of fs;
     (t, fs) \<leftarrow> req ''text'' str_of fs;
     whole fs \<lparr>od_OffsetBytes = n, od_Text = t\<rparr> }"

fun nullable :: "(json \<Rightarrow> 'a option) \<Rightarrow> json \<Rightarrow> 'a option option" where
  "nullable d JNull = Some None" | "nullable d v = map_option Some (d v)"

definition queue_of :: "json \<Rightarrow> QueueState option" where
  "queue_of v = do {
     fs \<leftarrow> obj_of v;
     (p, fs) \<leftarrow> req ''paused'' bool_of fs;
     (i, fs) \<leftarrow> req ''pending'' (nullable (arr_of str_of)) fs;
     (a, fs) \<leftarrow> opt ''active'' str_of fs;
     (m, fs) \<leftarrow> req ''max_pending'' int_of fs;
     whole fs \<lparr>qs_Paused = p, qs_Pending = i, qs_Active = a, qs_MaxPending = m\<rparr> }"

definition event_of :: "host \<Rightarrow> json \<Rightarrow> Event option" where
  "event_of h v = do {
     fs \<leftarrow> obj_of v;
     (c, fs) \<leftarrow> req ''cursor'' cursor_of fs;
     (t, fs) \<leftarrow> req ''at'' (time_of h) fs;
     (k, fs) \<leftarrow> req ''kind'' str_of fs;
     (i, fs) \<leftarrow> dflt ''job_id'' [] str_of fs;
     (j, fs) \<leftarrow> opt ''job'' (job_of h) fs;
     (d, fs) \<leftarrow> opt ''output'' output_of fs;
     (q, fs) \<leftarrow> opt ''queue'' queue_of fs;
     whole fs \<lparr>ev_Cursor = c, ev_At = t, ev_Kind = kind_of k, ev_JobID = i, ev_Job = j, ev_Output = d,
       ev_Queue = q\<rparr> }"

definition receipt_of :: "json \<Rightarrow> Receipt option" where
  "receipt_of v = do {
     fs \<leftarrow> obj_of v;
     (k, fs) \<leftarrow> req ''key'' str_of fs;
     (d, fs) \<leftarrow> req ''digest'' str_of fs;
     (j, fs) \<leftarrow> req ''job_id'' str_of fs;
     whole fs \<lparr>rc_Key = k, rc_Digest = d, rc_JobID = j\<rparr> }"

definition commit_of :: "host \<Rightarrow> json \<Rightarrow> Commit option" where
  "commit_of h v = do {
     fs \<leftarrow> obj_of v;
     (n, fs) \<leftarrow> req ''version'' int_of fs;
     (e, fs) \<leftarrow> req ''events'' (arr_of (event_of h)) fs;
     (r, fs) \<leftarrow> opt ''receipt'' receipt_of fs;
     whole fs \<lparr>cm_Version = n, cm_Events = e, cm_Receipt = r\<rparr> }"

text \<open>\<open>json.Unmarshal\<close> into a \<open>Commit\<close>.\<close>

definition unmarshal_commit :: "host \<Rightarrow> bytes \<Rightarrow> Commit option" where
  "unmarshal_commit h b = Option.bind (parse_json b) (commit_of h)"

end
