(* ===== verification/Roundtrip.thy ===== *)
theory Roundtrip
  imports Decode
begin

text \<open>
  Decoding inverts encoding: every commit in canonical form is read back from its JSON text
  exactly. Canonical form is what the worker writes: valid UTF-8 strings, encodable floats
  and instants, named constants.
\<close>

text \<open>The text of floats is a number token and that of instants a string; both read back.\<close>

definition host_text_ok :: "host \<Rightarrow> bool" where
  "host_text_ok h =
     ((\<forall>x. \<not> f64_special x \<longrightarrow> num_token (h_float h x) \<and> h_unfloat h (h_float h x) = Some x) \<and>
      (\<forall>t. time_encodable t \<longrightarrow> valid_utf8 (h_time h t) \<and> h_untime h (h_time h t) = Some t))"

subsection \<open>Numbers\<close>

lemma is_digit_num_char:
  assumes "is_digit c"
  shows "num_char c"
proof -
  have "list_all (\<lambda>n. num_char (digit n)) [0..<10]" by code_simp
  moreover have "byte c - 48 < 10" "digit (byte c - 48) = c"
    using assms by (auto simp: is_digit_def digit_of_digit)
  ultimately show ?thesis by (metis list_all_iff atLeastLessThan_iff set_upt zero_le)
qed

lemma dec_int_token: "num_token (dec_int i)"
proof -
  have "num_char (CHR ''-'')" by (simp add: num_char_def)
  moreover have "list_all num_char (dec_nat n)" for n
    using dec_nat_is_digit [of n] is_digit_num_char by (auto simp: list_all_iff)
  ultimately show ?thesis by (simp add: num_token_def dec_int_def)
qed

lemma minus_not_digit: "\<not> is_digit (CHR ''-'')"
  by (simp add: is_digit_def)

lemma parse_int_dec [simp]: "parse_int (dec_int i) = Some i"
proof (cases "i < 0")
  case True
  then show ?thesis using dec_nat_is_digit by (simp add: parse_int_def dec_int_def)
next
  case False
  obtain c ds where d: "dec_nat (nat i) = c # ds" by (cases "dec_nat (nat i)") auto
  then have "is_digit c" using dec_nat_is_digit [of "nat i"] by simp
  then have "c \<noteq> CHR ''-''" using minus_not_digit by auto
  with False d dec_nat_is_digit [of "nat i"] dec_val_dec_nat [of "nat i"] show ?thesis
    by (simp add: parse_int_def dec_int_def)
qed

subsection \<open>Member combinators on encoded members\<close>

lemma req_Cons [simp]: "req k d ((k', v) # fs) = (if k' = k then map_option (\<lambda>x. (x, fs)) (d v) else None)"
  by (simp add: req_def)

lemma opt_simps [simp]:
  "opt k d [] = Some (None, [])"
  "opt k d ((k', v) # fs) = (if k' = k then map_option (\<lambda>x. (Some x, fs)) (d v) else Some (None, (k', v) # fs))"
  by (simp_all add: opt_def)

definition head_not :: "bytes \<Rightarrow> (bytes \<times> json) list \<Rightarrow> bool" where
  "head_not k fs = (case fs of [] \<Rightarrow> True | kv # _ \<Rightarrow> fst kv \<noteq> k)"

lemma head_not_simps [simp]:
  "head_not k []" "head_not k ((k', v) # fs) = (k' \<noteq> k)"
  "head_not k (opt_field k' f p @ fs) = (if p = None then head_not k fs else k' \<noteq> k)"
  "head_not k (str_field k' s @ fs) = (if s = [] then head_not k fs else k' \<noteq> k)"
  "head_not k (opt_field k' f p) = (p = None \<or> k' \<noteq> k)"
  by (auto simp: head_not_def opt_field_def str_field_def split: option.split)

lemma opt_field_read:
  assumes "head_not k fs" and "\<And>x. p = Some x \<Longrightarrow> d (f x) = Some x"
  shows "opt k d (opt_field k f p @ fs) = Some (p, fs)"
  using assms by (cases p; cases fs) (auto simp: head_not_def)

lemma opt_field_last:
  assumes "\<And>x. p = Some x \<Longrightarrow> d (f x) = Some x"
  shows "opt k d (opt_field k f p) = Some (p, [])"
  using opt_field_read [of k "[]" p d f] assms by simp

lemma str_field_read:
  assumes "head_not k fs"
  shows "dflt k [] str_of (str_field k s @ fs) = Some (s, fs)"
  using assms by (cases fs; cases "s = []") (auto simp: str_field_def dflt_def head_not_def)

lemma opts_of_map: "(\<And>x. x \<in> set xs \<Longrightarrow> d (f x) = Some x) \<Longrightarrow> opts_of d (map f xs) = Some xs"
  by (induction xs) auto

lemma whole_Nil [simp]: "whole [] x = Some x"
  by (simp add: whole_def)

subsection \<open>Canonical values\<close>

definition fault_canon :: "Fault \<Rightarrow> bool" where
  "fault_canon f =
     (code_of (code_str (ft_Code f)) = ft_Code f \<and> valid_utf8 (code_str (ft_Code f)) \<and> valid_utf8 (ft_Message f) \<and>
      list_all (\<lambda>kv. valid_utf8 (fst kv) \<and> valid_utf8 (snd kv)) (ft_Details f) \<and>
      sorted_wrt bytes_less (map fst (ft_Details f)))"

definition message_canon :: "Message \<Rightarrow> bool" where
  "message_canon m = (role_of (role_str (ms_Role m)) = ms_Role m \<and> valid_utf8 (role_str (ms_Role m)) \<and> valid_utf8 (ms_Content m))"

definition lineage_canon :: "Lineage \<Rightarrow> bool" where
  "lineage_canon l =
     (relation_named (relation_str (ln_Relation l)) = ln_Relation l \<and> valid_utf8 (relation_str (ln_Relation l)) \<and>
      valid_utf8 (ln_ParentID l))"

definition request_canon :: "Request \<Rightarrow> bool" where
  "request_canon r =
     (list_all valid_utf8 [rq_Model r, rq_Role r, rq_SystemPrompt r, rq_Prompt r] \<and> options_encodable (rq_Options r))"

definition instructions_canon :: "Instructions \<Rightarrow> bool" where
  "instructions_canon i = (valid_utf8 (in_System i) \<and> list_all message_canon (in_History i) \<and> valid_utf8 (in_Prompt i))"

definition context_canon :: "ContextInfo \<Rightarrow> bool" where
  "context_canon c =
     (valid_utf8 (ci_ModelCapacitySource c) \<and> opt_all time_encodable (ci_ModelCapacityObservedAt c) \<and>
      opt_all (\<lambda>o'. valid_utf8 (co_Model o') \<and> valid_utf8 (co_Source o') \<and> time_encodable (co_ObservedAt o')) (ci_Loaded c) \<and>
      opt_all (\<lambda>e. valid_utf8 (te_Method e)) (ci_InputEstimate c))"

definition result_canon :: "Result \<Rightarrow> bool" where
  "result_canon r =
     (list_all valid_utf8 [rs_Text r, rs_FinishReason r, rs_EffectiveModel r] \<and>
      opt_all options_encodable (rs_EffectiveOptions r) \<and> context_canon (rs_Context r))"

definition job_canon :: "Job \<Rightarrow> bool" where
  "job_canon j =
     (valid_utf8 (jb_ID j) \<and> state_of (state_str (jb_State j)) = jb_State j \<and> valid_utf8 (state_str (jb_State j)) \<and>
      request_canon (jb_Request j) \<and> instructions_canon (jb_Instructions j) \<and> valid_utf8 (jb_Origin j) \<and>
      opt_all lineage_canon (jb_Lineage j) \<and> time_encodable (jb_CreatedAt j) \<and>
      opt_all time_encodable (jb_StartedAt j) \<and> opt_all time_encodable (jb_FinishedAt j) \<and>
      result_canon (jb_Result j) \<and> opt_all fault_canon (jb_Error j))"

definition event_canon :: "Event \<Rightarrow> bool" where
  "event_canon e =
     (valid_utf8 (cu_StoreID (ev_Cursor e)) \<and> time_encodable (ev_At e) \<and>
      kind_of (kind_str (ev_Kind e)) = ev_Kind e \<and> valid_utf8 (kind_str (ev_Kind e)) \<and> valid_utf8 (ev_JobID e) \<and>
      opt_all job_canon (ev_Job e) \<and> opt_all (\<lambda>d. valid_utf8 (od_Text d)) (ev_Output e) \<and>
      opt_all (\<lambda>q. list_all valid_utf8 (pending_ids q) \<and> opt_all valid_utf8 (qs_Active q)) (ev_Queue e))"

definition receipt_canon :: "Receipt \<Rightarrow> bool" where
  "receipt_canon r = list_all valid_utf8 [rc_Key r, rc_Digest r, rc_JobID r]"

definition commit_canon :: "Commit \<Rightarrow> bool" where
  "commit_canon c = (list_all event_canon (cm_Events c) \<and> opt_all receipt_canon (cm_Receipt c))"

subsection \<open>Decoding inverts encoding\<close>

lemmas read_simps = opt_field_read opt_field_last str_field_read

lemma float_read: "host_text_ok h \<Longrightarrow> \<not> f64_special x \<Longrightarrow> float_of h (float_json h x) = Some x"
  by (simp add: host_text_ok_def float_json_def)

lemma time_read: "host_text_ok h \<Longrightarrow> time_encodable t \<Longrightarrow> time_of h (time_json h t) = Some t"
  by (simp add: host_text_ok_def time_json_def)

lemma options_read:
  assumes "host_text_ok h" and "options_encodable o'"
  shows "options_of h (options_json h o') = Some o'"
  using assms by (cases o'; cases "op_ContextTokens o'"; cases "op_Temperature o'"; cases "op_Seed o'")
    (auto simp: options_of_def options_json_def options_encodable_def float_read)

lemma request_read:
  assumes "host_text_ok h" and "options_encodable (rq_Options r)"
  shows "request_of h (request_json h r) = Some r"
  using assms by (cases r) (simp add: request_of_def request_json_def options_read read_simps)

lemma message_read: "message_canon m \<Longrightarrow> message_of (message_json m) = Some m"
  by (simp add: message_of_def message_json_def message_canon_def)

lemma instructions_read:
  assumes "instructions_canon i"
  shows "instructions_of (instructions_json i) = Some i"
proof -
  have "opts_of message_of (map message_json (in_History i)) = Some (in_History i)"
    using assms by (intro opts_of_map) (auto simp: instructions_canon_def list_all_iff message_read)
  then show ?thesis by (cases i) (auto simp: instructions_of_def instructions_json_def dflt_def)
qed

lemma lineage_read: "lineage_canon l \<Longrightarrow> lineage_of (lineage_json l) = Some l"
  by (simp add: lineage_of_def lineage_json_def lineage_canon_def)

lemma usage_read: "usage_of (usage_json u) = Some u"
  by (cases u; cases "us_InputTokens u"; cases "us_OutputTokens u"; cases "us_TotalDurationNS u";
      cases "us_LoadDurationNS u"; cases "us_GenerateDurationNS u") (simp_all add: usage_of_def usage_json_def)

lemma estimate_read: "estimate_of (estimate_json e) = Some e"
  by (simp add: estimate_of_def estimate_json_def)

lemma observation_read:
  "host_text_ok h \<Longrightarrow> time_encodable (co_ObservedAt c) \<Longrightarrow> observation_of h (observation_json h c) = Some c"
  by (simp add: observation_of_def observation_json_def time_read)

lemma fault_read:
  assumes "fault_canon f"
  shows "fault_of (fault_json f) = Some f"
proof -
  have "opts_of (\<lambda>kv. map_option (Pair (fst kv)) (str_of (snd kv))) (map (\<lambda>(k, v). (k, JStr v)) (ft_Details f))
      = Some (ft_Details f)"
    by (rule opts_of_map) auto
  then have "details_of (JObj (map (\<lambda>(k, v). (k, JStr v)) (ft_Details f))) = Some (ft_Details f)"
    using assms by (simp add: details_of_def fault_canon_def)
  then show ?thesis
    using assms by (cases f) (auto simp: fault_of_def fault_json_def dflt_def fault_canon_def)
qed

lemma context_read:
  assumes "host_text_ok h" and "context_canon c"
  shows "context_of h (context_json h c) = Some c"
proof -
  have t: "ci_ModelCapacityObservedAt c = Some t \<Longrightarrow> time_of h (time_json h t) = Some t" for t
    using assms by (simp add: context_canon_def time_read)
  have l: "ci_Loaded c = Some l \<Longrightarrow> observation_of h (observation_json h l) = Some l" for l
    using assms by (simp add: context_canon_def observation_read)
  show ?thesis using t l
    by (simp add: context_of_def context_json_def read_simps estimate_read)
qed

lemma result_read:
  assumes "host_text_ok h" and "result_canon r"
  shows "result_of h (result_json h r) = Some r"
proof -
  have o': "rs_EffectiveOptions r = Some x \<Longrightarrow> options_of h (options_json h x) = Some x" for x
    using assms by (simp add: result_canon_def options_read)
  show ?thesis using o' assms
    by (simp add: result_of_def result_json_def read_simps context_read usage_read result_canon_def)
qed

lemma job_read:
  assumes "host_text_ok h" and "job_canon j"
  shows "job_of h (job_json h j) = Some j"
proof -
  have l: "jb_Lineage j = Some x \<Longrightarrow> lineage_of (lineage_json x) = Some x" for x
    using assms by (simp add: job_canon_def lineage_read)
  have t: "jb_StartedAt j = Some t \<Longrightarrow> time_of h (time_json h t) = Some t"
      "jb_FinishedAt j = Some t \<Longrightarrow> time_of h (time_json h t) = Some t"
      "time_of h (time_json h (jb_CreatedAt j)) = Some (jb_CreatedAt j)" for t
    using assms by (simp_all add: job_canon_def time_read)
  have f: "jb_Error j = Some f \<Longrightarrow> fault_of (fault_json f) = Some f" for f
    using assms by (simp add: job_canon_def fault_read)
  show ?thesis using l t f assms
    by (simp add: job_of_def job_json_def read_simps request_read instructions_read result_read job_canon_def
        request_canon_def)
qed

lemma cursor_read: "cursor_of (cursor_json c) = Some c"
proof -
  have "parse_sequence (dec_nat (unat (cu_Sequence c))) = Some (cu_Sequence c)"
    by (simp add: parse_sequence_dec)
  then show ?thesis by (simp add: cursor_of_def cursor_json_def)
qed

lemma queue_read: "queue_of (queue_json q) = Some q"
proof -
  have "opts_of str_of (map JStr ps) = Some ps" for ps by (rule opts_of_map) simp
  then show ?thesis
    by (cases "qs_Pending q") (simp_all add: queue_of_def queue_json_def read_simps)
qed

lemma event_read:
  assumes "host_text_ok h" and "event_canon e"
  shows "event_of h (event_json h e) = Some e"
proof -
  have j: "ev_Job e = Some j \<Longrightarrow> job_of h (job_json h j) = Some j" for j
    using assms by (simp add: event_canon_def job_read)
  have d: "output_of (output_json x) = Some x" for x by (simp add: output_of_def output_json_def)
  have t: "time_of h (time_json h (ev_At e)) = Some (ev_At e)" using assms by (simp add: event_canon_def time_read)
  show ?thesis using j t assms(2)
    by (simp add: event_of_def event_json_def read_simps cursor_read queue_read d event_canon_def)
qed

lemma commit_read:
  assumes "host_text_ok h" and "commit_canon c"
  shows "commit_of h (commit_json h c) = Some c"
proof -
  have "opts_of (event_of h) (map (event_json h) (cm_Events c)) = Some (cm_Events c)"
    using assms by (intro opts_of_map) (auto simp: commit_canon_def list_all_iff event_read)
  moreover have "receipt_of (receipt_json r) = Some r" for r by (simp add: receipt_of_def receipt_json_def)
  ultimately show ?thesis by (simp add: commit_of_def commit_json_def read_simps)
qed

subsection \<open>The text of canonical values is well-formed\<close>

lemma json_ok_int [simp]: "num_token (dec_int i)"
  by (rule dec_int_token)

lemma json_ok_opt_field:
  "list_all (\<lambda>kv. valid_utf8 (fst kv) \<and> json_ok (snd kv)) (opt_field k f p) =
    (case p of None \<Rightarrow> True | Some x \<Rightarrow> valid_utf8 k \<and> json_ok (f x))"
  by (cases p) auto

lemma json_ok_str_field:
  "valid_utf8 s \<Longrightarrow> valid_utf8 k \<Longrightarrow> list_all (\<lambda>kv. valid_utf8 (fst kv) \<and> json_ok (snd kv)) (str_field k s)"
  by (simp add: str_field_def)

lemma key_ok: "list_all (\<lambda>c. byte c < 0x80) k \<Longrightarrow> valid_utf8 k"
  by (rule valid_utf8_ascii)

lemma float_ok: "host_text_ok h \<Longrightarrow> \<not> f64_special x \<Longrightarrow> json_ok (float_json h x)"
  by (simp add: host_text_ok_def float_json_def)

lemma time_ok: "host_text_ok h \<Longrightarrow> time_encodable t \<Longrightarrow> json_ok (time_json h t)"
  by (simp add: host_text_ok_def time_json_def)

lemmas ok_simps = json_ok_opt_field json_ok_str_field key_ok float_ok time_ok opt_all_def

lemma options_ok: "host_text_ok h \<Longrightarrow> options_encodable o' \<Longrightarrow> json_ok (options_json h o')"
  by (simp add: options_json_def options_encodable_def ok_simps split: option.splits)

lemma request_ok: "host_text_ok h \<Longrightarrow> request_canon r \<Longrightarrow> json_ok (request_json h r)"
  by (simp add: request_json_def request_canon_def ok_simps options_ok)

lemma instructions_ok: "instructions_canon i \<Longrightarrow> json_ok (instructions_json i)"
  by (auto simp: instructions_json_def instructions_canon_def ok_simps list_all_iff message_json_def message_canon_def)

lemma context_ok: "host_text_ok h \<Longrightarrow> context_canon c \<Longrightarrow> json_ok (context_json h c)"
  by (auto simp: context_json_def context_canon_def ok_simps observation_json_def estimate_json_def split: option.splits)

lemma result_ok: "host_text_ok h \<Longrightarrow> result_canon r \<Longrightarrow> json_ok (result_json h r)"
  by (auto simp: result_json_def result_canon_def ok_simps options_ok context_ok usage_json_def split: option.splits)

lemma fault_ok: "fault_canon f \<Longrightarrow> json_ok (fault_json f)"
  by (auto simp: fault_json_def fault_canon_def ok_simps list_all_iff)

lemma lineage_ok: "lineage_canon l \<Longrightarrow> json_ok (lineage_json l)"
  by (simp add: lineage_json_def lineage_canon_def ok_simps)

lemma job_ok: "host_text_ok h \<Longrightarrow> job_canon j \<Longrightarrow> json_ok (job_json h j)"
  by (auto simp: job_json_def job_canon_def ok_simps request_ok instructions_ok result_ok fault_ok lineage_ok split: option.splits)

lemma dec_nat_valid: "valid_utf8 (dec_nat n)"
  using dec_nat_is_digit [of n] by (intro valid_utf8_ascii) (auto simp: list_all_iff is_digit_def)

lemma queue_json_ok:
  "list_all valid_utf8 (pending_ids q) \<Longrightarrow> opt_all valid_utf8 (qs_Active q) \<Longrightarrow> json_ok (queue_json q)"
  by (cases "qs_Pending q") (auto simp: queue_json_def pending_ids_def ok_simps list_all_iff split: option.splits)

lemma event_ok: "host_text_ok h \<Longrightarrow> event_canon e \<Longrightarrow> json_ok (event_json h e)"
  by (auto simp: event_json_def event_canon_def ok_simps cursor_json_def dec_nat_valid job_ok output_json_def queue_json_ok split: option.splits)

lemma commit_ok: "host_text_ok h \<Longrightarrow> commit_canon c \<Longrightarrow> json_ok (commit_json h c)"
  by (auto simp: commit_json_def commit_canon_def ok_simps list_all_iff event_ok receipt_json_def receipt_canon_def
      split: option.splits)

text \<open>A canonical commit is read back exactly from its text.\<close>

lemma unmarshal_marshal:
  assumes "host_text_ok h" and "commit_canon c" and "marshal_commit h c = Some b"
  shows "unmarshal_commit h b = Some c"
proof -
  have "b = json_text (commit_json h c)" using assms(3) by (simp add: marshal_commit_def split: if_splits)
  then show ?thesis
    using parse_json_text [OF commit_ok [OF assms(1,2)]] commit_read [OF assms(1,2)]
    by (simp add: unmarshal_commit_def)
qed

end
