(* ===== verification/Journal.thy ===== *)
theory Journal
  imports Disk Roundtrip
begin

text \<open>
  \<open>internal/adapters/journal/journal.go\<close> and the lock and directory calls of
  \<open>lock_unix.go\<close>: the append-only, checksummed log that implements \<open>core.Store\<close>. A record is
  a frame of 72 bytes (version, length, SHA-256 of both, SHA-256 of the payload) and the JSON
  text of one commit. Every method below is the critical section it runs under \<open>j.mu\<close>.
  The proofs are in the theories \<open>Journal_Log\<close> and \<open>Journal_Store\<close>.

  What the operating system answers while \<open>Open\<close> prepares the directory is the record
  \<open>open_env\<close>; what it answers to calls on the file is part of \<open>File\<close>. The texts of the JSON
  decoder's errors are not modelled.
\<close>

definition HeaderSize :: nat where "HeaderSize = 64"
definition FrameSize :: nat where "FrameSize = 72"
definition AdmissionBytes :: nat where "AdmissionBytes = 201326592"
definition HardBytes :: nat where "HardBytes = 268435456"

record index =
  ix_offset :: nat
  ix_length :: nat
  ix_first :: "64 word"
  ix_last :: "64 word"

text \<open>A lock file is the error its \<open>Close\<close> will return; nil pointers are \<open>None\<close>.\<close>

record Journal =
  jn_file :: "File option"
  jn_lock :: "goerr option option"
  jn_state :: Recovery
  jn_records :: "index list"
  jn_size :: nat
  jn_poisoned :: "goerr option"
  jn_closed :: bool
  jn_admission :: nat
  jn_hard :: nat
  jn_tail :: nat

definition storage :: "goerr \<Rightarrow> goerr" where
  "storage err = FaultErr (fault ErrStorage (''journal: '' @ err_text err))"

definition limit :: goerr where
  "limit = FaultErr (fault ErrLimitExceeded
     ''journal storage budget exhausted; preserve history and use a new data directory'')"

subsection \<open>Frames\<close>

definition frame_prefix :: "bytes \<Rightarrow> bytes" where
  "frame_prefix b = be32 1 @ be32 (length b)"

definition frame_header :: "host \<Rightarrow> bytes \<Rightarrow> bytes" where
  "frame_header h b = frame_prefix b @ h_sha h (frame_prefix b) @ h_sha h b"

definition frame :: "host \<Rightarrow> bytes \<Rightarrow> bytes" where
  "frame h b = frame_header h b @ b"

definition magic :: bytes where
  "magic = ''TWJRNL'' @ [CHR 0x0D, CHR 0x0A]"

definition journal_header :: "host \<Rightarrow> bytes \<Rightarrow> bytes" where
  "journal_header h store =
     (let p = magic @ be32 1 @ be32 HeaderSize @ store in p @ h_sha h p)"

definition decode :: "host \<Rightarrow> bytes \<Rightarrow> goerr + Commit" where
  "decode h b =
     (case unmarshal_commit h b of
        None \<Rightarrow> Inl (OtherErr ''invalid transaction JSON'')
      | Some c \<Rightarrow> if marshal_commit h c = Some b then Inr c
          else Inl (OtherErr ''noncanonical transaction JSON''))"

subsection \<open>The open journal\<close>

definition check :: "Journal \<Rightarrow> goerr option" where
  "check j =
     (case jn_poisoned j of
        Some e \<Rightarrow> Some e
      | None \<Rightarrow> if jn_closed j then Some (storage (OtherErr ''closed'')) else None)"

definition readFailure :: "goerr \<Rightarrow> Journal \<Rightarrow> Journal \<times> goerr" where
  "readFailure err j = (j\<lparr>jn_poisoned := Some (storage err)\<rparr>, storage err)"

text \<open>\<open>Clone(j.state)\<close>.\<close>

definition clone_receipt :: "Receipt \<Rightarrow> Receipt" where
  "clone_receipt r = \<lparr>rc_Key = to_valid (rc_Key r), rc_Digest = to_valid (rc_Digest r), rc_JobID = to_valid (rc_JobID r)\<rparr>"

definition clone_recovery :: "Recovery \<Rightarrow> Recovery" where
  "clone_recovery r = \<lparr>rv_Snapshot = clone_snapshot (rv_Snapshot r), rv_Receipts = map clone_receipt (rv_Receipts r)\<rparr>"

definition Recover :: "Journal \<Rightarrow> goerr option \<Rightarrow> Journal \<times> (goerr + Recovery)" where
  "Recover j ctx =
     (j, case ctx of Some e \<Rightarrow> Inl e | None \<Rightarrow>
        (case check j of Some e \<Rightarrow> Inl e | None \<Rightarrow>
           if snapshot_encodable (rv_Snapshot (jn_state j)) then Inr (clone_recovery (jn_state j))
           else Inl Panicked))"

definition write_sync :: "bytes \<Rightarrow> File \<Rightarrow> File \<times> goerr option" where
  "write_sync b f =
     (case writeFull b f of (f1, Some e) \<Rightarrow> (f1, Some e) | (f1, None) \<Rightarrow> file_Sync f1)"

definition receipt_list :: "Receipt option \<Rightarrow> Receipt list" where
  "receipt_list r = (case r of None \<Rightarrow> [] | Some x \<Rightarrow> [x])"

definition duplicate :: "Receipt list \<Rightarrow> Receipt option \<Rightarrow> bool" where
  "duplicate rs r = (case r of None \<Rightarrow> False | Some x \<Rightarrow> rc_Key x \<in> rc_Key ` set rs)"

text \<open>The entry of the index for a commit whose frame starts at \<open>pos\<close>.\<close>

definition entry :: "nat \<Rightarrow> nat \<Rightarrow> Commit \<Rightarrow> Snapshot \<Rightarrow> index" where
  "entry pos n c next = \<lparr>ix_offset = pos, ix_length = n, ix_first = cu_Sequence (ev_Cursor (hd (cm_Events c))),
     ix_last = cu_Sequence (sn_Cursor next)\<rparr>"

definition Append :: "host \<Rightarrow> Journal \<Rightarrow> goerr option \<Rightarrow> Commit \<Rightarrow> Journal \<times> goerr option" where
  "Append h j ctx c =
     (case ctx of Some e \<Rightarrow> (j, Some e) | None \<Rightarrow>
     (case check j of Some e \<Rightarrow> (j, Some e) | None \<Rightarrow>
     (case marshal_commit h c of None \<Rightarrow> (j, Some (storage (OtherErr ''json: unsupported value''))) | Some b \<Rightarrow>
      if length b > MaxCommitBytes then (j, Some limit)
      else (case ApplyCommit h (rv_Snapshot (jn_state j)) c of Inl e \<Rightarrow> (j, Some e) | Inr next \<Rightarrow>
        if duplicate (rv_Receipts (jn_state j)) (cm_Receipt c)
        then (j, Some (storage (OtherErr ''duplicate receipt'')))
        else (let projected = jn_size j + FrameSize + length b in
          if cm_Receipt c \<noteq> None \<and> projected > jn_admission j \<or> projected + TerminalReserve h next > jn_hard j
          then (j, Some limit)
          else (case jn_file j of None \<Rightarrow> (j, Some Panicked) | Some f \<Rightarrow>
            (case write_sync (frame h b) f of
               (f1, Some e) \<Rightarrow> (j\<lparr>jn_file := Some f1, jn_poisoned := Some (storage e)\<rparr>, Some (storage e))
             | (f1, None) \<Rightarrow>
                 (j\<lparr>jn_file := Some f1,
                    jn_state := \<lparr>rv_Snapshot = next,
                      rv_Receipts = rv_Receipts (jn_state j) @ receipt_list (cm_Receipt c)\<rparr>,
                    jn_records := jn_records j @ [entry (jn_size j) (length b) c next],
                    jn_size := projected\<rparr>, None))))))))"

subsection \<open>Replay\<close>

text \<open>\<open>sort.Search\<close> between \<open>i\<close> and \<open>j\<close>: a binary search for the first index with the property.\<close>

function search :: "(nat \<Rightarrow> bool) \<Rightarrow> nat \<Rightarrow> nat \<Rightarrow> nat" where
  "search p i j =
     (if i < j then let m = (i + j) div 2 in if p m then search p i m else search p (m + 1) j
      else i)"
  by pat_completeness auto
termination
  by (relation "measure (\<lambda>(p, i, j). j - i)") auto

declare search.simps [simp del]

text \<open>
  The loop over the events of one record: the page so far, its bytes, and whether the byte
  bound has ended the page.
\<close>

fun take_events ::
  "host \<Rightarrow> 64 word \<Rightarrow> nat \<Rightarrow> Event list \<Rightarrow> Event list \<Rightarrow> nat \<Rightarrow> Event list \<times> nat \<times> bool" where
  "take_events h after n [] out m = (out, m, False)"
| "take_events h after n (e # es) out m =
     (if cu_Sequence (ev_Cursor e) > after then
        (let k = text_len (marshal_event h e) in
         if m + k > MaxObserverBytes then (out, m, True)
         else if length (out @ [e]) = n then (out @ [e], m + k, False)
         else take_events h after n es (out @ [e]) (m + k))
      else take_events h after n es out m)"

definition read_record :: "host \<Rightarrow> index \<Rightarrow> File \<Rightarrow> File \<times> (goerr + Commit)" where
  "read_record h r f =
     (case file_ReadAt (ix_offset r + FrameSize) (ix_length r) f of
        (f1, Inl e) \<Rightarrow> (f1, Inl e)
      | (f1, Inr b) \<Rightarrow>
     (case file_ReadAt (ix_offset r) FrameSize f1 of
        (f2, Inl e) \<Rightarrow> (f2, Inl e)
      | (f2, Inr header) \<Rightarrow>
          (f2, if of_be32 (take 4 header) \<noteq> 1 \<or> of_be32 (take 4 (drop 4 header)) \<noteq> ix_length r \<or>
              h_sha h (take 8 header) \<noteq> take 32 (drop 8 header) \<or> h_sha h b \<noteq> drop 40 header
            then Inl (OtherErr ''replay frame changed'') else decode h b)))"

fun read_records ::
  "host \<Rightarrow> 64 word \<Rightarrow> nat \<Rightarrow> index list \<Rightarrow> Event list \<Rightarrow> nat \<Rightarrow> File \<Rightarrow> File \<times> (goerr + Event list)" where
  "read_records h after n [] out m f = (f, Inr out)"
| "read_records h after n (r # rs) out m f =
     (if length out \<ge> n then (f, Inr out)
      else (case read_record h r f of
          (f1, Inl e) \<Rightarrow> (f1, Inl e)
        | (f1, Inr c) \<Rightarrow>
            (case take_events h after n (cm_Events c) out m of
               (out', m', full) \<Rightarrow> if full then (f1, Inr out') else read_records h after n rs out' m' f1)))"

definition ReadEvents ::
  "host \<Rightarrow> Journal \<Rightarrow> goerr option \<Rightarrow> Cursor \<Rightarrow> int \<Rightarrow> Journal \<times> (goerr + Event list)" where
  "ReadEvents h j ctx after n =
     (case ctx of Some e \<Rightarrow> (j, Inl e) | None \<Rightarrow>
     (case check j of Some e \<Rightarrow> (j, Inl e) | None \<Rightarrow>
     (case ValidateCursor after (sn_Cursor (rv_Snapshot (jn_state j))) of Some x \<Rightarrow> (j, Inl (FaultErr x)) | None \<Rightarrow>
      if n < 1 \<or> n > int MaxObserverEvents
      then (j, Inl (FaultErr (fault ErrInvalidRequest ''invalid replay page size'')))
      else (case jn_file j of None \<Rightarrow> (j, Inl Panicked) | Some f \<Rightarrow>
        (let i = search (\<lambda>i. ix_last (jn_records j ! i) > cu_Sequence after) 0 (length (jn_records j)) in
         case read_records h (cu_Sequence after) (nat n) (drop i (jn_records j)) [] 0 f of
           (f1, Inl e) \<Rightarrow> (let (j1, e1) = readFailure e (j\<lparr>jn_file := Some f1\<rparr>) in (j1, Inl e1))
         | (f1, Inr out) \<Rightarrow> (j\<lparr>jn_file := Some f1\<rparr>, Inr out))))))"

subsection \<open>Closing\<close>

text \<open>\<open>Close\<close> of the journal; the theory \<open>Watch\<close> has the one of a stream.\<close>

definition CloseJournal :: "Journal \<Rightarrow> Journal \<times> goerr option" where
  "CloseJournal j =
     (if jn_closed j then (j, None)
      else (let j1 = j\<lparr>jn_closed := True\<rparr>;
                (j2, err) = (case jn_file j1 of None \<Rightarrow> (j1, None)
                  | Some f \<Rightarrow> (let (f1, e) = file_Close f in (j1\<lparr>jn_file := Some f1\<rparr>, e)))
            in (j2, case jn_lock j2 of None \<Rightarrow> err | Some le \<Rightarrow> errors_Join err le)))"

definition journal_ops :: "host \<Rightarrow> Journal store_ops" where
  "journal_ops h = \<lparr>so_Recover = Recover, so_Append = Append h, so_ReadEvents = ReadEvents h, so_Close = CloseJournal\<rparr>"

subsection \<open>Opening\<close>

text \<open>
  A cleaned path is the list of its components, innermost first, so that \<open>filepath.Dir\<close> is the
  tail and the root is its own parent. \<open>oe_dir n\<close> is what the \<open>n\<close>-th \<open>syncDirectory\<close> meets
  when it opens and syncs the directory.
\<close>

type_synonym path = "bytes list"

datatype stat = StatOk | StatMissing | StatError goerr

datatype created = Created File | AlreadyExists | CreateFailed goerr

record open_env =
  oe_stat :: "path \<Rightarrow> stat"
  oe_mkdir :: "goerr option"
  oe_dir :: "nat \<Rightarrow> goerr option \<times> goerr option"
  oe_lock_open :: "goerr option"
  oe_flock :: "goerr option"
  oe_lock_close :: "goerr option"
  oe_create :: created
  oe_open :: "goerr + File"
  oe_rand :: "goerr + bytes"

text \<open>The directories that do not exist yet, innermost first.\<close>

fun missing_dirs :: "(path \<Rightarrow> stat) \<Rightarrow> path \<Rightarrow> goerr + path list" where
  "missing_dirs st [] =
     (case st [] of StatOk \<Rightarrow> Inr [] | StatError e \<Rightarrow> Inl e | StatMissing \<Rightarrow> Inr [[]])"
| "missing_dirs st (d # p) =
     (case st (d # p) of StatOk \<Rightarrow> Inr [] | StatError e \<Rightarrow> Inl e
      | StatMissing \<Rightarrow> (case missing_dirs st p of Inl e \<Rightarrow> Inl e | Inr ps \<Rightarrow> Inr ((d # p) # ps)))"

definition syncDirectory :: "open_env \<Rightarrow> nat \<Rightarrow> goerr option" where
  "syncDirectory env n = (case fst (oe_dir env n) of Some e \<Rightarrow> Some e | None \<Rightarrow> snd (oe_dir env n))"

text \<open>The parents of the created directories are synced from the outside in.\<close>

fun sync_parents :: "open_env \<Rightarrow> nat \<Rightarrow> path list \<Rightarrow> goerr option" where
  "sync_parents env n [] = None"
| "sync_parents env n (p # ps) =
     (case syncDirectory env n of Some e \<Rightarrow> Some e | None \<Rightarrow> sync_parents env (Suc n) ps)"

definition lockDirectory :: "open_env \<Rightarrow> goerr + goerr option" where
  "lockDirectory env =
     (case oe_lock_open env of Some e \<Rightarrow> Inl e | None \<Rightarrow>
       (case oe_flock env of Some e \<Rightarrow> Inl e | None \<Rightarrow> Inr (oe_lock_close env)))"

text \<open>\<open>fail\<close>: the journal under construction is closed and dropped.\<close>

definition open_fail :: "goerr \<Rightarrow> Journal \<Rightarrow> Journal \<times> goerr option" where
  "open_fail e j = (fst (CloseJournal j), Some (storage e))"

definition zero_Journal :: Journal where
  "zero_Journal = \<lparr>jn_file = None, jn_lock = None,
     jn_state = \<lparr>rv_Snapshot = (fresh_snapshot [])\<lparr>sn_Queue := (sn_Queue (fresh_snapshot []))\<lparr>qs_MaxPending := 0\<rparr>\<rparr>,
       rv_Receipts = []\<rparr>, jn_records = [], jn_size = 0,
     jn_poisoned = None, jn_closed = False, jn_admission = AdmissionBytes, jn_hard = HardBytes, jn_tail = 0\<rparr>"

definition write_header :: "host \<Rightarrow> open_env \<Rightarrow> nat \<Rightarrow> File \<Rightarrow> File \<times> goerr option" where
  "write_header h env n f =
     (case oe_rand env of Inl e \<Rightarrow> (f, Some e) | Inr store \<Rightarrow>
       (case write_sync (journal_header h store) f of
          (f1, Some e) \<Rightarrow> (f1, Some e)
        | (f1, None) \<Rightarrow> (f1, syncDirectory env n)))"

definition read_header :: "host \<Rightarrow> nat \<Rightarrow> File \<Rightarrow> File \<times> (goerr + nat \<times> bytes)" where
  "read_header h hard f =
     (case file_Size f of (f1, Inl e) \<Rightarrow> (f1, Inl e) | (f1, Inr sz) \<Rightarrow>
      if sz < HeaderSize \<or> sz > hard then (f1, Inl (OtherErr ''invalid journal file sz''))
      else (case file_ReadAt 0 HeaderSize f1 of (f2, Inl e) \<Rightarrow> (f2, Inl e) | (f2, Inr b) \<Rightarrow>
        (f2, if take 8 b \<noteq> magic \<or> of_be32 (take 4 (drop 8 b)) \<noteq> 1 \<or> of_be32 (take 4 (drop 12 b)) \<noteq> HeaderSize \<or>
            drop 32 b \<noteq> h_sha h (take 32 b)
          then Inl (OtherErr ''corrupt or unsupported header'')
          else Inr (sz, take 16 (drop 16 b)))))"

text \<open>One frame at \<open>pos\<close>: \<open>None\<close> where its payload is not complete in the file.\<close>

definition read_frame :: "host \<Rightarrow> nat \<Rightarrow> nat \<Rightarrow> File \<Rightarrow> File \<times> (goerr + bytes option)" where
  "read_frame h sz pos f =
     (case file_ReadAt pos FrameSize f of (f1, Inl e) \<Rightarrow> (f1, Inl e) | (f1, Inr header) \<Rightarrow>
      (let n = of_be32 (take 4 (drop 4 header)) in
       if h_sha h (take 8 header) \<noteq> take 32 (drop 8 header)
       then (f1, Inl (OtherErr ''frame header checksum mismatch''))
       else if of_be32 (take 4 header) \<noteq> 1 \<or> n = 0 \<or> n > MaxCommitBytes
       then (f1, Inl (OtherErr ''unsupported frame or invalid length''))
       else if n > sz - pos - FrameSize then (f1, Inr None)
       else (case file_ReadAt (pos + FrameSize) n f1 of (f2, Inl e) \<Rightarrow> (f2, Inl e) | (f2, Inr b) \<Rightarrow>
         (f2, if h_sha h b \<noteq> drop 40 header then Inl (OtherErr ''checksum mismatch'') else Inr (Some b)))))"

text \<open>
  The recovery loop: replays every complete frame and returns the recovered state, the index
  and the position after the last complete frame.
\<close>

function scan ::
  "host \<Rightarrow> nat \<Rightarrow> File \<Rightarrow> Recovery \<Rightarrow> index list \<Rightarrow> bytes list \<Rightarrow> nat
    \<Rightarrow> File \<times> (goerr + Recovery \<times> index list \<times> nat)" where
  "scan h sz f rv recs keys pos =
     (if \<not> pos < sz \<or> sz - pos < FrameSize then (f, Inr (rv, recs, pos))
      else (case read_frame h sz pos f of
          (f1, Inl e) \<Rightarrow> (f1, Inl e)
        | (f1, Inr None) \<Rightarrow> (f1, Inr (rv, recs, pos))
        | (f1, Inr (Some b)) \<Rightarrow>
            (case decode h b of Inl e \<Rightarrow> (f1, Inl e) | Inr c \<Rightarrow>
            (case ApplyCommit h (rv_Snapshot rv) c of Inl e \<Rightarrow> (f1, Inl e) | Inr next \<Rightarrow>
              if opt_all (\<lambda>r. rc_Key r \<in> set keys) (cm_Receipt c) \<and> cm_Receipt c \<noteq> None
              then (f1, Inl (OtherErr ''duplicate receipt''))
              else scan h sz f1
                \<lparr>rv_Snapshot = next, rv_Receipts = rv_Receipts rv @ receipt_list (cm_Receipt c)\<rparr>
                (recs @ [entry pos (length b) c next]) (map rc_Key (receipt_list (cm_Receipt c)) @ keys)
                (pos + FrameSize + length b)))))"
  by pat_completeness auto
termination
  by (relation "measure (\<lambda>(h, sz, f, rv, recs, keys, pos). sz - pos)") (auto simp: FrameSize_def)

declare scan.simps [simp del]

text \<open>The incomplete tail is cut off, and the write position moves to the end.\<close>

definition settle_tail :: "nat \<Rightarrow> nat \<Rightarrow> File \<Rightarrow> File \<times> goerr option" where
  "settle_tail sz pos f =
     (case (if pos \<noteq> sz then
              (case file_Truncate pos f of (f1, Some e) \<Rightarrow> (f1, Some e) | (f1, None) \<Rightarrow> file_Sync f1)
            else (f, None)) of
        (f1, Some e) \<Rightarrow> (f1, Some e)
      | (f1, None) \<Rightarrow> file_Seek pos f1)"

definition open_log :: "host \<Rightarrow> Journal \<Rightarrow> File \<Rightarrow> Journal \<times> goerr option" where
  "open_log h j f =
     (case read_header h (jn_hard j) f of
        (f1, Inl e) \<Rightarrow> open_fail e (j\<lparr>jn_file := Some f1\<rparr>)
      | (f1, Inr (sz, store)) \<Rightarrow>
          (case scan h sz f1 \<lparr>rv_Snapshot = fresh_snapshot (hex_encode store), rv_Receipts = []\<rparr> [] [] HeaderSize of
             (f2, Inl e) \<Rightarrow> open_fail e (j\<lparr>jn_file := Some f2\<rparr>)
           | (f2, Inr (rv, recs, pos)) \<Rightarrow>
               (case settle_tail sz pos f2 of
                  (f3, Some e) \<Rightarrow> open_fail e (j\<lparr>jn_file := Some f3\<rparr>)
                | (f3, None) \<Rightarrow>
                    (j\<lparr>jn_file := Some f3, jn_state := rv, jn_records := recs, jn_size := pos,
                       jn_tail := sz - pos\<rparr>, None))))"

definition Open :: "host \<Rightarrow> open_env \<Rightarrow> path \<Rightarrow> Journal \<times> goerr option" where
  "Open h env dir =
     (case missing_dirs (oe_stat env) dir of Inl e \<Rightarrow> (zero_Journal, Some (storage e)) | Inr missing \<Rightarrow>
     (case oe_mkdir env of Some e \<Rightarrow> (zero_Journal, Some (storage e)) | None \<Rightarrow>
     (case sync_parents env 0 (rev missing) of Some e \<Rightarrow> (zero_Journal, Some (storage e)) | None \<Rightarrow>
     (case lockDirectory env of Inl e \<Rightarrow> (zero_Journal, Some (storage e)) | Inr l \<Rightarrow>
      (let j = zero_Journal\<lparr>jn_lock := Some l\<rparr> in
       case oe_create env of
         CreateFailed e \<Rightarrow> open_fail e j
       | AlreadyExists \<Rightarrow> (case oe_open env of Inl e \<Rightarrow> open_fail e j | Inr f \<Rightarrow> open_log h j f)
       | Created f \<Rightarrow>
           (case write_header h env (length missing) f of
              (f1, Some e) \<Rightarrow> open_fail e (j\<lparr>jn_file := Some f1\<rparr>)
            | (f1, None) \<Rightarrow> open_log h j f1))))))"

end
