(* ===== verification/Canonical.thy ===== *)
theory Canonical
  imports Worker Roundtrip
begin

text \<open>
  What the worker commits is in canonical form, so that it reads back exactly: a job that is
  its own copy, passes validation and carries named constants is canonical, and so are the
  faults the worker writes.
\<close>

subsection \<open>Named constants\<close>

lemma kind_named:
  "kind_of (kind_str EventJobAccepted) = EventJobAccepted" "kind_of (kind_str EventJobState) = EventJobState"
  "kind_of (kind_str EventJobOutput) = EventJobOutput" "kind_of (kind_str EventJobResult) = EventJobResult"
  "kind_of (kind_str EventQueueState) = EventQueueState"
  by code_simp+

lemma kind_valid:
  "valid_utf8 (kind_str EventJobAccepted)" "valid_utf8 (kind_str EventJobState)"
  "valid_utf8 (kind_str EventJobOutput)" "valid_utf8 (kind_str EventJobResult)"
  "valid_utf8 (kind_str EventQueueState)"
  by code_simp+

lemma role_named:
  "role_of (role_str MessageUser) = MessageUser" "role_of (role_str MessageAssistant) = MessageAssistant"
  "valid_utf8 (role_str MessageUser)" "valid_utf8 (role_str MessageAssistant)"
  by code_simp+

lemma relation_names:
  "relation_named (relation_str RelationRetry) = RelationRetry"
  "relation_named (relation_str RelationBranch) = RelationBranch"
  "valid_utf8 (relation_str RelationRetry)" "valid_utf8 (relation_str RelationBranch)"
  by code_simp+

lemma state_names:
  "state_of (state_str JobQueued) = JobQueued" "state_of (state_str JobRunning) = JobRunning"
  "state_of (state_str JobCancelling) = JobCancelling" "state_of (state_str JobSucceeded) = JobSucceeded"
  "state_of (state_str JobFailed) = JobFailed" "state_of (state_str JobCancelled) = JobCancelled"
  "state_of (state_str JobInterrupted) = JobInterrupted"
  "valid_utf8 (state_str JobQueued)" "valid_utf8 (state_str JobRunning)"
  "valid_utf8 (state_str JobCancelling)" "valid_utf8 (state_str JobSucceeded)"
  "valid_utf8 (state_str JobFailed)" "valid_utf8 (state_str JobCancelled)"
  "valid_utf8 (state_str JobInterrupted)"
  by code_simp+

lemma code_named:
  "code_of (code_str ErrInvalidRequest) = ErrInvalidRequest" "code_of (code_str ErrUnsupported) = ErrUnsupported"
  "code_of (code_str ErrLimitExceeded) = ErrLimitExceeded"
  "code_of (code_str ErrBackendUnavailable) = ErrBackendUnavailable"
  "code_of (code_str ErrBackendFailure) = ErrBackendFailure" "code_of (code_str ErrCancelled) = ErrCancelled"
  "code_of (code_str ErrInterrupted) = ErrInterrupted"
  by code_simp+

subsection \<open>Canonical parts of a job\<close>

lemma fault_canon_clone: "fault_canon f \<Longrightarrow> clone_fault f = f"
proof -
  assume f: "fault_canon f"
  then have "clone_code (ft_Code f) = ft_Code f"
    by (cases "ft_Code f") (simp_all add: fault_canon_def to_valid_id)
  moreover have "map (map_prod to_valid to_valid) (ft_Details f) = ft_Details f"
    using f by (intro map_idI) (auto simp: fault_canon_def list_all_iff to_valid_id)
  ultimately show ?thesis
    using f by (cases f) (simp add: fault_canon_def clone_fault_def to_valid_id)
qed

lemma fault_canon_ascii:
  "list_all (\<lambda>c. byte c < 0x80) m \<Longrightarrow> list_all (\<lambda>c. byte c < 0x80) (code_str c) \<Longrightarrow>
   code_of (code_str c) = c \<Longrightarrow> fault_canon ((fault c m)\<lparr>ft_Retryable := b\<rparr>)"
  by (simp add: fault_canon_def fault_def valid_utf8_ascii)

lemma fault_canon_plain:
  "list_all (\<lambda>c. byte c < 0x80) m \<Longrightarrow> list_all (\<lambda>c. byte c < 0x80) (code_str c) \<Longrightarrow>
   code_of (code_str c) = c \<Longrightarrow> fault_canon (fault c m)"
  by (simp add: fault_canon_def fault_def valid_utf8_ascii)

lemma history_canon: "history_bytes ms n \<noteq> None \<Longrightarrow> list_all message_canon ms"
proof (induction ms arbitrary: n)
  case (Cons m ms)
  then have "ms_Role m = MessageUser \<or> ms_Role m = MessageAssistant" "valid_utf8 (ms_Content m)"
    by (auto split: if_splits)
  then have "message_canon m"
    using role_named by (auto simp: message_canon_def simp del: role_str.simps)
  with Cons show ?case by (auto split: if_splits)
qed simp

lemma ValidateRequest_canon:
  assumes "ValidateRequest r i = None" and "options_encodable (rq_Options r)"
  shows "request_canon r" and "instructions_canon i"
  using assms history_canon [of "in_History i"]
  by (auto simp: ValidateRequest_def request_canon_def instructions_canon_def split: if_splits option.splits)

lemma to_valid_fix: "to_valid s = s \<Longrightarrow> valid_utf8 s"
  by (metis to_valid_valid)

lemma map_fix_valid: "map to_valid xs = xs \<Longrightarrow> list_all valid_utf8 xs"
  by (induction xs) (auto simp: to_valid_fix)

lemma result_canonI:
  assumes "clone_result r = r" and "result_encodable r"
  shows "result_canon r"
proof -
  have c: "clone_context (rs_Context r) = rs_Context r"
    and "to_valid (rs_Text r) = rs_Text r" "to_valid (rs_FinishReason r) = rs_FinishReason r"
      "to_valid (rs_EffectiveModel r) = rs_EffectiveModel r"
    using assms(1) by (cases r; simp add: clone_result_def)+
  then have v: "list_all valid_utf8 [rs_Text r, rs_FinishReason r, rs_EffectiveModel r]"
    by (simp add: to_valid_fix)
  have "to_valid (ci_ModelCapacitySource (rs_Context r)) = ci_ModelCapacitySource (rs_Context r)"
      "map_option clone_observation (ci_Loaded (rs_Context r)) = ci_Loaded (rs_Context r)"
      "map_option clone_estimate (ci_InputEstimate (rs_Context r)) = ci_InputEstimate (rs_Context r)"
    using c by (cases "rs_Context r"; simp add: clone_context_def)+
  then have "context_canon (rs_Context r)"
    using assms(2)
    by (auto simp: context_canon_def result_encodable_def opt_all_def clone_observation_def clone_estimate_def
        to_valid_fix split: option.splits)
      (metis ContextObservation.select_convs(2,3) ContextObservation.surjective ContextObservation.update_convs(2,3)
        TokenEstimate.select_convs(2) TokenEstimate.surjective TokenEstimate.update_convs(2) to_valid_fix)+
  with v assms(2) show ?thesis by (simp add: result_canon_def result_encodable_def)
qed

definition relation_known :: "Lineage option \<Rightarrow> bool" where
  "relation_known l = opt_all (\<lambda>l. ln_Relation l = RelationRetry \<or> ln_Relation l = RelationBranch) l"

lemma job_canonI:
  assumes c: "clone_job j = j" and e: "job_encodable j" and v: "content_ok j"
    and st: "state_of (state_str (jb_State j)) = jb_State j" "valid_utf8 (state_str (jb_State j))"
    and l: "relation_known (jb_Lineage j)" and er: "opt_all fault_canon (jb_Error j)"
  shows "job_canon j"
proof -
  note f = c [unfolded clone_job_fix_iff]
  have "opt_all lineage_canon (jb_Lineage j)"
  proof (cases "jb_Lineage j")
    case (Some x)
    with f have "to_valid (ln_ParentID x) = ln_ParentID x"
      by (cases x) (auto simp: clone_lineage_def)
    with Some l relation_names show ?thesis
      by (auto simp: relation_known_def lineage_canon_def to_valid_fix simp del: relation_str.simps)
  qed simp
  moreover have "request_canon (jb_Request j)" "instructions_canon (jb_Instructions j)"
    using ValidateRequest_canon [of "jb_Request j" "jb_Instructions j"] v e
    by (simp_all add: content_ok_def job_encodable_def)
  moreover have "result_canon (jb_Result j)"
    using f e by (intro result_canonI) (simp_all add: job_encodable_def)
  ultimately show ?thesis
    using f e st er by (simp add: job_canon_def job_encodable_def to_valid_fix)
qed

lemma expected_relation: "expected_instructions js j = Some i \<Longrightarrow> relation_known (jb_Lineage j)"
  by (auto simp: expected_instructions_def relation_known_def opt_all_def
      split: option.splits if_splits Relation.splits)

lemma jobs_inv_relation:
  assumes "jobs_inv js" and "n < length js"
  shows "relation_known (jb_Lineage (js ! n))"
  using assms by (auto simp: jobs_inv_def lineage_inv_def list_all_iff intro!: expected_relation)

lemma state_named: "transition a b \<Longrightarrow> state_of (state_str b) = b \<and> valid_utf8 (state_str b)"
  using state_names by (cases a) (auto simp del: state_str.simps)

text \<open>A store identity in valid UTF-8 makes the stamped events of canonical payloads canonical.\<close>

definition payload_canon :: "Event \<Rightarrow> bool" where
  "payload_canon e =
     (kind_of (kind_str (ev_Kind e)) = ev_Kind e \<and> valid_utf8 (kind_str (ev_Kind e)) \<and> valid_utf8 (ev_JobID e) \<and>
      opt_all job_canon (ev_Job e) \<and> opt_all (\<lambda>d. valid_utf8 (od_Text d)) (ev_Output e) \<and>
      opt_all (\<lambda>q. list_all valid_utf8 (pending_ids q) \<and> opt_all valid_utf8 (qs_Active q)) (ev_Queue e))"

lemma event_canon_iff:
  "event_canon e \<longleftrightarrow> valid_utf8 (cu_StoreID (ev_Cursor e)) \<and> time_encodable (ev_At e) \<and> payload_canon e"
  by (auto simp: event_canon_def payload_canon_def)

lemma queue_event_canon: "queue_wf q \<Longrightarrow> payload_canon (queueEvent q)"
proof -
  assume "queue_wf q"
  then have "map_option (map to_valid) (qs_Pending q) = qs_Pending q" "map_option to_valid (qs_Active q) = qs_Active q"
    by (cases q; simp add: queue_wf_def clone_queue_def)+
  then have "list_all valid_utf8 (pending_ids q)" "opt_all valid_utf8 (qs_Active q)"
    by (cases "qs_Pending q"; cases "qs_Active q"; simp add: pending_ids_def to_valid_fix map_fix_valid)+
  then show ?thesis
    by (simp add: payload_canon_def queueEvent_def kind_named kind_valid del: kind_str.simps)
qed

lemma output_event_canon: "valid_utf8 i \<Longrightarrow> valid_utf8 c \<Longrightarrow> payload_canon (outputEvent i n c)"
  by (simp add: payload_canon_def outputEvent_def kind_named kind_valid del: kind_str.simps)

lemma job_event_canon:
  "job_canon j \<Longrightarrow> k = EventJobAccepted \<or> k = EventJobState \<or> k = EventJobResult \<Longrightarrow> payload_canon (jobEvent k j)"
  by (auto simp: payload_canon_def jobEvent_def job_canon_def kind_named kind_valid simp del: kind_str.simps state_str.simps)

lemma receipt_canonI: "receipt_ok i (Some r) \<Longrightarrow> valid_utf8 i \<Longrightarrow> receipt_canon r"
proof -
  assume r: "receipt_ok i (Some r)" and i: "valid_utf8 i"
  have "hex_lower c \<Longrightarrow> byte c < 0x80" for c
    by (auto simp: hex_lower_def)
  then have "list_all (\<lambda>c. byte c < 0x80) (rc_Digest r)"
    using r by (auto simp: receipt_ok_def list_all_iff)
  with r i show ?thesis by (simp add: receipt_ok_def receipt_canon_def valid_utf8_ascii)
qed

end
