(* ===== verification/Commits.thy ===== *)
theory Commits
  imports Canonical
begin

text \<open>
  The commits the worker builds and what the reducer makes of them: every pair of a job event
  and a queue event of the lifecycle, every output chunk and every queue change that the
  worker's guards let through is accepted by \<open>ApplyCommit\<close>, with the exact next snapshot.
\<close>

subsection \<open>Filtering an updated list\<close>

lemma filter_update_remove:
  assumes "n < length xs" and "\<not> P y" and "distinct (map f xs)"
  shows "map f (filter P (xs[n := y])) = remove1 (f (xs ! n)) (map f (filter P xs))"
  using assms
proof (induction xs arbitrary: n)
  case (Cons x xs)
  show ?case
  proof (cases n)
    case 0
    with Cons.prems have "f x \<notin> set (map f (filter P xs))" by auto
    with 0 Cons.prems show ?thesis by (auto simp del: set_map simp: remove1_idem)
  next
    case (Suc m)
    with Cons.prems have "f x \<noteq> f (xs ! m)" by (auto simp: image_iff)
    with Suc Cons show ?thesis by auto
  qed
qed simp

lemma filter_update_same:
  "n < length xs \<Longrightarrow> P y \<Longrightarrow> P (xs ! n) \<Longrightarrow> f y = f (xs ! n) \<Longrightarrow>
   map f (filter P (xs[n := y])) = map f (filter P xs)"
proof (induction xs arbitrary: n)
  case (Cons x xs)
  then show ?case by (cases n) auto
qed simp

lemma filter_update_only:
  "n < length xs \<Longrightarrow> P y \<Longrightarrow> map f (filter P xs) = [] \<Longrightarrow> map f (filter P (xs[n := y])) = [f y]"
proof (induction xs arbitrary: n)
  case (Cons x xs)
  then show ?case by (cases n) (auto split: if_splits)
qed simp

subsection \<open>Numbering\<close>

definition stamped :: "Snapshot \<Rightarrow> nat \<Rightarrow> time \<Rightarrow> Event \<Rightarrow> Event" where
  "stamped s k t e = e\<lparr>ev_Cursor := (sn_Cursor s)\<lparr>cu_Sequence := cu_Sequence (sn_Cursor s) + of_nat k\<rparr>,
     ev_At := t\<rparr>"

text \<open>There is room for \<open>k\<close> more events in the 64-bit sequence.\<close>

definition room :: "nat \<Rightarrow> Snapshot \<Rightarrow> bool" where
  "room k s = (unat (cu_Sequence (sn_Cursor s)) + k < 18446744073709551616)"

lemma seq_max_iff: "x = (- 1 :: 64 word) \<longleftrightarrow> unat x = 18446744073709551615"
  using unat64_max by (metis word_unat_eq_iff)

lemma unat_seq_add:
  fixes x :: "64 word"
  assumes "unat x + k < 18446744073709551616"
  shows "unat (x + of_nat k) = unat x + k"
proof -
  have "unat (of_nat k :: 64 word) = k" using assms by (simp add: unat_of_nat)
  with assms show ?thesis by (simp add: unat_word_ariths)
qed

lemma room_max:
  assumes "room (Suc k) s"
  shows "cu_Sequence (sn_Cursor s) + of_nat k \<noteq> - 1"
  using assms unat_seq_add [of "cu_Sequence (sn_Cursor s)" k] by (simp add: room_def seq_max_iff)

lemma stamp_one:
  "stamp h (cu_StoreID (sn_Cursor s)) (cu_Sequence (sn_Cursor s)) t [e] =
     (if room 1 s then (Some [stamped s 1 (h_now h t) e], Suc t) else (None, t))"
  using unat64_less [of "cu_Sequence (sn_Cursor s)"]
  by (cases "sn_Cursor s") (auto simp: room_def seq_max_iff stamped_def)

lemma stamp_two:
  "room 2 s \<Longrightarrow> stamp h (cu_StoreID (sn_Cursor s)) (cu_Sequence (sn_Cursor s)) t [e, e'] =
     (Some [stamped s 1 (h_now h t) e, stamped s 2 (h_now h (Suc t)) e'], Suc (Suc t))"
  using room_max [of 0 s] room_max [of 1 s]
  by (cases "sn_Cursor s") (auto simp: room_def stamped_def add.assoc)

lemma stamp_two_full:
  "\<not> room 2 s \<Longrightarrow> fst (stamp h (cu_StoreID (sn_Cursor s)) (cu_Sequence (sn_Cursor s)) t [e, e']) = None"
  using unat64_less [of "cu_Sequence (sn_Cursor s)"] seq_Suc [of "cu_Sequence (sn_Cursor s)"]
  by (auto simp: room_def seq_max_iff split: option.splits prod.splits)

subsection \<open>Accepted events\<close>

definition advance :: "nat \<Rightarrow> Snapshot \<Rightarrow> Cursor" where
  "advance k s = (sn_Cursor s)\<lparr>cu_Sequence := cu_Sequence (sn_Cursor s) + of_nat k\<rparr>"

lemma apply_event_stamped:
  assumes "room (Suc k) s0" and "t \<noteq> 0" and "payload_count e = 1"
    and "sn_Cursor s = advance k s0" and "apply_payload h s a (stamped s0 (Suc k) t e) = Inr (s', a')"
  shows "apply_event h (s, a) (stamped s0 (Suc k) t e) = Inr (s'\<lparr>sn_Cursor := advance (Suc k) s0\<rparr>, a')"
  using assms room_max [OF assms(1)]
  by (simp add: apply_event_def stamped_def advance_def payload_count_def algebra_simps)

lemma apply_queue_event:
  assumes "qs_MaxPending q = int MaxPending"
  shows "apply_payload h s a (stamped s0 k t (queueEvent q)) = Inr (s\<lparr>sn_Queue := clone_queue q\<rparr>, a)"
  using assms by (simp add: apply_payload_def apply_queue_def stamped_def queueEvent_def)

text \<open>A job the worker may write in place of \<open>old\<close>.\<close>

definition update_ok :: "QueueState \<Rightarrow> EventKind \<Rightarrow> Job \<Rightarrow> Job \<Rightarrow> bool" where
  "update_ok q k old j =
     ((k = EventJobState \<or> k = EventJobResult) \<and> replace_ok q k old j \<and> content_ok j \<and>
      clone_job j = j \<and> job_encodable j \<and> jb_ID j = jb_ID old \<and> jb_ID j \<noteq> [] \<and>
      opt_all fault_canon (jb_Error j))"

lemma apply_update_event:
  assumes "update_ok (sn_Queue s) k (sn_Jobs s ! n) j" and "n < length (sn_Jobs s)"
    and "distinct (map jb_ID (sn_Jobs s))"
  shows "apply_payload h s a (stamped s0 m t (jobEvent k j)) = Inr (s\<lparr>sn_Jobs := (sn_Jobs s)[n := j]\<rparr>, a)"
proof -
  have "find_index (\<lambda>x. jb_ID x = jb_ID j) (sn_Jobs s) = Some n"
    using find_index_distinct [OF assms(3,2)] assms(1) by (simp add: update_ok_def)
  with assms(1) show ?thesis
    by (auto simp: apply_payload_def stamped_def jobEvent_def apply_job_def Clone_job_def
        update_ok_def content_ok_def replace_job_def)
qed

lemma apply_output_event:
  assumes "n < length (sn_Jobs s)" and "distinct (map jb_ID (sn_Jobs s))"
    and "sn_Jobs s ! n = j" and "jb_ID j = i" and "is_active j"
    and "chunk \<noteq> []" and "length chunk \<le> MaxChunkBytes" and "valid_utf8 chunk"
    and "length (rs_Text (jb_Result j)) + length chunk \<le> MaxOutputBytes"
    and "CheckJobFits h (append_text j chunk) = None"
  shows "apply_payload h s a (stamped s0 m t (outputEvent i (length (rs_Text (jb_Result j))) chunk))
     = Inr (s\<lparr>sn_Jobs := (sn_Jobs s)[n := append_text j chunk]\<rparr>, a)"
proof -
  have "find_index (\<lambda>x. jb_ID x = i) (sn_Jobs s) = Some n"
    using find_index_distinct [OF assms(2,1)] assms(3,4) by simp
  with assms show ?thesis
    by (auto simp: apply_payload_def stamped_def outputEvent_def apply_output_def is_active_def Let_def)
qed

text \<open>A job the worker may add.\<close>

definition addition_ok :: "host \<Rightarrow> Job list \<Rightarrow> Job \<Rightarrow> bool" where
  "addition_ok h js j =
     (content_ok j \<and> clone_job j = j \<and> job_encodable j \<and> jb_ID j \<noteq> [] \<and> jb_ID j \<notin> jb_ID ` set js \<and>
      CheckJobFits h j = None \<and> length js < MaxJobs \<and> jb_State j = JobQueued \<and> stage_ok JobQueued j \<and>
      expected_instructions js j = Some (jb_Instructions j))"

lemma apply_accept_event:
  assumes "addition_ok h (sn_Jobs s) j"
  shows "apply_payload h s [] (stamped s0 m t (jobEvent EventJobAccepted j))
     = Inr (s\<lparr>sn_Jobs := sn_Jobs s @ [j]\<rparr>, jb_ID j)"
proof -
  have "find_index (\<lambda>x. jb_ID x = jb_ID j) (sn_Jobs s) = None"
    using assms by (auto simp: addition_ok_def find_index_None image_iff)
  with assms show ?thesis
    by (auto simp: apply_payload_def stamped_def jobEvent_def apply_job_def Clone_job_def
        addition_ok_def content_ok_def accept_job_def)
qed

text \<open>Both kinds of job events are canonical.\<close>

lemma update_canon:
  assumes "update_ok q k old j" and "relation_known (jb_Lineage old)"
  shows "payload_canon (jobEvent k j)"
proof -
  have "transition (jb_State old) (jb_State j)" "jb_Lineage j = jb_Lineage old"
    using assms(1) by (auto simp: update_ok_def replace_ok_def)
  then have "job_canon j"
    using assms state_named by (intro job_canonI) (auto simp: update_ok_def)
  then show ?thesis using assms(1) by (intro job_event_canon) (auto simp: update_ok_def)
qed

lemma addition_canon:
  assumes "addition_ok h js j"
  shows "payload_canon (jobEvent EventJobAccepted j)"
proof -
  have "jb_State j = JobQueued" "jb_Error j = None" using assms by (auto simp: addition_ok_def)
  then have "job_canon j"
    using assms state_names(1,8) by (intro job_canonI) (auto simp: addition_ok_def dest: expected_relation simp del: state_str.simps)
  then show ?thesis by (intro job_event_canon) auto
qed

lemma stamp_canon:
  assumes "stamp h store n t es = (Some es', t')" and "list_all payload_canon es" and "valid_utf8 store"
    and "\<And>n. time_encodable (h_now h n)"
  shows "list_all event_canon es'"
  using assms
proof (induction es arbitrary: n t es' t')
  case (Cons e es)
  from Cons.prems(1) obtain es1 where "stamp h store (n + 1) (Suc t) es = (Some es1, t')"
    "es' = e\<lparr>ev_Cursor := \<lparr>cu_StoreID = store, cu_Sequence = n + 1\<rparr>, ev_At := h_now h t\<rparr> # es1"
    by (auto split: if_splits prod.splits option.splits)
  with Cons show ?case by (auto simp: event_canon_iff payload_canon_def)
qed simp

lemma commit_canon_ids: "commit_canon c \<Longrightarrow> commit_ids_ok c"
  by (auto simp: commit_canon_def commit_ids_ok_def event_canon_def event_id_ok_def list_all_iff)

subsection \<open>Accepted commits\<close>

lemma queue_ok_cong:
  "sn_Jobs s = sn_Jobs s' \<Longrightarrow> sn_Queue s = sn_Queue s' \<Longrightarrow> queue_ok s = queue_ok s'"
  by (simp add: queue_ok_def split: option.split)

lemma payload_counts [simp]:
  "payload_count (jobEvent k j) = 1" "payload_count (queueEvent q) = 1" "payload_count (outputEvent i n c) = 1"
  by (simp_all add: payload_count_def jobEvent_def queueEvent_def outputEvent_def)

text \<open>The commit for a job change and the queue that goes with it.\<close>

definition pair_commit :: "Snapshot \<Rightarrow> time \<Rightarrow> time \<Rightarrow> Event \<Rightarrow> QueueState \<Rightarrow> Receipt option \<Rightarrow> Commit" where
  "pair_commit s t t' e q r = \<lparr>cm_Version = 1,
     cm_Events = [stamped s 1 t e, stamped s 2 t' (queueEvent q)], cm_Receipt = r\<rparr>"

definition single_commit :: "Snapshot \<Rightarrow> time \<Rightarrow> Event \<Rightarrow> Commit" where
  "single_commit s t e = \<lparr>cm_Version = 1, cm_Events = [stamped s 1 t e], cm_Receipt = None\<rparr>"

lemma ApplyCommit_pair:
  assumes "room 2 s" and "t \<noteq> 0" and "t' \<noteq> 0" and "payload_count e = 1" and "queue_wf (sn_Queue s)"
    and "apply_payload h s [] (stamped s 1 t e) = Inr (s\<lparr>sn_Jobs := js\<rparr>, a)"
    and "queue_wf q" and "receipt_ok a r" and "queue_ok (s\<lparr>sn_Jobs := js, sn_Queue := q\<rparr>)"
  shows "ApplyCommit h s (pair_commit s t t' e q r) = Inr (s\<lparr>sn_Cursor := advance 2 s, sn_Queue := q, sn_Jobs := js\<rparr>)"
proof -
  have s: "s\<lparr>sn_Queue := clone_queue (sn_Queue s)\<rparr> = s"
    using assms(5) by (cases s) (simp add: queue_wf_def)
  have "room (Suc 0) s" using assms(1) by (simp add: room_def)
  from apply_event_stamped [OF this assms(2,4) _ assms(6) [unfolded One_nat_def]]
  have 1: "apply_event h (s, []) (stamped s 1 t e) = Inr (s\<lparr>sn_Jobs := js, sn_Cursor := advance 1 s\<rparr>, a)"
    by (cases s) (simp add: advance_def)
  let ?s1 = "s\<lparr>sn_Jobs := js, sn_Cursor := advance 1 s\<rparr>"
  have "apply_event h (?s1, a) (stamped s (Suc 1) t' (queueEvent q))
      = Inr ((?s1\<lparr>sn_Queue := clone_queue q\<rparr>)\<lparr>sn_Cursor := advance (Suc 1) s\<rparr>, a)"
    using assms(1,3,7) by (intro apply_event_stamped apply_queue_event) (simp_all add: queue_wf_def numeral_2_eq_2)
  moreover have "clone_queue q = q" using assms(7) by (simp add: queue_wf_def)
  ultimately have 2: "apply_event h (?s1, a) (stamped s 2 t' (queueEvent q))
      = Inr (s\<lparr>sn_Cursor := advance 2 s, sn_Queue := q, sn_Jobs := js\<rparr>, a)"
    by (simp add: numeral_2_eq_2)
  have "queue_ok (s\<lparr>sn_Cursor := advance 2 s, sn_Queue := q, sn_Jobs := js\<rparr>)"
    using assms(9) by (rule iffD1 [OF queue_ok_cong, rotated 2]) simp_all
  with 1 2 assms(8) s show ?thesis by (simp add: ApplyCommit_def pair_commit_def)
qed

lemma ApplyCommit_single:
  assumes "room 1 s" and "t \<noteq> 0" and "payload_count e = 1" and "queue_wf (sn_Queue s)"
    and "apply_payload h s [] (stamped s 1 t e) = Inr (s', [])" and "queue_ok s'"
  shows "ApplyCommit h s (single_commit s t e) = Inr (s'\<lparr>sn_Cursor := advance 1 s\<rparr>)"
proof -
  have s: "s\<lparr>sn_Queue := clone_queue (sn_Queue s)\<rparr> = s"
    using assms(4) by (cases s) (simp add: queue_wf_def)
  from apply_event_stamped [OF assms(1) [unfolded One_nat_def] assms(2,3) _ assms(5) [unfolded One_nat_def]]
  have "apply_event h (s, []) (stamped s 1 t e) = Inr (s'\<lparr>sn_Cursor := advance 1 s\<rparr>, [])"
    by (cases s) (simp add: advance_def)
  moreover have "queue_ok (s'\<lparr>sn_Cursor := advance 1 s\<rparr>)"
    using assms(6) by (rule iffD1 [OF queue_ok_cong, rotated 2]) simp_all
  ultimately show ?thesis
    using s by (simp add: ApplyCommit_def single_commit_def receipt_ok_def)
qed

subsection \<open>The queue after a job change\<close>

lemma active_nth:
  assumes "distinct (map jb_ID js)" and "n < length js" and "jb_ID (js ! n) \<in> set (active_ids js)"
  shows "is_active (js ! n)"
proof -
  from assms(3) obtain j where "j \<in> set js" "is_active j" "jb_ID j = jb_ID (js ! n)"
    by (auto simp: active_ids_def)
  with assms(1,2) show ?thesis by (metis find_job_mem nth_mem option.inject)
qed

text \<open>
  The queue that goes with a changed job: the job leaves the pending list, and the active
  entry names it exactly while it runs.
\<close>

definition queue_after :: "QueueState \<Rightarrow> Job \<Rightarrow> QueueState \<Rightarrow> bool" where
  "queue_after q0 j q =
     (jb_State j \<noteq> JobQueued \<and> queue_wf q \<and> pending_ids q = remove1 (jb_ID j) (pending_ids q0) \<and>
      (if is_active j then qs_Active q = Some (jb_ID j) \<and> qs_Active q0 \<in> {None, Some (jb_ID j)}
       else qs_Active q = (if qs_Active q0 = Some (jb_ID j) then None else qs_Active q0)))"

lemma queue_ok_update:
  assumes s: "snap_inv s" and n: "n < length (sn_Jobs s)" and id: "jb_ID j = jb_ID (sn_Jobs s ! n)"
    and q: "queue_after (sn_Queue s) j q"
  shows "queue_ok (s\<lparr>sn_Jobs := (sn_Jobs s)[n := j], sn_Queue := q\<rparr>)"
proof -
  let ?js = "sn_Jobs s" and ?js' = "(sn_Jobs s)[n := j]"
  note inv = snap_inv_queue [OF s]
  have d: "distinct (map jb_ID ?js)" using s by (simp add: snap_inv_def jobs_inv_def)
  have ne: "list_all (\<lambda>j. jb_ID j \<noteq> []) ?js'"
    using s jobs_inv_ids [of ?js] n id
    by (auto simp: snap_inv_def list_all_length nth_list_update)
  have qd: "queued_ids ?js' = remove1 (jb_ID j) (queued_ids ?js)"
    using n id d q by (simp add: queued_ids_def filter_update_remove queue_after_def)
  have "active_ids ?js' = (case qs_Active q of None \<Rightarrow> [] | Some a \<Rightarrow> [a])"
  proof (cases "is_active j")
    case False
    then have "active_ids ?js' = remove1 (jb_ID j) (active_ids ?js)"
      using n id d by (simp add: active_ids_def filter_update_remove)
    with False inv(3) q show ?thesis by (auto simp: queue_after_def split: option.splits)
  next
    case True
    show ?thesis
    proof (cases "active_ids ?js = []")
      case none: True
      with True n q show ?thesis by (simp add: active_ids_def filter_update_only queue_after_def)
    next
      case False
      with True inv(3) q have a: "active_ids ?js = [jb_ID j]"
        by (auto simp: queue_after_def split: option.splits)
      then have "is_active (?js ! n)" using d n id by (simp add: active_nth)
      then have "active_ids ?js' = active_ids ?js"
        using True n id by (simp add: active_ids_def filter_update_same)
      with a True q show ?thesis by (simp add: queue_after_def)
    qed
  qed
  moreover have "pending_ids q = queued_ids ?js'" "length (queued_ids ?js') \<le> MaxPending"
    using qd q inv(1,2) length_remove1 [of "jb_ID j" "queued_ids ?js"] by (auto simp: queue_after_def)
  ultimately show ?thesis using ne by (simp add: queue_ok_iff)
qed

lemma queue_ok_append:
  assumes s: "snap_inv s" and j: "jb_State j = JobQueued" "jb_ID j \<noteq> []"
    and q: "pending_ids q = pending_ids (sn_Queue s) @ [jb_ID j]" "qs_Active q = qs_Active (sn_Queue s)"
    and len: "length (pending_ids (sn_Queue s)) < MaxPending"
  shows "queue_ok (s\<lparr>sn_Jobs := sn_Jobs s @ [j], sn_Queue := q\<rparr>)"
proof -
  have "list_all (\<lambda>j. jb_ID j \<noteq> []) (sn_Jobs s @ [j])"
    using s jobs_inv_ids [of "sn_Jobs s"] j(2) by (simp add: snap_inv_def)
  moreover have "queued_ids (sn_Jobs s @ [j]) = queued_ids (sn_Jobs s) @ [jb_ID j]"
    "active_ids (sn_Jobs s @ [j]) = active_ids (sn_Jobs s)"
    using j(1) by (simp_all add: queued_ids_def active_ids_def is_active_def)
  ultimately show ?thesis using snap_inv_queue [OF s] q len by (simp add: queue_ok_iff)
qed

text \<open>Output does not touch the queue.\<close>

lemma queue_ok_output:
  assumes "snap_inv s" and "n < length (sn_Jobs s)" and "is_active (sn_Jobs s ! n)"
  shows "queue_ok (s\<lparr>sn_Jobs := (sn_Jobs s)[n := append_text (sn_Jobs s ! n) t]\<rparr>)"
proof -
  let ?j = "sn_Jobs s ! n"
  have "jb_ID ?j \<in> set (active_ids (sn_Jobs s))"
    using assms(2,3) by (auto simp: active_ids_def)
  then have a: "qs_Active (sn_Queue s) = Some (jb_ID ?j)"
    using snap_inv_queue(3) [OF assms(1)] by (auto split: option.splits)
  have "jb_ID ?j \<notin> set (queued_ids (sn_Jobs s))"
  proof
    assume "jb_ID ?j \<in> set (queued_ids (sn_Jobs s))"
    then obtain x where "x \<in> set (sn_Jobs s)" "jb_ID x = jb_ID ?j" "jb_State x = JobQueued"
      by (auto simp: queued_ids_def)
    moreover have "distinct (map jb_ID (sn_Jobs s))"
      using assms(1) by (simp add: snap_inv_def jobs_inv_def)
    ultimately have "x = ?j" using assms(2) by (metis find_job_mem nth_mem option.inject)
    with \<open>jb_State x = JobQueued\<close> assms(3) show False by (simp add: is_active_def)
  qed
  then have "queue_after (sn_Queue s) (append_text ?j t) (sn_Queue s)"
    using a assms snap_inv_queue(1) [OF assms(1)]
    by (auto simp: queue_after_def append_text_def is_active_def snap_inv_def remove1_idem)
  from queue_ok_update [OF assms(1,2) _ this]
  show ?thesis by (simp add: append_text_def)
qed

subsection \<open>Lifecycle changes the reducer accepts\<close>

lemma update_okI:
  assumes old: "job_wf old" and tr: "transition (jb_State old) b"
    and k: "k = (if Terminal b then EventJobResult else EventJobState)"
    and run: "b = JobRunning \<Longrightarrow> \<not> qs_Paused q \<and> qs_Active q = None \<and> pending_ids q \<noteq> [] \<and>
      hd (pending_ids q) = jb_ID old"
    and st: "jb_StartedAt old \<noteq> None \<longrightarrow> st = jb_StartedAt old"
      "b = JobRunning \<or> b = JobCancelling \<longrightarrow> st \<noteq> None" "opt_all time_encodable st"
    and fin: "Terminal b \<longleftrightarrow> fin \<noteq> None" "opt_all time_encodable fin"
    and res: "rs_Text r = rs_Text (jb_Result old)" "clone_result r = r" "result_encodable r"
      "\<not> Terminal b \<Longrightarrow> r = jb_Result old"
    and err: "\<not> Terminal b \<or> b = JobSucceeded \<Longrightarrow> er = None"
      "Terminal b \<Longrightarrow> b \<noteq> JobSucceeded \<Longrightarrow> \<exists>f. er = Some f \<and> code_str (ft_Code f) \<noteq> [] \<and> fault_canon f"
  shows "update_ok q k old (old\<lparr>jb_State := b, jb_StartedAt := st, jb_FinishedAt := fin,
    jb_Result := r, jb_Error := er\<rparr>)" (is "update_ok q k old ?j")
proof -
  have b: "clone_state b = b" using tr by (cases "jb_State old") auto
  have "clone_job ?j = ?j"
    using old b res err fault_canon_clone
    by (cases "Terminal b \<and> b \<noteq> JobSucceeded") (auto simp: clone_job_fix_iff job_wf_def)
  moreover have "opt_all fault_canon er" using err by (cases "Terminal b \<and> b \<noteq> JobSucceeded") auto
  moreover have "job_encodable ?j" using old st(3) fin(2) res(3) by (simp add: job_encodable_def job_wf_def)
  moreover have "content_ok ?j" using old res(1) by (simp add: content_ok_def job_wf_def)
  moreover have "request_eq (jb_Request old) (jb_Request old)" "result_eq (jb_Result old) (jb_Result old)"
    using old by (simp_all add: job_wf_def job_encodable_def request_eq_refl result_eq_refl)
  then have "replace_ok q k old ?j"
    using tr k run st fin res err by (auto simp: replace_ok_def split: if_splits)
  moreover have "jb_ID old \<noteq> []" using old by (simp add: job_wf_def)
  ultimately show ?thesis using k by (simp add: update_ok_def)
qed

lemma update_ok_trivial:
  "old\<lparr>jb_State := b, jb_StartedAt := st, jb_FinishedAt := fin, jb_Result := jb_Result old, jb_Error := er\<rparr>
    = old\<lparr>jb_State := b, jb_StartedAt := st, jb_FinishedAt := fin, jb_Error := er\<rparr>"
  by (cases old) simp

end
