(* ===== verification/Lifecycle.thy ===== *)
theory Lifecycle
  imports Commits
begin

text \<open>
  The invariant of the worker and its preservation by every operation, for any store that
  keeps the contract of \<open>core.Store\<close>. The contract is the locale \<open>store_contract\<close>; the
  journal interprets it. \<open>base_inv\<close> holds at every point of a critical section, \<open>run_inv\<close>
  (one goroutine for the active job, orderly shutdown) between critical sections.
\<close>

subsection \<open>The host\<close>

text \<open>The clock shows encodable, non-zero instants; SHA-256 and job identities have their sizes.\<close>

definition host_ok :: "host \<Rightarrow> bool" where
  "host_ok h =
     ((\<forall>n. time_encodable (h_now h n) \<and> h_now h n \<noteq> 0) \<and> (\<forall>x. length (h_sha h x) = 32) \<and>
      (\<forall>n b. h_rand h n = Some b \<longrightarrow> length b = 16))"

subsection \<open>Observers\<close>

definition seq_of :: "Event \<Rightarrow> nat" where
  "seq_of e = unat (cu_Sequence (ev_Cursor e))"

text \<open>
  What an open stream still has to deliver when the log ends at sequence \<open>n\<close>: the stored events
  up to its boundary \<open>through\<close>, then the queued ones, without a gap up to \<open>n\<close>.
\<close>

definition feed_base :: "Stream \<Rightarrow> nat" where
  "feed_base s = max (unat (cu_Sequence (st_cursor s))) (unat (st_through s))"

definition feed_ok :: "nat \<Rightarrow> Stream \<Rightarrow> bool" where
  "feed_ok n s =
     (st_closed s \<or>
      n = feed_base s + length (st_queue s) \<and>
      map (seq_of \<circ> fst) (st_queue s) = [Suc (feed_base s)..<Suc n])"

text \<open>The observers are exactly the open streams.\<close>

definition observers_ok :: "nat \<Rightarrow> 'st Worker \<Rightarrow> bool" where
  "observers_ok n w =
     (distinct (w_observers w) \<and> list_all stream_inv (w_streams w) \<and> list_all (feed_ok n) (w_streams w) \<and>
      set (w_observers w) = {i. i < length (w_streams w) \<and> \<not> st_closed (w_streams w ! i)})"

lemma push_all_spec:
  assumes "distinct is" and "\<forall>i\<in>set is. i < length ss" and "push_all e n is ss = (ss', is')"
  shows "length ss' = length ss \<and>
    (\<forall>i<length ss. ss' ! i = (if i \<in> set is then fst (push e n (ss ! i)) else ss ! i)) \<and>
    is' = filter (\<lambda>i. snd (push e n (ss ! i))) is"
  using assms
proof (induction "is" arbitrary: ss ss' is')
  case (Cons i "is")
  obtain s1 ok where p: "push e n (ss ! i) = (s1, ok)" by fastforce
  obtain ss1 is1 where r: "push_all e n is (ss[i := s1]) = (ss1, is1)" by fastforce
  have same: "\<And>k. k \<in> set is \<Longrightarrow> ss[i := s1] ! k = ss ! k"
    using Cons.prems(1) by (metis distinct.simps(2) nth_list_update_neq)
  have "length ss1 = length ss \<and>
    (\<forall>k<length ss. ss1 ! k = (if k \<in> set is then fst (push e n (ss[i := s1] ! k)) else ss[i := s1] ! k)) \<and>
    is1 = filter (\<lambda>k. snd (push e n (ss[i := s1] ! k))) is"
    using Cons.IH [of "ss[i := s1]" ss1 is1] Cons.prems r by auto
  moreover have "filter (\<lambda>k. snd (push e n (ss[i := s1] ! k))) is = filter (\<lambda>k. snd (push e n (ss ! k))) is"
    using same by (intro filter_cong) auto
  moreover have "ss' = ss1" "is' = (if ok then i # is1 else is1)"
    using Cons.prems(3) p r by auto
  ultimately show ?case using p same Cons.prems(1,2) by (auto simp: nth_list_update)
qed simp

lemma push_open: "snd (push e n s) \<longleftrightarrow> \<not> st_closed (fst (push e n s))"
  by (auto simp: push_def signal_def)

lemma seq_of_clone [simp]: "seq_of (clone_event e) = seq_of e"
  by (simp add: seq_of_def clone_event_def)

lemma push_feed:
  assumes "feed_ok n s" and "seq_of e = Suc n"
  shows "feed_ok (Suc n) (fst (push e m s))"
  using assms by (auto simp: feed_ok_def push_def signal_def feed_base_def)

lemma publish_event_ok:
  assumes "observers_ok n w" and "seq_of e = Suc n"
  shows "\<exists>ss os. publish_event h e w = w\<lparr>w_streams := ss, w_observers := os\<rparr> \<and> set os \<subseteq> set (w_observers w) \<and>
    observers_ok (Suc n) (publish_event h e w)"
proof -
  let ?m = "text_len (marshal_event h e)" and ?ss = "w_streams w" and ?is = "w_observers w"
  obtain ss os where p: "push_all e ?m ?is ?ss = (ss, os)" by fastforce
  have w: "publish_event h e w = w\<lparr>w_streams := ss, w_observers := os\<rparr>" by (simp add: publish_event_def p)
  have open': "set ?is = {i. i < length ?ss \<and> \<not> st_closed (?ss ! i)}" and d: "distinct ?is"
    using assms(1) by (simp_all add: observers_ok_def)
  have sp: "length ss = length ?ss"
      "\<forall>i<length ?ss. ss ! i = (if i \<in> set ?is then fst (push e ?m (?ss ! i)) else ?ss ! i)"
      "os = filter (\<lambda>i. snd (push e ?m (?ss ! i))) ?is"
    using push_all_spec [OF d _ p] open' by auto
  have old: "stream_inv (?ss ! i)" "feed_ok n (?ss ! i)" if "i < length ?ss" for i
    using that assms(1) by (auto simp: observers_ok_def list_all_length)
  have "stream_inv (ss ! i) \<and> feed_ok (Suc n) (ss ! i)" if "i < length ss" for i
  proof (cases "i \<in> set ?is")
    case True
    then have "ss ! i = fst (push e ?m (?ss ! i))" using that sp(1,2) by simp
    with push_inv [OF old(1)] push_feed [OF old(2) assms(2)] that sp(1) show ?thesis by simp
  next
    case False
    then have "st_closed (?ss ! i)" using that sp(1) by (simp add: open')
    moreover have "ss ! i = ?ss ! i" using False that sp(1,2) by simp
    ultimately show ?thesis using old(1) that sp(1) by (simp add: feed_ok_def)
  qed
  moreover have "set os = {i. i < length ss \<and> \<not> st_closed (ss ! i)}"
  proof -
    have "i \<in> set os \<longleftrightarrow> i < length ss \<and> \<not> st_closed (ss ! i)" for i
    proof (cases "i \<in> set ?is")
      case True
      then have "i < length ?ss" by (simp add: open')
      with True sp(2) have "ss ! i = fst (push e ?m (?ss ! i))" by simp
      with True sp(1,3) \<open>i < length ?ss\<close> push_open [of e ?m "?ss ! i"] show ?thesis by simp
    next
      case False
      then have "i \<notin> set os" "i < length ss \<Longrightarrow> st_closed (ss ! i)" using sp by (simp_all add: open')
      then show ?thesis by blast
    qed
    then show ?thesis by blast
  qed
  ultimately have "observers_ok (Suc n) (publish_event h e w)"
    using d sp(3) by (simp add: observers_ok_def w list_all_length)
  moreover have "set os \<subseteq> set ?is" using sp(3) by simp
  ultimately show ?thesis using w by blast
qed

lemma publish_shape:
  assumes "observers_ok n w" and "map seq_of es = [Suc n..<Suc (n + length es)]"
  shows "\<exists>ss os. publish h es w = w\<lparr>w_streams := ss, w_observers := os\<rparr> \<and> set os \<subseteq> set (w_observers w) \<and>
    observers_ok (n + length es) (publish h es w)"
  using assms
proof (induction es arbitrary: n w)
  case Nil
  show ?case using Nil by (intro exI [of _ "w_streams w"] exI [of _ "w_observers w"]) (simp add: publish_def)
next
  case (Cons e es)
  from Cons.prems(2) have e: "seq_of e = Suc n" "map seq_of es = [Suc (Suc n)..<Suc (Suc n + length es)]"
    by (simp_all add: upt_conv_Cons del: upt_Suc)
  let ?w = "publish_event h e w"
  from publish_event_ok [OF Cons.prems(1) e(1)] obtain ss os where
    w: "?w = w\<lparr>w_streams := ss, w_observers := os\<rparr>" "set os \<subseteq> set (w_observers w)" "observers_ok (Suc n) ?w" by blast
  from Cons.IH [OF w(3) e(2)] obtain ss' os' where "publish h es ?w = ?w\<lparr>w_streams := ss', w_observers := os'\<rparr>"
    "set os' \<subseteq> set (w_observers ?w)" "observers_ok (Suc n + length es) (publish h es ?w)" by blast
  moreover have "publish h (e # es) w = publish h es ?w" by (simp add: publish_def)
  ultimately show ?case using w(1,2) by auto
qed

lemma fold_finish_nth:
  assumes "\<forall>i\<in>set is. i < length ss"
  shows "length (fold (\<lambda>i ss. ss[i := finish err (ss ! i)]) is ss) = length ss \<and>
    (list_all stream_inv ss \<longrightarrow> list_all stream_inv (fold (\<lambda>i ss. ss[i := finish err (ss ! i)]) is ss)) \<and>
    (\<forall>k<length ss. st_closed (ss ! k) \<or> k \<in> set is \<longrightarrow>
      st_closed (fold (\<lambda>i ss. ss[i := finish err (ss ! i)]) is ss ! k))"
  using assms
proof (induction "is" arbitrary: ss)
  case (Cons i "is")
  let ?ss = "ss[i := finish err (ss ! i)]"
  have "list_all stream_inv ss \<longrightarrow> list_all stream_inv ?ss"
    using Cons.prems by (auto simp: list_all_length nth_list_update finish_inv)
  moreover have "st_closed (ss ! k) \<or> k = i \<longrightarrow> st_closed (?ss ! k)" if "k < length ss" for k
    using that by (cases "k = i") auto
  ultimately show ?case using Cons.IH [of ?ss] Cons.prems by auto
qed simp

lemma finish_observers_ok:
  assumes "observers_ok n w"
  shows "observers_ok m (finish_observers err w)"
proof -
  let ?ss = "fold (\<lambda>i ss. ss[i := finish err (ss ! i)]) (w_observers w) (w_streams w)"
  have "length ?ss = length (w_streams w) \<and> list_all stream_inv ?ss \<and>
      (\<forall>k<length (w_streams w). st_closed (?ss ! k))"
    using fold_finish_nth [of "w_observers w" "w_streams w" err] assms by (auto simp: observers_ok_def)
  then show ?thesis by (auto simp: observers_ok_def finish_observers_def list_all_length feed_ok_def)
qed

subsection \<open>Invariants\<close>

definition receipts_ok :: "'st Worker \<Rightarrow> bool" where
  "receipts_ok w =
     (\<forall>k rc. w_receipts w k = Some rc \<longrightarrow>
        rc_Key rc = k \<and> rc_JobID rc \<in> jb_ID ` set (sn_Jobs (w_state w)))"

definition log_end :: "Snapshot \<Rightarrow> nat" where
  "log_end s = unat (cu_Sequence (sn_Cursor s))"

definition base_inv :: "'st Worker \<Rightarrow> bool" where
  "base_inv w =
     (\<not> w_panicked w \<and> snap_inv (w_state w) \<and> observers_ok (log_end (w_state w)) w \<and> receipts_ok w \<and>
      (w_fatal w \<noteq> None \<or> w_closed w \<longrightarrow> w_observers w = []))"

text \<open>
  One goroutine runs exactly the active job and holds the cancel function; shutdown is
  finished exactly when nothing runs any more.
\<close>

definition run_inv :: "'st Worker \<Rightarrow> bool" where
  "run_inv w =
     (length (w_gens w) \<le> 1 \<and> (w_cancel w \<longleftrightarrow> w_gens w \<noteq> []) \<and>
      (w_fatal w = None \<longrightarrow>
         qs_Active (sn_Queue (w_state w)) = (case w_gens w of [] \<Rightarrow> None | g # _ \<Rightarrow> Some (fst g))) \<and>
      (w_closed w \<longleftrightarrow> w_stopping w \<and> w_gens w = []))"

text \<open>What a commit leaves alone, whatever its result.\<close>

definition same_run :: "'st Worker \<Rightarrow> 'st Worker \<Rightarrow> bool" where
  "same_run w w' =
     (w_cancel w' = w_cancel w \<and> w_gens w' = w_gens w \<and> w_stopping w' = w_stopping w \<and>
      w_closed w' = w_closed w \<and> w_outputErr w' = w_outputErr w)"

lemma poison_simps [simp]:
  "w_fatal (poison e w) = Some e" "w_state (poison e w) = w_state w" "w_receipts (poison e w) = w_receipts w"
  "w_observers (poison e w) = []" "w_store (poison e w) = w_store w" "w_panicked (poison e w) = w_panicked w"
  "w_cancel (poison e w) = w_cancel w" "w_gens (poison e w) = w_gens w" "w_stopping (poison e w) = w_stopping w"
  "w_closed (poison e w) = w_closed w" "w_outputErr (poison e w) = w_outputErr w"
  "w_ticks (poison e w) = w_ticks w" "w_draws (poison e w) = w_draws w"
  by (simp_all add: poison_def finish_observers_def)

lemma poison_observers_ok: "observers_ok n w \<Longrightarrow> observers_ok m (poison e w)"
  unfolding poison_def by (rule finish_observers_ok [of n]) (simp add: observers_ok_def)

lemma poison_base: "base_inv w \<Longrightarrow> base_inv (poison e w)"
  by (auto simp: base_inv_def receipts_ok_def intro: poison_observers_ok)

lemma poison_run: "run_inv w \<Longrightarrow> run_inv (poison e w)"
  by (simp add: run_inv_def)

lemma same_run_poison [simp]: "same_run w (poison e w') = same_run w w'"
  by (simp add: same_run_def)

lemma base_inv_fields:
  "base_inv (w\<lparr>w_ticks := t\<rparr>) = base_inv w" "base_inv (w\<lparr>w_draws := d\<rparr>) = base_inv w"
  "base_inv (w\<lparr>w_store := st\<rparr>) = base_inv w" "base_inv (w\<lparr>w_gens := g\<rparr>) = base_inv w"
  "base_inv (w\<lparr>w_cancel := b\<rparr>) = base_inv w" "base_inv (w\<lparr>w_ctxdone := b\<rparr>) = base_inv w"
  "base_inv (w\<lparr>w_outputErr := oe\<rparr>) = base_inv w" "base_inv (w\<lparr>w_stopping := b\<rparr>) = base_inv w"
  by (simp_all add: base_inv_def observers_ok_def receipts_ok_def)

subsection \<open>The store contract\<close>

definition receipt_map :: "Receipt list \<Rightarrow> bytes \<Rightarrow> Receipt option" where
  "receipt_map rs = fold (\<lambda>v m. m(rc_Key v \<mapsto> v)) rs Map.empty"

lemma receipt_map_append: "receipt_map (rs @ [r]) = (receipt_map rs)(rc_Key r \<mapsto> r)"
  by (simp add: receipt_map_def)

lemma receipt_map_Some: "receipt_map rs k = Some r \<Longrightarrow> r \<in> set rs \<and> rc_Key r = k"
  by (induction rs rule: rev_induct)
    (auto simp: receipt_map_append split: if_splits, simp add: receipt_map_def)

text \<open>
  What the worker relies on. A store is healthy (\<open>st_ok\<close>) or poisoned (\<open>st_dead\<close>). A healthy
  store that accepts an append has applied the commit to the view it recovers; a limit
  rejection changes nothing; errors are never nil faults. Recovery returns the view. A page of
  events continues the given cursor without a gap and is empty only at the end of the log.
  A poisoned store fails every operation, and not with a limit fault.
\<close>

definition limit_error :: "goerr \<Rightarrow> bool" where
  "limit_error e = (case errors_as e of Some (Some f) \<Rightarrow> ft_Code f = ErrLimitExceeded | _ \<Rightarrow> False)"

definition sound_error :: "goerr \<Rightarrow> bool" where
  "sound_error e = (e \<noteq> Panicked \<and> errors_as e \<noteq> Some None)"

locale store_contract =
  fixes h :: host and ops :: "'st store_ops" and st_ok :: "'st \<Rightarrow> bool" and st_dead :: "'st \<Rightarrow> bool"
    and view :: "'st \<Rightarrow> Recovery"
  assumes host: "host_ok h"
    and append_ok: "st_ok st \<Longrightarrow> commit_canon c \<Longrightarrow> so_Append ops st None c = (st', None) \<Longrightarrow>
      st_ok st' \<and> (\<exists>next. ApplyCommit h (rv_Snapshot (view st)) c = Inr next \<and>
        view st' = \<lparr>rv_Snapshot = next, rv_Receipts = rv_Receipts (view st) @
          (case cm_Receipt c of None \<Rightarrow> [] | Some r \<Rightarrow> [r])\<rparr>)"
    and append_limit: "st_ok st \<Longrightarrow> so_Append ops st None c = (st', Some e) \<Longrightarrow> limit_error e \<Longrightarrow> st' = st"
    and append_err: "st_ok st \<Longrightarrow> ApplyCommit h (rv_Snapshot (view st)) c = Inr next \<Longrightarrow>
      so_Append ops st None c = (st', Some e) \<Longrightarrow> sound_error e"
    and append_dead: "st_dead st \<Longrightarrow>
      \<exists>e. snd (so_Append ops st None c) = Some e \<and> sound_error e \<and> \<not> limit_error e"
    and recover: "st_ok st \<Longrightarrow> so_Recover ops st None = (st', Inr r) \<Longrightarrow> st' = st \<and> r = view st"
    and read_ok: "st_ok st \<Longrightarrow> so_ReadEvents ops st ctx cur n = (st', Inr es) \<Longrightarrow>
      st_ok st' \<and> view st' = view st \<and> int (length es) \<le> n \<and>
      (\<forall>k<length es. unat (cu_Sequence (ev_Cursor (es ! k))) = unat (cu_Sequence cur) + k + 1) \<and>
      (cu_Sequence cur < cu_Sequence (sn_Cursor (rv_Snapshot (view st))) \<longrightarrow> es \<noteq> [])"
    and read_err: "st_ok st \<Longrightarrow> so_ReadEvents ops st ctx cur n = (st', Inl e) \<Longrightarrow>
      st_ok st' \<and> view st' = view st \<or> st_dead st'"
    and read_dead: "st_dead st \<Longrightarrow> so_ReadEvents ops st ctx cur n = (st', pg) \<Longrightarrow> st_dead st' \<and> (\<exists>e. pg = Inl e)"
    and view_ok: "st_ok st \<Longrightarrow> snap_inv (rv_Snapshot (view st)) \<and>
      valid_utf8 (cu_StoreID (sn_Cursor (rv_Snapshot (view st)))) \<and>
      (\<forall>r\<in>set (rv_Receipts (view st)). rc_JobID r \<in> jb_ID ` set (sn_Jobs (rv_Snapshot (view st))))"
begin

text \<open>The worker's memory agrees with the store while both are healthy.\<close>

definition synced :: "'st Worker \<Rightarrow> bool" where
  "synced w =
     (w_fatal w = None \<and> \<not> w_closed w \<longrightarrow> st_dead (w_store w) \<or>
        st_ok (w_store w) \<and> rv_Snapshot (view (w_store w)) = w_state w \<and>
        receipt_map (rv_Receipts (view (w_store w))) = w_receipts w)"

lemma now_ok: "time_encodable (h_now h n)" "h_now h n \<noteq> 0"
  using host by (simp_all add: host_ok_def)

lemma synced_fields:
  "synced (w\<lparr>w_ticks := t\<rparr>) = synced w" "synced (w\<lparr>w_draws := d\<rparr>) = synced w"
  "synced (w\<lparr>w_gens := g\<rparr>) = synced w" "synced (w\<lparr>w_cancel := b\<rparr>) = synced w"
  "synced (w\<lparr>w_ctxdone := b\<rparr>) = synced w" "synced (w\<lparr>w_outputErr := oe\<rparr>) = synced w"
  "synced (w\<lparr>w_stopping := b\<rparr>) = synced w" "synced (w\<lparr>w_streams := ss\<rparr>) = synced w"
  "synced (w\<lparr>w_observers := os\<rparr>) = synced w"
  by (simp_all add: synced_def)

lemma synced_poison [simp]: "synced (poison e w)"
  by (simp add: synced_def)

text \<open>A commit that the store has appended and the worker has published.\<close>

lemma committed:
  assumes inv: "base_inv w" "synced w" "w_fatal w = None" "\<not> w_closed w"
    and a: "ApplyCommit h (w_state w) c = Inr next"
      "valid_utf8 (cu_StoreID (sn_Cursor (w_state w))) \<Longrightarrow> commit_canon c"
    and app: "so_Append ops (w_store w) None c = (st, None)"
    and w': "w' = w\<lparr>w_ticks := t, w_store := st, w_state := next,
      w_receipts := (case cm_Receipt c of None \<Rightarrow> w_receipts w | Some rc \<Rightarrow> (w_receipts w)(rc_Key rc \<mapsto> rc))\<rparr>"
  obtains ss os where "publish h (cm_Events c) w' = w'\<lparr>w_streams := ss, w_observers := os\<rparr>"
    "base_inv (publish h (cm_Events c) w')" "synced (publish h (cm_Events c) w')"
proof -
  have "\<not> st_dead (w_store w)" using append_dead [of "w_store w" c] app by auto
  with inv have s: "st_ok (w_store w)" "rv_Snapshot (view (w_store w)) = w_state w"
      "receipt_map (rv_Receipts (view (w_store w))) = w_receipts w" "snap_inv (w_state w)"
    by (auto simp: synced_def base_inv_def)
  have cc: "commit_canon c" using a(2) view_ok [OF s(1)] s(2) by simp
  note ids = commit_canon_ids [OF cc]
  from append_ok [OF s(1) cc app] s(2) a(1)
  have v: "st_ok st" "view st = \<lparr>rv_Snapshot = next, rv_Receipts = rv_Receipts (view (w_store w)) @
      (case cm_Receipt c of None \<Rightarrow> [] | Some r \<Rightarrow> [r])\<rparr>" by auto
  have "snap_inv next" using s(4) ids a(1) by (rule ApplyCommit_snap_inv)
  have sub: "jb_ID ` set (sn_Jobs (w_state w)) \<subseteq> jb_ID ` set (sn_Jobs next)"
    using ApplyCommit_jobs_le [OF s(4) ids a(1)] by (rule jobs_le_ids)
  have sy: "synced w'"
    using v s(3) by (simp add: synced_def w' receipt_map_append split: option.split)
  have rc: "receipts_ok w'"
    using inv(1) sub ApplyCommit_receipt [OF s(4) ids a(1)]
    by (auto simp: w' base_inv_def receipts_ok_def split: option.splits if_splits)
  let ?n = "log_end (w_state w)"
  have sq: "log_end next = ?n + length (cm_Events c)" "map seq_of (cm_Events c) = [Suc ?n..<Suc (?n + length (cm_Events c))]"
    using ApplyCommit_sequence [OF a(1)]
    by (auto simp: log_end_def seq_of_def intro!: nth_equalityI simp del: upt_Suc)
  have "observers_ok ?n w'"
    using inv(1) by (simp add: w' base_inv_def observers_ok_def)
  from publish_shape [OF this sq(2), of h] obtain ss os where
    p: "publish h (cm_Events c) w' = w'\<lparr>w_streams := ss, w_observers := os\<rparr>" "set os \<subseteq> set (w_observers w')"
      "observers_ok (log_end next) (publish h (cm_Events c) w')" unfolding sq(1) by blast
  have "base_inv (publish h (cm_Events c) w')"
    using p inv(1) \<open>snap_inv next\<close> rc by (auto simp: base_inv_def receipts_ok_def w')
  moreover have "synced (publish h (cm_Events c) w')" using p(1) sy by (simp add: synced_fields)
  ultimately show thesis using p(1) by (rule that [rotated])
qed

text \<open>The three ways a commit the reducer accepts can end.\<close>

definition settled ::
  "'st Worker \<Rightarrow> Receipt option \<Rightarrow> Snapshot \<Rightarrow> 'st Worker \<times> goerr option \<Rightarrow> bool" where
  "settled w r next res =
     (case res of
        (w', None) \<Rightarrow> base_inv w' \<and> synced w' \<and> same_run w w' \<and> w_state w' = next \<and> w_fatal w' = None \<and>
          w_ctxdone w' = w_ctxdone w \<and> w_receipts w' =
            (case r of None \<Rightarrow> w_receipts w | Some rc \<Rightarrow> (w_receipts w)(rc_Key rc \<mapsto> rc))
      | (w', Some e) \<Rightarrow>
          (\<exists>t. w' = w\<lparr>w_ticks := t\<rparr>) \<and> limit_error e \<or>
          base_inv w' \<and> same_run w w' \<and> w_state w' = w_state w \<and> w_receipts w' = w_receipts w \<and>
          w_fatal w' = Some e)"

lemma settledE:
  assumes "settled w r next res"
  obtains
    (ok) w' where "res = (w', None)" "base_inv w'" "synced w'" "same_run w w'"
      "w_state w' = next" "w_fatal w' = None" "w_ctxdone w' = w_ctxdone w"
      "w_receipts w' = (case r of None \<Rightarrow> w_receipts w | Some rc \<Rightarrow> (w_receipts w)(rc_Key rc \<mapsto> rc))"
  | (limit) e t where "res = (w\<lparr>w_ticks := t\<rparr>, Some e)" "limit_error e"
  | (fatal) w' e where "res = (w', Some e)" "base_inv w'" "same_run w w'"
      "w_state w' = w_state w" "w_receipts w' = w_receipts w" "w_fatal w' = Some e"
  using assms by (cases res; cases "snd res") (auto simp: settled_def)

lemma commit_settled:
  assumes inv: "base_inv w" "synced w" "w_fatal w = None" "\<not> w_closed w"
    and st: "stamp h (cu_StoreID (sn_Cursor (w_state w))) (cu_Sequence (sn_Cursor (w_state w))) (w_ticks w) es
      = (o', t)"
    and a: "\<And>es'. o' = Some es' \<Longrightarrow>
      ApplyCommit h (w_state w) \<lparr>cm_Version = 1, cm_Events = es', cm_Receipt = r\<rparr> = Inr next"
    and cn: "list_all payload_canon es" "opt_all receipt_canon r"
  shows "settled w r next (commit h ops es r w)"
proof (cases o')
  case None
  then have "commit h ops es r w = (poison exhausted (w\<lparr>w_ticks := t\<rparr>), Some exhausted)"
    by (simp add: commit_def st)
  then show ?thesis
    by (simp add: settled_def poison_base base_inv_fields inv(1) same_run_def)
next
  case (Some es')
  let ?c = "\<lparr>cm_Version = 1, cm_Events = es', cm_Receipt = r\<rparr>"
  have a: "ApplyCommit h (w_state w) ?c = Inr next"
      "valid_utf8 (cu_StoreID (sn_Cursor (w_state w))) \<Longrightarrow> commit_canon ?c"
    using a [OF Some] stamp_canon [OF st [unfolded Some] cn(1) _ now_ok(1)] cn(2)
    by (simp_all add: commit_canon_def)
  obtain st' e' where app: "so_Append ops (w_store w) None ?c = (st', e')" by fastforce
  show ?thesis
  proof (cases e')
    case None
    let ?w = "w\<lparr>w_ticks := t, w_store := st', w_state := next,
      w_receipts := (case cm_Receipt ?c of None \<Rightarrow> w_receipts w | Some rc \<Rightarrow> (w_receipts w)(rc_Key rc \<mapsto> rc))\<rparr>"
    from app None have app': "so_Append ops (w_store w) None ?c = (st', None)" by simp
    obtain ss os where "publish h (cm_Events ?c) ?w = ?w\<lparr>w_streams := ss, w_observers := os\<rparr>"
      "base_inv (publish h (cm_Events ?c) ?w)" "synced (publish h (cm_Events ?c) ?w)"
      by (rule committed [OF inv a app' refl])
    then have p: "publish h es' ?w = ?w\<lparr>w_streams := ss, w_observers := os\<rparr>"
      "base_inv (publish h es' ?w)" "synced (publish h es' ?w)" by simp_all
    have "commit h ops es r w = (publish h es' ?w, None)"
      using None by (simp add: commit_def Let_def st Some a(1) app cong: option.case_cong)
    then show ?thesis
      using p inv(3) by (simp add: settled_def same_run_def)
  next
    case (Some e)
    have healthy: "st_ok (w_store w)" "rv_Snapshot (view (w_store w)) = w_state w" if "\<not> st_dead (w_store w)"
      using that inv by (auto simp: synced_def)
    have e: "sound_error e" "limit_error e \<longrightarrow> st' = w_store w"
      using append_dead [of "w_store w" ?c] append_err [of "w_store w" ?c "next" st' e]
        append_limit [of "w_store w" ?c st' e] app Some a(1) healthy
      by (cases "st_dead (w_store w)"; auto)+
    let ?w = "w\<lparr>w_ticks := t, w_store := st'\<rparr>"
    have c: "commit h ops es r w = (append_failed e ?w, Some e)"
      using \<open>o' = Some es'\<close> Some by (simp add: commit_def st a(1) app)
    have af: "append_failed e ?w = (if limit_error e then ?w else poison e ?w)"
      using e(1) by (auto simp: append_failed_def sound_error_def limit_error_def split: option.split)
    show ?thesis
    proof (cases "limit_error e")
      case True
      with e(2) have "?w = w\<lparr>w_ticks := t\<rparr>" by simp
      with c af True show ?thesis by (auto simp: settled_def)
    next
      case False
      with c af show ?thesis
        by (simp add: settled_def poison_base base_inv_fields inv(1) same_run_def)
    qed
  qed
qed

end

subsection \<open>Looking up jobs of a consistent snapshot\<close>

lemma lookup:
  assumes "snap_inv s" and "i \<in> set (map jb_ID (filter P (sn_Jobs s)))"
  obtains n where "n < length (sn_Jobs s)" "jb_ID (sn_Jobs s ! n) = i" "P (sn_Jobs s ! n)"
    "find_job (sn_Jobs s) i = Some (sn_Jobs s ! n)" "job_wf (sn_Jobs s ! n)"
proof -
  from assms(2) obtain j where "j \<in> set (sn_Jobs s)" "jb_ID j = i" "P j" by auto
  moreover from this(1) obtain n where "n < length (sn_Jobs s)" "sn_Jobs s ! n = j"
    by (auto simp: in_set_conv_nth)
  moreover have "distinct (map jb_ID (sn_Jobs s))" "job_wf j"
    using assms(1) calculation(1) by (auto simp: snap_inv_def jobs_inv_def list_all_iff)
  ultimately show thesis by (intro that [of n]) (auto intro: find_job_mem)
qed

lemma lookup_any:
  assumes "snap_inv s" and "find_job (sn_Jobs s) i = Some j"
  obtains n where "n < length (sn_Jobs s)" "sn_Jobs s ! n = j" "jb_ID j = i" "job_wf j"
proof -
  from assms(2) have "j \<in> set (sn_Jobs s)" "jb_ID j = i" by (auto dest: find_job_Some)
  then show thesis
    using assms(1) that by (auto simp: in_set_conv_nth snap_inv_def jobs_inv_def list_all_iff)
qed

lemma clone_of_inv:
  assumes "base_inv w" and "find_job (sn_Jobs (w_state w)) i = Some j"
  shows "clone_of w i = Some j"
proof -
  have "snap_inv (w_state w)" using assms(1) by (simp add: base_inv_def)
  then obtain n where "job_wf j" using assms(2) by (rule lookup_any)
  with assms(2) show ?thesis by (simp add: clone_of_def Clone_job_def job_wf_def)
qed

lemma pending_lookup:
  assumes "snap_inv s" and "i \<in> set (pending_ids (sn_Queue s))"
  obtains n where "n < length (sn_Jobs s)" "jb_ID (sn_Jobs s ! n) = i" "jb_State (sn_Jobs s ! n) = JobQueued"
    "find_job (sn_Jobs s) i = Some (sn_Jobs s ! n)" "job_wf (sn_Jobs s ! n)"
  using lookup [OF assms(1), of i "\<lambda>j. jb_State j = JobQueued"] assms(2) snap_inv_queue(1) [OF assms(1)]
  by (metis queued_ids_def)

lemma active_lookup:
  assumes "snap_inv s" and "qs_Active (sn_Queue s) = Some i"
  obtains n where "n < length (sn_Jobs s)" "jb_ID (sn_Jobs s ! n) = i" "is_active (sn_Jobs s ! n)"
    "find_job (sn_Jobs s) i = Some (sn_Jobs s ! n)" "job_wf (sn_Jobs s ! n)"
proof -
  have "i \<in> set (map jb_ID (filter is_active (sn_Jobs s)))"
    using snap_inv_queue(3) [OF assms(1)] assms(2) unfolding active_ids_def by (metis list.set_intros(1) option.simps(5))
  from lookup [OF assms(1) this] that show thesis by metis
qed

lemma job_wf_id: "job_wf j \<Longrightarrow> valid_utf8 (jb_ID j)"
  by (metis clone_job_fix_iff job_wf_def to_valid_valid)

lemma snap_inv_simps:
  assumes "snap_inv s"
  shows "clone_queue (sn_Queue s) = sn_Queue s" "queue_wf (sn_Queue s)" "distinct (map jb_ID (sn_Jobs s))"
    "jobs_inv (sn_Jobs s)"
  using assms by (simp_all add: snap_inv_def queue_wf_def jobs_inv_def)

subsection \<open>The worker's commits settle\<close>

definition updated :: "Snapshot \<Rightarrow> nat \<Rightarrow> Job \<Rightarrow> QueueState \<Rightarrow> Snapshot" where
  "updated s n j q = s\<lparr>sn_Cursor := advance 2 s, sn_Queue := q, sn_Jobs := (sn_Jobs s)[n := j]\<rparr>"

definition extended :: "Snapshot \<Rightarrow> Job \<Rightarrow> QueueState \<Rightarrow> Snapshot" where
  "extended s j q = s\<lparr>sn_Cursor := advance 2 s, sn_Queue := q, sn_Jobs := sn_Jobs s @ [j]\<rparr>"

context store_contract
begin

lemma commit_update:
  assumes inv: "base_inv w" "synced w" "w_fatal w = None" "\<not> w_closed w"
    and n: "n < length (sn_Jobs (w_state w))"
    and j: "update_ok (sn_Queue (w_state w)) k (sn_Jobs (w_state w) ! n) j"
    and q: "queue_after (sn_Queue (w_state w)) j q"
  shows "settled w None (updated (w_state w) n j q) (commit h ops [jobEvent k j, queueEvent q] None w)"
proof -
  let ?s = "w_state w"
  from inv(1) have s: "snap_inv ?s" by (simp add: base_inv_def)
  note ss = snap_inv_simps [OF s]
  have id: "jb_ID j = jb_ID (sn_Jobs ?s ! n)" using j by (simp add: update_ok_def)
  have v: "list_all payload_canon [jobEvent k j, queueEvent q]"
    using update_canon [OF j jobs_inv_relation [OF ss(4) n]] q by (simp add: queue_event_canon queue_after_def)
  have a: "ApplyCommit h ?s (pair_commit ?s t t' (jobEvent k j) q None) = Inr (updated ?s n j q)"
    if "room 2 ?s" "t \<noteq> 0" "t' \<noteq> 0" for t t'
    unfolding updated_def
    using that ss(2) apply_update_event [OF j n ss(3)] q queue_ok_update [OF s n id q]
    by (intro ApplyCommit_pair) (auto simp: queue_after_def receipt_ok_def)
  show ?thesis
  proof (cases "room 2 ?s")
    case True
    from commit_settled [OF inv stamp_two [OF True]] a [OF True now_ok(2) now_ok(2)] v show ?thesis
      by (auto simp: pair_commit_def)
  next
    case False
    then obtain t where "stamp h (cu_StoreID (sn_Cursor ?s)) (cu_Sequence (sn_Cursor ?s)) (w_ticks w)
        [jobEvent k j, queueEvent q] = (None, t)"
      using stamp_two_full by (metis prod.collapse)
    from commit_settled [OF inv this] v show ?thesis by simp
  qed
qed

lemma commit_extend:
  assumes inv: "base_inv w" "synced w" "w_fatal w = None" "\<not> w_closed w"
    and j: "addition_ok h (sn_Jobs (w_state w)) j"
    and q: "q = (sn_Queue (w_state w))\<lparr>qs_Pending := Some (pending_ids (sn_Queue (w_state w)) @ [jb_ID j])\<rparr>"
    and len: "length (pending_ids (sn_Queue (w_state w))) < MaxPending" and r: "receipt_ok (jb_ID j) (Some r)"
  shows "settled w (Some r) (extended (w_state w) j q)
    (commit h ops [jobEvent EventJobAccepted j, queueEvent q] (Some r) w)"
proof -
  let ?s = "w_state w"
  from inv(1) have s: "snap_inv ?s" by (simp add: base_inv_def)
  note ss = snap_inv_simps [OF s]
  have v: "valid_utf8 (jb_ID j)" "jb_State j = JobQueued" "jb_ID j \<noteq> []"
    using j by (auto simp: addition_ok_def clone_job_fix_iff) (metis to_valid_valid)
  have qw: "queue_wf q"
    using ss(1,2) v(1) by (cases "sn_Queue ?s") (auto simp: q queue_wf_def clone_queue_def pending_ids_def
        to_valid_id split: option.splits)
  have cn: "list_all payload_canon [jobEvent EventJobAccepted j, queueEvent q]" "opt_all receipt_canon (Some r)"
    using addition_canon [OF j] qw receipt_canonI [OF r v(1)] by (simp_all add: queue_event_canon)
  have a: "ApplyCommit h ?s (pair_commit ?s t t' (jobEvent EventJobAccepted j) q (Some r)) = Inr (extended ?s j q)"
    if "room 2 ?s" "t \<noteq> 0" "t' \<noteq> 0" for t t'
    unfolding extended_def
    using that ss(2) apply_accept_event [OF j] qw r queue_ok_append [OF s v(2,3) _ _ len, of q]
    by (intro ApplyCommit_pair) (auto simp: q pending_ids_def)
  show ?thesis
  proof (cases "room 2 ?s")
    case True
    from commit_settled [OF inv stamp_two [OF True]] a [OF True now_ok(2) now_ok(2)] cn show ?thesis
      by (auto simp: pair_commit_def)
  next
    case False
    then obtain t where "stamp h (cu_StoreID (sn_Cursor ?s)) (cu_Sequence (sn_Cursor ?s)) (w_ticks w)
        [jobEvent EventJobAccepted j, queueEvent q] = (None, t)"
      using stamp_two_full by (metis prod.collapse)
    from commit_settled [OF inv this] cn show ?thesis by simp
  qed
qed

lemma commit_single:
  assumes inv: "base_inv w" "synced w" "w_fatal w = None" "\<not> w_closed w"
    and e: "payload_count e = 1" "payload_canon e"
    and p: "\<And>t. apply_payload h (w_state w) [] (stamped (w_state w) 1 t e) = Inr (s', [])" and q: "queue_ok s'"
  shows "settled w None (s'\<lparr>sn_Cursor := advance 1 (w_state w)\<rparr>) (commit h ops [e] None w)"
proof -
  let ?s = "w_state w"
  from inv(1) have s: "snap_inv ?s" by (simp add: base_inv_def)
  have "ApplyCommit h ?s (single_commit ?s t e) = Inr (s'\<lparr>sn_Cursor := advance 1 ?s\<rparr>)"
    if "room 1 ?s" "t \<noteq> 0" for t
    using that e p q snap_inv_simps(2) [OF s] by (intro ApplyCommit_single) auto
  then have a: "room 1 ?s \<Longrightarrow> ApplyCommit h ?s \<lparr>cm_Version = 1,
      cm_Events = [stamped ?s 1 (h_now h (w_ticks w)) e], cm_Receipt = None\<rparr>
      = Inr (s'\<lparr>sn_Cursor := advance 1 ?s\<rparr>)"
    using now_ok(2) by (simp add: single_commit_def)
  obtain o' t where st: "stamp h (cu_StoreID (sn_Cursor ?s)) (cu_Sequence (sn_Cursor ?s)) (w_ticks w) [e] = (o', t)"
    by fastforce
  show ?thesis
    using st [unfolded stamp_one] a e(2) by (intro commit_settled [OF inv st])
      (auto simp del: One_nat_def split: if_splits)
qed

end

end
