(* ===== verification/Journal_Log.thy ===== *)
theory Journal_Log
  imports Journal Lifecycle
begin

text \<open>
  The log a journal file holds: its bytes as a function of the commits, what the recovery
  scan and the replay read from them, and the page of events \<open>ReadEvents\<close> returns.
\<close>

definition commit_text :: "host \<Rightarrow> Commit \<Rightarrow> bytes" where
  "commit_text h c = json_text (commit_json h c)"

definition entry_ok :: "host \<Rightarrow> Commit \<Rightarrow> bool" where
  "entry_ok h c = (commit_canon c \<and> marshal_commit h c = Some (commit_text h c) \<and>
     length (commit_text h c) \<le> MaxCommitBytes)"

definition frame_of :: "host \<Rightarrow> Commit \<Rightarrow> bytes" where
  "frame_of h c = frame h (commit_text h c)"

definition log_bytes :: "host \<Rightarrow> bytes \<Rightarrow> Commit list \<Rightarrow> bytes" where
  "log_bytes h store cs = journal_header h store @ concat (map (frame_of h) cs)"

definition replay :: "host \<Rightarrow> Snapshot \<Rightarrow> Commit list \<Rightarrow> goerr + Snapshot" where
  "replay h s cs = fold_result (ApplyCommit h) s cs"

definition receipts_in :: "Commit list \<Rightarrow> Receipt list" where
  "receipts_in cs = concat (map (\<lambda>c. receipt_list (cm_Receipt c)) cs)"

definition log_events :: "Commit list \<Rightarrow> Event list" where
  "log_events cs = concat (map cm_Events cs)"

fun records_at :: "host \<Rightarrow> nat \<Rightarrow> Commit list \<Rightarrow> index list" where
  "records_at h pos [] = []"
| "records_at h pos (c # cs) =
     \<lparr>ix_offset = pos, ix_length = length (commit_text h c), ix_first = cu_Sequence (ev_Cursor (hd (cm_Events c))),
      ix_last = cu_Sequence (ev_Cursor (last (cm_Events c)))\<rparr> # records_at h (pos + length (frame_of h c)) cs"

lemma log_simps [simp]:
  "receipts_in [] = []" "receipts_in (c # cs) = receipt_list (cm_Receipt c) @ receipts_in cs"
  "receipts_in (xs @ ys) = receipts_in xs @ receipts_in ys"
  "log_events [] = []" "log_events (c # cs) = cm_Events c @ log_events cs"
  "log_events (xs @ ys) = log_events xs @ log_events ys"
  "replay h s [] = Inr s"
  "log_bytes h store (cs @ [c]) = log_bytes h store cs @ frame_of h c"
  by (simp_all add: receipts_in_def log_events_def replay_def log_bytes_def)

lemma replay_Cons: "replay h s (c # cs) = (case ApplyCommit h s c of Inl e \<Rightarrow> Inl e | Inr s' \<Rightarrow> replay h s' cs)"
  by (simp add: replay_def split: sum.split)

lemma replay_snoc: "replay h s cs = Inr s' \<Longrightarrow> replay h s (cs @ [c]) = ApplyCommit h s' c"
  by (simp add: replay_def fold_result_append split: sum.split)

lemma records_at_append:
  "records_at h pos (xs @ ys) =
     records_at h pos xs @ records_at h (pos + length (concat (map (frame_of h) xs))) ys"
  by (induction xs arbitrary: pos) (simp_all add: add.assoc)

lemma length_records_at [simp]: "length (records_at h pos cs) = length cs"
  by (induction cs arbitrary: pos) auto

subsection \<open>Frames\<close>

lemma sha_length: "host_ok h \<Longrightarrow> length (h_sha h x) = 32"
  by (simp add: host_ok_def)

lemma length_frame_prefix [simp]: "length (frame_prefix b) = 8"
  by (simp add: frame_prefix_def)

lemma length_frame_header: "host_ok h \<Longrightarrow> length (frame_header h b) = FrameSize"
  by (simp add: frame_header_def sha_length FrameSize_def)

lemma length_frame: "host_ok h \<Longrightarrow> length (frame h b) = FrameSize + length b"
  by (simp add: frame_def length_frame_header)

lemma frame_header_parts:
  assumes "host_ok h"
  shows "take 4 (frame_header h b) = be32 1" "take 4 (drop 4 (frame_header h b)) = be32 (length b)"
    "take 8 (frame_header h b) = frame_prefix b" "take 32 (drop 8 (frame_header h b)) = h_sha h (frame_prefix b)"
    "drop 40 (frame_header h b) = h_sha h b"
  using sha_length [OF assms] by (simp_all add: frame_header_def frame_prefix_def)

lemma length_journal_header: "host_ok h \<Longrightarrow> length store = 16 \<Longrightarrow> length (journal_header h store) = HeaderSize"
  by (simp add: journal_header_def Let_def magic_def sha_length HeaderSize_def)

lemma commit_text_nonempty: "0 < length (commit_text h c)"
  by (simp add: commit_text_def commit_json_def)

lemma decode_text:
  assumes "host_text_ok h" and "entry_ok h c"
  shows "decode h (commit_text h c) = Inr c"
  using assms unmarshal_marshal [of h c "commit_text h c"] by (simp add: decode_def entry_ok_def)

lemma entry_small: "entry_ok h c \<Longrightarrow> length (commit_text h c) < 4294967296"
  by (simp add: entry_ok_def MaxCommitBytes_def)

subsection \<open>Reading back\<close>

text \<open>A call that reads leaves the file as it was.\<close>

definition same_file :: "File \<Rightarrow> File \<Rightarrow> bool" where
  "same_file f f' = (f_bytes f' = f_bytes f \<and> f_pos f' = f_pos f \<and> f_env f' = f_env f)"

lemma same_file_refl [simp]: "same_file f f"
  by (simp add: same_file_def)

lemma same_file_trans: "same_file f g \<Longrightarrow> same_file g k \<Longrightarrow> same_file f k"
  by (simp add: same_file_def)

lemma same_file_calm: "same_file f f' \<Longrightarrow> calm f \<Longrightarrow> calm f'"
  by (simp add: same_file_def calm_def)

lemma ReadAt_part:
  assumes "file_ReadAt off n f = (f', r)" and "f_bytes f = pre @ b @ post" and "off = length pre" and "n = length b"
  shows "same_file f f' \<and> (r = Inr b \<or> \<not> calm f \<and> (\<exists>e. r = Inl e))"
  using assms
  by (cases "io_now f")
    (auto simp: file_ReadAt_def same_file_def calm_def io_now_def io_err_def split: option.splits intro!: exI [of _ "f_calls f"])

text \<open>
  A frame that is in the file is read as it was written, unless the file fails.
\<close>

lemma read_record_frame:
  assumes h: "host_ok h" "host_text_ok h" and c: "entry_ok h c"
    and f: "f_bytes f = pre @ frame_of h c @ post"
    and r: "ix_offset r = length pre" "ix_length r = length (commit_text h c)"
    and res: "read_record h r f = (f', x)"
  shows "same_file f f' \<and> (x = Inr c \<or> \<not> calm f \<and> (\<exists>e. x = Inl e))"
proof -
  let ?b = "commit_text h c"
  obtain f1 y where 1: "file_ReadAt (ix_offset r + FrameSize) (ix_length r) f = (f1, y)" by fastforce
  have p1: "same_file f f1 \<and> (y = Inr ?b \<or> \<not> calm f \<and> (\<exists>e. y = Inl e))"
    using 1 f r h(1) by (intro ReadAt_part [where pre = "pre @ frame_header h ?b" and post = post])
      (simp_all add: frame_of_def frame_def length_frame_header)
  show ?thesis
  proof (cases y)
    case (Inl e)
    with 1 p1 res show ?thesis by (auto simp: read_record_def)
  next
    case (Inr b)
    with p1 have [simp]: "b = ?b" and s1: "same_file f f1" by auto
    obtain f2 z where 2: "file_ReadAt (ix_offset r) FrameSize f1 = (f2, z)" by fastforce
    have p2: "same_file f1 f2 \<and> (z = Inr (frame_header h ?b) \<or> \<not> calm f1 \<and> (\<exists>e. z = Inl e))"
      using 2 f r h(1) s1 by (intro ReadAt_part [where pre = pre and post = "?b @ post"])
        (simp_all add: frame_of_def frame_def length_frame_header same_file_def)
    have "f' = f2 \<and> x = (case z of Inl e \<Rightarrow> Inl e | Inr hb \<Rightarrow>
        if of_be32 (take 4 hb) \<noteq> 1 \<or> of_be32 (take 4 (drop 4 hb)) \<noteq> ix_length r \<or>
          h_sha h (take 8 hb) \<noteq> take 32 (drop 8 hb) \<or> h_sha h b \<noteq> drop 40 hb
        then Inl (OtherErr ''replay frame changed'') else decode h b)"
      using res 1 2 Inr by (cases z) (auto simp: read_record_def)
    with p2 s1 r(2) frame_header_parts [OF h(1), of ?b] decode_text [OF h(2) c] entry_small [OF c] show ?thesis
      by (auto simp: of_be32_be32 intro: same_file_trans dest: same_file_calm)
  qed
qed

subsection \<open>Pages\<close>

definition event_len :: "host \<Rightarrow> Event \<Rightarrow> nat" where
  "event_len h e = text_len (marshal_event h e)"

text \<open>The longest run of events within the count and, after \<open>m\<close> bytes, the byte bound.\<close>

fun page :: "host \<Rightarrow> nat \<Rightarrow> nat \<Rightarrow> Event list \<Rightarrow> Event list" where
  "page h n m [] = []"
| "page h n m (e # es) =
     (if n = 0 \<or> m + event_len h e > MaxObserverBytes then []
      else e # page h (n - 1) (m + event_len h e) es)"

lemma page_prefix: "\<exists>k\<le>n. page h n m es = take k es"
proof (induction es arbitrary: n m)
  case (Cons e es)
  show ?case
  proof (cases "n = 0 \<or> m + event_len h e > MaxObserverBytes")
    case False
    from Cons [of "n - 1" "m + event_len h e"] obtain k where
      "k \<le> n - 1" "page h (n - 1) (m + event_len h e) es = take k es" by blast
    with False show ?thesis by (intro exI [of _ "Suc k"]) auto
  qed (auto intro: exI [of _ 0])
qed (auto intro: exI [of _ 0])

lemma page_zero [simp]: "page h 0 m es = []"
  by (cases es) auto

definition after_cursor :: "64 word \<Rightarrow> Event list \<Rightarrow> Event list" where
  "after_cursor a es = filter (\<lambda>e. cu_Sequence (ev_Cursor e) > a) es"

lemma take_events_page:
  assumes "take_events h a n es out m = (out', m', full)" and "length out < n"
  shows "out @ page h (n - length out) m (after_cursor a es @ rest) =
    (if full then out' else out' @ page h (n - length out') m' rest) \<and> length out' \<le> n"
  using assms
proof (induction es arbitrary: out m)
  case (Cons e es)
  show ?case
  proof (cases "cu_Sequence (ev_Cursor e) > a")
    case False
    with Cons show ?thesis by (simp add: after_cursor_def)
  next
    case True
    let ?k = "event_len h e"
    consider (big) "m + ?k > MaxObserverBytes" | (last) "m + ?k \<le> MaxObserverBytes" "Suc (length out) = n"
      | (more) "m + ?k \<le> MaxObserverBytes" "Suc (length out) < n"
      using Cons.prems(2) by linarith
    then show ?thesis
    proof cases
      case big
      with True Cons.prems show ?thesis by (auto simp: after_cursor_def event_len_def Let_def)
    next
      case last
      then have "n - length out = 1" by simp
      with last True Cons.prems show ?thesis by (auto simp: after_cursor_def event_len_def Let_def)
    next
      case more
      then have "take_events h a n es (out @ [e]) (m + ?k) = (out', m', full)" "length (out @ [e]) < n"
        using True Cons.prems by (simp_all add: event_len_def Let_def)
      from Cons.IH [OF this] more True show ?thesis
        by (simp add: after_cursor_def Suc_diff_Suc)
    qed
  qed
qed (simp add: after_cursor_def)

lemma read_records_page:
  assumes h: "host_ok h" "host_text_ok h"
    and "list_all (entry_ok h) cs" and "f_bytes f = pre @ concat (map (frame_of h) cs) @ post"
    and "read_records h a n (records_at h (length pre) cs) out m f = (f', x)" and "length out \<le> n"
  shows "same_file f f' \<and>
    (x = Inr (out @ page h (n - length out) m (after_cursor a (log_events cs))) \<or> \<not> calm f \<and> (\<exists>e. x = Inl e))"
  using assms(3-)
proof (induction cs arbitrary: pre out m f)
  case Nil
  then show ?case by (simp add: after_cursor_def)
next
  case (Cons c cs)
  let ?rs = "records_at h (length (pre @ frame_of h c)) cs"
  have ce: "entry_ok h c" "list_all (entry_ok h) cs" using Cons.prems(1) by simp_all
  define r where "r = \<lparr>ix_offset = length pre, ix_length = length (commit_text h c),
      ix_first = cu_Sequence (ev_Cursor (hd (cm_Events c))), ix_last = cu_Sequence (ev_Cursor (last (cm_Events c)))\<rparr>"
  then have r: "ix_offset r = length pre" "ix_length r = length (commit_text h c)"
    and rs: "records_at h (length pre) (c # cs) = r # ?rs" by simp_all
  show ?case
  proof (cases "length out = n")
    case True
    with Cons.prems show ?thesis by auto
  next
    case False
    with Cons.prems(4) have lt: "length out < n" by simp
    obtain f1 y where rr: "read_record h r f = (f1, y)" by fastforce
    have fr: "f_bytes f = pre @ frame_of h c @ (concat (map (frame_of h) cs) @ post)" using Cons.prems(2) by simp
    have s1: "same_file f f1 \<and> (y = Inr c \<or> \<not> calm f \<and> (\<exists>e. y = Inl e))"
      by (rule read_record_frame [OF h ce(1) fr r rr])
    show ?thesis
    proof (cases y)
      case (Inl e)
      with rr s1 Cons.prems(3) lt show ?thesis unfolding rs by auto
    next
      case (Inr c')
      with s1 have [simp]: "c' = c" by auto
      obtain out' m' full where te: "take_events h a n (cm_Events c) out m = (out', m', full)"
        by (cases "take_events h a n (cm_Events c) out m") auto
      note tp = take_events_page [OF te lt, of "after_cursor a (log_events cs)"]
      have ev: "after_cursor a (log_events (c # cs)) = after_cursor a (cm_Events c) @ after_cursor a (log_events cs)"
        by (simp add: after_cursor_def)
      have step: "(if full then (f1, Inr out') else read_records h a n ?rs out' m' f1) = (f', x)"
        using Cons.prems(3) rr Inr te lt unfolding rs by (simp split del: if_split del: length_append)
      show ?thesis
      proof (cases full)
        case True
        with step tp s1 ev show ?thesis by auto
      next
        case False
        have f1: "f_bytes f1 = (pre @ frame_of h c) @ concat (map (frame_of h) cs) @ post"
          using Cons.prems(2) s1 by (simp add: same_file_def)
        have "read_records h a n ?rs out' m' f1 = (f', x)" "length out' \<le> n" using step False tp by simp_all
        from Cons.IH [OF ce(2) f1 this] tp False ev s1 show ?thesis
          by (auto intro: same_file_trans dest: same_file_calm)
      qed
    qed
  qed
qed

subsection \<open>The sequence of the log\<close>

lemma fold_last:
  assumes "fold_result (apply_event h) (s, a) es = Inr (s', a')" and "es \<noteq> []"
  shows "sn_Cursor s' = ev_Cursor (last es)"
  using assms
proof (induction es arbitrary: s a)
  case (Cons e es)
  from Cons.prems(1) obtain s1 a1 where e: "apply_event h (s, a) e = Inr (s1, a1)"
    and r: "fold_result (apply_event h) (s1, a1) es = Inr (s', a')" by (auto split: sum.splits)
  from e obtain s2 where "s1 = s2\<lparr>sn_Cursor := ev_Cursor e\<rparr>" by (rule apply_event_effect)
  then have c: "sn_Cursor s1 = ev_Cursor e" by simp
  show ?case
  proof (cases "es = []")
    case True
    with r c show ?thesis by auto
  next
    case False
    with Cons.IH [OF r] show ?thesis by simp
  qed
qed simp

lemma ApplyCommit_last: "ApplyCommit h s c = Inr s' \<Longrightarrow> sn_Cursor s' = ev_Cursor (last (cm_Events c))"
  by (erule ApplyCommit_fold) (auto intro: fold_last)

definition last_seq :: "Commit \<Rightarrow> nat" where
  "last_seq c = seq_of (last (cm_Events c))"

lemma ApplyCommit_seqs:
  assumes "ApplyCommit h s c = Inr s'"
  shows "map seq_of (cm_Events c) = [Suc (log_end s)..<Suc (log_end s')]" "log_end s < log_end s'"
    "last_seq c = log_end s'" "cm_Events c \<noteq> []" "cu_StoreID (sn_Cursor s') = cu_StoreID (sn_Cursor s)"
proof -
  note q = ApplyCommit_sequence [OF assms]
  show ne: "cm_Events c \<noteq> []" using assms by (rule ApplyCommit_fold)
  show "map seq_of (cm_Events c) = [Suc (log_end s)..<Suc (log_end s')]"
    using q by (auto simp: log_end_def seq_of_def intro!: nth_equalityI simp del: upt_Suc)
  show "log_end s < log_end s'" using q ne by (simp add: log_end_def)
  show "last_seq c = log_end s'"
    using ApplyCommit_last [OF assms] by (simp add: last_seq_def seq_of_def log_end_def)
  show "cu_StoreID (sn_Cursor s') = cu_StoreID (sn_Cursor s)" using q by simp
qed

lemma replay_seqs:
  assumes "replay h s cs = Inr s'"
  shows "map seq_of (log_events cs) = [Suc (log_end s)..<Suc (log_end s')] \<and> log_end s \<le> log_end s' \<and>
    cu_StoreID (sn_Cursor s') = cu_StoreID (sn_Cursor s)"
  using assms
proof (induction cs arbitrary: s)
  case (Cons c cs)
  then obtain s1 where a: "ApplyCommit h s c = Inr s1" and r: "replay h s1 cs = Inr s'"
    by (auto simp: replay_Cons split: sum.splits)
  note q = ApplyCommit_seqs [OF a] and i = Cons.IH [OF r]
  have "[Suc (log_end s)..<Suc (log_end s1)] @ [Suc (log_end s1)..<Suc (log_end s')] = [Suc (log_end s)..<Suc (log_end s')]"
    using q(2) i upt_add_eq_append [of "Suc (log_end s)" "Suc (log_end s1)" "log_end s' - log_end s1"]
    by (simp del: upt_Suc)
  with q i show ?case by (auto simp del: upt_Suc)
qed simp

lemma replay_lasts:
  assumes "replay h s cs = Inr s'"
  shows "sorted (map last_seq cs) \<and>
    (\<forall>c\<in>set cs. log_end s < last_seq c \<and> (\<forall>e\<in>set (cm_Events c). seq_of e \<le> last_seq c))"
  using assms
proof (induction cs arbitrary: s)
  case (Cons c cs)
  then obtain s1 where a: "ApplyCommit h s c = Inr s1" and r: "replay h s1 cs = Inr s'"
    by (auto simp: replay_Cons split: sum.splits)
  note q = ApplyCommit_seqs [OF a] and i = Cons.IH [OF r]
  have "\<forall>e\<in>set (cm_Events c). seq_of e \<le> last_seq c"
  proof
    fix e assume "e \<in> set (cm_Events c)"
    then have "seq_of e \<in> set [Suc (log_end s)..<Suc (log_end s1)]" unfolding q(1) [symmetric] by simp
    then show "seq_of e \<le> last_seq c" using q(3) by auto
  qed
  with q i show ?case by fastforce
qed simp

lemma after_cursor_drop:
  assumes "map seq_of es = [Suc m..<Suc n]" and "m \<le> unat a"
  shows "after_cursor a es = drop (unat a - m) es"
  using assms
proof (induction es arbitrary: m)
  case (Cons e es)
  then have lt: "m < n" by (cases "m < n") auto
  then have m: "seq_of e = Suc m" "map seq_of es = [Suc (Suc m)..<Suc n]"
    using Cons.prems(1) by (simp_all add: upt_conv_Cons del: upt_Suc)
  have gt: "cu_Sequence (ev_Cursor e) > a \<longleftrightarrow> seq_of e > unat a" by (simp add: seq_of_def word_less_nat_alt)
  show ?case
  proof (cases "unat a = m")
    case True
    have "\<forall>x\<in>set es. seq_of x > unat a"
    proof
      fix x assume "x \<in> set es"
      then have "seq_of x \<in> set [Suc (Suc m)..<Suc n]" unfolding m(2) [symmetric] by simp
      then show "seq_of x > unat a" using True by auto
    qed
    then have "filter (\<lambda>e. cu_Sequence (ev_Cursor e) > a) es = es"
      by (intro filter_True) (simp add: seq_of_def word_less_nat_alt)
    with True gt m show ?thesis by (simp add: after_cursor_def)
  next
    case False
    with Cons.prems(2) have "Suc m \<le> unat a" by simp
    then have "unat a - m = Suc (unat a - Suc m)" by simp
    with Cons.IH [OF m(2) \<open>Suc m \<le> unat a\<close>] gt m(1) \<open>Suc m \<le> unat a\<close> show ?thesis
      by (simp add: after_cursor_def)
  qed
qed (simp add: after_cursor_def)

subsection \<open>Binary search\<close>

lemma search_first:
  assumes "i \<le> j" and "\<And>m m'. i \<le> m \<Longrightarrow> m \<le> m' \<Longrightarrow> m' < j \<Longrightarrow> p m \<Longrightarrow> p m'"
  shows "i \<le> search p i j \<and> search p i j \<le> j \<and> (\<forall>m. i \<le> m \<and> m < search p i j \<longrightarrow> \<not> p m) \<and>
    (search p i j < j \<longrightarrow> p (search p i j))"
  using assms
proof (induction p i j rule: search.induct)
  case (1 p i j)
  show ?case
  proof (cases "i < j")
    case False
    then have "search p i j = i" by (subst search.simps) simp
    with False 1(3) show ?thesis by auto
  next
    case lt: True
    define m where "m = (i + j) div 2"
    then have m: "i \<le> m" "m < j" using lt by auto
    show ?thesis
    proof (cases "p m")
      case True
      have "search p i j = search p i m" using lt True by (simp add: search.simps [of p i j] m_def)
      moreover have "i \<le> search p i m \<and> search p i m \<le> m \<and> (\<forall>k. i \<le> k \<and> k < search p i m \<longrightarrow> \<not> p k) \<and>
          (search p i m < m \<longrightarrow> p (search p i m))"
        by (rule 1(1) [OF lt m_def True m(1)]) (use 1(4) m(2) in \<open>meson le_less_trans less_or_eq_imp_le\<close>)
      ultimately show ?thesis using m True by (cases "search p i m < m") auto
    next
      case False
      have s: "search p i j = search p (m + 1) j" using lt False by (simp add: search.simps [of p i j] m_def)
      have r: "m + 1 \<le> search p (m + 1) j \<and> search p (m + 1) j \<le> j \<and>
          (\<forall>k. m + 1 \<le> k \<and> k < search p (m + 1) j \<longrightarrow> \<not> p k) \<and> (search p (m + 1) j < j \<longrightarrow> p (search p (m + 1) j))"
      proof (rule 1(2) [OF lt m_def False])
        show "m + 1 \<le> j" using m(2) by simp
        show "p b" if "m + 1 \<le> a" "a \<le> b" "b < j" "p a" for a b
          using 1(4) [of a b] that m(1) by linarith
      qed
      have "\<not> p k" if "i \<le> k" "k \<le> m" for k using 1(4) [OF that m(2)] False by blast
      then have "\<not> p k" if "i \<le> k" "k < search p (m + 1) j" for k
        using that r by (cases "k \<le> m") auto
      with r s m(1) show ?thesis by auto
    qed
  qed
qed

end
