(* ===== verification/Operations.thy ===== *)
theory Operations
  imports Lifecycle
begin

text \<open>
  Every critical section of the worker keeps its invariant, over any store that keeps the
  contract: dispatch, admission, streaming, completion, cancellation, pausing, shutdown and
  startup. None of them panics, and none writes a commit the reducer rejects.
\<close>

lemma same_run_simps:
  assumes "same_run w w'"
  shows "w_cancel w' = w_cancel w" "w_gens w' = w_gens w" "w_stopping w' = w_stopping w"
    "w_closed w' = w_closed w" "w_outputErr w' = w_outputErr w"
  using assms by (simp_all add: same_run_def)

lemma run_inv_fatal:
  "run_inv w \<Longrightarrow> same_run w w' \<Longrightarrow> w_fatal w' \<noteq> None \<Longrightarrow> run_inv w'"
  by (auto simp: run_inv_def same_run_def)

lemma pending_ids_set [simp]: "pending_ids (q\<lparr>qs_Pending := Some ps\<rparr>) = ps"
  "pending_ids (q\<lparr>qs_Active := a\<rparr>) = pending_ids q" "pending_ids (q\<lparr>qs_Paused := b\<rparr>) = pending_ids q"
  by (simp_all add: pending_ids_def)

lemma queue_wf_set:
  assumes "queue_wf q"
  shows "list_all valid_utf8 ps \<Longrightarrow> queue_wf (q\<lparr>qs_Pending := Some ps\<rparr>)"
    and "opt_all valid_utf8 a \<Longrightarrow> queue_wf (q\<lparr>qs_Active := a\<rparr>)"
    and "queue_wf (q\<lparr>qs_Paused := b\<rparr>)"
proof -
  show "list_all valid_utf8 ps \<Longrightarrow> queue_wf (q\<lparr>qs_Pending := Some ps\<rparr>)"
    using assms by (cases q) (auto simp: queue_wf_def clone_queue_def list_all_iff to_valid_id intro!: map_idI)
  show "opt_all valid_utf8 a \<Longrightarrow> queue_wf (q\<lparr>qs_Active := a\<rparr>)"
    using assms by (cases q; cases a) (auto simp: queue_wf_def clone_queue_def to_valid_id)
  show "queue_wf (q\<lparr>qs_Paused := b\<rparr>)"
    using assms by (cases q) (auto simp: queue_wf_def clone_queue_def)
qed

lemma pending_valid:
  assumes "queue_wf q"
  shows "list_all valid_utf8 (pending_ids q)"
proof (cases "qs_Pending q")
  case (Some ps)
  then have "map to_valid ps = ps"
    using assms by (cases q) (simp add: queue_wf_def clone_queue_def)
  then have "\<forall>x\<in>set ps. to_valid x = x" by (metis map_idI map_eq_conv id_apply list.map_id)
  with Some show ?thesis by (metis list_all_iff option.simps(5) pending_ids_def to_valid_valid)
qed (simp add: pending_ids_def)

lemma list_all_remove1: "list_all P xs \<Longrightarrow> list_all P (remove1 x xs)"
  by (auto simp: list_all_iff dest: notin_set_remove1)

subsection \<open>Job changes and their queues\<close>

lemma result_wf: "job_wf j \<Longrightarrow> clone_result (jb_Result j) = jb_Result j" "job_wf j \<Longrightarrow> result_encodable (jb_Result j)"
  by (simp_all add: job_wf_def clone_job_fix_iff job_encodable_def)

lemma started_encodable: "job_wf j \<Longrightarrow> opt_all time_encodable (jb_StartedAt j)"
  by (simp add: job_wf_def job_encodable_def)

lemma stage_of: "job_wf j \<Longrightarrow> stage_ok (jb_State j) j"
  by (simp add: job_wf_def)

definition start_job :: "time \<Rightarrow> Job \<Rightarrow> Job" where
  "start_job t j = j\<lparr>jb_State := JobRunning, jb_StartedAt := Some t\<rparr>"

lemma start_update_ok:
  assumes "job_wf j" "jb_State j = JobQueued" "time_encodable t" "\<not> qs_Paused q" "qs_Active q = None"
    "pending_ids q \<noteq> []" "hd (pending_ids q) = jb_ID j"
  shows "update_ok q EventJobState j (start_job t j)"
proof -
  have "jb_StartedAt j = None" "jb_FinishedAt j = None" "jb_Error j = None"
    using stage_of [OF assms(1)] assms(2) by simp_all
  then have "start_job t j = j\<lparr>jb_State := JobRunning, jb_StartedAt := Some t, jb_FinishedAt := None,
      jb_Result := jb_Result j, jb_Error := None\<rparr>"
    by (cases j) (simp add: start_job_def)
  then show ?thesis
    using assms result_wf [OF assms(1)] \<open>jb_StartedAt j = None\<close>
    by (simp only:) (rule update_okI, simp_all add: Terminal_def)
qed

definition stop_job :: "JobState \<Rightarrow> time \<Rightarrow> Result \<Rightarrow> Fault option \<Rightarrow> Job \<Rightarrow> Job" where
  "stop_job b t r er j = j\<lparr>jb_State := b, jb_FinishedAt := Some t, jb_Result := r, jb_Error := er\<rparr>"

lemma stop_update_ok:
  assumes "job_wf j" "transition (jb_State j) b" "Terminal b" "time_encodable t"
    "rs_Text r = rs_Text (jb_Result j)" "clone_result r = r" "result_encodable r"
    "b = JobSucceeded \<Longrightarrow> er = None"
    "b \<noteq> JobSucceeded \<Longrightarrow> \<exists>f. er = Some f \<and> code_str (ft_Code f) \<noteq> [] \<and> fault_canon f"
  shows "update_ok q EventJobResult j (stop_job b t r er j)"
proof -
  have "stop_job b t r er j = j\<lparr>jb_State := b, jb_StartedAt := jb_StartedAt j, jb_FinishedAt := Some t,
      jb_Result := r, jb_Error := er\<rparr>"
    by (cases j) (simp add: stop_job_def)
  then show ?thesis
    using assms started_encodable [OF assms(1)]
    by (simp only:) (rule update_okI, auto simp: Terminal_def)
qed

definition stopping_job :: "Job \<Rightarrow> Job" where
  "stopping_job j = j\<lparr>jb_State := JobCancelling\<rparr>"

lemma cancelling_update_ok:
  assumes "job_wf j" "jb_State j = JobRunning"
  shows "update_ok q EventJobState j (stopping_job j)"
proof -
  have s: "jb_StartedAt j \<noteq> None" "jb_FinishedAt j = None" "jb_Error j = None"
    using stage_of [OF assms(1)] assms(2) by simp_all
  then have "stopping_job j = j\<lparr>jb_State := JobCancelling, jb_StartedAt := jb_StartedAt j,
      jb_FinishedAt := None, jb_Result := jb_Result j, jb_Error := None\<rparr>"
    by (cases j) (simp add: stopping_job_def)
  then show ?thesis
    using assms s result_wf [OF assms(1)] started_encodable [OF assms(1)]
    by (simp only:) (rule update_okI, simp_all add: Terminal_def)
qed

text \<open>The active job is not pending.\<close>

lemma active_not_pending:
  assumes "snap_inv s" and "n < length (sn_Jobs s)" and "jb_State (sn_Jobs s ! n) \<noteq> JobQueued"
  shows "jb_ID (sn_Jobs s ! n) \<notin> set (pending_ids (sn_Queue s))"
proof
  assume "jb_ID (sn_Jobs s ! n) \<in> set (pending_ids (sn_Queue s))"
  with assms(1) obtain m where "m < length (sn_Jobs s)" "jb_ID (sn_Jobs s ! m) = jb_ID (sn_Jobs s ! n)"
    "jb_State (sn_Jobs s ! m) = JobQueued" by (rule pending_lookup)
  with snap_inv_simps(3) [OF assms(1)] assms(2,3) show False
    by (metis distinct_conv_nth length_map nth_map)
qed

text \<open>The queue once the active job has stopped.\<close>

lemma queue_after_stop:
  assumes "snap_inv s" and "qs_Active (sn_Queue s) = Some (jb_ID j)" and "n < length (sn_Jobs s)"
    and "jb_ID (sn_Jobs s ! n) = jb_ID j" and "is_active (sn_Jobs s ! n)" and "Terminal (jb_State j)"
  shows "queue_after (sn_Queue s) j ((sn_Queue s)\<lparr>qs_Active := None\<rparr>)"
proof -
  have "jb_ID j \<notin> set (pending_ids (sn_Queue s))"
    using active_not_pending [OF assms(1,3)] assms(4,5) by (auto simp: is_active_def)
  moreover have "\<not> is_active j" "jb_State j \<noteq> JobQueued"
    using assms(6) by (auto simp: is_active_def Terminal_def)
  ultimately show ?thesis
    using assms(2) snap_inv_simps(2) [OF assms(1)]
    by (simp add: queue_after_def queue_wf_set remove1_idem)
qed

subsection \<open>Dispatch\<close>

context store_contract
begin

definition winv :: "'st Worker \<Rightarrow> bool" where
  "winv w = (base_inv w \<and> synced w \<and> run_inv w)"

lemma winv_poison: "base_inv w \<Longrightarrow> run_inv w \<Longrightarrow> winv (poison e w)"
  by (simp add: winv_def poison_base poison_run)

text \<open>Dispatch does nothing, starts the first pending job, or poisons the worker.\<close>

lemma dispatch_cases:
  assumes i: "winv w"
  obtains
    (idle) "dispatch h ops w = w" "idle w"
  | (started) w' n j where "dispatch h ops w = w'" "winv w'" "\<not> idle w" "n < length (sn_Jobs (w_state w))"
      "j = sn_Jobs (w_state w) ! n" "jb_ID j = hd (pending_ids (sn_Queue (w_state w)))" "jb_State j = JobQueued"
      "w_state w' = updated (w_state w) n (start_job (h_now h (w_ticks w)) j)
         ((sn_Queue (w_state w))\<lparr>qs_Pending := Some (tl (pending_ids (sn_Queue (w_state w)))),
            qs_Active := Some (jb_ID j)\<rparr>)"
      "w_gens w' = [(jb_ID j, \<lparr>ii_Request = jb_Request j, ii_Instructions = jb_Instructions j\<rparr>)]"
      "w_fatal w' = None" "\<not> w_ctxdone w'" "w_outputErr w' = None" "w_receipts w' = w_receipts w"
      "w_stopping w' = w_stopping w"
  | (fatal) w' e where "dispatch h ops w = w'" "winv w'" "\<not> idle w" "w_fatal w' = Some e"
      "w_state w' = w_state w" "w_receipts w' = w_receipts w" "w_stopping w' = w_stopping w"
proof (cases "idle w")
  case True
  then show thesis by (intro idle) (simp_all add: dispatch_def)
next
  case False
  let ?s = "w_state w" and ?t = "h_now h (w_ticks w)"
  let ?q = "sn_Queue ?s"
  from i have b: "base_inv w" "synced w" "run_inv w" by (simp_all add: winv_def)
  from b(1) have s: "snap_inv ?s" by (simp add: base_inv_def)
  note ss = snap_inv_simps [OF s]
  from False have nz: "w_fatal w = None" "\<not> w_stopping w" "\<not> qs_Paused ?q" "qs_Active ?q = None"
      "pending_ids ?q \<noteq> []"
    by (simp_all add: idle_def)
  then have g: "w_gens w = []" "\<not> w_closed w"
    using b(3) by (auto simp: run_inv_def split: list.splits)
  from nz(5) have "hd (pending_ids ?q) \<in> set (pending_ids ?q)" by simp
  with s obtain n where n: "n < length (sn_Jobs ?s)" "jb_ID (sn_Jobs ?s ! n) = hd (pending_ids ?q)"
    "jb_State (sn_Jobs ?s ! n) = JobQueued" "find_job (sn_Jobs ?s) (hd (pending_ids ?q)) = Some (sn_Jobs ?s ! n)"
    "job_wf (sn_Jobs ?s ! n)" by (rule pending_lookup)
  let ?j = "sn_Jobs ?s ! n"
  let ?r = "start_job ?t ?j"
  let ?q' = "?q\<lparr>qs_Pending := Some (tl (pending_ids ?q)), qs_Active := Some (jb_ID ?j)\<rparr>"
  let ?w = "w\<lparr>w_ticks := Suc (w_ticks w)\<rparr>"
  have c: "clone_of w (hd (pending_ids ?q)) = Some ?j" using b(1) n(4) by (rule clone_of_inv)
  have id: "clone_request (jb_Request ?j) = jb_Request ?j" "clone_instructions (jb_Instructions ?j) = jb_Instructions ?j"
    using n(5) by (simp_all add: job_wf_def clone_job_fix_iff)
  have "queue_after ?q ?r ?q'"
  proof -
    have "list_all valid_utf8 (tl (pending_ids ?q))"
      using pending_valid [OF ss(2)] by (cases "pending_ids ?q") auto
    then have "queue_wf ?q'"
      using ss(2) job_wf_id [OF n(5)] by (intro queue_wf_set) auto
    then show ?thesis
      using nz(4,5) n(2) by (cases "pending_ids ?q") (auto simp: queue_after_def start_job_def is_active_def)
  qed
  moreover have "update_ok ?q EventJobState ?j ?r"
    using n nz now_ok by (intro start_update_ok) auto
  ultimately have st: "settled ?w None (updated ?s n ?r ?q')
      (commit h ops [jobEvent EventJobState ?r, queueEvent ?q'] None ?w)"
    using commit_update [of ?w n EventJobState ?r ?q'] b nz(1) g(2) n(1) by (simp add: base_inv_fields synced_fields)
  have d: "dispatch h ops w =
     (case commit h ops [jobEvent EventJobState ?r, queueEvent ?q'] None ?w of
        (w1, Some err) \<Rightarrow> if w_panicked w1 then w1 else poison err w1
      | (w1, None) \<Rightarrow>
          w1\<lparr>w_cancel := True, w_ctxdone := False, w_outputErr := None,
            w_gens := w_gens w1 @ [(jb_ID ?j, \<lparr>ii_Request = jb_Request ?j, ii_Instructions = jb_Instructions ?j\<rparr>)]\<rparr>)"
    using False by (simp add: dispatch_def c ss(1) start_job_def Let_def id)
  from st show thesis
  proof (cases rule: settledE)
    case (ok w')
    let ?w' = "w'\<lparr>w_cancel := True, w_ctxdone := False, w_outputErr := None,
      w_gens := w_gens w' @ [(jb_ID ?j, \<lparr>ii_Request = jb_Request ?j, ii_Instructions = jb_Instructions ?j\<rparr>)]\<rparr>"
    have sr: "w_gens w' = []" "\<not> w_closed w'" "\<not> w_stopping w'"
      using same_run_simps [OF ok(4)] g nz(2) by simp_all
    have "winv ?w'"
      using ok sr by (simp add: winv_def base_inv_fields synced_fields run_inv_def updated_def)
    with ok sr d n nz False show thesis by (intro started [of ?w' n ?j]) auto
  next
    case (limit e t)
    let ?p = "poison e (?w\<lparr>w_ticks := t\<rparr>)"
    have "\<not> w_panicked w" using b(1) by (simp add: base_inv_def)
    then have "dispatch h ops w = ?p" using d limit(1) by simp
    moreover have "run_inv (?w\<lparr>w_ticks := t\<rparr>)" using b(3) by (simp add: run_inv_def)
    then have "winv ?p" using b(1) by (intro winv_poison) (simp_all add: base_inv_fields)
    ultimately show thesis using False by (intro fatal [of ?p e]) simp_all
  next
    case (fatal w' e)
    have "\<not> w_panicked w'" using fatal(2) by (simp add: base_inv_def)
    then have "dispatch h ops w = poison e w'" using d fatal(1) by simp
    moreover have "same_run w w'" using fatal(3) by (simp add: same_run_def)
    then have "run_inv w'" using fatal(6) by (intro run_inv_fatal [OF b(3)]) simp_all
    then have "winv (poison e w')" using fatal(2) by (intro winv_poison)
    ultimately show thesis
      using False fatal(4,5) same_run_simps [OF fatal(3)] by (intro that(3) [of "poison e w'" e]) simp_all
  qed
qed

lemma dispatch_inv:
  assumes "winv w"
  shows "winv (dispatch h ops w)"
  using assms by (rule dispatch_cases) (use assms in simp_all)

end

end
