(* ===== verification/Admission.thy ===== *)
theory Admission
  imports Operations
begin

text \<open>
  Creating jobs: what \<open>derive\<close> prescribes is what the reducer expects, an admitted job is
  queued and dispatched, and \<open>create\<close> keeps the worker's invariant on every branch.
\<close>

subsection \<open>Validated requests are their own copies\<close>

lemma history_bytes_clone:
  "history_bytes ms n \<noteq> None \<Longrightarrow> map clone_message ms = ms"
proof (induction ms arbitrary: n)
  case (Cons m ms)
  then have "ms_Role m = MessageUser \<or> ms_Role m = MessageAssistant" "valid_utf8 (ms_Content m)"
    "history_bytes ms (n + length (ms_Content m)) \<noteq> None"
    by (auto split: if_splits)
  with Cons.IH show ?case by (cases m) (auto simp: clone_message_def to_valid_id)
qed simp

lemma ValidateRequest_clone:
  assumes "ValidateRequest r i = None"
  shows "clone_request r = r" and "clone_instructions i = i" and "options_encodable (rq_Options r)"
proof -
  from assms have v: "list_all valid_utf8 [rq_Model r, rq_Role r, rq_SystemPrompt r, rq_Prompt r, in_System i, in_Prompt i]"
    and o': "\<not> options_invalid (rq_Options r)"
    and h: "history_bytes (in_History i) (length (in_System i) + length (in_Prompt i)) \<noteq> None"
    by (auto simp: ValidateRequest_def split: if_splits option.splits)
  from v show "clone_request r = r" by (cases r) (simp add: clone_request_def to_valid_id)
  from v history_bytes_clone [OF h] show "clone_instructions i = i"
    by (cases i) (simp add: clone_instructions_def to_valid_id)
  from o' show "options_encodable (rq_Options r)"
    by (auto simp: options_invalid_def options_encodable_def opt_all_def split: option.splits)
qed

subsection \<open>Identities and digests\<close>

lemma hex_digit_lower:
  assumes "n < 16"
  shows "hex_lower (hex_digit n)"
proof -
  have "list_all (\<lambda>n. hex_lower (hex_digit n)) [0..<16]" by code_simp
  with assms show ?thesis by (simp only: list_all_iff set_upt atLeastLessThan_iff) simp
qed

lemma hex_lower_ascii: "hex_lower c \<Longrightarrow> byte c < 0x80"
proof -
  have "list_all (\<lambda>c. byte c < 0x80) ''0123456789abcdef''" by code_simp
  then show "hex_lower c \<Longrightarrow> byte c < 0x80" by (simp only: hex_lower_def list_all_iff)
qed

lemma hex_encode_lower: "list_all hex_lower (hex_encode s)"
proof (induction s)
  case (Cons c s)
  have "byte c < 256" by simp
  then have "byte c div 16 < 16" by (simp add: less_mult_imp_div_less)
  then have "list_all hex_lower (hex_byte c)" by (simp add: hex_byte_def hex_digit_lower)
  with Cons show ?case by (simp add: hex_encode_def)
qed (simp add: hex_encode_def)

lemma hex_encode_valid: "valid_utf8 (hex_encode s)"
  using hex_encode_lower [of s] by (intro valid_utf8_ascii) (auto simp: list_all_iff hex_lower_ascii)

lemma digest_ok:
  assumes "host_ok h" and "digest_of h op parent origin r = Some d"
  shows "length d = 64" and "list_all hex_lower d"
  using assms by (auto simp: digest_of_def host_ok_def hex_encode_lower split: if_splits)

subsection \<open>Derived jobs\<close>

definition operation :: "bytes \<Rightarrow> JobID \<Rightarrow> bool" where
  "operation op parent = (op = ''submit'' \<and> parent = [] \<or> op = ''retry'' \<or> op = ''branch'')"

text \<open>
  The instructions \<open>derive\<close> computes are the ones the reducer recomputes from the lineage.
\<close>

lemma derive_expected:
  assumes s: "snap_inv s" and d: "derive s op parent r = Inr (r', ins, l)" and op: "operation op parent"
    and v: "ValidateRequest r' ins = None"
  shows "expected_instructions (sn_Jobs s) (new_job i t origin r' ins l) = Some ins"
    and "map_option clone_lineage l = l"
proof -
  note c = ValidateRequest_clone [OF v]
  have "expected_instructions (sn_Jobs s) (new_job i t origin r' ins l) = Some ins \<and> map_option clone_lineage l = l"
  proof (cases "parent = []")
    case True
    with d op have "r' = r" "ins = Compose r" "l = None"
      by (auto simp: derive_def operation_def split: if_splits)
    with c show ?thesis by (simp add: expected_instructions_def new_job_def)
  next
    case False
    with d obtain p where p: "find_job (sn_Jobs s) parent = Some p" "Terminal (jb_State p)"
      by (auto simp: derive_def split: option.splits if_splits)
    from s p(1) obtain n where pw: "jb_ID p = parent" "job_wf p" by (rule lookup_any)
    then have vp: "valid_utf8 parent" by (auto dest: job_wf_id)
    have pc: "clone_request (jb_Request p) = jb_Request p" "clone_instructions (jb_Instructions p) = jb_Instructions p"
      "options_encodable (rq_Options (jb_Request p))"
      using pw(2) by (simp_all add: job_wf_def clone_job_fix_iff job_encodable_def)
    show ?thesis
    proof (cases "op = ''retry''")
      case True
      with d False p pc have "r' = jb_Request p" "ins = jb_Instructions p"
          "l = Some \<lparr>ln_ParentID = parent, ln_Relation = RelationRetry\<rparr>"
        by (auto simp: derive_def relation_of_def)
      with p pc vp show ?thesis
        by (simp add: expected_instructions_def new_job_def request_eq_refl clone_lineage_def to_valid_id)
    next
      case br: False
      with op False have "op = ''branch''" by (auto simp: operation_def)
      with d False p br have "r' = r" "ins = branch_instructions (Compose r) p"
          "l = Some \<lparr>ln_ParentID = parent, ln_Relation = RelationBranch\<rparr>"
        by (auto simp: derive_def relation_of_def)
      with p c vp show ?thesis
        by (simp add: expected_instructions_def new_job_def clone_lineage_def to_valid_id)
    qed
  qed
  then show "expected_instructions (sn_Jobs s) (new_job i t origin r' ins l) = Some ins"
    "map_option clone_lineage l = l" by simp_all
qed

lemma zero_Result_ok: "result_encodable zero_Result" "clone_result zero_Result = zero_Result"
  "result_eq zero_Result zero_Result"
  by (auto simp: result_encodable_def zero_Result_def zero_ContextInfo_def clone_result_def
      clone_context_def result_eq_def to_valid.simps)

lemma new_job_addition_ok:
  assumes "ValidateRequest r ins = None" and "map_option clone_lineage l = l"
    and "expected_instructions js (new_job i t origin r ins l) = Some ins"
    and "valid_utf8 i" "i \<noteq> []" "i \<notin> jb_ID ` set js" and "valid_utf8 origin" "length origin \<le> 1024"
    and "time_encodable t" "t \<noteq> 0" and "length js < MaxJobs" and "CheckJobFits h (new_job i t origin r ins l) = None"
  shows "addition_ok h js (new_job i t origin r ins l)"
proof -
  note c = ValidateRequest_clone [OF assms(1)]
  have "jb_Instructions (new_job i t origin r ins l) = ins" by (simp add: new_job_def c)
  moreover have "rs_Text zero_Result = []" by (simp add: zero_Result_def)
  moreover have "clone_job (new_job i t origin r ins l) = new_job i t origin r ins l"
    using assms(2,4,7) c zero_Result_ok(2) by (simp add: new_job_def clone_job_fix_iff to_valid_id)
  moreover have "job_encodable (new_job i t origin r ins l)"
    using assms(9) c zero_Result_ok(1) by (simp add: new_job_def job_encodable_def)
  ultimately show ?thesis
    using assms c zero_Result_ok(3) by (simp add: addition_ok_def content_ok_def new_job_def)
qed

text \<open>A random identity already in use makes the reducer refuse the commit.\<close>

lemma ApplyCommit_collision:
  assumes "jb_ID j \<in> jb_ID ` set (sn_Jobs s)" and "job_encodable j"
  shows "ApplyCommit h s \<lparr>cm_Version = 1, cm_Events = stamped s 1 t (jobEvent EventJobAccepted j) # es,
    cm_Receipt = r\<rparr> = bad"
proof -
  obtain n where n: "find_index (\<lambda>x. jb_ID x = jb_ID j) (sn_Jobs s) = Some n"
    using assms(1) by (cases "find_index (\<lambda>x. jb_ID x = jb_ID j) (sn_Jobs s)") (auto simp: find_index_None)
  let ?s = "s\<lparr>sn_Queue := clone_queue (sn_Queue s)\<rparr>"
  have "apply_payload h ?s [] (stamped s 1 t (jobEvent EventJobAccepted j)) = bad"
    using n assms(2)
    by (auto simp: apply_payload_def stamped_def jobEvent_def apply_job_def Clone_job_def accept_job_def Let_def)
  then have "apply_event h (?s, []) (stamped s 1 t (jobEvent EventJobAccepted j)) = bad"
    by (simp add: apply_event_def bad_def Let_def)
  then show ?thesis by (simp add: ApplyCommit_def bad_def)
qed

lemma commit_bad:
  assumes "stamp h (cu_StoreID (sn_Cursor (w_state w))) (cu_Sequence (sn_Cursor (w_state w))) (w_ticks w) es = (o', t)"
    and "\<And>es'. o' = Some es' \<Longrightarrow>
      ApplyCommit h (w_state w) \<lparr>cm_Version = 1, cm_Events = es', cm_Receipt = r\<rparr> = bad"
  shows "\<exists>e. commit h ops es r w = (poison e (w\<lparr>w_ticks := t\<rparr>), Some e)"
  using assms by (cases o') (simp_all add: commit_def bad_def)

lemma commit_collision:
  assumes "jb_ID j \<in> jb_ID ` set (sn_Jobs (w_state w))" and "job_encodable j"
  shows "\<exists>e t. commit h ops [jobEvent EventJobAccepted j, queueEvent q] r w = (poison e (w\<lparr>w_ticks := t\<rparr>), Some e)"
proof (cases "room 2 (w_state w)")
  case True
  from commit_bad [OF stamp_two [OF True], where r = r and ops = ops] ApplyCommit_collision [OF assms]
  show ?thesis by blast
next
  case False
  then obtain t where "stamp h (cu_StoreID (sn_Cursor (w_state w))) (cu_Sequence (sn_Cursor (w_state w))) (w_ticks w)
      [jobEvent EventJobAccepted j, queueEvent q] = (None, t)"
    using stamp_two_full by (metis prod.collapse)
  from commit_bad [OF this, where r = r and ops = ops] show ?thesis by blast
qed

subsection \<open>Admission keeps the invariant\<close>

text \<open>
  What a create command leaves behind: nothing but clock reads and possibly a fatal error when
  it fails; the new job and its receipt when it succeeds.
\<close>

definition unchanged :: "'st Worker \<Rightarrow> 'st Worker \<Rightarrow> bool" where
  "unchanged w w' = (w_state w' = w_state w \<and> w_receipts w' = w_receipts w \<and> w_gens w' = w_gens w)"

definition created :: "'st Worker \<Rightarrow> 'st Worker \<Rightarrow> bytes \<Rightarrow> bytes \<Rightarrow> Job \<Rightarrow> Job \<Rightarrow> bool" where
  "created w w' key d j0 j =
     (jb_ID j = jb_ID j0 \<and> find_job (sn_Jobs (w_state w')) (jb_ID j) = Some j \<and>
      map jb_ID (sn_Jobs (w_state w')) = map jb_ID (sn_Jobs (w_state w)) @ [jb_ID j] \<and>
      (j = j0 \<or> (\<exists>t. j = start_job t j0)) \<and>
      w_receipts w' = (w_receipts w)(key \<mapsto> \<lparr>rc_Key = key, rc_Digest = d, rc_JobID = jb_ID j\<rparr>))"

context store_contract
begin

lemma dispatch_job:
  assumes i: "winv w" and f: "find_job (sn_Jobs (w_state w)) i = Some j"
  shows "\<exists>j'. find_job (sn_Jobs (w_state (dispatch h ops w))) i = Some j' \<and>
    (j' = j \<or> jb_State j = JobQueued \<and> (\<exists>t. j' = start_job t j)) \<and>
    map jb_ID (sn_Jobs (w_state (dispatch h ops w))) = map jb_ID (sn_Jobs (w_state w)) \<and>
    w_receipts (dispatch h ops w) = w_receipts w"
  using i
proof (cases rule: dispatch_cases)
  case (started w' n j1)
  let ?js = "sn_Jobs (w_state w)" and ?j = "start_job (h_now h (w_ticks w)) j1"
  have s: "snap_inv (w_state w)" using i by (simp add: winv_def base_inv_def)
  have id: "jb_ID ?j = jb_ID (?js ! n)" using started(5) by (simp add: start_job_def)
  have js: "sn_Jobs (w_state w') = ?js[n := ?j]" using started(8) by (simp add: updated_def)
  have "find_job (?js[n := ?j]) i = (if i = jb_ID ?j then Some ?j else find_job ?js i)"
    using snap_inv_simps(3) [OF s] started(4) id by (rule find_job_update)
  moreover have "j = j1" if "i = jb_ID ?j"
    using that f id started(4,5) find_job_mem [OF snap_inv_simps(3) [OF s], of j1] by simp
  ultimately show ?thesis
    using f js started(1,7,13) map_ID_update [OF started(4) id] by auto
qed (use f in auto)

lemma clone_of_exists:
  assumes "base_inv w" and "i \<in> jb_ID ` set (sn_Jobs (w_state w))"
  shows "\<exists>j. clone_of w i = Some j \<and> find_job (sn_Jobs (w_state w)) i = Some j"
  using assms clone_of_inv [OF assms(1)] by (cases "find_job (sn_Jobs (w_state w)) i") (auto simp: find_job_None)

lemma admit_ok:
  assumes i: "winv w" and f: "w_fatal w = None" "\<not> w_stopping w"
    and key: "key \<noteq> []" "length key \<le> 128" "valid_utf8 key" and d: "length d = 64" "list_all hex_lower d"
    and origin: "valid_utf8 origin" "length origin \<le> 1024"
    and l: "map_option clone_lineage l = l"
    and ex: "\<And>i t. ValidateRequest r ins = None \<Longrightarrow>
      expected_instructions (sn_Jobs (w_state w)) (new_job i t origin r ins l) = Some ins"
    and res: "admit h ops key d origin r ins l w = (w', res)"
  shows "winv w' \<and> (case res of
      Inl e \<Rightarrow> unchanged w w'
    | Inr j \<Rightarrow> \<exists>b t. h_rand h (w_draws w) = Some b \<and>
        created w w' key d (new_job (hex_encode b) t origin r ins l) j \<and> ValidateRequest r ins = None)"
proof -
  let ?s = "w_state w"
  have b: "base_inv w" "synced w" "run_inv w" and s: "snap_inv ?s"
    using i by (simp_all add: winv_def base_inv_def)
  have nc: "\<not> w_closed w" using b(3) f(2) by (simp add: run_inv_def)
  have skip: "winv (w\<lparr>w_draws := a\<rparr>)" "winv (w\<lparr>w_draws := a, w_ticks := t\<rparr>)" "winv (w\<lparr>w_draws := a, w_ticks := c, w_ticks := t\<rparr>)" for a t c
    using i by (simp_all add: winv_def base_inv_fields synced_fields run_inv_def)
  show ?thesis
  proof (cases "ValidateRequest r ins = None \<and> length (pending_ids (sn_Queue ?s)) < MaxPending \<and>
      length (sn_Jobs ?s) < MaxJobs \<and> (\<exists>b. h_rand h (w_draws w) = Some b \<and>
        CheckJobFits h (new_job (hex_encode b) (h_now h (w_ticks w)) origin r ins l) = None)")
    case False
    then show ?thesis
      using res i skip ValidateRequest_clone(3) [of r ins]
      by (auto simp: admit_def unchanged_def Let_def split: option.splits if_splits)
  next
    case True
    then obtain b' where b': "h_rand h (w_draws w) = Some b'" and v: "ValidateRequest r ins = None"
      and len: "length (pending_ids (sn_Queue ?s)) < MaxPending" "length (sn_Jobs ?s) < MaxJobs"
      and fits: "CheckJobFits h (new_job (hex_encode b') (h_now h (w_ticks w)) origin r ins l) = None" by blast
    let ?j = "new_job (hex_encode b') (h_now h (w_ticks w)) origin r ins l"
    let ?w1 = "w\<lparr>w_draws := Suc (w_draws w), w_ticks := Suc (w_ticks w)\<rparr>"
    let ?q = "(sn_Queue ?s)\<lparr>qs_Pending := Some (pending_ids (sn_Queue ?s) @ [jb_ID ?j])\<rparr>"
    let ?r = "\<lparr>rc_Key = key, rc_Digest = d, rc_JobID = jb_ID ?j\<rparr>"
    let ?c = "commit h ops [jobEvent EventJobAccepted ?j, queueEvent ?q] (Some ?r) ?w1"
    have id: "jb_ID ?j = hex_encode b'" by (simp add: new_job_def)
    have idv: "valid_utf8 (hex_encode b')" "hex_encode b' \<noteq> []"
      using hex_encode_valid hex_encode_length [of b'] b' host by (auto simp: host_ok_def simp del: hex_encode_length)
    have adm: "(case ?c of (w2, Some err) \<Rightarrow> (w2, Inl err)
        | (w2, None) \<Rightarrow>
            if w_panicked (dispatch h ops w2) then (dispatch h ops w2, Inl Panicked)
            else (case clone_of (dispatch h ops w2) (jb_ID ?j) of
                None \<Rightarrow> (panic (dispatch h ops w2), Inl Panicked)
              | Some j' \<Rightarrow> (dispatch h ops w2, Inr j'))) = (w', res)"
      using res b' v len fits ValidateRequest_clone(3) [OF v] snap_inv_simps(1) [OF s]
      by (simp add: admit_def Let_def not_le)
    show ?thesis
    proof (cases "hex_encode b' \<in> jb_ID ` set (sn_Jobs ?s)")
      case True
      have "job_encodable ?j"
        using ValidateRequest_clone [OF v] now_ok zero_Result_ok by (simp add: job_encodable_def new_job_def)
      with True id obtain e t where c: "?c = (poison e (?w1\<lparr>w_ticks := t\<rparr>), Some e)"
        using commit_collision [of ?j ?w1 h ops ?q "Some ?r"] by auto
      have "winv (poison e (?w1\<lparr>w_ticks := t\<rparr>))"
        using skip(3) by (intro winv_poison) (simp_all add: winv_def)
      moreover have "w' = poison e (?w1\<lparr>w_ticks := t\<rparr>)" "res = Inl e" using adm c by simp_all
      ultimately show ?thesis by (simp add: unchanged_def)
    next
      case False
      have "addition_ok h (sn_Jobs ?s) ?j"
        using v l ex [OF v] idv False origin now_ok len(2) fits by (intro new_job_addition_ok)
      moreover have "receipt_ok (jb_ID ?j) (Some ?r)"
        using key d id idv by (simp add: receipt_ok_def)
      ultimately have "settled ?w1 (Some ?r) (extended ?s ?j ?q) ?c"
        using commit_extend [of ?w1 ?j ?q ?r] b f(1) nc len(1) by (simp add: base_inv_fields synced_fields)
      then show ?thesis
      proof (cases rule: settledE)
        case (ok w2)
        note sr = same_run_simps [OF ok(4)]
        have w2: "winv w2"
          using ok(2,3,5,6) sr b(3) f by (auto simp: winv_def run_inv_def extended_def split: list.splits)
        have "distinct (map jb_ID (sn_Jobs (w_state w2)))" "?j \<in> set (sn_Jobs (w_state w2))"
          using ok(2,5) by (simp_all add: base_inv_def snap_inv_def jobs_inv_def extended_def)
        from find_job_mem [OF this] dispatch_job [OF w2] obtain j' where
          j': "find_job (sn_Jobs (w_state (dispatch h ops w2))) (jb_ID ?j) = Some j'"
            "j' = ?j \<or> (\<exists>t. j' = start_job t ?j)"
            "map jb_ID (sn_Jobs (w_state (dispatch h ops w2))) = map jb_ID (sn_Jobs (w_state w2))"
            "w_receipts (dispatch h ops w2) = w_receipts w2" by blast
        have w3: "winv (dispatch h ops w2)" using w2 by (rule dispatch_inv)
        have cl: "clone_of (dispatch h ops w2) (jb_ID ?j) = Some j'" "\<not> w_panicked (dispatch h ops w2)"
          using w3 clone_of_inv [OF _ j'(1)] by (simp_all add: winv_def base_inv_def)
        have "jb_ID j' = jb_ID ?j" using j'(1) by (auto dest: find_job_Some)
        moreover have "map jb_ID (sn_Jobs (w_state w2)) = map jb_ID (sn_Jobs ?s) @ [jb_ID ?j]"
          using ok(5) by (simp add: extended_def)
        ultimately have "created w (dispatch h ops w2) key d ?j j'"
          unfolding created_def using j' ok(8) by simp
        moreover have "w' = dispatch h ops w2" "res = Inr j'" using adm ok(1) cl by simp_all
        ultimately show ?thesis using w3 b' v by auto
      next
        case (limit e t)
        then have "w' = ?w1\<lparr>w_ticks := t\<rparr>" "res = Inl e" using adm by simp_all
        with skip(3) show ?thesis by (simp add: unchanged_def)
      next
        case (fatal w2 e)
        have "winv w2"
          using fatal(2,6) run_inv_fatal [OF b(3), of w2] fatal(3) by (simp add: winv_def synced_def same_run_def)
        moreover have "w' = w2" "res = Inl e" using adm fatal(1) by simp_all
        ultimately show ?thesis using fatal(4,5) same_run_simps(2) [OF fatal(3)] by (simp add: unchanged_def)
      qed
    qed
  qed
qed

text \<open>
  Every result of \<open>create\<close>: a refused command changes nothing durable, a repeated one returns
  the job its receipt names and changes nothing at all, a new one adds the derived job.
\<close>

lemma create_ok:
  assumes i: "winv w" and op: "operation op parent"
    and res: "create h ops ctx op key origin parent r w = (w', res)"
  shows "winv w' \<and> (case res of
      Inl e \<Rightarrow> unchanged w w'
    | Inr j \<Rightarrow> (\<exists>d. digest_of h op parent origin r = Some d \<and>
        (case w_receipts w key of
           Some rc \<Rightarrow> w' = w \<and> rc_Digest rc = d \<and> find_job (sn_Jobs (w_state w)) (rc_JobID rc) = Some j
         | None \<Rightarrow> (\<exists>b t r' ins l. derive (w_state w) op parent r = Inr (r', ins, l) \<and>
             h_rand h (w_draws w) = Some b \<and> ValidateRequest r' ins = None \<and>
             created w w' key d (new_job (hex_encode b) t origin r' ins l) j))))"
proof (cases "ctx = None \<and> available w = None \<and> key \<noteq> [] \<and> length key \<le> 128 \<and> valid_utf8 key \<and>
    valid_utf8 origin \<and> length origin \<le> 1024 \<and> (op \<noteq> ''retry'' \<longrightarrow> ValidateRequest r (Compose r) = None) \<and>
    digest_of h op parent origin r \<noteq> None")
  case False
  then have "w' = w" "\<exists>e. res = Inl e"
    using res by (auto simp: create_def not_le split: option.splits if_splits)
  with i show ?thesis by (auto simp: unchanged_def)
next
  case True
  then obtain d where d: "digest_of h op parent origin r = Some d" by blast
  have f: "w_fatal w = None" "\<not> w_stopping w"
    using True by (auto simp: available_def split: option.splits if_splits)
  have b: "base_inv w" and s: "snap_inv (w_state w)" using i by (simp_all add: winv_def base_inv_def)
  have pre: "(if op \<noteq> ''retry'' then ValidateRequest r (Compose r) else None) = None" using True by simp
  show ?thesis
  proof (cases "w_receipts w key")
    case (Some rc)
    then have "rc_JobID rc \<in> jb_ID ` set (sn_Jobs (w_state w))"
      using b by (simp add: base_inv_def receipts_ok_def)
    then obtain j where "clone_of w (rc_JobID rc) = Some j" "find_job (sn_Jobs (w_state w)) (rc_JobID rc) = Some j"
      using clone_of_exists [OF b] by blast
    then show ?thesis
      using res True d Some pre i by (auto simp: create_def unchanged_def not_le split: if_splits)
  next
    case None
    show ?thesis
    proof (cases "derive (w_state w) op parent r")
      case (Inl e)
      have "e \<noteq> Panicked"
      proof
        assume "e = Panicked"
        with Inl obtain p where p: "find_job (sn_Jobs (w_state w)) parent = Some p"
            "\<not> options_encodable (rq_Options (jb_Request p))"
          by (auto simp: derive_def Let_def split: if_splits option.splits)
        from s p(1) obtain n where "job_wf p" by (rule lookup_any)
        with p(2) show False by (simp add: job_wf_def job_encodable_def)
      qed
      then show ?thesis
        using res True d None pre Inl i by (cases e) (auto simp: create_def unchanged_def not_le)
    next
      case (Inr x)
      obtain r' ins l where x: "x = (r', ins, l)" by (cases x)
      have ad: "admit h ops key d origin r' ins l w = (w', res)"
        using res True d None pre Inr x by (simp add: create_def not_le)
      note dv = derive_expected [OF s Inr [unfolded x] op]
      have "map_option clone_lineage l = l"
        using Inr x s op
        by (auto simp: derive_def Let_def operation_def relation_of_def clone_lineage_def to_valid_id
            split: if_splits option.splits elim!: lookup_any dest!: job_wf_id)
      with admit_ok [OF i f _ _ _ digest_ok [OF host d] _ _ _ dv(1) ad] True
      show ?thesis using d None Inr x by (auto split: sum.splits)
    qed
  qed
qed

end

end
