(* ===== verification/Execution.thy ===== *)
theory Execution
  imports Admission
begin

text \<open>
  Running jobs: streaming output in chunks, completion, cancellation, pausing, shutdown and
  startup keep the worker's invariant.
\<close>

subsection \<open>Chunks\<close>

lemma step_back_eq:
  assumes "m < length t" and "k \<le> m" and "rune_start (t ! (m - k))" and "\<forall>j<k. \<not> rune_start (t ! (m - j))"
  shows "step_back t m = Some (m - k)"
  using assms
proof (induction k arbitrary: m)
  case 0
  then show ?case by (cases m) auto
next
  case (Suc k)
  then obtain l where l: "m = Suc l" by (cases m) auto
  have "\<forall>j<k. \<not> rune_start (t ! (l - j))" using Suc.prems(4) l by (metis Suc_less_eq diff_Suc_Suc)
  with Suc.IH [of l] Suc.prems(1-3) l have "step_back t l = Some (l - k)" by simp
  moreover have "\<not> rune_start (t ! m)" using Suc.prems(4) by (metis diff_zero zero_less_Suc)
  ultimately show ?case using l Suc.prems(1) by simp
qed

text \<open>
  A chunk is non-empty, at most 16384 bytes, and splits valid text into valid text.
\<close>

lemma chunk_len_valid:
  assumes "valid_utf8 t" and "t \<noteq> []"
  obtains n where "chunk_len t = Some n" "0 < n" "n \<le> length t" "n \<le> MaxChunkBytes"
    "valid_utf8 (take n t)" "valid_utf8 (drop n t)"
proof (cases "length t \<le> MaxChunkBytes")
  case True
  obtain m where "length t = Suc m" using assms(2) by (cases t) auto
  then have "chunk_len t = Some (length t)" using True by (simp add: chunk_len_def)
  with True assms show thesis by (intro that) auto
next
  case False
  let ?m = "MaxChunkBytes"
  have lt: "?m < length t" using False by simp
  from valid_utf8_back [OF assms(1) this] obtain k where
    k: "k \<le> 3" "k \<le> ?m" "rune_start (t ! (?m - k))" "\<forall>j<k. cont (t ! (?m - j))" by blast
  then have "step_back t ?m = Some (?m - k)"
    using lt by (intro step_back_eq) (auto simp: rune_start_def)
  moreover have "0 < ?m - k" using k(1) by (simp add: MaxChunkBytes_def)
  moreover have "valid_utf8 (take (?m - k) t) \<and> valid_utf8 (drop (?m - k) t)"
    using assms(1) lt k(3) by (intro valid_utf8_split) auto
  ultimately show thesis using lt by (intro that [of "?m - k"]) (auto simp: chunk_len_def)
qed

subsection \<open>Streaming\<close>

text \<open>Job \<open>i\<close> has grown by the text \<open>p\<close> and nothing else has changed.\<close>

definition grown :: "JobID \<Rightarrow> bytes \<Rightarrow> Snapshot \<Rightarrow> Snapshot \<Rightarrow> bool" where
  "grown i p s s' =
     (sn_Queue s' = sn_Queue s \<and> map jb_ID (sn_Jobs s') = map jb_ID (sn_Jobs s) \<and>
      (\<forall>k. find_job (sn_Jobs s') k =
        (if k = i then map_option (\<lambda>j. append_text j p) (find_job (sn_Jobs s) k) else find_job (sn_Jobs s) k)))"

lemma append_text_simps [simp]: "append_text j [] = j" "append_text (append_text j p) q = append_text j (p @ q)"
  "jb_ID (append_text j p) = jb_ID j"
  by (simp_all add: append_text_def)

lemma grown_refl: "grown i [] s s"
  by (simp add: grown_def option.map_ident)

lemma grown_trans: "grown i p s s' \<Longrightarrow> grown i q s' s'' \<Longrightarrow> grown i (p @ q) s s''"
  by (auto simp: grown_def option.map_comp comp_def)

context store_contract
begin

lemma call_cancel_inv: "winv w \<Longrightarrow> w_gens w \<noteq> [] \<Longrightarrow> winv (call_cancel w)"
  by (auto simp: winv_def call_cancel_def base_inv_fields synced_fields run_inv_def)

lemma output_failed_inv:
  assumes "winv w" and "w_gens w \<noteq> []" and "output_failed e w = (w', r)"
  shows "winv w'" and "r = Some e" and "w_state w' = w_state w" and "w_gens w' = w_gens w"
    and "w_stopping w' = w_stopping w" and "w_receipts w' = w_receipts w"
proof -
  have "winv (w\<lparr>w_outputErr := Some e\<rparr>)"
    using assms(1) by (simp add: winv_def base_inv_fields synced_fields run_inv_def)
  moreover have w': "w' = call_cancel (w\<lparr>w_outputErr := Some e\<rparr>)" and "r = Some e"
    using assms(3) by (auto simp: output_failed_def)
  ultimately show "winv w'" "r = Some e" using assms(2) by (simp_all add: call_cancel_inv)
  show "w_state w' = w_state w" "w_gens w' = w_gens w" "w_stopping w' = w_stopping w" "w_receipts w' = w_receipts w"
    by (simp_all add: w' call_cancel_def panic_def)
qed

lemma emit_chunk_ok:
  assumes i: "winv w" and f: "w_fatal w = None" and g: "w_gens w = [(i, inp)]"
    and c: "chunk \<noteq> []" "length chunk \<le> MaxChunkBytes" "valid_utf8 chunk"
    and res: "emit_chunk h ops i chunk w = (w', r)"
  shows "winv w' \<and> w_gens w' = w_gens w \<and> w_stopping w' = w_stopping w \<and> w_receipts w' = w_receipts w \<and>
    (case r of None \<Rightarrow> w_fatal w' = None \<and> grown i chunk (w_state w) (w_state w')
       | Some e \<Rightarrow> w_state w' = w_state w)"
proof -
  let ?s = "w_state w"
  have b: "base_inv w" "synced w" "run_inv w" and s: "snap_inv ?s"
    using i by (simp_all add: winv_def base_inv_def)
  have nc: "\<not> w_closed w" and a: "qs_Active (sn_Queue ?s) = Some i"
    using b(3) f g by (simp_all add: run_inv_def)
  from s a obtain n where n: "n < length (sn_Jobs ?s)" "jb_ID (sn_Jobs ?s ! n) = i" "is_active (sn_Jobs ?s ! n)"
    "find_job (sn_Jobs ?s) i = Some (sn_Jobs ?s ! n)" "job_wf (sn_Jobs ?s ! n)" by (rule active_lookup)
  let ?j = "sn_Jobs ?s ! n"
  let ?c = "commit h ops [outputEvent i (length (rs_Text (jb_Result ?j))) chunk] None w"
  show ?thesis
  proof (cases "length (rs_Text (jb_Result ?j)) + length chunk > MaxOutputBytes \<or> CheckJobFits h (append_text ?j chunk) \<noteq> None")
    case True
    then obtain e where "output_failed (FaultErr e) w = (w', r)"
      using res n(4) by (auto simp: emit_chunk_def append_text_def Let_def split: if_splits)
    from output_failed_inv [OF i _ this] g show ?thesis by simp
  next
    case False
    let ?s' = "?s\<lparr>sn_Jobs := (sn_Jobs ?s)[n := append_text ?j chunk]\<rparr>"
    have em: "(case ?c of (w1, Some err) \<Rightarrow> if w_panicked w1 then (w1, Some Panicked) else output_failed err w1
        | (w1, None) \<Rightarrow> (w1, None)) = (w', r)"
      using res n(4) False by (simp add: emit_chunk_def append_text_def [of _ chunk] Let_def)
    have "settled w None (?s'\<lparr>sn_Cursor := advance 1 ?s\<rparr>) ?c"
    proof (rule commit_single [OF b(1,2) f nc])
      show "payload_canon (outputEvent i (length (rs_Text (jb_Result ?j))) chunk)"
        using n job_wf_id c(3) by (auto intro: output_event_canon)
      show "apply_payload h ?s [] (stamped ?s 1 t (outputEvent i (length (rs_Text (jb_Result ?j))) chunk)) = Inr (?s', [])" for t
        using n c False snap_inv_simps(3) [OF s] by (intro apply_output_event) auto
      show "queue_ok ?s'" using s n(1,3) by (rule queue_ok_output)
    qed simp
    then show ?thesis
    proof (cases rule: settledE)
      case (ok w1)
      have "find_job ((sn_Jobs ?s)[n := append_text ?j chunk]) k =
          (if k = jb_ID (append_text ?j chunk) then Some (append_text ?j chunk) else find_job (sn_Jobs ?s) k)" for k
        using snap_inv_simps(3) [OF s] n(1) by (intro find_job_update) auto
      then have "grown i chunk ?s (w_state w1)"
        using ok(5) n map_ID_update [OF n(1), of "append_text ?j chunk"] by (auto simp: grown_def)
      moreover have "winv w1"
        using ok(2,3,5,6) same_run_simps [OF ok(4)] b(3) f by (simp add: winv_def run_inv_def)
      moreover have "w' = w1" "r = None" using em ok(1) by simp_all
      ultimately show ?thesis using ok(6,8) same_run_simps [OF ok(4)] by simp
    next
      case (limit e t)
      have "\<not> w_panicked w" using b(1) by (simp add: base_inv_def)
      then have "output_failed e (w\<lparr>w_ticks := t\<rparr>) = (w', r)" using em limit(1) by simp
      moreover have "winv (w\<lparr>w_ticks := t\<rparr>)" using i by (simp add: winv_def base_inv_fields synced_fields run_inv_def)
      ultimately show ?thesis using output_failed_inv [of "w\<lparr>w_ticks := t\<rparr>" e w' r] g by simp
    next
      case (fatal w1 e)
      have "\<not> w_panicked w1" using fatal(2) by (simp add: base_inv_def)
      then have "output_failed e w1 = (w', r)" using em fatal(1) by simp
      moreover have "winv w1"
        using fatal(2,6) run_inv_fatal [OF b(3) fatal(3)] by (simp add: winv_def synced_def)
      ultimately show ?thesis
        using output_failed_inv [of w1 e w' r] g same_run_simps [OF fatal(3)] fatal(4,5) by simp
    qed
  qed
qed

lemma emit_loop_ok:
  assumes "winv w" and "w_fatal w = None" and "w_gens w = [(i, inp)]" and "valid_utf8 xs"
    and "emit_loop h ops i xs w = (w', r)"
  shows "winv w' \<and> w_gens w' = w_gens w \<and> w_stopping w' = w_stopping w \<and> w_receipts w' = w_receipts w \<and>
    (\<exists>p q. xs = p @ q \<and> grown i p (w_state w) (w_state w') \<and> (r = None \<longrightarrow> q = [] \<and> w_fatal w' = None))"
  using assms
proof (induction "length xs" arbitrary: xs w rule: less_induct)
  case less
  show ?case
  proof (cases "xs = []")
    case True
    then have "w' = w" "r = None" using less.prems(5) by (simp_all add: emit_loop.simps)
    with True less.prems show ?thesis using grown_refl by fastforce
  next
    case False
    from less.prems(4) False obtain n where n: "chunk_len xs = Some n" "0 < n" "n \<le> length xs" "n \<le> MaxChunkBytes"
      "valid_utf8 (take n xs)" "valid_utf8 (drop n xs)" by (rule chunk_len_valid)
    obtain w1 r1 where e: "emit_chunk h ops i (take n xs) w = (w1, r1)" by fastforce
    have ok: "winv w1 \<and> w_gens w1 = w_gens w \<and> w_stopping w1 = w_stopping w \<and> w_receipts w1 = w_receipts w \<and>
      (case r1 of None \<Rightarrow> w_fatal w1 = None \<and> grown i (take n xs) (w_state w) (w_state w1)
         | Some e \<Rightarrow> w_state w1 = w_state w)"
      using less.prems(1-3) n False by (intro emit_chunk_ok [OF _ _ _ _ _ _ e]) auto
    show ?thesis
    proof (cases r1)
      case None
      then have l: "emit_loop h ops i (drop n xs) w1 = (w', r)"
        using less.prems(5) False n(1) e by (simp add: emit_loop.simps [of h ops i xs w])
      have "winv w' \<and> w_gens w' = w_gens w1 \<and> w_stopping w' = w_stopping w1 \<and> w_receipts w' = w_receipts w1 \<and>
        (\<exists>p q. drop n xs = p @ q \<and> grown i p (w_state w1) (w_state w') \<and> (r = None \<longrightarrow> q = [] \<and> w_fatal w' = None))"
        using less.hyps [OF _ _ _ _ n(6) l] n(2,3) False ok None less.prems(3) by simp
      then obtain p q where pq: "drop n xs = p @ q" "grown i p (w_state w1) (w_state w')"
        "r = None \<longrightarrow> q = [] \<and> w_fatal w' = None" and w': "winv w'" "w_gens w' = w_gens w1"
        "w_stopping w' = w_stopping w1" "w_receipts w' = w_receipts w1" by blast
      have "xs = (take n xs @ p) @ q" using pq(1) by (metis append.assoc append_take_drop_id)
      moreover have "grown i (take n xs @ p) (w_state w) (w_state w')"
        using ok None pq(2) by (auto intro: grown_trans)
      ultimately show ?thesis using w' pq(3) ok by metis
    next
      case (Some e')
      then have "w' = w1" "r = Some e'"
        using less.prems(5) False n(1) e by (simp_all add: emit_loop.simps [of h ops i xs w])
      moreover have "grown i [] (w_state w) (w_state w1)" using ok Some grown_refl by simp
      ultimately show ?thesis using ok by fastforce
    qed
  qed
qed

lemma emit_ok:
  assumes "winv w" and "w_gens w = [(i, inp)]" and "emit h ops i xs w = (w', r)"
  shows "winv w' \<and> w_gens w' = w_gens w \<and> w_stopping w' = w_stopping w \<and> w_receipts w' = w_receipts w \<and>
    (\<exists>p q. xs = p @ q \<and> grown i p (w_state w) (w_state w') \<and> (r = None \<longrightarrow> q = []))"
proof (cases "w_fatal w = None \<and> w_outputErr w = None \<and> valid_utf8 xs")
  case True
  then have "emit_loop h ops i xs w = (w', r)" using assms(3) by (simp add: emit_def)
  with emit_loop_ok [OF assms(1) _ assms(2)] True show ?thesis by blast
next
  case False
  have "winv w' \<and> w_gens w' = w_gens w \<and> w_stopping w' = w_stopping w \<and> w_receipts w' = w_receipts w \<and>
    w_state w' = w_state w \<and> r \<noteq> None"
  proof (cases "w_fatal w = None \<and> w_outputErr w = None")
    case True
    with False assms(3) obtain e where "output_failed e w = (w', r)" by (auto simp: emit_def)
    from output_failed_inv [OF assms(1) _ this] assms(2) show ?thesis by simp
  qed (use assms in \<open>auto simp: emit_def dest: sym split: option.splits\<close>)
  then show ?thesis using grown_refl [of i "w_state w"] by auto
qed

end

subsection \<open>Completion\<close>

lemma publicBackendError_ok:
  "code_str (ft_Code (publicBackendError e)) \<noteq> []" "fault_canon (publicBackendError e)"
proof -
  show "code_str (ft_Code (publicBackendError e)) \<noteq> []"
    by (simp add: publicBackendError_def fault_def split: option.split ErrorCode.split)
  show "fault_canon (publicBackendError e)"
    unfolding publicBackendError_def
    by (simp split: option.split ErrorCode.split)
      (intro allI impI conjI; (rule fault_canon_ascii | rule fault_canon_plain); simp add: code_named [simplified])
qed

lemma result_encodable_clone [simp]: "result_encodable (clone_result r) = result_encodable r"
  by (simp add: result_encodable_def clone_result_def clone_context_def clone_observation_def opt_all_def
      split: option.split)

lemma check_metadata_encodable:
  "check_metadata h result e = (r, e') \<Longrightarrow> result_encodable r"
  using zero_Result_ok(1)
  by (auto simp: check_metadata_def marshal_result_def Let_def split: if_splits)

definition own_fault :: "Fault \<Rightarrow> bool" where
  "own_fault f = (code_str (ft_Code f) \<noteq> [] \<and> fault_canon f)"

lemma own_faults:
  "own_fault (fault ErrInterrupted ''service shutdown interrupted inference'')"
  "own_fault (fault ErrInterrupted ''service stopped during inference'')"
  "own_fault (fault ErrCancelled ''job cancelled'')" "own_fault (publicBackendError e)"
  using publicBackendError_ok by (simp_all add: own_fault_def fault_canon_plain code_named [simplified])
    (simp_all add: fault_def)

lemma outcome_ok:
  assumes "st = JobRunning \<or> st = JobCancelling" and "outcome stopping st oe be = (b, f)"
  shows "transition st b" and "Terminal b" and "b = JobSucceeded \<longleftrightarrow> f = None" and "opt_all own_fault f"
  using assms own_faults
  by (auto simp: outcome_def Terminal_def split: if_splits option.splits)

text \<open>The record \<open>finish_job\<close> writes.\<close>

definition finished :: "host \<Rightarrow> 'st Worker \<Rightarrow> Result \<Rightarrow> goerr option \<Rightarrow> Job \<Rightarrow> Job" where
  "finished h w result backendErr j =
     (let (r, err) = check_metadata h result backendErr;
          (state, f) = outcome (w_stopping w) (jb_State j) (w_outputErr w) err
      in stop_job state (h_now h (w_ticks w)) (clone_result (r\<lparr>rs_Text := rs_Text (jb_Result j)\<rparr>)) f j)"

lemma finished_ok:
  assumes "job_wf j" and "is_active j" and "time_encodable (h_now h (w_ticks w))"
  shows "update_ok q EventJobResult j (finished h w result be j)"
    and "jb_ID (finished h w result be j) = jb_ID j" and "Terminal (jb_State (finished h w result be j))"
proof -
  obtain r err where m: "check_metadata h result be = (r, err)" by fastforce
  obtain b f where o': "outcome (w_stopping w) (jb_State j) (w_outputErr w) err = (b, f)" by fastforce
  let ?r = "clone_result (r\<lparr>rs_Text := rs_Text (jb_Result j)\<rparr>)"
  have fin: "finished h w result be j = stop_job b (h_now h (w_ticks w)) ?r f j"
    by (simp add: finished_def m o')
  have "jb_State j = JobRunning \<or> jb_State j = JobCancelling" using assms(2) by (simp add: is_active_def)
  note oc = outcome_ok [OF this o']
  have "result_encodable (r\<lparr>rs_Text := rs_Text (jb_Result j)\<rparr>)"
    using check_metadata_encodable [OF m] by (simp add: result_encodable_def)
  then have "result_encodable ?r" by simp
  moreover have "rs_Text ?r = rs_Text (jb_Result j)"
    using assms(1) by (simp add: clone_result_def job_wf_def to_valid_id)
  ultimately show "update_ok q EventJobResult j (finished h w result be j)"
    unfolding fin using assms oc by (intro stop_update_ok) (auto simp: own_fault_def opt_all_def split: option.splits)
  show "jb_ID (finished h w result be j) = jb_ID j" "Terminal (jb_State (finished h w result be j))"
    using oc(2) by (simp_all add: fin stop_job_def)
qed

context store_contract
begin

lemma finish_job_ok:
  assumes b: "base_inv w" "synced w" and f: "w_fatal w = None" "\<not> w_closed w"
    and a: "qs_Active (sn_Queue (w_state w)) = Some i"
  shows "base_inv (finish_job h ops i result be w) \<and> synced (finish_job h ops i result be w) \<and>
    same_run w (finish_job h ops i result be w) \<and>
    w_receipts (finish_job h ops i result be w) = w_receipts w \<and>
    (if w_fatal (finish_job h ops i result be w) = None
     then \<exists>n. n < length (sn_Jobs (w_state w)) \<and> find_job (sn_Jobs (w_state w)) i = Some (sn_Jobs (w_state w) ! n) \<and>
       w_state (finish_job h ops i result be w) = updated (w_state w) n
         (finished h w result be (sn_Jobs (w_state w) ! n)) ((sn_Queue (w_state w))\<lparr>qs_Active := None\<rparr>)
     else w_state (finish_job h ops i result be w) = w_state w)"
proof -
  let ?s = "w_state w" and ?w = "w\<lparr>w_ticks := Suc (w_ticks w)\<rparr>"
  have s: "snap_inv ?s" using b(1) by (simp add: base_inv_def)
  from s a obtain n where n: "n < length (sn_Jobs ?s)" "jb_ID (sn_Jobs ?s ! n) = i" "is_active (sn_Jobs ?s ! n)"
    "find_job (sn_Jobs ?s) i = Some (sn_Jobs ?s ! n)" "job_wf (sn_Jobs ?s ! n)" by (rule active_lookup)
  let ?j = "sn_Jobs ?s ! n" and ?q = "(sn_Queue ?s)\<lparr>qs_Active := None\<rparr>"
  let ?f = "finished h w result be ?j"
  let ?c = "commit h ops [jobEvent EventJobResult ?f, queueEvent ?q] None ?w"
  note fo = finished_ok [OF n(5,3) now_ok(1), where w = w and result = result and be = be]
  have er: "jb_Error ?j = None" using stage_of [OF n(5)] n(3) by (auto simp: is_active_def)
  have c: "clone_of w i = Some ?j" using b(1) n(4) by (rule clone_of_inv)
  have fj: "finish_job h ops i result be w =
     (case ?c of (w1, Some e) \<Rightarrow> if w_panicked w1 then w1 else poison e w1 | (w1, None) \<Rightarrow> w1)"
    unfolding finish_job_def c finished_def stop_job_def snap_inv_simps(1) [OF s]
    by (auto simp: Let_def er split: prod.splits option.splits cong: option.case_cong)
  have "settled ?w None (updated ?s n ?f ?q) ?c"
  proof -
    have "queue_after (sn_Queue ?s) ?f ?q"
      using s a n(1-3) fo by (intro queue_after_stop) auto
    then show ?thesis
      using commit_update [of ?w n EventJobResult ?f ?q] b f n(1) fo(1) by (simp add: base_inv_fields synced_fields)
  qed
  then show ?thesis
  proof (cases rule: settledE)
    case (ok w1)
    then have "finish_job h ops i result be w = w1" using fj by simp
    with ok n(1,4) show ?thesis by (auto simp: same_run_def)
  next
    case (limit e t)
    have "\<not> w_panicked w" using b(1) by (simp add: base_inv_def)
    then have "finish_job h ops i result be w = poison e (?w\<lparr>w_ticks := t\<rparr>)" using fj limit(1) by simp
    then show ?thesis using b(1) by (simp add: poison_base base_inv_fields same_run_def)
  next
    case (fatal w1 e)
    have "\<not> w_panicked w1" using fatal(2) by (simp add: base_inv_def)
    then have "finish_job h ops i result be w = poison e w1" using fj fatal(1) by simp
    then show ?thesis using fatal(2-5) by (simp add: poison_base same_run_def)
  qed
qed

lemma closeStore_shape:
  obtains "w_closed w" "closeStore ops w = w"
  | st ft where "\<not> w_closed w" "w_fatal w \<noteq> None \<longrightarrow> ft = w_fatal w"
      "closeStore ops w = (finish_observers None w)\<lparr>w_store := st, w_closed := True, w_fatal := ft\<rparr>"
proof (cases "w_closed w")
  case True
  then show thesis by (intro that(1)) (simp_all add: closeStore_def)
next
  case False
  obtain st e where c: "so_Close ops (w_store w) = (st, e)" by fastforce
  have "w_store (finish_observers None w) = w_store w" "w_fatal (finish_observers None w) = w_fatal w"
    by (simp_all add: finish_observers_def)
  with False c show thesis
    by (intro that(2) [of "case (e, w_fatal w) of (Some e, None) \<Rightarrow> Some e | _ \<Rightarrow> w_fatal w" st])
      (auto simp: closeStore_def Let_def split: option.splits)
qed

lemma closeStore_simps:
  "w_closed (closeStore ops w)" "w_state (closeStore ops w) = w_state w"
  "w_receipts (closeStore ops w) = w_receipts w" "w_gens (closeStore ops w) = w_gens w"
  "w_cancel (closeStore ops w) = w_cancel w" "w_stopping (closeStore ops w) = w_stopping w"
  by (rule closeStore_shape [of w]; simp add: finish_observers_def)+

lemma closeStore_base:
  assumes "base_inv w"
  shows "base_inv (closeStore ops w)"
proof (rule closeStore_shape [of w])
  fix st ft
  assume "closeStore ops w = (finish_observers None w)\<lparr>w_store := st, w_closed := True, w_fatal := ft\<rparr>"
  moreover have "observers_ok (log_end (w_state w)) (finish_observers None w)"
    using assms by (auto simp: base_inv_def intro: finish_observers_ok)
  then have "observers_ok (log_end (w_state w))
      ((finish_observers None w)\<lparr>w_store := st, w_closed := True, w_fatal := ft\<rparr>)"
    by (simp add: observers_ok_def)
  moreover have "w_state (finish_observers None w) = w_state w" by (simp add: finish_observers_def)
  ultimately show ?thesis
    using assms by (simp add: base_inv_def receipts_ok_def) (simp add: finish_observers_def)
qed (use assms in simp)

lemma synced_closed: "w_closed w \<Longrightarrow> synced w"
  by (simp add: synced_def)

lemma closeStore_winv:
  assumes "base_inv w" and "w_gens w = []" and "\<not> w_cancel w" and "w_stopping w"
    and "w_fatal w = None \<longrightarrow> qs_Active (sn_Queue (w_state w)) = None"
  shows "winv (closeStore ops w)"
proof -
  have "w_fatal (closeStore ops w) = None \<longrightarrow> w_fatal w = None"
    by (rule closeStore_shape [of w]) auto
  with assms show ?thesis
    by (auto simp: winv_def run_inv_def closeStore_simps closeStore_base intro: synced_closed)
qed

lemma complete_inv:
  assumes i: "winv w" and g: "w_gens w = [(i, inp)]"
  shows "winv (complete h ops i result be w)"
proof -
  let ?w0 = "w\<lparr>w_gens := []\<rparr>"
  let ?w1 = "w\<lparr>w_gens := [], w_ctxdone := True, w_cancel := False\<rparr>"
  let ?w2 = "if w_fatal w = None then finish_job h ops i result be ?w1 else ?w1"
  have b: "base_inv w" "synced w" "run_inv w" using i by (simp_all add: winv_def)
  have r: "w_cancel w" "\<not> w_closed w" using b(3) g by (simp_all add: run_inv_def)
  have w1: "base_inv ?w1" "synced ?w1" using b by (simp_all add: base_inv_fields synced_fields)
  have co: "complete h ops i result be w = (if w_panicked ?w2 then ?w2
      else if w_stopping ?w2 then closeStore ops ?w2 else dispatch h ops ?w2)"
    using g r(1) by (simp add: complete_def Let_def)
  have w2: "base_inv ?w2 \<and> synced ?w2 \<and> w_gens ?w2 = [] \<and> \<not> w_cancel ?w2 \<and> \<not> w_closed ?w2 \<and>
    (w_fatal ?w2 = None \<longrightarrow> qs_Active (sn_Queue (w_state ?w2)) = None)"
  proof (cases "w_fatal w = None")
    case True
    then have "qs_Active (sn_Queue (w_state ?w1)) = Some i" using b(3) g by (simp add: run_inv_def)
    from finish_job_ok [OF w1 _ _ this, of result be] True r(2) show ?thesis
      by (auto simp: same_run_def updated_def split: if_splits)
  qed (use w1 r(2) in auto)
  then have np: "\<not> w_panicked ?w2" by (simp only: base_inv_def) simp
  show ?thesis
  proof (cases "w_stopping ?w2")
    case True
    have "winv (closeStore ops ?w2)"
      using w2 True by (intro closeStore_winv) blast+
    with co np True show ?thesis by simp
  next
    case False
    then have "winv ?w2" using w2 by (simp add: winv_def run_inv_def)
    from dispatch_inv [OF this] co np False show ?thesis by simp
  qed
qed

end

subsection \<open>Cancellation\<close>

text \<open>The record and the queue \<open>cancelJob\<close> writes for a job that is not yet stopping.\<close>

definition cancelled_job :: "time \<Rightarrow> Job \<Rightarrow> Job" where
  "cancelled_job t j =
     (if jb_State j = JobQueued
      then stop_job JobCancelled t (jb_Result j) (Some (fault ErrCancelled ''job cancelled'')) j
      else stopping_job j)"

definition cancelled_queue :: "Job \<Rightarrow> QueueState \<Rightarrow> QueueState" where
  "cancelled_queue j q =
     (if jb_State j = JobQueued then q\<lparr>qs_Pending := map_option (remove1 (jb_ID j)) (qs_Pending q)\<rparr> else q)"

lemma cancelled_queue_pending:
  "jb_State j = JobQueued \<Longrightarrow> pending_ids (cancelled_queue j q) = remove1 (jb_ID j) (pending_ids q)"
  by (simp add: cancelled_queue_def pending_ids_def split: option.split)

lemma cancelled_ok:
  assumes s: "snap_inv s" and n: "n < length (sn_Jobs s)" "sn_Jobs s ! n = j" and wf: "job_wf j"
    and st: "jb_State j = JobQueued \<or> jb_State j = JobRunning" and t: "time_encodable t"
  shows "update_ok (sn_Queue s) (if jb_State j = JobQueued then EventJobResult else EventJobState) j (cancelled_job t j)"
    and "queue_after (sn_Queue s) (cancelled_job t j) (cancelled_queue j (sn_Queue s))"
proof -
  show "update_ok (sn_Queue s) (if jb_State j = JobQueued then EventJobResult else EventJobState) j (cancelled_job t j)"
    using st wf t result_wf [OF wf] own_faults
    by (auto simp: cancelled_job_def own_fault_def Terminal_def intro!: stop_update_ok cancelling_update_ok)
  show "queue_after (sn_Queue s) (cancelled_job t j) (cancelled_queue j (sn_Queue s))"
  proof (cases "jb_State j = JobQueued")
    case True
    have "queue_wf (cancelled_queue j (sn_Queue s))"
    proof (cases "qs_Pending (sn_Queue s)")
      case None
      with True snap_inv_simps(2) [OF s] show ?thesis by (cases "sn_Queue s") (simp add: cancelled_queue_def)
    next
      case (Some ps)
      then have "list_all valid_utf8 ps"
        using pending_valid [OF snap_inv_simps(2) [OF s]] by (simp add: pending_ids_def)
      with Some True snap_inv_simps(2) [OF s] show ?thesis
        by (simp add: cancelled_queue_def queue_wf_set list_all_remove1)
    qed
    moreover have "qs_Active (sn_Queue s) \<noteq> Some (jb_ID j)"
    proof
      assume "qs_Active (sn_Queue s) = Some (jb_ID j)"
      with s obtain m where "m < length (sn_Jobs s)" "jb_ID (sn_Jobs s ! m) = jb_ID j" "is_active (sn_Jobs s ! m)"
        by (rule active_lookup)
      with n snap_inv_simps(3) [OF s] True show False
        by (metis distinct_conv_nth is_active_def JobState.distinct(1,3) length_map nth_map)
    qed
    ultimately show ?thesis
      using True cancelled_queue_pending [OF True]
      by (simp add: queue_after_def cancelled_job_def stop_job_def is_active_def cancelled_queue_def)
  next
    case False
    then have a: "is_active j" "is_active (cancelled_job t j)" "jb_ID (cancelled_job t j) = jb_ID j"
      using st by (simp_all add: is_active_def cancelled_job_def stopping_job_def)
    then have "jb_ID j \<in> set (active_ids (sn_Jobs s))" using n by (auto simp: active_ids_def)
    then have "qs_Active (sn_Queue s) = Some (jb_ID j)"
      using snap_inv_queue(3) [OF s] by (auto split: option.splits)
    moreover have "jb_ID j \<notin> set (pending_ids (sn_Queue s))"
      using active_not_pending [OF s n(1)] n(2) False by simp
    ultimately show ?thesis
      using a snap_inv_simps(2) [OF s] False
      by (auto simp: queue_after_def cancelled_queue_def remove1_idem cancelled_job_def stopping_job_def)
  qed
qed

context store_contract
begin

lemma cancelJob_ok:
  assumes i: "winv w" and res: "cancelJob h ops ctx i w = (w', res)"
  shows "winv w' \<and> w_gens w' = w_gens w \<and> w_receipts w' = w_receipts w \<and> (case res of
      Inl e \<Rightarrow> w_state w' = w_state w
    | Inr j \<Rightarrow> \<exists>p n. find_job (sn_Jobs (w_state w)) i = Some p \<and> n < length (sn_Jobs (w_state w)) \<and>
        sn_Jobs (w_state w) ! n = p \<and>
        (if Terminal (jb_State p) \<or> jb_State p = JobCancelling then w' = w \<and> j = p
         else j = cancelled_job (h_now h (w_ticks w)) p \<and>
           w_state w' = updated (w_state w) n j (cancelled_queue p (sn_Queue (w_state w))) \<and>
           (jb_State p = JobRunning \<longrightarrow> w_ctxdone w')))"
proof (cases "ctx = None \<and> available w = None \<and> find_job (sn_Jobs (w_state w)) i \<noteq> None")
  case False
  then have "w' = w" "\<exists>e. res = Inl e" using res by (auto simp: cancelJob_def split: option.splits)
  with i show ?thesis by auto
next
  case True
  then obtain p where p: "find_job (sn_Jobs (w_state w)) i = Some p" by blast
  let ?s = "w_state w" and ?t = "h_now h (w_ticks w)"
  have b: "base_inv w" "synced w" "run_inv w" and s: "snap_inv ?s"
    using i by (simp_all add: winv_def base_inv_def)
  have f: "w_fatal w = None" "\<not> w_stopping w"
    using True by (auto simp: available_def split: option.splits if_splits)
  have nc: "\<not> w_closed w" using b(3) f(2) by (simp add: run_inv_def)
  from s p obtain n where n: "n < length (sn_Jobs ?s)" "sn_Jobs ?s ! n = p" "jb_ID p = i" "job_wf p"
    by (rule lookup_any)
  have cl: "Clone_job p = Inr p" using n(4) by (simp add: Clone_job_def job_wf_def)
  show ?thesis
  proof (cases "Terminal (jb_State p) \<or> jb_State p = JobCancelling")
    case done': True
    then have "w' = w" "res = Inr p" using res True p cl by (simp_all add: cancelJob_def)
    with i p n done' show ?thesis by auto
  next
    case live: False
    have st: "jb_State p = JobQueued \<or> jb_State p = JobRunning"
      using live stage_of [OF n(4)] by (cases "jb_State p") (simp_all add: Terminal_def)
    let ?j = "cancelled_job ?t p" and ?q = "cancelled_queue p (sn_Queue ?s)"
    let ?k = "if jb_State p = JobQueued then EventJobResult else EventJobState"
    let ?w0 = "if jb_State p = JobQueued then w\<lparr>w_ticks := Suc (w_ticks w)\<rparr> else w"
    let ?c = "commit h ops [jobEvent ?k ?j, queueEvent ?q] None ?w0"
    note co = cancelled_ok [OF s n(1,2,4) st now_ok(1), of "w_ticks w"]
    have jq: "jb_State p = JobQueued \<Longrightarrow> p\<lparr>jb_State := JobCancelled, jb_FinishedAt := Some ?t,
        jb_Error := Some (fault ErrCancelled ''job cancelled'')\<rparr> = ?j"
      and jr: "jb_State p = JobRunning \<Longrightarrow> p\<lparr>jb_State := JobCancelling\<rparr> = ?j"
      by (cases p; simp add: cancelled_job_def stop_job_def stopping_job_def)+
    have cj: "clone_job ?j = ?j" using co(1) by (simp add: update_ok_def)
    have stj: "jb_State ?j = JobCancelling \<longleftrightarrow> jb_State p = JobRunning"
      using st by (auto simp: cancelled_job_def stop_job_def stopping_job_def)
    have cn: "(case ?c of (w1, Some err) \<Rightarrow> (w1, Inl err)
        | (w1, None) \<Rightarrow> if jb_State p = JobRunning
            then (call_cancel w1, if w_panicked (call_cancel w1) then Inl Panicked else Inr ?j)
            else (w1, Inr ?j)) = (w', res)"
      using res True p cl live snap_inv_simps(1) [OF s] n(3) st
      by (elim disjE) (simp_all add: cancelJob_def Let_def jq jr cj stj cancelled_queue_def
          cong: option.case_cong prod.case_cong if_cong)
    have w0: "base_inv ?w0" "synced ?w0" "w_fatal ?w0 = None" "\<not> w_closed ?w0" "w_state ?w0 = ?s" "same_run w ?w0"
        "w_receipts ?w0 = w_receipts w"
      using b f nc by (simp_all add: base_inv_fields synced_fields same_run_def)
    have "settled ?w0 None (updated ?s n ?j ?q) ?c"
      using commit_update [OF w0(1-4), of n ?k ?j ?q] n(1,2) co unfolding w0(5) by simp
    then show ?thesis
    proof (cases rule: settledE)
      case (ok w1)
      note sr = same_run_simps [OF ok(4)] same_run_simps [OF w0(6)]
      have act: "qs_Active ?q = qs_Active (sn_Queue ?s)" by (simp add: cancelled_queue_def)
      have w1: "winv w1"
        using ok(2,3,5,6) sr b(3) f(1) act by (simp add: winv_def run_inv_def updated_def)
      show ?thesis
      proof (cases "jb_State p = JobRunning")
        case True
        then have "jb_ID p \<in> set (active_ids (sn_Jobs ?s))" using n by (auto simp: active_ids_def is_active_def)
        then have "w_gens w \<noteq> []"
          using snap_inv_queue(3) [OF s] b(3) f(1) by (auto simp: run_inv_def split: option.splits list.splits)
        then have g: "w_gens w1 \<noteq> []" "w_cancel w1" using sr b(3) by (simp_all add: run_inv_def)
        then have c1: "winv (call_cancel w1)" using w1 by (simp add: call_cancel_inv)
        then have "\<not> w_panicked (call_cancel w1)" by (simp add: winv_def base_inv_def)
        with cn ok(1) True have "w' = call_cancel w1" "res = Inr ?j" by simp_all
        then show ?thesis
          using c1 g ok(5,8) sr p n live True w0(7) by (auto simp: call_cancel_def)
      next
        case False
        with cn ok(1) have "w' = w1" "res = Inr ?j" by simp_all
        then show ?thesis using w1 ok(5,8) sr p n live False w0(7) by auto
      qed
    next
      case (limit e t)
      then have "w' = ?w0\<lparr>w_ticks := t\<rparr>" "res = Inl e" using cn by simp_all
      moreover have "winv (?w0\<lparr>w_ticks := t\<rparr>)"
        using i by (simp add: winv_def base_inv_fields synced_fields run_inv_def)
      ultimately show ?thesis by simp
    next
      case (fatal w1 e)
      then have "w' = w1" "res = Inl e" using cn by simp_all
      moreover have "same_run w w1" using fatal(3) w0(6) by (simp add: same_run_def)
      then have "winv w1" using fatal(2,6) run_inv_fatal [OF b(3)] by (simp add: winv_def synced_def)
      ultimately show ?thesis
        using fatal(4,5) w0(5,7) same_run_simps [OF fatal(3)] same_run_simps [OF w0(6)] by simp
    qed
  qed
qed

subsection \<open>Pausing\<close>

lemma commit_queue:
  assumes inv: "base_inv w" "synced w" "w_fatal w = None" "\<not> w_closed w"
  shows "settled w None ((w_state w)\<lparr>sn_Cursor := advance 1 (w_state w), sn_Queue := (sn_Queue (w_state w))\<lparr>qs_Paused := b\<rparr>\<rparr>)
    (commit h ops [queueEvent ((sn_Queue (w_state w))\<lparr>qs_Paused := b\<rparr>)] None w)"
proof -
  let ?s = "w_state w" and ?q = "(sn_Queue (w_state w))\<lparr>qs_Paused := b\<rparr>"
  have s: "snap_inv ?s" using inv(1) by (simp add: base_inv_def)
  have q: "queue_wf ?q" using queue_wf_set(3) [OF snap_inv_simps(2) [OF s]] by simp
  have "settled w None ((?s\<lparr>sn_Queue := ?q\<rparr>)\<lparr>sn_Cursor := advance 1 ?s\<rparr>) (commit h ops [queueEvent ?q] None w)"
  proof (rule commit_single [OF inv])
    show "apply_payload h ?s [] (stamped ?s 1 t (queueEvent ?q)) = Inr (?s\<lparr>sn_Queue := ?q\<rparr>, [])" for t
      using q apply_queue_event [of ?q h ?s "[]" ?s 1 t] by (simp add: queue_wf_def)
    show "queue_ok (?s\<lparr>sn_Queue := ?q\<rparr>)"
      using queue_ok_iff [of "?s\<lparr>sn_Queue := ?q\<rparr>"] snap_inv_queue [OF s] jobs_inv_ids [OF snap_inv_simps(4) [OF s]] by simp
  qed (rule payload_counts, rule queue_event_canon [OF q])
  moreover have "(?s\<lparr>sn_Queue := ?q\<rparr>)\<lparr>sn_Cursor := c\<rparr> = ?s\<lparr>sn_Cursor := c, sn_Queue := ?q\<rparr>" for c
    by (cases ?s) simp
  ultimately show ?thesis by (simp only:)
qed

lemma setQueuePaused_ok:
  assumes i: "winv w" and res: "setQueuePaused h ops ctx paused w = (w', res)"
  shows "winv w' \<and> w_receipts w' = w_receipts w \<and> (case res of Inl e \<Rightarrow> w_state w' = w_state w
    | Inr q \<Rightarrow> q = sn_Queue (w_state w') \<and> qs_Paused q = paused)"
proof (cases "ctx = None \<and> available w = None")
  case False
  then have "w' = w" "\<exists>e. res = Inl e" using res by (auto simp: setQueuePaused_def split: option.splits)
  with i show ?thesis by auto
next
  case True
  let ?s = "w_state w"
  have b: "base_inv w" "synced w" "run_inv w" and s: "snap_inv ?s"
    using i by (simp_all add: winv_def base_inv_def)
  have f: "w_fatal w = None" "\<not> w_stopping w"
    using True by (auto simp: available_def split: option.splits if_splits)
  have nc: "\<not> w_closed w" using b(3) f(2) by (simp add: run_inv_def)
  let ?c = "if qs_Paused (sn_Queue ?s) \<noteq> paused
    then commit h ops [queueEvent ((sn_Queue ?s)\<lparr>qs_Paused := paused\<rparr>)] None w else (w, None)"
  have sp: "(case ?c of (w1, Some err) \<Rightarrow> (w1, Inl err)
      | (w1, None) \<Rightarrow> (dispatch h ops w1, if w_panicked (dispatch h ops w1) then Inl Panicked
          else Inr (clone_queue (sn_Queue (w_state (dispatch h ops w1)))))) = (w', res)"
    using res True snap_inv_simps(1) [OF s] by (simp add: setQueuePaused_def Let_def)
  have go: "winv w1 \<Longrightarrow> qs_Paused (sn_Queue (w_state w1)) = paused \<Longrightarrow> w_receipts w1 = w_receipts w \<Longrightarrow>
      ?c = (w1, None) \<Longrightarrow> ?thesis" for w1
  proof -
    assume w1: "winv w1" "qs_Paused (sn_Queue (w_state w1)) = paused" "w_receipts w1 = w_receipts w" "?c = (w1, None)"
    have d: "winv (dispatch h ops w1)" using w1(1) by (rule dispatch_inv)
    then have "\<not> w_panicked (dispatch h ops w1)" "snap_inv (w_state (dispatch h ops w1))"
      by (simp_all add: winv_def base_inv_def)
    moreover have "qs_Paused (sn_Queue (w_state (dispatch h ops w1))) = paused \<and>
        w_receipts (dispatch h ops w1) = w_receipts w"
      using w1(1) by (cases rule: dispatch_cases) (use w1 in \<open>auto simp: updated_def\<close>)
    ultimately show ?thesis using sp d w1(4) snap_inv_simps(1) by auto
  qed
  show ?thesis
  proof (cases "qs_Paused (sn_Queue ?s) = paused")
    case True
    then show ?thesis using go [of w] i by simp
  next
    case False
    from commit_queue [OF b(1,2) f(1) nc, of paused] show ?thesis
    proof (cases rule: settledE)
      case (ok w1)
      have "winv w1"
        using ok(2,3,5,6) same_run_simps [OF ok(4)] b(3) f(1) by (simp add: winv_def run_inv_def)
      then show ?thesis using go [of w1] ok(1,5,8) False by simp
    next
      case (limit e t)
      then have "w' = w\<lparr>w_ticks := t\<rparr>" "res = Inl e" using sp False by simp_all
      then show ?thesis using i by (simp add: winv_def base_inv_fields synced_fields run_inv_def)
    next
      case (fatal w1 e)
      then have "w' = w1" "res = Inl e" using sp False by simp_all
      moreover have "winv w1" using fatal(2,6) run_inv_fatal [OF b(3) fatal(3)] by (simp add: winv_def synced_def)
      ultimately show ?thesis using fatal(4,5) by simp
    qed
  qed
qed

end

end
