(* ===== verification/Watch.thy ===== *)
theory Watch
  imports Execution
begin

text \<open>
  \<open>internal/core/watch.go\<close>: opening a stream at a cursor, reading its next event and closing
  it. \<open>Next\<close> is one round of the source's loop: the result \<open>None\<close> is the wait for a wake-up,
  after which the loop starts again. A round is atomic here; in the source only \<open>push\<close> and
  \<open>finish\<close> can run between its two critical sections, and they do not touch the cursor.
\<close>

subsection \<open>Operations\<close>

definition watch ::
  "goerr option \<Rightarrow> Cursor \<Rightarrow> 'st Worker \<Rightarrow> 'st Worker \<times> (goerr + nat)" where
  "watch ctx c w =
     (case ctx of Some e \<Rightarrow> (w, Inl e) | None \<Rightarrow>
     (case available w of Some e \<Rightarrow> (w, Inl e) | None \<Rightarrow>
     (case ValidateCursor c (sn_Cursor (w_state w)) of
        Some f \<Rightarrow> (w, Inl (FaultErr f))
      | None \<Rightarrow>
          (w\<lparr>w_streams := w_streams w @ [new_stream c (cu_Sequence (sn_Cursor (w_state w)))],
             w_observers := w_observers w @ [length (w_streams w)]\<rparr>,
           Inr (length (w_streams w))))))"

definition Watch :: "call_ctx \<Rightarrow> Cursor \<Rightarrow> 'st Worker \<Rightarrow> 'st Worker \<times> (goerr + nat)" where
  "Watch cc c = call cc (\<lambda>ctx. watch ctx c)"

text \<open>The context of one round: at the loop head, in the store call, and after a store error.\<close>

record next_ctx =
  nc_head :: "goerr option"
  nc_call :: call_ctx
  nc_after :: "goerr option"

definition replay_gap :: goerr where
  "replay_gap = FaultErr (fault ErrStorage ''replay gap'')"

definition poison_unless_stopping :: "goerr \<Rightarrow> 'st Worker \<Rightarrow> 'st Worker" where
  "poison_unless_stopping e w = (if w_stopping w then w else poison e w)"

definition Next_replay ::
  "'st store_ops \<Rightarrow> next_ctx \<Rightarrow> nat \<Rightarrow> 'st Worker \<Rightarrow> 'st Worker \<times> (goerr + Event)" where
  "Next_replay ops nc i w =
     (let s = w_streams w ! i;
          (st, r) = call (nc_call nc) (\<lambda>ctx st. so_ReadEvents ops st ctx (st_cursor s) 1) (w_store w);
          w1 = w\<lparr>w_store := st\<rparr> in
      case r of
        Inl e \<Rightarrow> (if nc_after nc = None then poison_unless_stopping e w1 else w1, Inl e)
      | Inr [e] \<Rightarrow>
          if cu_Sequence (ev_Cursor e) > st_through s
          then (poison_unless_stopping replay_gap w1, Inl replay_gap)
          else (w1\<lparr>w_streams := (w_streams w1)[i := s\<lparr>st_cursor := ev_Cursor e\<rparr>]\<rparr>, Inr e)
      | Inr _ \<Rightarrow> (poison_unless_stopping replay_gap w1, Inl replay_gap))"

definition Next ::
  "'st store_ops \<Rightarrow> next_ctx \<Rightarrow> nat \<Rightarrow> 'st Worker \<Rightarrow> 'st Worker \<times> (goerr + Event) option" where
  "Next ops nc i w =
     (let s = w_streams w ! i in
      case nc_head nc of Some e \<Rightarrow> (w, Some (Inl e)) | None \<Rightarrow>
      if st_closed s then (w, Some (Inl (case st_err s of None \<Rightarrow> EOF | Some e \<Rightarrow> e)))
      else if cu_Sequence (st_cursor s) < st_through s
      then (let (w', r) = Next_replay ops nc i w in (w', Some r))
      else (case st_queue s of
          [] \<Rightarrow> (w\<lparr>w_streams := (w_streams w)[i := s\<lparr>st_wake := False\<rparr>]\<rparr>, None)
        | (e, n) # q \<Rightarrow>
            (w\<lparr>w_streams := (w_streams w)[i := s\<lparr>st_queue := q, st_bytes := st_bytes s - int n,
                 st_cursor := ev_Cursor e\<rparr>]\<rparr>, Some (Inr e))))"

definition Close :: "nat \<Rightarrow> 'st Worker \<Rightarrow> 'st Worker" where
  "Close i w =
     w\<lparr>w_observers := filter (\<lambda>k. k \<noteq> i) (w_observers w),
       w_streams := (w_streams w)[i := finish None (w_streams w ! i)]\<rparr>"

subsection \<open>Streams stay consistent\<close>

lemma observers_ok_update:
  assumes "observers_ok n w" and "i < length (w_streams w)" and "stream_inv s" and "feed_ok n s"
    and "st_closed s = st_closed (w_streams w ! i)"
  shows "observers_ok n (w\<lparr>w_streams := (w_streams w)[i := s]\<rparr>)"
  using assms by (auto simp: observers_ok_def list_all_length nth_list_update)

lemma base_inv_stream:
  assumes "base_inv w" and "i < length (w_streams w)" and "stream_inv s" and "feed_ok (log_end (w_state w)) s"
    and "st_closed s = st_closed (w_streams w ! i)"
  shows "base_inv (w\<lparr>w_streams := (w_streams w)[i := s]\<rparr>)"
proof -
  have "observers_ok (log_end (w_state w)) (w\<lparr>w_streams := (w_streams w)[i := s]\<rparr>)"
    using assms by (intro observers_ok_update) (simp_all add: base_inv_def)
  with assms(1) show ?thesis by (simp add: base_inv_def receipts_ok_def)
qed

lemma Close_base:
  assumes "base_inv w" and "i < length (w_streams w)"
  shows "base_inv (Close i w)"
proof -
  let ?s = "finish None (w_streams w ! i)"
  have o': "observers_ok (log_end (w_state w)) w" using assms(1) by (simp add: base_inv_def)
  then have "stream_inv ?s" "feed_ok (log_end (w_state w)) ?s"
    using assms(2) by (simp_all add: observers_ok_def list_all_length finish_inv feed_ok_def)
  with o' assms(2) have "observers_ok (log_end (w_state w)) (Close i w)"
    by (auto simp: observers_ok_def Close_def list_all_length nth_list_update)
  with assms(1) show ?thesis by (auto simp: base_inv_def receipts_ok_def Close_def)
qed

lemma feed_new: "unat (cu_Sequence c) \<le> unat n \<Longrightarrow> feed_ok (unat n) (new_stream c n)"
  by (simp add: feed_ok_def new_stream_def feed_base_def max_def)

lemma watch_base:
  assumes "base_inv w" and "watch ctx c w = (w', r)" and "w_closed w \<longrightarrow> w_stopping w"
  shows "base_inv w' \<and> (case r of Inl e \<Rightarrow> w' = w
    | Inr i \<Rightarrow> i = length (w_streams w) \<and> available w = None \<and>
        ValidateCursor c (sn_Cursor (w_state w)) = None \<and>
        w' = w\<lparr>w_streams := w_streams w @ [new_stream c (cu_Sequence (sn_Cursor (w_state w)))],
          w_observers := w_observers w @ [i]\<rparr>)"
proof (cases "ctx = None \<and> available w = None \<and> ValidateCursor c (sn_Cursor (w_state w)) = None")
  case False
  then have "w' = w" "\<exists>e. r = Inl e" using assms(2) by (auto simp: watch_def split: option.splits)
  with assms(1) show ?thesis by auto
next
  case True
  let ?n = "cu_Sequence (sn_Cursor (w_state w))"
  let ?w = "w\<lparr>w_streams := w_streams w @ [new_stream c ?n], w_observers := w_observers w @ [length (w_streams w)]\<rparr>"
  have res: "w' = ?w" "r = Inr (length (w_streams w))" using assms(2) True by (auto simp: watch_def)
  have le: "unat (cu_Sequence c) \<le> unat ?n"
    using True by (auto simp: ValidateCursor_def word_le_nat_alt not_less split: if_splits)
  have f: "w_fatal w = None" "\<not> w_stopping w"
    using True by (auto simp: available_def split: option.splits if_splits)
  have o': "observers_ok (log_end (w_state w)) w" using assms(1) by (simp add: base_inv_def)
  then have mem: "i \<in> set (w_observers w) \<longleftrightarrow> i < length (w_streams w) \<and> \<not> st_closed (w_streams w ! i)" for i
    by (simp add: observers_ok_def)
  have "i \<in> set (w_observers ?w) \<longleftrightarrow> i < length (w_streams ?w) \<and> \<not> st_closed (w_streams ?w ! i)" for i
    using mem [of i] by (cases "i = length (w_streams w)") (auto simp: nth_append new_stream_def)
  then have "set (w_observers ?w) = {i. i < length (w_streams ?w) \<and> \<not> st_closed (w_streams ?w ! i)}"
    by (intro set_eqI) (simp only: mem_Collect_eq)
  moreover have "distinct (w_observers ?w)" using o' mem by (simp add: observers_ok_def)
  moreover have "feed_ok (log_end (w_state w)) (new_stream c ?n)" using feed_new [OF le] by (simp add: log_end_def)
  ultimately have "observers_ok (log_end (w_state w)) ?w" using o' by (simp add: observers_ok_def)
  moreover have "\<not> w_closed w" using assms(3) f(2) by blast
  ultimately have "base_inv ?w" using assms(1) f(1) by (simp add: base_inv_def receipts_ok_def)
  with True res show ?thesis by simp
qed

lemma feed_pop:
  assumes "stream_inv s" and "feed_ok n s" and "\<not> st_closed s" and "st_queue s = (e, m) # q"
    and "\<not> cu_Sequence (st_cursor s) < st_through s"
  shows "seq_of e = Suc (unat (cu_Sequence (st_cursor s)))"
    and "feed_ok n (s\<lparr>st_queue := q, st_bytes := st_bytes s - int m, st_cursor := ev_Cursor e\<rparr>)"
    and "stream_inv (s\<lparr>st_queue := q, st_bytes := st_bytes s - int m, st_cursor := ev_Cursor e\<rparr>)"
proof -
  let ?c = "unat (cu_Sequence (st_cursor s))"
  have b: "feed_base s = ?c"
    using assms(5) by (simp add: feed_base_def max_def word_less_nat_alt)
  have n: "n = ?c + Suc (length q)" and m: "map (seq_of \<circ> fst) ((e, m) # q) = [Suc ?c..<Suc n]"
    using assms(2-4) b by (auto simp: feed_ok_def)
  have "[Suc ?c..<Suc n] = Suc ?c # [Suc (Suc ?c)..<Suc n]" using n by (simp add: upt_conv_Cons del: upt_Suc)
  with m have e: "seq_of e = Suc ?c" and q: "map (seq_of \<circ> fst) q = [Suc (Suc ?c)..<Suc n]" by simp_all
  show "seq_of e = Suc ?c" by (rule e)
  have "feed_base (s\<lparr>st_queue := q, st_bytes := st_bytes s - int m, st_cursor := ev_Cursor e\<rparr>) = Suc ?c"
    using e b by (simp add: feed_base_def seq_of_def)
  then show "feed_ok n (s\<lparr>st_queue := q, st_bytes := st_bytes s - int m, st_cursor := ev_Cursor e\<rparr>)"
    using n q by (simp add: feed_ok_def del: upt_Suc)
  show "stream_inv (s\<lparr>st_queue := q, st_bytes := st_bytes s - int m, st_cursor := ev_Cursor e\<rparr>)"
    using assms(1,3,4) by (auto simp: stream_inv_def)
qed

lemma feed_replay:
  assumes "feed_ok n s" and "\<not> st_closed s" and "cu_Sequence (st_cursor s) < st_through s"
    and "seq_of e = Suc (unat (cu_Sequence (st_cursor s)))"
  shows "\<not> cu_Sequence (ev_Cursor e) > st_through s" and "feed_ok n (s\<lparr>st_cursor := ev_Cursor e\<rparr>)"
    and "unat (cu_Sequence (st_cursor s)) < n"
proof -
  have le: "unat (cu_Sequence (ev_Cursor e)) \<le> unat (st_through s)"
    using assms(3,4) by (simp add: seq_of_def word_less_nat_alt)
  then show "\<not> cu_Sequence (ev_Cursor e) > st_through s" by (simp add: word_less_nat_alt)
  have b: "feed_base s = unat (st_through s)" "feed_base (s\<lparr>st_cursor := ev_Cursor e\<rparr>) = unat (st_through s)"
    using assms(3) le by (simp_all add: feed_base_def max_def word_less_nat_alt)
  then show "feed_ok n (s\<lparr>st_cursor := ev_Cursor e\<rparr>)" using assms(1,2) by (simp add: feed_ok_def)
  show "unat (cu_Sequence (st_cursor s)) < n"
    using assms(1-3) b(1) by (auto simp: feed_ok_def word_less_nat_alt)
qed

context store_contract
begin

lemma read_synced:
  assumes "synced w" and "w_fatal w = None" "\<not> w_closed w"
    and "call cc (\<lambda>ctx st. so_ReadEvents ops st ctx c n) (w_store w) = (st, r)"
  shows "synced (w\<lparr>w_store := st\<rparr>)"
    and "r = Inr es \<Longrightarrow> int (length es) \<le> n \<and>
      (\<forall>k<length es. seq_of (es ! k) = unat (cu_Sequence c) + k + 1) \<and>
      (unat (cu_Sequence c) < log_end (w_state w) \<longrightarrow> es \<noteq> [])"
proof -
  have sy: "st_dead (w_store w) \<or> st_ok (w_store w) \<and> rv_Snapshot (view (w_store w)) = w_state w \<and>
      receipt_map (rv_Receipts (view (w_store w))) = w_receipts w"
    using assms(1-3) by (simp add: synced_def)
  obtain st1 r1 where rd: "so_ReadEvents ops (w_store w) (cc_locked cc) c n = (st1, r1)" by fastforce
  have ca: "cc_entry cc \<noteq> None \<and> st = w_store w \<and> (\<exists>e. r = Inl e) \<or> st = st1 \<and> (r = r1 \<or> (\<exists>e. r = Inl e))"
    using assms(4) rd by (auto simp: call_def split: option.splits)
  have st1: "st_dead st1 \<and> (\<exists>e. r1 = Inl e) \<or> st_ok st1 \<and> rv_Snapshot (view st1) = w_state w \<and>
      receipt_map (rv_Receipts (view st1)) = w_receipts w \<or> st_dead st1"
  proof (cases "st_dead (w_store w)")
    case True
    with read_dead [OF True rd] show ?thesis by blast
  next
    case False
    then show ?thesis
      using sy read_ok [of "w_store w" "cc_locked cc" c n st1] read_err [of "w_store w" "cc_locked cc" c n st1] rd
      by (cases r1) auto
  qed
  show "synced (w\<lparr>w_store := st\<rparr>)" using ca sy st1 by (auto simp: synced_def)
  assume "r = Inr es"
  with ca have "r1 = Inr es" by auto
  then have "\<not> st_dead (w_store w)" using read_dead rd by blast
  with sy read_ok [of "w_store w" "cc_locked cc" c n st1 es] rd \<open>r1 = Inr es\<close>
  show "int (length es) \<le> n \<and> (\<forall>k<length es. seq_of (es ! k) = unat (cu_Sequence c) + k + 1) \<and>
      (unat (cu_Sequence c) < log_end (w_state w) \<longrightarrow> es \<noteq> [])"
    by (auto simp: seq_of_def log_end_def word_less_nat_alt)
qed

lemma poison_unless_stopping_inv: "winv w \<Longrightarrow> winv (poison_unless_stopping e w)"
  by (simp add: poison_unless_stopping_def winv_def poison_base poison_run)

text \<open>
  A delivered event is the successor of the stream's cursor, which moves onto it; the reader
  waits only at the end of the log; a replay gap is never reported for a healthy store.
\<close>

lemma Next_replay_ok:
  assumes i: "winv w" and n: "i < length (w_streams w)" and op: "\<not> st_closed (w_streams w ! i)"
    and lt: "cu_Sequence (st_cursor (w_streams w ! i)) < st_through (w_streams w ! i)"
    and res: "Next_replay ops nc i w = (w', r)"
  shows "winv w' \<and> w_state w' = w_state w \<and> (case r of Inl e \<Rightarrow> True | Inr e \<Rightarrow>
    seq_of e = Suc (unat (cu_Sequence (st_cursor (w_streams w ! i)))) \<and> st_cursor (w_streams w' ! i) = ev_Cursor e)"
proof -
  let ?s = "w_streams w ! i"
  have b: "base_inv w" "synced w" "run_inv w" using i by (simp_all add: winv_def)
  have s: "stream_inv ?s" "feed_ok (log_end (w_state w)) ?s" and "i \<in> set (w_observers w)"
    using b(1) n op by (auto simp: base_inv_def observers_ok_def list_all_length)
  then have f: "w_fatal w = None" "\<not> w_closed w" using b(1) by (auto simp: base_inv_def)
  obtain st pg where rd: "call (nc_call nc) (\<lambda>ctx st. so_ReadEvents ops st ctx (st_cursor ?s) 1) (w_store w) = (st, pg)"
    by fastforce
  let ?w = "w\<lparr>w_store := st\<rparr>"
  have w1: "winv ?w" using b read_synced(1) [OF b(2) f rd] by (simp add: winv_def base_inv_fields run_inv_def)
  show ?thesis
  proof (cases pg)
    case (Inl e)
    then have "(w', r) = (if nc_after nc = None then poison_unless_stopping e ?w else ?w, Inl e)"
      using res rd by (simp add: Next_replay_def Let_def)
    with w1 show ?thesis
      by (auto simp: poison_unless_stopping_inv) (simp add: poison_unless_stopping_def)
  next
    case (Inr es)
    from read_synced(2) [OF b(2) f rd Inr]
    have es: "length es \<le> 1" "\<forall>k<length es. seq_of (es ! k) = unat (cu_Sequence (st_cursor ?s)) + k + 1"
      "unat (cu_Sequence (st_cursor ?s)) < log_end (w_state w) \<longrightarrow> es \<noteq> []" by auto
    have "unat (cu_Sequence (st_cursor ?s)) < unat (st_through ?s)" using lt by (simp add: word_less_nat_alt)
    moreover have "unat (st_through ?s) \<le> log_end (w_state w)"
      using s(2) op by (auto simp: feed_ok_def feed_base_def)
    ultimately obtain e where e: "es = [e]" using es(1,3) by (cases es) auto
    then have sq: "seq_of e = Suc (unat (cu_Sequence (st_cursor ?s)))" using es(2) by simp
    note fr = feed_replay [OF s(2) op lt sq]
    let ?w2 = "?w\<lparr>w_streams := (w_streams ?w)[i := ?s\<lparr>st_cursor := ev_Cursor e\<rparr>]\<rparr>"
    have r: "w' = ?w2" "r = Inr e" using res rd Inr e fr(1) by (simp_all add: Next_replay_def Let_def)
    have "base_inv ?w2"
      using w1 n fr(2) s(1) by (intro base_inv_stream) (auto simp: winv_def stream_inv_def)
    with w1 have "winv ?w2" by (simp add: winv_def run_inv_def synced_def)
    with r sq n show ?thesis by simp
  qed
qed

lemma Next_ok:
  assumes i: "winv w" and n: "i < length (w_streams w)" and res: "Next ops nc i w = (w', r)"
  shows "winv w' \<and> w_state w' = w_state w \<and> (case r of
      None \<Rightarrow> unat (cu_Sequence (st_cursor (w_streams w ! i))) = log_end (w_state w)
    | Some (Inl e) \<Rightarrow> True
    | Some (Inr e) \<Rightarrow> \<not> st_closed (w_streams w ! i) \<and>
        seq_of e = Suc (unat (cu_Sequence (st_cursor (w_streams w ! i)))) \<and>
        st_cursor (w_streams w' ! i) = ev_Cursor e)"
proof (cases "nc_head nc \<noteq> None \<or> st_closed (w_streams w ! i)")
  case True
  then have "w' = w" "\<exists>e. r = Some (Inl e)" using res by (auto simp: Next_def Let_def split: option.splits)
  with i show ?thesis by auto
next
  case False
  let ?s = "w_streams w ! i"
  have b: "base_inv w" "synced w" "run_inv w" using i by (simp_all add: winv_def)
  have s: "stream_inv ?s" "feed_ok (log_end (w_state w)) ?s"
    using b(1) n by (auto simp: base_inv_def observers_ok_def list_all_length)
  have upd: "winv (w\<lparr>w_streams := (w_streams w)[i := s']\<rparr>)"
    if "stream_inv s'" "feed_ok (log_end (w_state w)) s'" "\<not> st_closed s'" for s'
    using base_inv_stream [OF b(1) n that(1,2)] that(3) False b(2,3) by (simp add: winv_def run_inv_def synced_def)
  show ?thesis
  proof (cases "cu_Sequence (st_cursor ?s) < st_through ?s")
    case True
    then obtain r1 where r1: "Next_replay ops nc i w = (w', r1)" "r = Some r1"
      using res False by (auto simp: Next_def Let_def split: prod.splits)
    have "\<not> st_closed ?s" using False by blast
    from Next_replay_ok [OF i n this True r1(1)] this r1(2) show ?thesis by (cases r1) simp_all
  next
    case live: False
    show ?thesis
    proof (cases "st_queue ?s")
      case Nil
      then have r: "w' = w\<lparr>w_streams := (w_streams w)[i := ?s\<lparr>st_wake := False\<rparr>]\<rparr>" "r = None"
        using res False live by (auto simp: Next_def Let_def)
      have "unat (cu_Sequence (st_cursor ?s)) = log_end (w_state w)"
        using s(2) False Nil live by (auto simp: feed_ok_def feed_base_def max_def word_less_nat_alt)
      moreover have "winv w'"
        unfolding r(1) using s False by (intro upd) (auto simp: stream_inv_def feed_ok_def feed_base_def)
      ultimately show ?thesis using r by simp
    next
      case (Cons x q)
      obtain e m where x: "x = (e, m)" by (cases x)
      let ?s' = "?s\<lparr>st_queue := q, st_bytes := st_bytes ?s - int m, st_cursor := ev_Cursor e\<rparr>"
      have r: "w' = w\<lparr>w_streams := (w_streams w)[i := ?s']\<rparr>" "r = Some (Inr e)"
        using res False live Cons x by (auto simp: Next_def Let_def)
      note fp = feed_pop [OF s _ Cons [unfolded x] live]
      have "winv w'" unfolding r(1) using fp(2,3) False by (intro upd) auto
      with r fp(1) False n show ?thesis by simp
    qed
  qed
qed

lemma watch_ok:
  assumes "winv w" and "watch ctx c w = (w', r)"
  shows "winv w'"
proof -
  have "w_closed w \<longrightarrow> w_stopping w" using assms(1) by (simp add: winv_def run_inv_def)
  with watch_base [of w ctx c w' r] assms show ?thesis
    by (auto simp: winv_def run_inv_def synced_fields split: sum.splits)
qed

lemma Close_ok:
  assumes "winv w" and "i < length (w_streams w)"
  shows "winv (Close i w)"
proof -
  have "base_inv (Close i w)" using assms by (simp add: winv_def Close_base)
  moreover have "synced (Close i w)" "run_inv (Close i w)"
    using assms(1) by (simp_all add: winv_def Close_def run_inv_def synced_def)
  ultimately show ?thesis by (simp add: winv_def)
qed

end

end
