(* ===== verification/Machine.thy ===== *)
theory Machine
  imports Watch
begin

text \<open>
  The worker as a transition system: startup on a store, then any sequence of commands,
  backend notifications and observer calls. A step is one critical section, so every
  interleaving of callers, the backend goroutine and observers is a path.
\<close>

inductive wstep :: "host \<Rightarrow> 'st store_ops \<Rightarrow> 'st Worker \<Rightarrow> 'st Worker \<Rightarrow> bool" for h ops where
  submits: "Submit h ops cc sc w = (w', r) \<Longrightarrow> wstep h ops w w'"
| retries: "Retry h ops cc rt w = (w', r) \<Longrightarrow> wstep h ops w w'"
| branches: "Branch h ops cc bc w = (w', r) \<Longrightarrow> wstep h ops w w'"
| cancels: "Cancel h ops cc i w = (w', r) \<Longrightarrow> wstep h ops w w'"
| pauses: "SetQueuePaused h ops cc b w = (w', q) \<Longrightarrow> wstep h ops w w'"
| emits: "(i, inp) \<in> set (w_gens w) \<Longrightarrow> emit h ops i xs w = (w', e) \<Longrightarrow> wstep h ops w w'"
| completes: "(i, inp) \<in> set (w_gens w) \<Longrightarrow> wstep h ops w (complete h ops i result be w)"
| shuts: "wstep h ops w (Shutdown ops w)"
| watches: "Watch cc c w = (w', s) \<Longrightarrow> wstep h ops w w'"
| reads: "k < length (w_streams w) \<Longrightarrow> Next ops nc k w = (w', ev) \<Longrightarrow> wstep h ops w w'"
| closes: "k < length (w_streams w) \<Longrightarrow> wstep h ops w (Close k w)"

inductive reachable :: "host \<Rightarrow> 'st store_ops \<Rightarrow> 'st \<Rightarrow> 'st Worker \<Rightarrow> bool" for h ops st where
  starts: "NewWorker h ops st = (st', Inr w) \<Longrightarrow> reachable h ops st w"
| steps: "reachable h ops st w \<Longrightarrow> wstep h ops w w' \<Longrightarrow> reachable h ops st w'"

inductive_cases reachableE: "reachable h ops st w"

lemma call_preserves:
  assumes "call cc f w = (w', r)" and "P w" and "\<And>ctx w1 r1. f ctx w = (w1, r1) \<Longrightarrow> P w1"
  shows "P w'"
  using assms by (auto simp: call_def split: option.splits prod.splits)

text \<open>A detached caller learns nothing, but the command still takes its full effect.\<close>

lemma call_detached:
  assumes "cc_entry cc = None" and "f (cc_locked cc) w = (w1, r1)"
  shows "call cc f w = (w1, case cc_detached cc of Some e \<Rightarrow> Inl e | None \<Rightarrow> r1)"
  using assms by (simp add: call_def)

text \<open>The record of a job whose inference the service did not outlive.\<close>

definition interrupted :: "time \<Rightarrow> Job \<Rightarrow> Job" where
  "interrupted t j = stop_job JobInterrupted t (jb_Result j)
     (Some (fault ErrInterrupted ''service stopped during inference'')) j"

context store_contract
begin

lemma Shutdown_ok:
  assumes "winv w"
  shows "winv (Shutdown ops w)"
proof (cases "w_stopping w \<or> w_cancel w")
  case True
  with assms show ?thesis
    by (auto simp: Shutdown_def winv_def run_inv_def base_inv_fields synced_fields)
next
  case False
  have "w_gens w = []" "w_fatal w = None \<longrightarrow> qs_Active (sn_Queue (w_state w)) = None"
    using assms False by (auto simp: winv_def run_inv_def)
  then have "winv (closeStore ops (w\<lparr>w_stopping := True\<rparr>))"
    using assms False by (intro closeStore_winv) (auto simp: winv_def base_inv_fields)
  with False show ?thesis by (simp add: Shutdown_def)
qed

lemma wstep_inv: "wstep h ops w w' \<Longrightarrow> winv w \<Longrightarrow> winv w'"
proof (induction rule: wstep.induct)
  case (submits cc sc w w' r)
  show ?case
    using submits create_ok [OF submits.prems, of "''submit''" "[]"]
    by (auto simp: Submit_def operation_def elim!: call_preserves [where P = winv])
next
  case (retries cc rt w w' r)
  show ?case
    using retries create_ok [OF retries.prems, of "''retry''"]
    by (auto simp: Retry_def operation_def elim!: call_preserves [where P = winv])
next
  case (branches cc bc w w' r)
  show ?case
    using branches create_ok [OF branches.prems, of "''branch''"]
    by (auto simp: Branch_def operation_def elim!: call_preserves [where P = winv])
next
  case (cancels cc i w w' r)
  show ?case
    using cancels cancelJob_ok [OF cancels.prems] by (auto simp: Cancel_def elim!: call_preserves [where P = winv])
next
  case (pauses cc b w w' q)
  show ?case
    using pauses setQueuePaused_ok [OF pauses.prems]
    by (auto simp: SetQueuePaused_def elim!: call_preserves [where P = winv])
next
  case (emits i inp w xs w' e)
  then have "w_gens w = [(i, inp)]" by (cases "w_gens w") (auto simp: winv_def run_inv_def)
  with emits emit_ok show ?case by blast
next
  case (completes i inp w result be)
  then have "w_gens w = [(i, inp)]" by (cases "w_gens w") (auto simp: winv_def run_inv_def)
  with completes complete_inv show ?case by blast
next
  case (watches cc c w w' s)
  then show ?case using watch_ok by (auto simp: Watch_def elim!: call_preserves [where P = winv])
next
  case (reads k w nc w' ev)
  then show ?case using Next_ok by blast
qed (simp_all add: Shutdown_ok Close_ok)

subsection \<open>Startup\<close>

lemma initial_base:
  assumes "st_ok st"
  shows "base_inv (initial_worker st (view st))" and "synced (initial_worker st (view st))"
proof -
  have "receipts_ok (initial_worker st (view st))"
    using view_ok [OF assms] receipt_map_Some
    by (fastforce simp: receipts_ok_def initial_worker_def receipt_map_def [symmetric])
  with view_ok [OF assms] show "base_inv (initial_worker st (view st))"
    by (simp add: base_inv_def initial_worker_def observers_ok_def)
  show "synced (initial_worker st (view st))"
    using assms by (simp add: synced_def initial_worker_def receipt_map_def)
qed

text \<open>
  The recovered job list: the job that was active is interrupted, keeping its text; the
  others are as the store has them.
\<close>

lemma interrupt_active_ok:
  assumes i: "base_inv w" "synced w" "w_fatal w = None" "\<not> w_closed w"
    and res: "interrupt_active h ops w = (w', None)"
  shows "base_inv w' \<and> synced w' \<and> same_run w w' \<and> w_fatal w' = None \<and> w_receipts w' = w_receipts w \<and>
    qs_Active (sn_Queue (w_state w')) = None \<and>
    pending_ids (sn_Queue (w_state w')) = pending_ids (sn_Queue (w_state w)) \<and>
    sn_Jobs (w_state w') = map (\<lambda>j. if is_active j then interrupted (h_now h (w_ticks w)) j else j) (sn_Jobs (w_state w))"
proof (cases "qs_Active (sn_Queue (w_state w))")
  case None
  have s: "snap_inv (w_state w)" using i(1) by (simp add: base_inv_def)
  have "active_ids (sn_Jobs (w_state w)) = []" using snap_inv_queue(3) [OF s] None by simp
  then have "map (\<lambda>j. if is_active j then interrupted (h_now h (w_ticks w)) j else j) (sn_Jobs (w_state w)) = sn_Jobs (w_state w)"
    by (auto simp: active_ids_def filter_empty_conv intro: map_idI)
  moreover have "w' = w" using res None by (simp add: interrupt_active_def)
  ultimately show ?thesis using i None by (simp add: same_run_def)
next
  case (Some a)
  let ?s = "w_state w" and ?w = "w\<lparr>w_ticks := Suc (w_ticks w)\<rparr>" and ?t = "h_now h (w_ticks w)"
  have s: "snap_inv ?s" using i(1) by (simp add: base_inv_def)
  from s Some obtain n where n: "n < length (sn_Jobs ?s)" "jb_ID (sn_Jobs ?s ! n) = a" "is_active (sn_Jobs ?s ! n)"
    "find_job (sn_Jobs ?s) a = Some (sn_Jobs ?s ! n)" "job_wf (sn_Jobs ?s ! n)" by (rule active_lookup)
  let ?j = "sn_Jobs ?s ! n" and ?q = "(sn_Queue ?s)\<lparr>qs_Active := None\<rparr>"
  let ?f = "interrupted ?t ?j"
  let ?c = "commit h ops [jobEvent EventJobResult ?f, queueEvent ?q] None ?w"
  have f: "?j\<lparr>jb_State := JobInterrupted, jb_FinishedAt := Some ?t,
      jb_Error := Some (fault ErrInterrupted ''service stopped during inference'')\<rparr> = ?f"
    by (cases ?j) (simp add: interrupted_def stop_job_def)
  have c: "?c = (w', None)"
    using res Some clone_of_inv [OF i(1) n(4)] snap_inv_simps(1) [OF s] by (simp add: interrupt_active_def Let_def f)
  have "update_ok (sn_Queue ?s) EventJobResult ?j ?f"
    using n(3,5) now_ok(1) result_wf [OF n(5)] own_faults
    by (auto simp: interrupted_def own_fault_def is_active_def Terminal_def intro!: stop_update_ok)
  moreover have "queue_after (sn_Queue ?s) ?f ?q"
    using s Some n(1-3) by (intro queue_after_stop) (auto simp: interrupted_def stop_job_def Terminal_def)
  ultimately have st: "settled ?w None (updated ?s n ?f ?q) ?c"
    using commit_update [of ?w n EventJobResult ?f ?q] i n(1) by (simp add: base_inv_fields synced_fields)
  have only: "is_active (sn_Jobs ?s ! k) \<longleftrightarrow> k = n" if "k < length (sn_Jobs ?s)" for k
  proof -
    have "jb_ID (sn_Jobs ?s ! k) = a" if "is_active (sn_Jobs ?s ! k)"
    proof -
      have "jb_ID (sn_Jobs ?s ! k) \<in> set (active_ids (sn_Jobs ?s))"
        using that \<open>k < length (sn_Jobs ?s)\<close> by (auto simp: active_ids_def)
      then show ?thesis using snap_inv_queue(3) [OF s] Some by simp
    qed
    then show ?thesis
      using n that snap_inv_simps(3) [OF s] by (metis distinct_conv_nth length_map nth_map)
  qed
  have "(sn_Jobs ?s)[n := ?f] = map (\<lambda>j. if is_active j then interrupted ?t j else j) (sn_Jobs ?s)"
    using only n(1) by (auto intro!: nth_equalityI simp: nth_list_update)
  with st c show ?thesis by (auto simp: settled_def updated_def same_run_def)
qed

text \<open>A worker that starts is healthy and has recovered exactly the store's history.\<close>

lemma NewWorker_ok:
  assumes "st_ok st" and "NewWorker h ops st = (st', Inr w)"
  shows "winv w \<and> w_fatal w = None \<and> w_receipts w = receipt_map (rv_Receipts (view st)) \<and>
    (\<forall>j\<in>set (sn_Jobs (rv_Snapshot (view st))).
      \<exists>j'. find_job (sn_Jobs (w_state w)) (jb_ID j) = Some j' \<and>
        (if is_active j then \<exists>t. j' = interrupted t j else j' = j \<or> (\<exists>t. j' = start_job t j)))"
proof -
  obtain st1 r1 where rc: "so_Recover ops st None = (st1, r1)" by fastforce
  with assms(2) obtain r where "r1 = Inr r" by (cases r1) (auto simp: NewWorker_def)
  with rc recover [OF assms(1)] have r: "so_Recover ops st None = (st, Inr r)" "r = view st" by simp_all
  let ?w0 = "initial_worker st (view st)"
  from assms(2) r obtain w1 where ia: "interrupt_active h ops ?w0 = (w1, None)"
    and w: "w = dispatch h ops w1" "w_fatal w = None"
    by (auto simp: NewWorker_def Let_def split: prod.splits option.splits if_splits)
  have w0: "w_fatal ?w0 = None" "\<not> w_closed ?w0" "\<not> w_stopping ?w0" "w_gens ?w0 = []" "\<not> w_cancel ?w0"
    "w_receipts ?w0 = receipt_map (rv_Receipts (view st))" "w_state ?w0 = rv_Snapshot (view st)"
    by (simp_all add: initial_worker_def receipt_map_def)
  from interrupt_active_ok [OF initial_base [OF assms(1)] w0(1,2) ia]
  have i1: "base_inv w1" "synced w1" "same_run ?w0 w1" "w_fatal w1 = None" "w_receipts w1 = w_receipts ?w0"
      "qs_Active (sn_Queue (w_state w1)) = None"
      "sn_Jobs (w_state w1) = map (\<lambda>j. if is_active j then interrupted (h_now h (w_ticks ?w0)) j else j) (sn_Jobs (w_state ?w0))"
    by simp_all
  have w1: "winv w1"
    using i1(1,2,6) same_run_simps [OF i1(3)] w0 by (simp add: winv_def run_inv_def)
  have rc: "w_receipts w = receipt_map (rv_Receipts (view st))"
    unfolding w(1) using w1 by (cases rule: dispatch_cases) (use i1(5) w0(6) in auto)
  have "\<exists>j'. find_job (sn_Jobs (w_state w)) (jb_ID j) = Some j' \<and>
        (if is_active j then \<exists>t. j' = interrupted t j else j' = j \<or> (\<exists>t. j' = start_job t j))"
    if j: "j \<in> set (sn_Jobs (rv_Snapshot (view st)))" for j
  proof -
    let ?j = "if is_active j then interrupted (h_now h (w_ticks ?w0)) j else j"
    have id: "jb_ID ?j = jb_ID j" by (simp add: interrupted_def stop_job_def)
    have "?j \<in> set (sn_Jobs (w_state w1))" using j i1(7) w0(7) by auto
    moreover have "distinct (map jb_ID (sn_Jobs (w_state w1)))"
      using i1(1) by (simp add: base_inv_def snap_inv_def jobs_inv_def)
    ultimately have "find_job (sn_Jobs (w_state w1)) (jb_ID j) = Some ?j"
      using find_job_mem [of "sn_Jobs (w_state w1)" ?j] id by simp
    from dispatch_job [OF w1 this] show ?thesis
      unfolding w(1) by (auto simp: interrupted_def stop_job_def split: if_splits)
  qed
  then show ?thesis using dispatch_inv [OF w1] w rc by simp
qed

lemma reachable_inv:
  assumes "reachable h ops st w" and "st_ok st"
  shows "winv w"
  using assms by (induction rule: reachable.induct) (auto dest: NewWorker_ok intro: wstep_inv)

end

end
