(* ===== verification/Outcomes.thy ===== *)
theory Outcomes
  imports Machine
begin

text \<open>
  What callers and observers can rely on, beyond the invariant: the record a finished job
  gets, what shutdown guarantees, and that a finished job's record is never touched again.
\<close>

text \<open>The parts of the record a finished job gets.\<close>

lemma finished_record:
  assumes "job_wf j" and "is_active j" and "time_encodable (h_now h (w_ticks w))"
  shows "Terminal (jb_State (finished h w result be j))"
    and "jb_FinishedAt (finished h w result be j) = Some (h_now h (w_ticks w))"
    and "rs_Text (jb_Result (finished h w result be j)) = rs_Text (jb_Result j)"
    and "same_identity j (finished h w result be j)"
    and "(jb_State (finished h w result be j), jb_Error (finished h w result be j)) =
      outcome (w_stopping w) (jb_State j) (w_outputErr w) (snd (check_metadata h result be))"
proof -
  show "Terminal (jb_State (finished h w result be j))" using finished_ok(3) [OF assms] .
  obtain r err where m: "check_metadata h result be = (r, err)" by fastforce
  obtain b f where o': "outcome (w_stopping w) (jb_State j) (w_outputErr w) err = (b, f)" by fastforce
  have fin: "finished h w result be j = stop_job b (h_now h (w_ticks w)) (clone_result (r\<lparr>rs_Text := rs_Text (jb_Result j)\<rparr>)) f j"
    by (simp add: finished_def m o')
  have v: "valid_utf8 (rs_Text (jb_Result j))" using assms(1) by (simp add: job_wf_def)
  show "jb_FinishedAt (finished h w result be j) = Some (h_now h (w_ticks w))"
    "rs_Text (jb_Result (finished h w result be j)) = rs_Text (jb_Result j)"
    "(jb_State (finished h w result be j), jb_Error (finished h w result be j)) =
      outcome (w_stopping w) (jb_State j) (w_outputErr w) (snd (check_metadata h result be))"
    using v by (simp_all add: fin m o' stop_job_def clone_result_def to_valid_id)
  show "same_identity j (finished h w result be j)"
    using assms(1) unfolding fin by (simp add: stop_job_def same_identity_def request_eq_refl job_wf_def job_encodable_def)
qed

context store_contract
begin

lemma closeStore_fatal: "w_fatal (closeStore ops w) = None \<Longrightarrow> w_fatal w = None"
  by (rule closeStore_shape [of w]) auto

lemma dispatch_fatal: "w_fatal w = Some e \<Longrightarrow> dispatch h ops w = w"
  by (simp add: dispatch_def idle_def)

text \<open>The finished job is recorded as \<open>finished\<close> prescribes, unless the worker is poisoned.\<close>

lemma complete_job:
  assumes i: "winv w" and g: "w_gens w = [(i, inp)]" and f: "w_fatal w = None"
    and f': "w_fatal (complete h ops i result be w) = None"
  shows "\<exists>old. find_job (sn_Jobs (w_state w)) i = Some old \<and> is_active old \<and>
    find_job (sn_Jobs (w_state (complete h ops i result be w))) i = Some (finished h w result be old)"
proof -
  let ?w1 = "w\<lparr>w_gens := [], w_ctxdone := True, w_cancel := False\<rparr>"
  let ?w2 = "finish_job h ops i result be ?w1"
  have b: "base_inv w" "synced w" "run_inv w" using i by (simp_all add: winv_def)
  have r: "w_cancel w" "\<not> w_closed w" using b(3) g by (simp_all add: run_inv_def)
  have w1: "base_inv ?w1" "synced ?w1" using b by (simp_all add: base_inv_fields synced_fields)
  have a: "qs_Active (sn_Queue (w_state ?w1)) = Some i" using b(3) g f by (simp add: run_inv_def)
  have co: "complete h ops i result be w = (if w_panicked ?w2 then ?w2
      else if w_stopping ?w2 then closeStore ops ?w2 else dispatch h ops ?w2)"
    using g r(1) f by (simp add: complete_def Let_def)
  have w2: "base_inv ?w2 \<and> synced ?w2 \<and> same_run ?w1 ?w2"
    and st: "w_fatal ?w2 = None \<longrightarrow> (\<exists>n. n < length (sn_Jobs (w_state w)) \<and>
      find_job (sn_Jobs (w_state w)) i = Some (sn_Jobs (w_state w) ! n) \<and>
      w_state ?w2 = updated (w_state w) n (finished h w result be (sn_Jobs (w_state w) ! n))
        ((sn_Queue (w_state w))\<lparr>qs_Active := None\<rparr>))"
    using finish_job_ok [OF w1 _ _ a, of result be] f r(2) by (auto simp: finished_def split: if_splits)
  have np: "\<not> w_panicked ?w2" using w2 by (simp add: base_inv_def)
  have f2: "w_fatal ?w2 = None"
  proof (rule ccontr)
    assume "w_fatal ?w2 \<noteq> None"
    then obtain e where e: "w_fatal ?w2 = Some e" by blast
    have "w_fatal (closeStore ops ?w2) \<noteq> None" using closeStore_fatal [of ?w2] e by auto
    with f' co np e dispatch_fatal [OF e] show False by (auto split: if_splits)
  qed
  with st obtain n where n: "n < length (sn_Jobs (w_state w))" "find_job (sn_Jobs (w_state w)) i = Some (sn_Jobs (w_state w) ! n)"
    "w_state ?w2 = updated (w_state w) n (finished h w result be (sn_Jobs (w_state w) ! n)) ((sn_Queue (w_state w))\<lparr>qs_Active := None\<rparr>)"
    by blast
  have run: "winv ?w2" if "\<not> w_stopping ?w2"
  proof -
    have "w_gens ?w2 = []" "\<not> w_cancel ?w2" "\<not> w_closed ?w2"
      using w2 r(2) by (simp_all add: same_run_def)
    with w2 that n(3) show ?thesis by (simp add: winv_def run_inv_def updated_def)
  qed
  let ?old = "sn_Jobs (w_state w) ! n"
  have s: "snap_inv (w_state w)" using b(1) by (simp add: base_inv_def)
  have id: "jb_ID ?old = i" using n(2) find_job_Some by blast
  have "qs_Active (sn_Queue (w_state w)) = Some i" using a by simp
  with s obtain m where "find_job (sn_Jobs (w_state w)) i = Some (sn_Jobs (w_state w) ! m)"
    "is_active (sn_Jobs (w_state w) ! m)" "job_wf (sn_Jobs (w_state w) ! m)" by (rule active_lookup) auto
  with n(2) have old: "is_active ?old" "job_wf ?old" by auto
  note fo = finished_ok [OF old(2,1) now_ok(1), where w = w and result = result and be = be]
  have j2: "find_job (sn_Jobs (w_state ?w2)) i = Some (finished h w result be ?old)"
    using find_job_update [OF snap_inv_simps(3) [OF s] n(1), of "finished h w result be ?old" i] fo(2) id
    by (simp add: n(3) updated_def)
  have "find_job (sn_Jobs (w_state (complete h ops i result be w))) i = Some (finished h w result be ?old)"
  proof (cases "w_stopping ?w2")
    case True
    with co np j2 show ?thesis by (simp add: closeStore_simps)
  next
    case False
    from dispatch_job [OF run [OF False] j2] obtain j' where
      "find_job (sn_Jobs (w_state (dispatch h ops ?w2))) i = Some j'"
      "j' = finished h w result be ?old \<or> jb_State (finished h w result be ?old) = JobQueued" by blast
    with fo(3) co np False show ?thesis by (auto simp: Terminal_def)
  qed
  with n(2) old(1) show ?thesis by blast
qed

text \<open>Shutdown closes at once when nothing runs, and otherwise with the end of the running job.\<close>

lemma Shutdown_closes:
  assumes "winv w"
  shows "w_stopping (Shutdown ops w)" "w_gens (Shutdown ops w) = w_gens w"
    "w_closed (Shutdown ops w) \<longleftrightarrow> w_gens w = []"
proof -
  show st: "w_stopping (Shutdown ops w)" "w_gens (Shutdown ops w) = w_gens w"
    by (auto simp: Shutdown_def Let_def closeStore_simps)
  show "w_closed (Shutdown ops w) \<longleftrightarrow> w_gens w = []"
    using Shutdown_ok [OF assms] st by (simp add: winv_def run_inv_def)
qed

lemma complete_closes:
  assumes "winv w" and "w_gens w = [(i, inp)]" and "w_stopping w"
  shows "w_closed (complete h ops i result be w)" "w_gens (complete h ops i result be w) = []"
    "w_observers (complete h ops i result be w) = []"
proof -
  let ?w1 = "w\<lparr>w_gens := [], w_ctxdone := True, w_cancel := False\<rparr>"
  let ?w2 = "if w_fatal w = None then finish_job h ops i result be ?w1 else ?w1"
  have b: "base_inv w" "synced w" "run_inv w" using assms(1) by (simp_all add: winv_def)
  have r: "w_cancel w" "\<not> w_closed w" using b(3) assms(2) by (simp_all add: run_inv_def)
  have w1: "base_inv ?w1" "synced ?w1" using b by (simp_all add: base_inv_fields synced_fields)
  have w2: "w_gens ?w2 = []" "w_stopping ?w2"
  proof -
    have "w_gens ?w2 = [] \<and> w_stopping ?w2"
    proof (cases "w_fatal w = None")
      case True
      then have "qs_Active (sn_Queue (w_state ?w1)) = Some i" using b(3) assms(2) by (simp add: run_inv_def)
      from finish_job_ok [OF w1 _ _ this, of result be] True r(2) assms(3) show ?thesis
        by (auto simp: same_run_def)
    qed (use assms(3) in auto)
    then show "w_gens ?w2 = []" "w_stopping ?w2" by simp_all
  qed
  have inv: "winv (complete h ops i result be w)" using assms(1,2) by (rule complete_inv)
  then have "\<not> w_panicked (complete h ops i result be w)" by (simp add: winv_def base_inv_def)
  moreover have co: "complete h ops i result be w = (if w_panicked ?w2 then ?w2
      else if w_stopping ?w2 then closeStore ops ?w2 else dispatch h ops ?w2)"
    using assms(2) r(1) by (simp add: complete_def Let_def)
  ultimately have c: "complete h ops i result be w = closeStore ops ?w2"
    using w2(2) by (auto split: if_splits)
  show g: "w_gens (complete h ops i result be w) = []" using w2(1) by (simp add: c closeStore_simps)
  have "w_stopping (complete h ops i result be w)" using w2(2) by (simp add: c closeStore_simps)
  with inv g show cl: "w_closed (complete h ops i result be w)" by (simp add: winv_def run_inv_def)
  with inv show "w_observers (complete h ops i result be w) = []" by (simp add: winv_def base_inv_def)
qed

end

end
