(* ===== verification/Journal_Store.thy ===== *)
theory Journal_Store
  imports Journal_Log Outcomes
begin

text \<open>
  The journal keeps the contract of \<open>core.Store\<close>: the representation of an open journal as
  the list of its commits, what every operation does to it, and the interpretation of
  \<open>store_contract\<close>, which carries the worker's invariant over to a worker on a journal.
\<close>

definition represents :: "host \<Rightarrow> bytes \<Rightarrow> Journal \<Rightarrow> Commit list \<Rightarrow> bool" where
  "represents h store j cs =
     (\<exists>f s. jn_file j = Some f \<and> jn_poisoned j = None \<and> \<not> jn_closed j \<and> length store = 16 \<and>
        f_bytes f = log_bytes h store cs \<and> at_end f \<and> jn_size j = length (f_bytes f) \<and>
        list_all (entry_ok h) cs \<and> replay h (fresh_snapshot (hex_encode store)) cs = Inr s \<and>
        distinct (map rc_Key (receipts_in cs)) \<and>
        jn_state j = \<lparr>rv_Snapshot = s, rv_Receipts = receipts_in cs\<rparr> \<and>
        jn_records j = records_at h HeaderSize cs \<and> jn_hard j = HardBytes \<and> jn_size j \<le> HardBytes)"

definition journal_ok :: "host \<Rightarrow> Journal \<Rightarrow> bool" where
  "journal_ok h j = (\<exists>store cs. represents h store j cs)"

definition journal_dead :: "Journal \<Rightarrow> bool" where
  "journal_dead j = (\<exists>m. jn_poisoned j = Some (FaultErr (fault ErrStorage m)))"

lemma representsE:
  assumes "represents h store j cs"
  obtains f s where "jn_file j = Some f" "jn_poisoned j = None" "\<not> jn_closed j" "length store = 16"
    "f_bytes f = log_bytes h store cs" "at_end f" "jn_size j = length (f_bytes f)" "list_all (entry_ok h) cs"
    "replay h (fresh_snapshot (hex_encode store)) cs = Inr s" "distinct (map rc_Key (receipts_in cs))"
    "jn_state j = \<lparr>rv_Snapshot = s, rv_Receipts = receipts_in cs\<rparr>" "jn_records j = records_at h HeaderSize cs"
    "jn_hard j = HardBytes" "jn_size j \<le> HardBytes"
  using assms by (auto simp: represents_def)

lemma represents_check: "represents h store j cs \<Longrightarrow> check j = None"
  by (auto simp: represents_def check_def)

lemma storage_sound [simp]: "sound_error (storage e)" "\<not> limit_error (storage e)"
  by (simp_all add: storage_def sound_error_def limit_error_def fault_def)

lemma limit_sound [simp]: "sound_error limit" "limit_error limit"
  by (simp_all add: limit_def sound_error_def limit_error_def fault_def)

subsection \<open>Replayed state\<close>

lemma replay_inv:
  assumes "replay h s cs = Inr s'" and "list_all (entry_ok h) cs" and "snap_inv s"
  shows "snap_inv s' \<and> jb_ID ` set (sn_Jobs s) \<subseteq> jb_ID ` set (sn_Jobs s') \<and>
    (\<forall>r\<in>set (receipts_in cs). rc_JobID r \<in> jb_ID ` set (sn_Jobs s') \<and> receipt_canon r)"
  using assms
proof (induction cs arbitrary: s)
  case (Cons c cs)
  then obtain s1 where a: "ApplyCommit h s c = Inr s1" and r: "replay h s1 cs = Inr s'"
    by (auto simp: replay_Cons split: sum.splits)
  have cn: "commit_canon c" using Cons.prems(2) by (simp add: entry_ok_def)
  then have ids: "commit_ids_ok c" by (rule commit_canon_ids)
  have "snap_inv s1" using Cons.prems(3) ids a by (rule ApplyCommit_snap_inv)
  with Cons.IH [OF r] Cons.prems(2) have i: "snap_inv s'" "jb_ID ` set (sn_Jobs s1) \<subseteq> jb_ID ` set (sn_Jobs s')"
    "\<forall>r\<in>set (receipts_in cs). rc_JobID r \<in> jb_ID ` set (sn_Jobs s') \<and> receipt_canon r" by simp_all
  have "jb_ID ` set (sn_Jobs s) \<subseteq> jb_ID ` set (sn_Jobs s1)"
    using ApplyCommit_jobs_le [OF Cons.prems(3) ids a] by (rule jobs_le_ids)
  moreover have "rc_JobID r \<in> jb_ID ` set (sn_Jobs s1) \<and> receipt_canon r" if "cm_Receipt c = Some r" for r
    using ApplyCommit_receipt [OF Cons.prems(3) ids a that] cn that by (simp add: commit_canon_def)
  ultimately show ?case using i by (cases "cm_Receipt c") (auto simp: receipt_list_def)
qed simp

lemma represents_state:
  assumes "represents h store j cs"
  shows "snap_inv (rv_Snapshot (jn_state j))" "cu_StoreID (sn_Cursor (rv_Snapshot (jn_state j))) = hex_encode store"
    "\<forall>r\<in>set (rv_Receipts (jn_state j)). rc_JobID r \<in> jb_ID ` set (sn_Jobs (rv_Snapshot (jn_state j))) \<and> receipt_canon r"
    "replay h (fresh_snapshot (hex_encode store)) cs = Inr (rv_Snapshot (jn_state j))"
    "rv_Receipts (jn_state j) = receipts_in cs"
proof -
  from assms obtain f s where *: "list_all (entry_ok h) cs" "replay h (fresh_snapshot (hex_encode store)) cs = Inr s"
    "jn_state j = \<lparr>rv_Snapshot = s, rv_Receipts = receipts_in cs\<rparr>" by (rule representsE)
  show "snap_inv (rv_Snapshot (jn_state j))"
    "\<forall>r\<in>set (rv_Receipts (jn_state j)). rc_JobID r \<in> jb_ID ` set (sn_Jobs (rv_Snapshot (jn_state j))) \<and> receipt_canon r"
    using replay_inv [OF *(2,1) snap_inv_fresh] *(3) by auto
  show "cu_StoreID (sn_Cursor (rv_Snapshot (jn_state j))) = hex_encode store"
    using replay_seqs [OF *(2)] *(3) by (simp add: fresh_snapshot_def)
  show "replay h (fresh_snapshot (hex_encode store)) cs = Inr (rv_Snapshot (jn_state j))"
    "rv_Receipts (jn_state j) = receipts_in cs" using * by simp_all
qed

subsection \<open>\<open>Recover\<close>\<close>

lemma clone_snapshot_id:
  assumes "snap_inv s" and "valid_utf8 (cu_StoreID (sn_Cursor s))"
  shows "clone_snapshot s = s" and "snapshot_encodable s"
proof -
  have "map clone_job (sn_Jobs s) = sn_Jobs s"
    using assms(1) by (intro map_idI) (auto simp: snap_inv_def jobs_inv_def list_all_iff job_wf_def)
  moreover have "clone_queue (sn_Queue s) = sn_Queue s" using assms(1) by (rule snap_inv_simps)
  ultimately show "clone_snapshot s = s"
    using assms(2) by (cases s, cases "sn_Cursor s") (simp add: clone_snapshot_def to_valid_id)
  show "snapshot_encodable s"
    using assms(1) by (auto simp: snapshot_encodable_def snap_inv_def jobs_inv_def list_all_iff job_wf_def)
qed

lemma Recover_ok:
  assumes "represents h store j cs"
  shows "Recover j None = (j, Inr (jn_state j))"
proof -
  note s = represents_state [OF assms]
  have v: "valid_utf8 (cu_StoreID (sn_Cursor (rv_Snapshot (jn_state j))))"
    unfolding s(2) by (rule hex_encode_valid)
  have "clone_receipt r = r" if "receipt_canon r" for r
    using that by (cases r) (simp add: clone_receipt_def receipt_canon_def to_valid_id)
  then have "map clone_receipt (rv_Receipts (jn_state j)) = rv_Receipts (jn_state j)"
    using s(3) by (intro map_idI) auto
  with clone_snapshot_id [OF s(1) v] represents_check [OF assms] show ?thesis
    by (cases "jn_state j") (simp add: Recover_def clone_recovery_def)
qed

subsection \<open>\<open>Append\<close>\<close>

lemma Append_errors:
  assumes "represents h store j cs" and "Append h j None c = (j', Some e)"
  shows "j' = j \<or> journal_dead j' \<and> (\<exists>x. e = storage x)"
    and "ApplyCommit h (rv_Snapshot (jn_state j)) c = Inr next \<Longrightarrow> sound_error e"
proof -
  obtain f where f: "jn_file j = Some f" using assms(1) by (rule representsE)
  note a = assms(2) [unfolded Append_def, simplified represents_check [OF assms(1)] f Let_def, simplified]
  show "j' = j \<or> journal_dead j' \<and> (\<exists>x. e = storage x)"
    using a by (auto simp: journal_dead_def storage_def split: option.splits sum.splits if_splits prod.splits)
  show "sound_error e" if "ApplyCommit h (rv_Snapshot (jn_state j)) c = Inr next"
    using a that by (auto split: option.splits if_splits prod.splits)
qed

lemma Append_limit:
  assumes "represents h store j cs" and "Append h j None c = (j', Some e)" and "limit_error e"
  shows "j' = j"
  using Append_errors(1) [OF assms(1,2)] assms(3) by auto

lemma Append_dead:
  "journal_dead j \<Longrightarrow> \<exists>e. Append h j None c = (j, Some e) \<and> sound_error e \<and> \<not> limit_error e"
  by (auto simp: journal_dead_def Append_def check_def sound_error_def limit_error_def fault_def)

lemma write_sync_end:
  assumes "at_end f" and "write_sync b f = (f', None)"
  shows "at_end f' \<and> f_bytes f' = f_bytes f @ b"
proof -
  obtain f1 r where w: "writeFull b f = (f1, r)" by fastforce
  then show ?thesis
    using assms(2) writeFull_prefix [OF assms(1) w]
    by (cases r) (auto simp: write_sync_def file_Sync_def split: option.splits)
qed

text \<open>A successful append extends the log, its bytes, its index and the state by the commit.\<close>

lemma Append_represents:
  assumes h: "host_ok h" and r: "represents h store j cs" and c: "commit_canon c"
    and a: "Append h j None c = (j', None)"
  shows "represents h store j' (cs @ [c]) \<and>
    (\<exists>next. ApplyCommit h (rv_Snapshot (jn_state j)) c = Inr next \<and>
      jn_state j' = \<lparr>rv_Snapshot = next, rv_Receipts = rv_Receipts (jn_state j) @ receipt_list (cm_Receipt c)\<rparr>) \<and>
    jn_size j' + TerminalReserve h (rv_Snapshot (jn_state j')) \<le> HardBytes"
proof -
  obtain f s where f: "jn_file j = Some f" "jn_poisoned j = None" "\<not> jn_closed j" "length store = 16"
    "f_bytes f = log_bytes h store cs" "at_end f" "jn_size j = length (f_bytes f)" "list_all (entry_ok h) cs"
    "replay h (fresh_snapshot (hex_encode store)) cs = Inr s" "distinct (map rc_Key (receipts_in cs))"
    "jn_state j = \<lparr>rv_Snapshot = s, rv_Receipts = receipts_in cs\<rparr>" "jn_records j = records_at h HeaderSize cs"
    "jn_hard j = HardBytes"
    using r by (rule representsE)
  note a' = a [unfolded Append_def, simplified represents_check [OF r] f(1,11) Let_def, simplified]
  obtain b "next" f1 where b: "marshal_commit h c = Some b" "length b \<le> MaxCommitBytes"
    and n: "ApplyCommit h s c = Inr next" and d: "\<not> duplicate (receipts_in cs) (cm_Receipt c)"
    and hard: "jn_size j + FrameSize + length b + TerminalReserve h next \<le> jn_hard j"
    and w: "write_sync (frame h b) f = (f1, None)"
    and j': "j' = j\<lparr>jn_file := Some f1,
                    jn_state := \<lparr>rv_Snapshot = next, rv_Receipts = receipts_in cs @ receipt_list (cm_Receipt c)\<rparr>,
                    jn_records := records_at h HeaderSize cs @ [entry (jn_size j) (length b) c next],
                    jn_size := jn_size j + FrameSize + length b\<rparr>"
    using a' f(12) by (auto split: option.splits sum.splits if_splits prod.splits)
  have bt: "b = commit_text h c" using b(1) by (auto simp: marshal_commit_def commit_text_def split: if_splits)
  have w': "at_end f1" "f_bytes f1 = log_bytes h store (cs @ [c])"
    using write_sync_end [OF f(6) w] f(5) by (simp_all add: frame_of_def bt)
  have "entry_ok h c" using c b bt by (simp add: entry_ok_def)
  moreover have "jn_size j' = length (f_bytes f1)"
    using w'(2) f(5,7) h by (simp add: j' frame_of_def length_frame bt)
  moreover have "distinct (map rc_Key (receipts_in (cs @ [c])))"
    using f(10) d by (cases "cm_Receipt c") (auto simp: receipt_list_def duplicate_def)
  moreover have "jn_records j' = records_at h HeaderSize (cs @ [c])"
    using f(5,7) length_journal_header [OF h f(4)] ApplyCommit_last [OF n]
    by (simp add: j' records_at_append entry_def log_bytes_def bt)
  ultimately have "represents h store j' (cs @ [c])"
    using w' f(2-4,8,9,13) n hard by (simp add: represents_def j' replay_snoc)
  with n hard show ?thesis by (simp add: j' f(11,13))
qed

end
