(* ===== verification/Journal_Contract.thy ===== *)
theory Journal_Contract
  imports Journal_Store
begin

text \<open>
  Replay from a journal is exact: a page is the longest run of the log after the cursor that
  the count and byte bounds admit. With that the journal meets every law of
  \<open>store_contract\<close>, and the worker's invariant holds for every worker on a journal.
\<close>

subsection \<open>\<open>ReadEvents\<close>\<close>

lemma records_last: "i < length cs \<Longrightarrow> ix_last (records_at h pos cs ! i) = cu_Sequence (ev_Cursor (last (cm_Events (cs ! i))))"
  by (induction cs arbitrary: pos i) (auto simp: nth_Cons split: nat.split)

lemma records_drop:
  "drop i (records_at h pos cs) = records_at h (pos + length (concat (map (frame_of h) (take i cs)))) (drop i cs)"
proof (cases "i \<le> length cs")
  case True
  have "records_at h pos cs = records_at h pos (take i cs @ drop i cs)" by simp
  with True show ?thesis unfolding records_at_append by (simp del: append_take_drop_id)
qed simp

text \<open>The binary search skips exactly records that end at or before the cursor.\<close>

lemma search_skips:
  assumes "replay h s cs = Inr s'"
    and "i = search (\<lambda>i. ix_last (records_at h pos cs ! i) > a) 0 (length cs)"
  shows "i \<le> length cs" and "after_cursor a (log_events cs) = after_cursor a (log_events (drop i cs))"
proof -
  let ?p = "\<lambda>i. ix_last (records_at h pos cs ! i) > a"
  note l = replay_lasts [OF assms(1)]
  have p: "?p k \<longleftrightarrow> last_seq (cs ! k) > unat a" if "k < length cs" for k
    using records_last [OF that, of h pos] by (simp add: last_seq_def seq_of_def word_less_nat_alt)
  have mono: "last_seq (cs ! k) \<le> last_seq (cs ! k')" if "k \<le> k'" "k' < length cs" for k k'
    using l that sorted_nth_mono [of "map last_seq cs" k k'] by simp
  have k: "0 \<le> i \<and> i \<le> length cs \<and> (\<forall>m. 0 \<le> m \<and> m < i \<longrightarrow> \<not> ?p m) \<and> (i < length cs \<longrightarrow> ?p i)"
    unfolding assms(2) by (rule search_first) (use p mono in \<open>auto intro: less_le_trans\<close>)
  then show i: "i \<le> length cs" by simp
  have "\<not> cu_Sequence (ev_Cursor e) > a" if "e \<in> set (log_events (take i cs))" for e
  proof -
    from that obtain c where "c \<in> set (take i cs)" "e \<in> set (cm_Events c)" by (auto simp: log_events_def)
    then obtain m where m: "m < i" "m < length cs" "c = cs ! m" by (auto simp: in_set_conv_nth)
    with k p have "last_seq c \<le> unat a" by auto
    moreover have "seq_of e \<le> last_seq c" using l m \<open>e \<in> set (cm_Events c)\<close> by simp
    ultimately show ?thesis by (simp add: seq_of_def word_less_nat_alt)
  qed
  then have "after_cursor a (log_events (take i cs)) = []" by (auto simp: after_cursor_def filter_empty_conv)
  moreover have "log_events cs = log_events (take i cs) @ log_events (drop i cs)"
    by (metis append_take_drop_id log_simps(6))
  ultimately show "after_cursor a (log_events cs) = after_cursor a (log_events (drop i cs))"
    by (simp add: after_cursor_def)
qed

lemma represents_same:
  "represents h store j cs \<Longrightarrow> jn_file j = Some f \<Longrightarrow> same_file f f' \<Longrightarrow>
   represents h store (j\<lparr>jn_file := Some f'\<rparr>) cs"
  by (auto simp: represents_def same_file_def at_end_def)

lemma ReadEvents_page:
  assumes h: "host_ok h" "host_text_ok h" and r: "represents h store j cs"
    and cur: "ValidateCursor cur (sn_Cursor (rv_Snapshot (jn_state j))) = None" and n: "1 \<le> n" "n \<le> int MaxObserverEvents"
    and res: "ReadEvents h j None cur n = (j', x)"
  shows "(x = Inr (page h (nat n) 0 (drop (unat (cu_Sequence cur)) (log_events cs))) \<and>
      represents h store j' cs \<and> jn_state j' = jn_state j) \<or>
    ((\<exists>f. jn_file j = Some f \<and> \<not> calm f) \<and> journal_dead j' \<and> (\<exists>e. x = Inl e))"
proof -
  obtain f s where f: "jn_file j = Some f" "jn_poisoned j = None" "\<not> jn_closed j" "length store = 16"
    "f_bytes f = log_bytes h store cs" "at_end f" "jn_size j = length (f_bytes f)" "list_all (entry_ok h) cs"
    "replay h (fresh_snapshot (hex_encode store)) cs = Inr s" "distinct (map rc_Key (receipts_in cs))"
    "jn_state j = \<lparr>rv_Snapshot = s, rv_Receipts = receipts_in cs\<rparr>" "jn_records j = records_at h HeaderSize cs"
    using r by (rule representsE)
  let ?a = "cu_Sequence cur"
  define i where "i = search (\<lambda>i. ix_last (records_at h HeaderSize cs ! i) > ?a) 0 (length cs)"
  note k = search_skips [OF f(9) i_def]
  let ?pre = "journal_header h store @ concat (map (frame_of h) (take i cs))"
  obtain f1 y where rr: "read_records h ?a (nat n) (records_at h (length ?pre) (drop i cs)) [] 0 f = (f1, y)" by fastforce
  have fb: "f_bytes f = ?pre @ concat (map (frame_of h) (drop i cs)) @ []"
    using f(5) by (simp add: log_bytes_def flip: concat_append map_append)
  have "list_all (entry_ok h) (drop i cs)" using f(8) by (auto simp: list_all_iff dest: in_set_dropD)
  from read_records_page [OF h this fb rr] have p: "same_file f f1"
    "y = Inr (page h (nat n) 0 (after_cursor ?a (log_events cs))) \<or> \<not> calm f \<and> (\<exists>e. y = Inl e)"
    using k(2) by auto
  have "map seq_of (log_events cs) = [Suc 0..<Suc (log_end s)]"
    using replay_seqs [OF f(9)] by (simp add: fresh_snapshot_def log_end_def del: upt_Suc)
  then have ac: "after_cursor ?a (log_events cs) = drop (unat ?a) (log_events cs)"
    using after_cursor_drop [of "log_events cs" 0 "log_end s" ?a] by simp
  have "drop i (jn_records j) = records_at h (length ?pre) (drop i cs)"
    using records_drop [of i h HeaderSize cs] length_journal_header [OF h(1) f(4)] by (simp add: f(12))
  then have rd: "(case (f1, y) of
           (f1, Inl e) \<Rightarrow> (let (j1, e1) = readFailure e (j\<lparr>jn_file := Some f1\<rparr>) in (j1, Inl e1))
         | (f1, Inr out) \<Rightarrow> (j\<lparr>jn_file := Some f1\<rparr>, Inr out)) = (j', x)"
    using res cur n f(1) represents_check [OF r] rr
    by (simp add: ReadEvents_def Let_def f(12) i_def [symmetric] del: append_assoc map_append concat_append length_append)
  show ?thesis
  proof (cases y)
    case (Inl e)
    with rd p f(1) show ?thesis by (auto simp: readFailure_def journal_dead_def storage_def)
  next
    case (Inr out)
    with rd p ac have "x = Inr (page h (nat n) 0 (drop (unat ?a) (log_events cs)))" "j' = j\<lparr>jn_file := Some f1\<rparr>" by auto
    with represents_same [OF r f(1) p(1)] show ?thesis by simp
  qed
qed

text \<open>An event is never longer than the commit it is in, so a page is empty only at the end.\<close>

lemma length_commas_elem: "x \<in> set xs \<Longrightarrow> length x \<le> length (commas xs)"
  by (induction xs rule: commas.induct) auto

lemma event_text_le:
  assumes "e \<in> set (cm_Events c)"
  shows "length (json_text (event_json h e)) \<le> length (commit_text h c)"
proof -
  let ?fs = "[(''version'', JInt (cm_Version c)), (''events'', JArr (map (event_json h) (cm_Events c)))] @
     opt_field ''receipt'' receipt_json (cm_Receipt c)"
  have "length (json_text (event_json h e)) \<le> length (json_text (JArr (map (event_json h) (cm_Events c))))"
    using length_commas_elem [of "json_text (event_json h e)" "map json_text (map (event_json h) (cm_Events c))"] assms
    by (auto intro: le_SucI)
  also have "\<dots> \<le> length (json_string ''events'' @ CHR '':'' # json_text (JArr (map (event_json h) (cm_Events c))))" by simp
  also have "\<dots> \<le> length (commas (map (\<lambda>kv. json_string (fst kv) @ CHR '':'' # json_text (snd kv)) ?fs))"
    by (rule length_commas_elem) simp
  also have "\<dots> \<le> length (commit_text h c)" by (simp add: commit_text_def commit_json_def)
  finally show ?thesis .
qed

lemma page_nonempty:
  assumes "list_all (entry_ok h) cs" and "drop k (log_events cs) \<noteq> []" and "0 < n"
  shows "page h n 0 (drop k (log_events cs)) \<noteq> []"
proof -
  obtain e es where e: "drop k (log_events cs) = e # es" using assms(2) by (cases "drop k (log_events cs)") auto
  then have "e \<in> set (log_events cs)" by (metis in_set_dropD list.set_intros(1))
  then obtain c where c: "c \<in> set cs" "e \<in> set (cm_Events c)" by (auto simp: log_events_def)
  with assms(1) have "length (commit_text h c) \<le> MaxCommitBytes" by (auto simp: list_all_iff entry_ok_def)
  with event_text_le [OF c(2), of h] have "event_len h e \<le> MaxObserverBytes"
    by (auto simp: event_len_def marshal_event_def MaxCommitBytes_def MaxObserverBytes_def split: if_splits)
  with e assms(3) show ?thesis by simp
qed

subsection \<open>The contract\<close>

lemma ReadEvents_checked:
  assumes "represents h store j cs" and "ReadEvents h j ctx cur n = (j', x)"
  obtains (refused) e where "j' = j" "x = Inl e"
  | (read) "ctx = None" "ValidateCursor cur (sn_Cursor (rv_Snapshot (jn_state j))) = None" "1 \<le> n"
      "n \<le> int MaxObserverEvents" "ReadEvents h j None cur n = (j', x)"
proof -
  have "check j = None" using assms(1) by (rule represents_check)
  then have "(\<exists>e. j' = j \<and> x = Inl e) \<or> (ctx = None \<and> ValidateCursor cur (sn_Cursor (rv_Snapshot (jn_state j))) = None \<and>
      1 \<le> n \<and> n \<le> int MaxObserverEvents)"
    using assms(2)
    by (cases ctx; cases "ValidateCursor cur (sn_Cursor (rv_Snapshot (jn_state j)))"; cases "n < 1 \<or> n > int MaxObserverEvents")
      (auto simp: ReadEvents_def)
  with that assms(2) show thesis by (elim disjE exE conjE) simp_all
qed

lemma read_contract:
  assumes h: "host_ok h" "host_text_ok h" and j: "journal_ok h j" and res: "ReadEvents h j ctx cur n = (j', x)"
  shows "(case x of
      Inl e \<Rightarrow> journal_ok h j' \<and> jn_state j' = jn_state j \<or> journal_dead j'
    | Inr es \<Rightarrow> journal_ok h j' \<and> jn_state j' = jn_state j \<and> int (length es) \<le> n \<and>
        (\<forall>k<length es. unat (cu_Sequence (ev_Cursor (es ! k))) = unat (cu_Sequence cur) + k + 1) \<and>
        (cu_Sequence cur < cu_Sequence (sn_Cursor (rv_Snapshot (jn_state j))) \<longrightarrow> es \<noteq> []))"
proof -
  obtain store cs where r: "represents h store j cs" using j by (auto simp: journal_ok_def)
  from r res show ?thesis
  proof (cases rule: ReadEvents_checked)
    case refused
    with j show ?thesis by simp
  next
    case read
    from ReadEvents_page [OF h r read(2-5)] show ?thesis
    proof (elim disjE conjE)
      let ?k = "unat (cu_Sequence cur)" and ?top = "log_end (rv_Snapshot (jn_state j))"
      assume x: "x = Inr (page h (nat n) 0 (drop ?k (log_events cs)))" "represents h store j' cs" "jn_state j' = jn_state j"
      have sq: "map seq_of (log_events cs) = [Suc 0..<Suc ?top]"
        using replay_seqs [OF represents_state(4) [OF r]] by (simp add: fresh_snapshot_def log_end_def del: upt_Suc)
      then have len: "length (log_events cs) = ?top"
        by (metis diff_Suc_1 diff_Suc_Suc length_map length_upt minus_nat.diff_0)
      obtain m where m: "m \<le> nat n" "page h (nat n) 0 (drop ?k (log_events cs)) = take m (drop ?k (log_events cs))"
        using page_prefix by blast
      have "unat (cu_Sequence (ev_Cursor (drop ?k (log_events cs) ! i))) = ?k + i + 1"
        if "i < length (drop ?k (log_events cs))" for i
        using that arg_cong [OF sq, of "\<lambda>l. l ! (?k + i)"] len
        by (simp add: seq_of_def del: upt_Suc)
      moreover have "page h (nat n) 0 (drop ?k (log_events cs)) \<noteq> []"
        if "cu_Sequence cur < cu_Sequence (sn_Cursor (rv_Snapshot (jn_state j)))"
      proof -
        have "list_all (entry_ok h) cs" using r by (rule representsE)
        then show ?thesis
          using that len read(3) by (intro page_nonempty) (auto simp: log_end_def word_less_nat_alt)
      qed
      ultimately show ?thesis using x m read(3) by (auto simp: journal_ok_def)
    qed auto
  qed
qed

lemma journal_contract:
  assumes h: "host_ok h" "host_text_ok h"
  shows "store_contract h (journal_ops h) (journal_ok h) journal_dead jn_state"
proof
  show "host_ok h" by (rule h)
next
  fix j c j'
  assume "journal_ok h j" "commit_canon c" "so_Append (journal_ops h) j None c = (j', None)"
  then show "journal_ok h j' \<and> (\<exists>next. ApplyCommit h (rv_Snapshot (jn_state j)) c = Inr next \<and>
        jn_state j' = \<lparr>rv_Snapshot = next, rv_Receipts = rv_Receipts (jn_state j) @
          (case cm_Receipt c of None \<Rightarrow> [] | Some r \<Rightarrow> [r])\<rparr>)"
    using Append_represents [OF h(1)] by (fastforce simp: journal_ok_def journal_ops_def receipt_list_def)
next
  fix j c j' e
  assume "journal_ok h j" "so_Append (journal_ops h) j None c = (j', Some e)" "limit_error e"
  then show "j' = j" using Append_limit by (auto simp: journal_ok_def journal_ops_def)
next
  fix j c "next" j' e
  assume "journal_ok h j" "ApplyCommit h (rv_Snapshot (jn_state j)) c = Inr next"
    "so_Append (journal_ops h) j None c = (j', Some e)"
  then show "sound_error e" using Append_errors(2) by (auto simp: journal_ok_def journal_ops_def)
next
  fix j c
  assume "journal_dead j"
  then show "\<exists>e. snd (so_Append (journal_ops h) j None c) = Some e \<and> sound_error e \<and> \<not> limit_error e"
    using Append_dead [of j h c] by (auto simp: journal_ops_def)
next
  fix j j' r
  assume "journal_ok h j" "so_Recover (journal_ops h) j None = (j', Inr r)"
  then show "j' = j \<and> r = jn_state j" using Recover_ok by (auto simp: journal_ok_def journal_ops_def)
next
  fix j ctx cur n j' es
  assume "journal_ok h j" "so_ReadEvents (journal_ops h) j ctx cur n = (j', Inr es)"
  then show "journal_ok h j' \<and> jn_state j' = jn_state j \<and> int (length es) \<le> n \<and>
      (\<forall>k<length es. unat (cu_Sequence (ev_Cursor (es ! k))) = unat (cu_Sequence cur) + k + 1) \<and>
      (cu_Sequence cur < cu_Sequence (sn_Cursor (rv_Snapshot (jn_state j))) \<longrightarrow> es \<noteq> [])"
    using read_contract [OF h, of j ctx cur n j' "Inr es"] by (simp add: journal_ops_def)
next
  fix j ctx cur n j' e
  assume "journal_ok h j" "so_ReadEvents (journal_ops h) j ctx cur n = (j', Inl e)"
  then show "journal_ok h j' \<and> jn_state j' = jn_state j \<or> journal_dead j'"
    using read_contract [OF h, of j ctx cur n j' "Inl e"] by (simp add: journal_ops_def)
next
  fix j ctx cur n j' pg
  assume "journal_dead j" "so_ReadEvents (journal_ops h) j ctx cur n = (j', pg)"
  then show "journal_dead j' \<and> (\<exists>e. pg = Inl e)"
    by (cases ctx) (auto simp: journal_ops_def ReadEvents_def check_def journal_dead_def)
next
  fix j
  assume "journal_ok h j"
  then obtain store cs where "represents h store j cs" by (auto simp: journal_ok_def)
  from represents_state [OF this] show "snap_inv (rv_Snapshot (jn_state j)) \<and>
      valid_utf8 (cu_StoreID (sn_Cursor (rv_Snapshot (jn_state j)))) \<and>
      (\<forall>r\<in>set (rv_Receipts (jn_state j)). rc_JobID r \<in> jb_ID ` set (sn_Jobs (rv_Snapshot (jn_state j))))"
    by (simp add: hex_encode_valid)
qed

subsection \<open>Workers on a journal\<close>

text \<open>What the Go runtime guarantees of its clock, hash, random source and text of numbers.\<close>

locale runtime =
  fixes h :: host
  assumes host: "host_ok h" and texts: "host_text_ok h"

sublocale runtime \<subseteq> store: store_contract h "journal_ops h" "journal_ok h" journal_dead jn_state
  by (rule journal_contract [OF host texts])

text \<open>
  The journal and the worker in one configuration: the worker was started on an open journal
  and has taken any number of steps.
\<close>

definition running :: "host \<Rightarrow> Journal Worker \<Rightarrow> bool" where
  "running h w = (\<exists>j. journal_ok h j \<and> reachable h (journal_ops h) j w)"

context runtime
begin

lemma running_inv: "running h w \<Longrightarrow> store.winv w"
  by (auto simp: running_def intro: store.reachable_inv)

lemma running_base: "running h w \<Longrightarrow> base_inv w \<and> run_inv w"
  using running_inv by (simp add: store.winv_def)

text \<open>A healthy worker has in memory exactly what its journal recovers.\<close>

lemma running_durable:
  assumes "running h w" and "w_fatal w = None" "\<not> w_closed w" "\<not> journal_dead (w_store w)"
  shows "journal_ok h (w_store w) \<and>
    Recover (w_store w) None = (w_store w, Inr (jn_state (w_store w))) \<and>
    rv_Snapshot (jn_state (w_store w)) = w_state w \<and> receipt_map (rv_Receipts (jn_state (w_store w))) = w_receipts w"
proof -
  have "journal_ok h (w_store w)" "rv_Snapshot (jn_state (w_store w)) = w_state w"
    "receipt_map (rv_Receipts (jn_state (w_store w))) = w_receipts w"
    using running_inv [OF assms(1)] assms(2-) by (auto simp: store.winv_def store.synced_def)
  then show ?thesis using Recover_ok by (auto simp: journal_ok_def)
qed

lemma running_step: "running h w \<Longrightarrow> wstep h (journal_ops h) w w' \<Longrightarrow> running h w'"
  by (auto simp: running_def intro: steps)

end

lemma runtimeI: "host_ok h \<Longrightarrow> host_text_ok h \<Longrightarrow> runtime h"
  by (rule runtime.intro)

end
