(* ===== verification/Journal_Open.thy ===== *)
theory Journal_Open
  imports Journal_Contract
begin

text \<open>
  Recovery: opening a file that holds a log and possibly the beginning of one more frame
  restores exactly the logged commits and cuts the rest off. With what \<open>Append\<close> leaves behind
  when it fails this makes an append atomic across restarts.
\<close>

subsection \<open>The scan\<close>

definition torn :: "host \<Rightarrow> bytes \<Rightarrow> bool" where
  "torn h tail = (\<exists>b n. tail = take n (frame h b) \<and> n < length (frame h b) \<and> 0 < length b \<and> length b \<le> MaxCommitBytes)"

lemma ReadAt_calm:
  assumes "calm f" and "f_bytes f = pre @ b @ post" and "off = length pre" and "n = length b"
  shows "\<exists>f'. file_ReadAt off n f = (f', Inr b) \<and> same_file f f'"
  using assms by (auto simp: file_ReadAt_def same_file_def calm_def io_now_def io_err_def)

lemma read_frame_complete:
  assumes h: "host_ok h" "calm f" and f: "f_bytes f = pre @ frame h b @ post" and b: "0 < length b" "length b \<le> MaxCommitBytes"
    and sz: "sz = length (f_bytes f)"
  shows "\<exists>f'. read_frame h sz (length pre) f = (f', Inr (Some b)) \<and> same_file f f'"
proof -
  obtain f1 where 1: "file_ReadAt (length pre) FrameSize f = (f1, Inr (frame_header h b))" "same_file f f1"
    using ReadAt_calm [OF h(2), of pre "frame_header h b" "b @ post" "length pre" FrameSize] f h(1)
    by (auto simp: frame_def length_frame_header)
  obtain f2 where 2: "file_ReadAt (length pre + FrameSize) (length b) f1 = (f2, Inr b)" "same_file f1 f2"
    using ReadAt_calm [OF same_file_calm [OF 1(2) h(2)], of "pre @ frame_header h b" b post "length pre + FrameSize" "length b"]
      f h(1) 1(2) by (auto simp: frame_def length_frame_header same_file_def)
  have "\<not> length b > sz - length pre - FrameSize" using sz f h(1) by (simp add: length_frame)
  moreover have "length b < 4294967296" using b(2) by (simp add: MaxCommitBytes_def)
  ultimately show ?thesis
    using 1 2 b frame_header_parts [OF h(1), of b]
    by (auto simp: read_frame_def Let_def of_be32_be32 intro: same_file_trans)
qed

lemma read_frame_torn:
  assumes h: "host_ok h" "calm f" and f: "f_bytes f = pre @ tail" and t: "torn h tail" "FrameSize \<le> length tail"
    and sz: "sz = length (f_bytes f)"
  shows "\<exists>f'. read_frame h sz (length pre) f = (f', Inr None) \<and> same_file f f'"
proof -
  obtain b n where b: "tail = take n (frame h b)" "n < length (frame h b)" "0 < length b" "length b \<le> MaxCommitBytes"
    using t(1) by (auto simp: torn_def)
  have n: "FrameSize \<le> n" using t(2) b(1,2) by simp
  then have tail: "tail = frame_header h b @ take (n - FrameSize) b"
    using b(1) h(1) by (simp add: frame_def length_frame_header)
  obtain f1 where 1: "file_ReadAt (length pre) FrameSize f = (f1, Inr (frame_header h b))" "same_file f f1"
    using ReadAt_calm [OF h(2), of pre "frame_header h b" "take (n - FrameSize) b" "length pre" FrameSize] f h(1) tail
    by (auto simp: length_frame_header)
  have "length b > sz - length pre - FrameSize"
    using sz f tail b(2) h(1) n by (simp add: length_frame length_frame_header)
  moreover have "length b < 4294967296" using b(4) by (simp add: MaxCommitBytes_def)
  ultimately show ?thesis
    using 1 b frame_header_parts [OF h(1), of b] by (auto simp: read_frame_def Let_def of_be32_be32)
qed

lemma scan_log:
  assumes h: "host_ok h" "host_text_ok h" and t: "tail = [] \<or> torn h tail"
    and "calm f" and "f_bytes f = pre @ concat (map (frame_of h) cs) @ tail" and "list_all (entry_ok h) cs"
    and "replay h (rv_Snapshot rv) cs = Inr s" and "distinct (map rc_Key (receipts_in cs) @ keys)"
    and "sz = length (f_bytes f)"
  shows "\<exists>f'. same_file f f' \<and> scan h sz f rv recs keys (length pre) =
    (f', Inr (\<lparr>rv_Snapshot = s, rv_Receipts = rv_Receipts rv @ receipts_in cs\<rparr>, recs @ records_at h (length pre) cs,
       length pre + length (concat (map (frame_of h) cs))))"
  using assms(4-)
proof (induction cs arbitrary: f pre rv recs keys)
  case Nil
  have rv: "rv = \<lparr>rv_Snapshot = s, rv_Receipts = rv_Receipts rv\<rparr>" using Nil.prems(4) by simp
  show ?case
  proof (cases "length tail < FrameSize")
    case True
    then have "\<not> length pre < sz \<or> sz - length pre < FrameSize" using Nil.prems by simp
    then have "scan h sz f rv recs keys (length pre) = (f, Inr (rv, recs, length pre))"
      by (subst scan.simps) (simp only: if_True)
    with rv show ?thesis by (auto intro: exI [of _ f])
  next
    case False
    with t have tn: "torn h tail" by (auto simp: FrameSize_def)
    from False obtain f1 where r: "read_frame h sz (length pre) f = (f1, Inr None)" "same_file f f1"
      using read_frame_torn [OF h(1) Nil.prems(1) _ tn] Nil.prems(2,6) by auto
    have "\<not> (\<not> length pre < sz \<or> sz - length pre < FrameSize)"
      using False Nil.prems(2,6) by (auto simp: FrameSize_def)
    then have "scan h sz f rv recs keys (length pre) = (f1, Inr (rv, recs, length pre))"
      by (subst scan.simps) (simp only: if_False r(1) prod.case sum.case option.case)
    with rv r(2) show ?thesis by auto
  qed
next
  case (Cons c cs)
  let ?b = "commit_text h c" and ?pre = "pre @ frame_of h c"
  from Cons.prems(4) obtain s1 where a: "ApplyCommit h (rv_Snapshot rv) c = Inr s1" and rp: "replay h s1 cs = Inr s"
    by (auto simp: replay_Cons split: sum.splits)
  have c: "entry_ok h c" "list_all (entry_ok h) cs" using Cons.prems(3) by simp_all
  have fb: "f_bytes f = pre @ frame h ?b @ concat (map (frame_of h) cs) @ tail"
    using Cons.prems(2) by (simp add: frame_of_def [of h c])
  obtain f1 where r: "read_frame h sz (length pre) f = (f1, Inr (Some ?b))" "same_file f f1"
    using read_frame_complete [OF h(1) Cons.prems(1) fb commit_text_nonempty _ Cons.prems(6)] c(1)
    by (auto simp: entry_ok_def)
  let ?rv = "\<lparr>rv_Snapshot = s1, rv_Receipts = rv_Receipts rv @ receipt_list (cm_Receipt c)\<rparr>"
    and ?keys = "map rc_Key (receipt_list (cm_Receipt c)) @ keys" and ?e = "entry (length pre) (length ?b) c s1"
  have len: "length ?pre = length pre + FrameSize + length ?b" using h(1) by (simp add: frame_of_def length_frame)
  have more: "\<not> (\<not> length pre < sz \<or> sz - length pre < FrameSize)"
    using Cons.prems(6) fb h(1) by (simp add: length_frame FrameSize_def)
  have nd: "\<not> (opt_all (\<lambda>r. rc_Key r \<in> set keys) (cm_Receipt c) \<and> cm_Receipt c \<noteq> None)"
    using Cons.prems(5) by (auto simp: receipt_list_def)
  have step: "scan h sz f rv recs keys (length pre) = scan h sz f1 ?rv (recs @ [?e]) ?keys (length ?pre)"
    using decode_text [OF h(2) c(1)] a nd len
    by (subst scan.simps) (simp only: more if_False r(1) prod.case sum.case option.case)
  have "f_bytes f1 = ?pre @ concat (map (frame_of h) cs) @ tail" "sz = length (f_bytes f1)"
    using fb Cons.prems(6) r(2) by (simp_all add: same_file_def frame_of_def [of h c])
  moreover have "distinct (map rc_Key (receipts_in cs) @ ?keys)" using Cons.prems(5) by auto
  moreover have "replay h (rv_Snapshot ?rv) cs = Inr s" using rp by simp
  ultimately obtain f2 where "same_file f1 f2" and sc: "scan h sz f1 ?rv (recs @ [?e]) ?keys (length ?pre) =
      (f2, Inr (\<lparr>rv_Snapshot = s, rv_Receipts = rv_Receipts ?rv @ receipts_in cs\<rparr>,
        (recs @ [?e]) @ records_at h (length ?pre) cs, length ?pre + length (concat (map (frame_of h) cs))))"
    using Cons.IH [OF same_file_calm [OF r(2) Cons.prems(1)] _ c(2), of ?pre ?rv ?keys "recs @ [?e]"] by blast
  with step r(2) show ?case
    using ApplyCommit_last [OF a] by (auto simp: entry_def intro: same_file_trans)
qed

subsection \<open>Opening a log\<close>

lemma read_header_ok:
  assumes h: "host_ok h" "calm f" and f: "f_bytes f = journal_header h store @ rest" "length store = 16"
    and hard: "length (f_bytes f) \<le> hard"
  shows "\<exists>f'. read_header h hard f = (f', Inr (length (f_bytes f), store)) \<and> same_file f f'"
proof -
  let ?p = "magic @ be32 1 @ be32 HeaderSize @ store"
  have len: "length (journal_header h store) = HeaderSize" using h(1) f(2) by (rule length_journal_header)
  have p: "length ?p = 32" using f(2) by (simp add: magic_def)
  have hd: "journal_header h store = ?p @ h_sha h ?p" by (simp add: journal_header_def Let_def)
  have "take 8 (journal_header h store) = magic" "take 4 (drop 8 (journal_header h store)) = be32 1"
    "take 4 (drop 12 (journal_header h store)) = be32 HeaderSize" "take 16 (drop 16 (journal_header h store)) = store"
    unfolding hd using f(2) by (simp_all add: magic_def)
  moreover have "take 32 (journal_header h store) = ?p" "drop 32 (journal_header h store) = h_sha h ?p"
    unfolding hd using p by (metis append_eq_conv_conj)+
  moreover have "calm (called f)" using h(2) by (simp add: calm_def)
  then obtain f2 where "file_ReadAt 0 HeaderSize (called f) = (f2, Inr (journal_header h store))" "same_file (called f) f2"
    using ReadAt_calm [of "called f" "[]" "journal_header h store" rest 0 HeaderSize] f(1) len by auto
  moreover have "file_Size f = (called f, Inr (length (f_bytes f)))"
    using h(2) by (simp add: file_Size_def calm_def io_now_def io_err_def)
  ultimately show ?thesis
    using hard f(1) len by (auto simp: read_header_def of_be32_be32 HeaderSize_def same_file_def)
qed

lemma settle_tail_ok:
  assumes "calm f" and "f_bytes f = log @ tail"
  shows "\<exists>f'. settle_tail (length (f_bytes f)) (length log) f = (f', None) \<and> f_bytes f' = log \<and> at_end f' \<and> f_env f' = f_env f"
  using assms
  by (auto simp: settle_tail_def file_Truncate_def file_Sync_def file_Seek_def calm_def io_now_def io_err_def at_end_def)

definition pristine :: "Journal \<Rightarrow> bool" where
  "pristine j = (jn_poisoned j = None \<and> \<not> jn_closed j \<and> jn_hard j = HardBytes)"

lemma open_log_ok:
  assumes h: "host_ok h" "host_text_ok h" and j: "pristine j" and f: "calm f"
    and log: "f_bytes f = log_bytes h store cs @ tail" "length store = 16" "list_all (entry_ok h) cs"
      "replay h (fresh_snapshot (hex_encode store)) cs = Inr s" "distinct (map rc_Key (receipts_in cs))"
    and t: "tail = [] \<or> torn h tail" and hard: "length (f_bytes f) \<le> HardBytes"
  shows "\<exists>j'. open_log h j f = (j', None) \<and> represents h store j' cs \<and> jn_tail j' = length tail \<and> (\<exists>f'. jn_file j' = Some f' \<and> calm f')"
proof -
  let ?header = "journal_header h store" and ?body = "concat (map (frame_of h) cs)"
  have fb: "f_bytes f = ?header @ ?body @ tail" using log(1) by (simp add: log_bytes_def)
  from j have hd: "jn_hard j = HardBytes" by (simp add: pristine_def)
  obtain f1 where 1: "read_header h HardBytes f = (f1, Inr (length (f_bytes f), store))" "same_file f f1"
    using read_header_ok [OF h(1) f fb log(2) hard] by blast
  have c1: "calm f1" using 1(2) f by (rule same_file_calm)
  have len: "length ?header = HeaderSize" using h(1) log(2) by (rule length_journal_header)
  have fb1: "f_bytes f1 = ?header @ ?body @ tail" "length (f_bytes f) = length (f_bytes f1)"
    using fb 1(2) by (simp_all add: same_file_def)
  obtain f2 where 2: "same_file f1 f2" "scan h (length (f_bytes f)) f1
      \<lparr>rv_Snapshot = fresh_snapshot (hex_encode store), rv_Receipts = []\<rparr> [] [] HeaderSize =
      (f2, Inr (\<lparr>rv_Snapshot = s, rv_Receipts = receipts_in cs\<rparr>, records_at h HeaderSize cs, length (?header @ ?body)))"
    using scan_log [OF h t c1 fb1(1) log(3), of "\<lparr>rv_Snapshot = fresh_snapshot (hex_encode store), rv_Receipts = []\<rparr>"
        s "[]" "length (f_bytes f)" "[]"] log(4,5) fb1(2) len by auto
  have c2: "calm f2" using 2(1) c1 by (rule same_file_calm)
  have fb2: "f_bytes f2 = (?header @ ?body) @ tail" "length (f_bytes f2) = length (f_bytes f)"
    using fb1 2(1) by (simp_all add: same_file_def)
  obtain f3 where 3: "settle_tail (length (f_bytes f)) (length (?header @ ?body)) f2 = (f3, None)"
      "f_bytes f3 = ?header @ ?body" "at_end f3" "f_env f3 = f_env f2"
    using settle_tail_ok [OF c2 fb2(1)] fb2(2) by auto
  define j' where "j' = j\<lparr>jn_file := Some f3, jn_state := \<lparr>rv_Snapshot = s, rv_Receipts = receipts_in cs\<rparr>,
      jn_records := records_at h HeaderSize cs, jn_size := length (?header @ ?body),
      jn_tail := length (f_bytes f) - length (?header @ ?body)\<rparr>"
  have "open_log h j f = (j', None)"
    by (simp add: open_log_def hd 1(1) 2(2) 3(1) j'_def del: length_append)
  moreover have "represents h store j' cs"
    using j log 3(2,3) hard fb by (simp add: represents_def j'_def pristine_def log_bytes_def)
  moreover have "calm f3" using c2 3(4) by (simp add: calm_def)
  ultimately show ?thesis using hd fb by (auto simp: j'_def)
qed

text \<open>A freshly created file becomes an empty log.\<close>

lemma write_header_ok:
  assumes "calm f" and "f_bytes f = []" "f_pos f = 0" and "oe_rand env = Inr store" and "syncDirectory env n = None"
  shows "\<exists>f'. write_header h env n f = (f', None) \<and> f_bytes f' = log_bytes h store [] \<and> calm f'"
proof -
  obtain f1 r where w: "writeFull (journal_header h store) f = (f1, r)" by fastforce
  have "at_end f" using assms(2,3) by (simp add: at_end_def)
  from writeFull_prefix [OF this w] writeFull_calm [OF assms(1), of "journal_header h store"] w assms(2)
  have "r = None" "f_bytes f1 = journal_header h store" "f_env f1 = f_env f" by auto
  then show ?thesis
    using w assms(1,4,5)
    by (auto simp: write_header_def write_sync_def file_Sync_def calm_def io_now_def io_err_def log_bytes_def)
qed

subsection \<open>\<open>Open\<close>\<close>

text \<open>An operating system that answers every call of \<open>Open\<close> on the directory without error.\<close>

definition quiet :: "open_env \<Rightarrow> path \<Rightarrow> bool" where
  "quiet env dir = (is_ok (missing_dirs (oe_stat env) dir) \<and> oe_mkdir env = None \<and> (\<forall>n. oe_dir env n = (None, None)) \<and>
     oe_lock_open env = None \<and> oe_flock env = None)"

lemma quiet_sync: "quiet env dir \<Longrightarrow> syncDirectory env n = None" "quiet env dir \<Longrightarrow> sync_parents env n ps = None"
  by (simp add: quiet_def syncDirectory_def) (induction ps arbitrary: n, simp_all add: quiet_def syncDirectory_def)

lemma pristine_zero: "pristine (zero_Journal\<lparr>jn_lock := l\<rparr>)"
  by (simp add: pristine_def zero_Journal_def)

lemma Open_quiet:
  assumes "quiet env dir"
  obtains n where "Open h env dir =
    (let j = zero_Journal\<lparr>jn_lock := Some (oe_lock_close env)\<rparr> in
       case oe_create env of
         CreateFailed e \<Rightarrow> open_fail e j
       | AlreadyExists \<Rightarrow> (case oe_open env of Inl e \<Rightarrow> open_fail e j | Inr f \<Rightarrow> open_log h j f)
       | Created f \<Rightarrow>
           (case write_header h env n f of
              (f1, Some e) \<Rightarrow> open_fail e (j\<lparr>jn_file := Some f1\<rparr>)
            | (f1, None) \<Rightarrow> open_log h j f1))"
proof -
  obtain missing where m: "missing_dirs (oe_stat env) dir = Inr missing"
    using assms by (auto simp: quiet_def is_ok_iff)
  have l: "lockDirectory env = Inr (oe_lock_close env)" "oe_mkdir env = None"
    using assms by (simp_all add: quiet_def lockDirectory_def)
  show thesis
    by (rule that [of "length missing"]) (simp add: Open_def m l quiet_sync(2) [OF assms] Let_def)
qed

definition log_ok :: "host \<Rightarrow> bytes \<Rightarrow> Commit list \<Rightarrow> bool" where
  "log_ok h store cs =
     (length store = 16 \<and> list_all (entry_ok h) cs \<and> is_ok (replay h (fresh_snapshot (hex_encode store)) cs) \<and>
      distinct (map rc_Key (receipts_in cs)))"

lemma open_log_recovers:
  assumes "host_ok h" "host_text_ok h" and "pristine j" and "calm f" and "log_ok h store cs"
    and "f_bytes f = log_bytes h store cs @ tail" and "tail = [] \<or> torn h tail" and "length (f_bytes f) \<le> HardBytes"
  shows "\<exists>j'. open_log h j f = (j', None) \<and> represents h store j' cs \<and> jn_tail j' = length tail \<and>
    (\<exists>f'. jn_file j' = Some f' \<and> calm f')"
proof -
  obtain s where "replay h (fresh_snapshot (hex_encode store)) cs = Inr s"
    using assms(5) by (auto simp: log_ok_def is_ok_iff)
  with assms show ?thesis by (intro open_log_ok) (simp_all add: log_ok_def)
qed

lemma represents_log_ok: "represents h store j cs \<Longrightarrow> log_ok h store cs"
  by (auto simp: represents_def log_ok_def is_ok_iff)

lemma Open_existing:
  assumes h: "host_ok h" "host_text_ok h" and q: "quiet env dir" and e: "oe_create env = AlreadyExists" "oe_open env = Inr f"
    and f: "calm f" "f_bytes f = log_bytes h store cs @ tail" "length (f_bytes f) \<le> HardBytes"
    and l: "log_ok h store cs" and t: "tail = [] \<or> torn h tail"
  shows "\<exists>j. Open h env dir = (j, None) \<and> represents h store j cs \<and> jn_tail j = length tail \<and>
    (\<exists>f'. jn_file j = Some f' \<and> calm f')"
proof -
  let ?j = "zero_Journal\<lparr>jn_lock := Some (oe_lock_close env)\<rparr>"
  have "Open h env dir = open_log h ?j f"
    by (rule Open_quiet [OF q, of h]) (simp add: e Let_def)
  with open_log_recovers [OF h pristine_zero f(1) l f(2) t f(3)] show ?thesis by fastforce
qed

lemma log_ok_Nil: "length store = 16 \<Longrightarrow> log_ok h store []"
  by (simp add: log_ok_def)

lemma Open_creates:
  assumes h: "host_ok h" "host_text_ok h" and q: "quiet env dir" and e: "oe_create env = Created f" "oe_rand env = Inr store"
    and f: "calm f" "f_bytes f = []" "f_pos f = 0" and s: "length store = 16"
  shows "\<exists>j. Open h env dir = (j, None) \<and> represents h store j []"
proof -
  let ?j = "zero_Journal\<lparr>jn_lock := Some (oe_lock_close env)\<rparr>"
  obtain n where o': "Open h env dir = (case write_header h env n f of
          (f1, Some e) \<Rightarrow> open_fail e (?j\<lparr>jn_file := Some f1\<rparr>)
        | (f1, None) \<Rightarrow> open_log h ?j f1)"
    by (rule Open_quiet [OF q, of h]) (simp add: e(1) Let_def)
  obtain f1 where w: "write_header h env n f = (f1, None)" "f_bytes f1 = log_bytes h store [] @ []" "calm f1"
    using write_header_ok [OF f e(2) quiet_sync(1) [OF q], of h n] by auto
  have "length (f_bytes f1) \<le> HardBytes"
    using length_journal_header [OF h(1) s] by (simp add: w(2) log_bytes_def HeaderSize_def HardBytes_def)
  from open_log_recovers [OF h pristine_zero w(3) log_ok_Nil [OF s] w(2) _ this, of "Some (oe_lock_close env)"]
  show ?thesis unfolding o' w(1) by fastforce
qed

subsection \<open>Appends and restarts\<close>

lemma write_sync_prefix:
  assumes "at_end f" and "write_sync b f = (f', r)"
  shows "\<exists>k\<le>length b. f_bytes f' = f_bytes f @ take k b \<and> (r = None \<longrightarrow> k = length b)"
proof -
  obtain f1 r1 where w: "writeFull b f = (f1, r1)" by fastforce
  then show ?thesis
    using assms(2) writeFull_prefix [OF assms(1) w]
    by (cases r1) (auto simp: write_sync_def file_Sync_def)
qed

lemma write_sync_calm: "calm f \<Longrightarrow> at_end f \<Longrightarrow> \<exists>f'. write_sync b f = (f', None) \<and> calm f'"
proof -
  assume f: "calm f" "at_end f"
  obtain f1 r where w: "writeFull b f = (f1, r)" by fastforce
  with writeFull_calm [OF f(1), of b] writeFull_prefix [OF f(2) w] f(1) have "r = None" "calm f1"
    by (auto simp: calm_def)
  with w show ?thesis by (auto simp: write_sync_def file_Sync_def calm_def io_now_def io_err_def)
qed

text \<open>An append that fits and meets no I/O error succeeds.\<close>

lemma Append_succeeds:
  assumes r: "represents h store j cs" and f: "jn_file j = Some f" "calm f"
    and b: "marshal_commit h c = Some b" "length b \<le> MaxCommitBytes"
    and n: "ApplyCommit h (rv_Snapshot (jn_state j)) c = Inr next" and d: "\<not> duplicate (rv_Receipts (jn_state j)) (cm_Receipt c)"
    and fit: "cm_Receipt c \<noteq> None \<longrightarrow> jn_size j + FrameSize + length b \<le> jn_admission j"
      "jn_size j + FrameSize + length b + TerminalReserve h next \<le> jn_hard j"
  shows "\<exists>j' f'. Append h j None c = (j', None) \<and> jn_file j' = Some f' \<and> calm f'"
proof -
  have "at_end f" using r f(1) by (auto simp: represents_def)
  then obtain f1 where w: "write_sync (frame h b) f = (f1, None)" "calm f1" using write_sync_calm [OF f(2)] by blast
  have "\<not> length b > MaxCommitBytes" "\<not> (cm_Receipt c \<noteq> None \<and> jn_size j + FrameSize + length b > jn_admission j \<or>
      jn_size j + FrameSize + length b + TerminalReserve h next > jn_hard j)" using b(2) fit by auto
  then show ?thesis
    by (simp only: Append_def Let_def represents_check [OF r] b(1) n f(1) w(1) d if_False option.case sum.case prod.case) (simp add: w(2))
qed

text \<open>What \<open>Append\<close> leaves in the file: the log, and then a prefix of the new frame.\<close>

lemma Append_file:
  assumes h: "host_ok h" and r: "represents h store j cs" and c: "commit_canon c" and a: "Append h j None c = (j', x)"
    and f': "jn_file j' = Some f'"
  shows "f_bytes f' = log_bytes h store cs \<and> x \<noteq> None \<or>
    (\<exists>k\<le>length (frame_of h c). f_bytes f' = log_bytes h store cs @ take k (frame_of h c) \<and>
      (x = None \<longrightarrow> k = length (frame_of h c)) \<and> log_ok h store (cs @ [c]) \<and>
      length (log_bytes h store (cs @ [c])) \<le> HardBytes)"
proof -
  obtain f s where f: "jn_file j = Some f" "jn_poisoned j = None" "\<not> jn_closed j" "length store = 16"
    "f_bytes f = log_bytes h store cs" "at_end f" "jn_size j = length (f_bytes f)" "list_all (entry_ok h) cs"
    "replay h (fresh_snapshot (hex_encode store)) cs = Inr s" "distinct (map rc_Key (receipts_in cs))"
    "jn_state j = \<lparr>rv_Snapshot = s, rv_Receipts = receipts_in cs\<rparr>" "jn_records j = records_at h HeaderSize cs"
    "jn_hard j = HardBytes" using r by (rule representsE)
  note a' = a [unfolded Append_def, simplified represents_check [OF r] f(1,11) Let_def, simplified]
  show ?thesis
  proof (cases "j' = j \<and> x \<noteq> None")
    case True
    with f' f(1,5) show ?thesis by simp
  next
    case False
    then obtain b "next" f1 x1 where b: "marshal_commit h c = Some b" "length b \<le> MaxCommitBytes"
      and n: "ApplyCommit h s c = Inr next" and d: "\<not> duplicate (receipts_in cs) (cm_Receipt c)"
      and hard: "jn_size j + FrameSize + length b + TerminalReserve h next \<le> jn_hard j"
      and w: "write_sync (frame h b) f = (f1, x1)" and x: "x = None \<longleftrightarrow> x1 = None" and j': "jn_file j' = Some f1"
      using a' by (auto split: option.splits sum.splits if_splits prod.splits)
    have bt: "frame h b = frame_of h c" "b = commit_text h c"
      using b(1) by (auto simp: marshal_commit_def commit_text_def frame_of_def split: if_splits)
    have "entry_ok h c" using c b bt by (simp add: entry_ok_def)
    moreover have "distinct (map rc_Key (receipts_in (cs @ [c])))"
      using f(10) d by (cases "cm_Receipt c") (auto simp: receipt_list_def duplicate_def)
    ultimately have "log_ok h store (cs @ [c])" using f(4,8,9) n by (simp add: log_ok_def replay_snoc)
    moreover have "length (log_bytes h store (cs @ [c])) \<le> HardBytes"
      using hard f(5,7,13) h by (simp add: frame_of_def length_frame bt(2))
    ultimately show ?thesis
      using write_sync_prefix [OF f(6) w] f' j' x f(5) bt(1) by auto
  qed
qed

lemma torn_frame: "entry_ok h c \<Longrightarrow> k < length (frame_of h c) \<Longrightarrow> torn h (take k (frame_of h c))"
  using commit_text_nonempty by (auto simp: torn_def frame_of_def entry_ok_def)

lemma Append_reopen:
  assumes h: "host_ok h" "host_text_ok h" and r: "represents h store j cs" and c: "commit_canon c"
    and a: "Append h j None c = (j', x)" and f': "jn_file j' = Some f'"
    and g: "calm g" "f_bytes g = f_bytes f'" and j0: "pristine j0"
  shows "\<exists>j1 cs'. open_log h j0 g = (j1, None) \<and> represents h store j1 cs' \<and>
    (cs' = cs @ [c] \<or> cs' = cs \<and> x \<noteq> None)"
proof -
  have sz: "length (log_bytes h store cs) \<le> HardBytes" using r by (auto simp: represents_def)
  have old: "\<exists>j1. open_log h j0 g = (j1, None) \<and> represents h store j1 cs"
    if "f_bytes g = log_bytes h store cs @ tail" "tail = [] \<or> torn h tail" "length (f_bytes g) \<le> HardBytes" for tail
    using open_log_recovers [OF h j0 g(1) represents_log_ok [OF r] that] by blast
  from Append_file [OF h(1) r c a f'] show ?thesis
  proof (elim disjE exE conjE)
    assume "f_bytes f' = log_bytes h store cs" "x \<noteq> None"
    with old [of "[]"] g(2) sz show ?thesis by auto
  next
    fix k
    assume k: "k \<le> length (frame_of h c)" "f_bytes f' = log_bytes h store cs @ take k (frame_of h c)"
      "x = None \<longrightarrow> k = length (frame_of h c)" "log_ok h store (cs @ [c])"
      "length (log_bytes h store (cs @ [c])) \<le> HardBytes"
    show ?thesis
    proof (cases "k = length (frame_of h c)")
      case True
      with k g(2) have "f_bytes g = log_bytes h store (cs @ [c]) @ []" "length (f_bytes g) \<le> HardBytes" by simp_all
      with open_log_recovers [OF h j0 g(1) k(4)] show ?thesis by blast
    next
      case False
      with k(1) have "k < length (frame_of h c)" by simp
      moreover have "entry_ok h c" using k(4) by (simp add: log_ok_def)
      ultimately have "torn h (take k (frame_of h c))" by (intro torn_frame)
      with old [of "take k (frame_of h c)"] k g(2) False show ?thesis by auto
    qed
  qed
qed

end
