(* ===== verification/Progress.thy ===== *)
theory Progress
  imports Outcomes
begin

text \<open>
  Work is never left waiting: in every reachable state of a worker that is healthy, not paused
  and not stopping, a pending job implies a running one. The state \<open>idle\<close>, in which \<open>dispatch\<close>
  has nothing to do, is kept by every step.
\<close>

subsection \<open>The queue a commit leaves\<close>

lemma fold_queue_last:
  assumes "fold_result (apply_event h) (s, a) (es @ [e]) = Inr (s', a')" and "ev_Kind e = EventQueueState" "ev_Queue e = Some q"
  shows "sn_Queue s' = clone_queue q"
  using assms(1)
proof (induction es arbitrary: s a)
  case Nil
  then have "apply_event h (s, a) e = Inr (s', a')" by (auto split: sum.splits)
  then show ?case by (rule apply_event_effect) (use assms(2,3) in \<open>auto elim: effect.cases\<close>)
qed (auto split: sum.splits)

lemma stamp_payloads:
  "stamp h store n t es = (Some es', t') \<Longrightarrow>
   map ev_Kind es' = map ev_Kind es \<and> map ev_Queue es' = map ev_Queue es"
  by (induction h store n t es arbitrary: es' rule: stamp.induct) (auto split: if_splits option.splits prod.splits)

lemma publish_keeps:
  "w_state (publish h es w) = w_state w" "w_stopping (publish h es w) = w_stopping w" "w_fatal (publish h es w) = w_fatal w"
  "w_panicked (publish h es w) = w_panicked w"
  by (induction es arbitrary: w) (simp_all add: publish_def publish_event_def split: prod.split)

lemma commit_keeps:
  assumes "commit h ops es r w = (w1, x)"
  shows "w_stopping w1 = w_stopping w" and "w_fatal w \<noteq> None \<Longrightarrow> w_fatal w1 \<noteq> None"
    and "x \<noteq> None \<Longrightarrow> w_state w1 = w_state w"
  using assms
  by (auto simp: commit_def append_failed_def panic_def Let_def publish_keeps
      split: prod.splits option.splits sum.splits goerr.splits if_splits)

lemma commit_queue_last:
  assumes "commit h ops (es @ [queueEvent q]) r w = (w1, None)"
  shows "sn_Queue (w_state w1) = clone_queue q"
proof -
  obtain es' t where s: "stamp h (cu_StoreID (sn_Cursor (w_state w))) (cu_Sequence (sn_Cursor (w_state w))) (w_ticks w)
      (es @ [queueEvent q]) = (Some es', t)"
    using assms by (auto simp: commit_def split: prod.splits option.splits)
  from stamp_payloads [OF this] obtain es1 e where es: "es' = es1 @ [e]" and e: "ev_Kind e = EventQueueState" "ev_Queue e = Some q"
    by (auto simp: map_eq_append_conv queueEvent_def)
  obtain s' where a: "ApplyCommit h (w_state w) \<lparr>cm_Version = 1, cm_Events = es', cm_Receipt = r\<rparr> = Inr s'"
    and w1: "w_state w1 = s'"
    using assms s
    by (auto simp: commit_def Let_def publish_keeps split: sum.splits goerr.splits prod.splits option.splits)
  from a show ?thesis by (rule ApplyCommit_fold) (use fold_queue_last e es w1 in auto)
qed

subsection \<open>Dispatch leaves nothing to do\<close>

lemma idleI:
  "w_stopping w \<Longrightarrow> idle w" "w_fatal w \<noteq> None \<Longrightarrow> idle w" "qs_Active (sn_Queue (w_state w)) \<noteq> None \<Longrightarrow> idle w"
  by (simp_all add: idle_def)

lemma idle_mono:
  assumes "idle w" and "sn_Queue (w_state w') = sn_Queue (w_state w)" and "w_stopping w \<longrightarrow> w_stopping w'"
    and "w_fatal w \<noteq> None \<longrightarrow> w_fatal w' \<noteq> None"
  shows "idle w'"
  using assms by (auto simp: idle_def)

lemma dispatch_idle: "w_panicked (dispatch h ops w) \<or> idle (dispatch h ops w)"
proof (cases "idle w \<or> clone_of w (hd (pending_ids (sn_Queue (w_state w)))) = None")
  case True
  then show ?thesis by (auto simp: dispatch_def panic_def)
next
  case False
  then obtain j0 where j0: "clone_of w (hd (pending_ids (sn_Queue (w_state w)))) = Some j0" by blast
  define j where "j = j0\<lparr>jb_State := JobRunning, jb_StartedAt := Some (h_now h (w_ticks w))\<rparr>"
  define q where "q = (clone_queue (sn_Queue (w_state w)))\<lparr>qs_Pending := Some (tl (pending_ids (clone_queue (sn_Queue (w_state w))))),
    qs_Active := Some (jb_ID j)\<rparr>"
  obtain w1 x where c: "commit h ops ([jobEvent EventJobState j] @ [queueEvent q]) None (w\<lparr>w_ticks := Suc (w_ticks w)\<rparr>) = (w1, x)"
    by fastforce
  have d: "dispatch h ops w = (case (w1, x) of
      (w1, Some err) \<Rightarrow> if w_panicked w1 then w1 else poison err w1
    | (w1, None) \<Rightarrow> w1\<lparr>w_cancel := True, w_ctxdone := False, w_outputErr := None,
        w_gens := w_gens w1 @ [(jb_ID j, \<lparr>ii_Request = clone_request (jb_Request j),
          ii_Instructions = clone_instructions (jb_Instructions j)\<rparr>)]\<rparr>)"
    using False j0 c by (simp add: dispatch_def j_def q_def Let_def)
  show ?thesis
  proof (cases x)
    case None
    then have "qs_Active (sn_Queue (w_state w1)) \<noteq> None"
      using commit_queue_last [OF c [unfolded None]] by (simp add: q_def clone_queue_def)
    with d None show ?thesis by (simp add: idle_def)
  qed (use d in \<open>auto simp: idle_def\<close>)
qed

subsection \<open>Every step leaves nothing to do\<close>

lemma create_dispatches:
  "create h ops ctx op key origin parent r w = (w', Inr j) \<Longrightarrow> w' = w \<or> (\<exists>w2. w' = dispatch h ops w2)"
  by (auto simp: create_def admit_def Let_def split: option.splits if_splits sum.splits prod.splits goerr.splits)

lemma setQueuePaused_dispatches:
  "setQueuePaused h ops ctx paused w = (w', Inr q) \<Longrightarrow> \<exists>w2. w' = dispatch h ops w2"
  by (auto simp: setQueuePaused_def Let_def split: option.splits if_splits prod.splits)

lemma unavailable:
  assumes "available w \<noteq> None"
  shows "create h ops ctx op key origin parent r w = (w', res) \<Longrightarrow> w' = w"
    and "setQueuePaused h ops ctx paused w = (w', res') \<Longrightarrow> w' = w"
    and "cancelJob h ops ctx i w = (w', res'') \<Longrightarrow> w' = w"
  using assms by (auto simp: create_def setQueuePaused_def cancelJob_def split: option.splits)

lemma Next_keeps:
  assumes "Next ops nc i w = (w', r)"
  shows "w_stopping w' = w_stopping w" and "w_fatal w \<noteq> None \<Longrightarrow> w_fatal w' \<noteq> None"
  using assms
  by (auto simp: Next_def Next_replay_def poison_unless_stopping_def Let_def
      split: option.splits if_splits prod.splits sum.splits list.splits)

lemma emit_fatal: "w_fatal w = Some e \<Longrightarrow> emit h ops i xs w = (w', r) \<Longrightarrow> w' = w"
  by (simp add: emit_def)

context store_contract
begin

lemma idle_state:
  assumes "idle w" and "available w = None" and "w_state w' = w_state w"
  shows "idle w'"
  using assms by (auto simp: idle_def available_def split: option.splits if_splits)

lemma dispatched_idle: "winv w' \<Longrightarrow> w' = dispatch h ops w2 \<Longrightarrow> idle w'"
  using dispatch_idle [of h ops w2] by (auto simp: winv_def base_inv_def)

lemma create_idle:
  assumes "winv w" "idle w" and "operation op parent" and c: "create h ops ctx op key origin parent r w = (w', res)"
  shows "idle w'"
proof (cases "available w = None")
  case True
  note ok = create_ok [OF assms(1,3) c]
  show ?thesis
  proof (cases res)
    case (Inl e)
    with ok show ?thesis by (intro idle_state [OF assms(2) True]) (simp add: unchanged_def)
  next
    case (Inr j)
    with create_dispatches c assms(2) ok show ?thesis using dispatched_idle by blast
  qed
qed (use unavailable(1) [OF _ c] assms(2) in auto)

lemma cancelled_queue_idle:
  assumes "idle w" "available w = None"
    and "sn_Queue (w_state w') = cancelled_queue p (sn_Queue (w_state w))"
  shows "idle w'"
  using assms
  by (auto simp: idle_def available_def cancelled_queue_def pending_ids_def split: option.splits if_splits)

lemma cancelJob_idle:
  assumes "winv w" "idle w" and c: "cancelJob h ops ctx i w = (w', res)"
  shows "idle w'"
proof (cases "available w = None")
  case True
  note ok = cancelJob_ok [OF assms(1) c, THEN conjunct2, THEN conjunct2, THEN conjunct2]
  show ?thesis
  proof (cases res)
    case (Inl e)
    with ok show ?thesis by (intro idle_state [OF assms(2) True]) simp
  next
    case (Inr j)
    with ok obtain p n where "w' = w \<or> w_state w' = updated (w_state w) n j (cancelled_queue p (sn_Queue (w_state w)))"
      by (auto split: if_splits)
    then show ?thesis using assms(2) cancelled_queue_idle [OF assms(2) True, of w' p] by (auto simp: updated_def)
  qed
qed (use unavailable(3) [OF _ c] assms(2) in auto)

lemma setQueuePaused_idle:
  assumes "winv w" "idle w" and c: "setQueuePaused h ops ctx b w = (w', res)"
  shows "idle w'"
proof (cases "available w = None")
  case True
  note ok = setQueuePaused_ok [OF assms(1) c]
  show ?thesis
  proof (cases res)
    case (Inl e)
    with ok show ?thesis by (intro idle_state [OF assms(2) True]) simp
  next
    case (Inr q)
    with setQueuePaused_dispatches c ok show ?thesis using dispatched_idle by blast
  qed
qed (use unavailable(2) [OF _ c] assms(2) in auto)

lemma emit_idle:
  assumes "winv w" "idle w" and g: "(i, inp) \<in> set (w_gens w)" and c: "emit h ops i xs w = (w', res)"
  shows "idle w'"
proof (cases "w_fatal w")
  case None
  have "w_gens w = [(i, inp)]" using assms(1) g by (cases "w_gens w") (auto simp: winv_def run_inv_def)
  from emit_ok [OF assms(1) this c] have "sn_Queue (w_state w') = sn_Queue (w_state w)" "w_stopping w' = w_stopping w"
    by (auto simp: grown_def)
  with assms(2) None show ?thesis by (intro idle_mono [OF assms(2)]) auto
qed (use emit_fatal [OF _ c] assms(2) in auto)

lemma complete_idle:
  assumes "winv (complete h ops i result be w)"
  shows "idle (complete h ops i result be w)"
proof -
  obtain w2 where c: "complete h ops i result be w =
      (if w_panicked w2 then w2 else if w_stopping w2 then closeStore ops w2 else dispatch h ops w2)"
    unfolding complete_def Let_def by blast
  have np: "\<not> w_panicked (complete h ops i result be w)" using assms by (simp add: winv_def base_inv_def)
  then have p: "\<not> w_panicked w2" unfolding c by (cases "w_panicked w2") simp_all
  show ?thesis
  proof (cases "w_stopping w2")
    case True
    then have "w_stopping (complete h ops i result be w)" using p by (simp add: c closeStore_simps)
    then show ?thesis by (rule idleI(1))
  next
    case False
    then have "complete h ops i result be w = dispatch h ops w2" using p by (simp add: c)
    with np dispatch_idle [of h ops w2] show ?thesis by simp
  qed
qed

lemma call_idle: "call cc f w = (w', r) \<Longrightarrow> idle w \<Longrightarrow> (\<And>ctx w1 r1. f ctx w = (w1, r1) \<Longrightarrow> idle w1) \<Longrightarrow> idle w'"
  by (rule call_preserves [where P = idle])

lemma wstep_idle: "wstep h ops w w' \<Longrightarrow> winv w \<Longrightarrow> idle w \<Longrightarrow> idle w'"
proof (induction rule: wstep.induct)
  case (submits cc sc w w' r)
  have o': "operation ''submit'' []" by (simp add: operation_def)
  show ?case by (rule call_idle [OF submits(1) [unfolded Submit_def] submits(3)]) (erule create_idle [OF submits(2,3) o'])
next
  case (retries cc rt w w' r)
  have o': "operation ''retry'' (rt_ParentID rt)" by (simp add: operation_def)
  show ?case by (rule call_idle [OF retries(1) [unfolded Retry_def] retries(3)]) (erule create_idle [OF retries(2,3) o'])
next
  case (branches cc bc w w' r)
  have o': "operation ''branch'' (bc_ParentID bc)" by (simp add: operation_def)
  show ?case by (rule call_idle [OF branches(1) [unfolded Branch_def] branches(3)]) (erule create_idle [OF branches(2,3) o'])
next
  case (cancels cc i w w' r)
  show ?case by (rule call_idle [OF cancels(1) [unfolded Cancel_def] cancels(3)]) (erule cancelJob_idle [OF cancels(2,3)])
next
  case (pauses cc b w w' q)
  show ?case by (rule call_idle [OF pauses(1) [unfolded SetQueuePaused_def] pauses(3)]) (erule setQueuePaused_idle [OF pauses(2,3)])
next
  case (emits i inp w xs w' e)
  show ?case using emit_idle [OF emits(3,4,1,2)] .
next
  case (completes i inp w result be)
  have "winv (complete h ops i result be w)"
    using completes(2) wstep.completes [OF completes(1), of h ops result be] by (rule wstep_inv [rotated])
  then show ?case by (rule complete_idle)
next
  case (shuts w)
  show ?case by (auto simp: Shutdown_def Let_def closeStore_simps idle_def)
next
  case (watches cc c w w' s)
  show ?case by (rule call_idle [OF watches(1) [unfolded Watch_def] watches(3)]) (use watches(3) in \<open>auto simp: watch_def idle_def split: option.splits\<close>)
next
  case (reads k w nc w' ev)
  have "w_state w' = w_state w" using Next_ok [OF reads(3,1,2)] by blast
  with Next_keeps [OF reads(2)] show ?case by (intro idle_mono [OF reads(4)]) auto
next
  case (closes k w)
  then show ?case by (simp add: Close_def idle_def)
qed

lemma reachable_idle:
  assumes "st_ok st" and "reachable h ops st w"
  shows "idle w"
  using assms(2)
proof (induction rule: reachable.induct)
  case (starts st' w)
  then obtain w1 where "w = dispatch h ops w1" "\<not> w_panicked w"
    by (auto simp: NewWorker_def Let_def split: prod.splits sum.splits option.splits if_splits)
  then show ?case using dispatch_idle by blast
next
  case (steps w w')
  then show ?case using wstep_idle reachable_inv [OF _ assms(1)] by blast
qed

end

end
