(* ===== verification/Runtime.thy ===== *)
theory Runtime
  imports Journal_Open Progress
begin

text \<open>
  The worker on its journal. \<open>running h w\<close> says that \<open>w\<close> was started by \<open>NewWorker\<close> on an open
  journal and has taken any number of steps; the lemmas carry the worker's contract, proved
  for every store, over to such configurations and join it with the recovery of the file.
\<close>

definition healthy :: "Journal Worker \<Rightarrow> bool" where
  "healthy w = (w_fatal w = None \<and> \<not> w_closed w \<and> jn_poisoned (w_store w) = None)"

context runtime
begin

lemma running_journal:
  assumes "running h w" and "healthy w"
  obtains store cs where "represents h store (w_store w) cs" "rv_Snapshot (jn_state (w_store w)) = w_state w"
    "receipt_map (rv_Receipts (jn_state (w_store w))) = w_receipts w"
proof -
  have "\<not> journal_dead (w_store w)" using assms(2) by (simp add: healthy_def journal_dead_def)
  with running_durable [OF assms(1)] assms(2) show thesis
    by (auto simp: healthy_def journal_ok_def intro: that)
qed

text \<open>Opening a copy of the worker's file gives a journal that recovers the worker's memory.\<close>

lemma running_reopens:
  assumes r: "running h w" "healthy w" and f: "jn_file (w_store w) = Some f"
    and q: "quiet env dir" "oe_create env = AlreadyExists" "oe_open env = Inr g" "calm g"
    and tail: "f_bytes g = f_bytes f @ tail" "tail = [] \<or> torn h tail" "length (f_bytes g) \<le> HardBytes"
  shows "\<exists>j. Open h env dir = (j, None) \<and> journal_ok h j \<and> jn_tail j = length tail \<and>
    rv_Snapshot (jn_state j) = w_state w \<and> receipt_map (rv_Receipts (jn_state j)) = w_receipts w"
proof -
  obtain store cs where c: "represents h store (w_store w) cs" "rv_Snapshot (jn_state (w_store w)) = w_state w"
    "receipt_map (rv_Receipts (jn_state (w_store w))) = w_receipts w" using r by (rule running_journal)
  have fb: "f_bytes g = log_bytes h store cs @ tail" using c(1) f tail(1) by (auto simp: represents_def)
  from Open_existing [OF host texts q fb tail(3) represents_log_ok [OF c(1)] tail(2)]
  obtain j where "Open h env dir = (j, None)" and j: "represents h store j cs" and "jn_tail j = length tail" by blast
  moreover have "jn_state j = jn_state (w_store w)"
    using represents_state(4,5) [OF c(1)] represents_state(4,5) [OF j]
    by (cases "jn_state j"; cases "jn_state (w_store w)") simp
  ultimately show ?thesis using c(2,3) by (auto simp: journal_ok_def)
qed

lemma running_new:
  assumes "journal_ok h j" and "NewWorker h (journal_ops h) j = (st, Inr w)"
  shows "running h w \<and> w_fatal w = None \<and> w_receipts w = receipt_map (rv_Receipts (jn_state j)) \<and>
    (\<forall>b\<in>set (sn_Jobs (rv_Snapshot (jn_state j))). \<exists>b'. find_job (sn_Jobs (w_state w)) (jb_ID b) = Some b' \<and>
      (if is_active b then \<exists>t. b' = interrupted t b else b' = b \<or> (\<exists>t. b' = start_job t b)))"
  using store.NewWorker_ok [OF assms] starts [OF assms(2)] assms(1) by (auto simp: running_def)

lemma running_emit:
  assumes "running h w" and "w_gens w = [(i, inp)]" and "emit h (journal_ops h) i xs w = (w', r)"
  shows "running h w' \<and> (\<exists>p q. xs = p @ q \<and> grown i p (w_state w) (w_state w') \<and> (r = None \<longrightarrow> q = []))"
proof -
  have "running h w'" using assms(1) by (rule running_step) (rule emits [of i inp], use assms in simp_all)
  with store.emit_ok [OF running_inv [OF assms(1)] assms(2,3)] show ?thesis by blast
qed

lemma running_idle: "running h w \<Longrightarrow> idle w"
  using store.reachable_idle by (auto simp: running_def)

lemmas running_complete = store.complete_job [OF running_inv]
lemmas running_shutdown = store.Shutdown_closes [OF running_inv]
lemmas running_completes = store.complete_closes [OF running_inv]
lemmas running_cancel = store.cancelJob_ok [OF running_inv, THEN conjunct2, THEN conjunct2]
lemmas running_pause = store.setQueuePaused_ok [OF running_inv, THEN conjunct2]
lemmas running_next = store.Next_ok [OF running_inv, THEN conjunct2]
lemmas running_create = store.create_ok [OF running_inv, THEN conjunct2]

end

end
