(* ===== verification/Samples.thy ===== *)
theory Samples
  imports Runtime "HOL-Library.Code_Target_Nat"
begin

text \<open>
  Concrete inputs on which the properties are exercised: a host with a ticking clock, one
  request, the commit that accepts it into a fresh store, the snapshot after it, and a whole
  run: a journal created in an empty directory, a worker started on it and a submitted job.
\<close>

definition sample_host :: host where
  "sample_host = \<lparr>h_now = (\<lambda>n. 100 + int (n mod 1000)),
     h_rand = (\<lambda>n. Some (replicate 15 CHR ''A'' @ [char_of (n mod 256)])),
     h_sha = (\<lambda>b. replicate 32 (char_of (0::nat))),
     h_float = (\<lambda>x. dec_nat (unat x)), h_time = (\<lambda>t. dec_int t),
     h_unfloat = parse_sequence, h_untime = parse_int\<rparr>"

definition sample_request :: Request where
  "sample_request = \<lparr>rq_Model = ''m'', rq_Role = [], rq_SystemPrompt = [], rq_Prompt = ''hi'',
     rq_Options = \<lparr>op_ContextTokens = None, op_MaxOutputTokens = 16, op_Temperature = None,
       op_Seed = None\<rparr>\<rparr>"

definition sample_job :: "JobID \<Rightarrow> Job" where
  "sample_job i = \<lparr>jb_ID = i, jb_State = JobQueued, jb_Request = sample_request,
     jb_Instructions = \<lparr>in_System = [], in_History = [], in_Prompt = ''hi''\<rparr>, jb_Origin = [],
     jb_Lineage = None, jb_CreatedAt = 100, jb_StartedAt = None,
     jb_FinishedAt = None, jb_Result = zero_Result, jb_Error = None\<rparr>"

definition sample_store :: bytes where
  "sample_store = replicate 16 CHR ''A''"

definition sample_cursor :: "nat \<Rightarrow> Cursor" where
  "sample_cursor n = \<lparr>cu_StoreID = hex_encode sample_store, cu_Sequence = of_nat n\<rparr>"

definition sample_accept :: Event where
  "sample_accept = \<lparr>ev_Cursor = sample_cursor 1, ev_At = 101,
     ev_Kind = EventJobAccepted, ev_JobID = ''a'', ev_Job = Some (sample_job ''a''),
     ev_Output = None, ev_Queue = None\<rparr>"

definition sample_queue :: QueueState where
  "sample_queue = \<lparr>qs_Paused = False, qs_Pending = Some [''a''], qs_Active = None,
     qs_MaxPending = 64\<rparr>"

definition sample_enqueue :: Event where
  "sample_enqueue = \<lparr>ev_Cursor = sample_cursor 2, ev_At = 102,
     ev_Kind = EventQueueState, ev_JobID = [], ev_Job = None, ev_Output = None,
     ev_Queue = Some sample_queue\<rparr>"

definition sample_commit :: Commit where
  "sample_commit = \<lparr>cm_Version = 1, cm_Events = [sample_accept, sample_enqueue],
     cm_Receipt = Some \<lparr>rc_Key = ''k'', rc_Digest = replicate 64 CHR ''0'', rc_JobID = ''a''\<rparr>\<rparr>"

definition sample_snapshot :: Snapshot where
  "sample_snapshot = \<lparr>sn_Cursor = sample_cursor 2, sn_Queue = sample_queue,
     sn_Jobs = [sample_job ''a'']\<rparr>"

text \<open>The commit that starts the job, and the snapshot while it runs.\<close>

definition sample_running_job :: Job where
  "sample_running_job = (sample_job ''a'')\<lparr>jb_State := JobRunning,
     jb_StartedAt := Some 100\<rparr>"

definition sample_busy_queue :: QueueState where
  "sample_busy_queue = \<lparr>qs_Paused = False, qs_Pending = Some [], qs_Active = Some ''a'',
     qs_MaxPending = 64\<rparr>"

definition sample_start :: Commit where
  "sample_start = \<lparr>cm_Version = 1, cm_Events =
     [\<lparr>ev_Cursor = sample_cursor 3, ev_At = 101, ev_Kind = EventJobState,
        ev_JobID = ''a'', ev_Job = Some sample_running_job, ev_Output = None, ev_Queue = None\<rparr>,
      \<lparr>ev_Cursor = sample_cursor 4, ev_At = 102, ev_Kind = EventQueueState,
        ev_JobID = [], ev_Job = None, ev_Output = None, ev_Queue = Some sample_busy_queue\<rparr>],
     cm_Receipt = None\<rparr>"

definition sample_running :: Snapshot where
  "sample_running = \<lparr>sn_Cursor = sample_cursor 4, sn_Queue = sample_busy_queue,
     sn_Jobs = [sample_running_job]\<rparr>"

lemma sample_apply: "ApplyCommit sample_host (fresh_snapshot (hex_encode sample_store)) sample_commit = Inr sample_snapshot"
  by code_simp

lemma sample_ids: "commit_ids_ok sample_commit"
  by code_simp

lemma sample_inv: "snap_inv sample_snapshot"
  by code_simp

theorem ApplyCommit_inv_witness:
  "snap_inv (fresh_snapshot (hex_encode sample_store)) \<and> commit_ids_ok sample_commit \<and>
   ApplyCommit sample_host (fresh_snapshot (hex_encode sample_store)) sample_commit = Inr sample_snapshot \<and>
   snap_inv sample_snapshot"
  using ApplyCommit_inv [OF snap_inv_fresh sample_ids sample_apply] snap_inv_fresh sample_ids
    sample_apply by simp

lemma sample_apply_start: "ApplyCommit sample_host sample_snapshot sample_start = Inr sample_running"
  by code_simp

lemma sample_start_ids: "commit_ids_ok sample_start"
  by code_simp

theorem ApplyCommit_history_witness:
  "snap_inv sample_snapshot \<and> commit_ids_ok sample_start \<and>
   ApplyCommit sample_host sample_snapshot sample_start = Inr sample_running \<and>
   jobs_le (sn_Jobs sample_snapshot) (sn_Jobs sample_running)"
  using ApplyCommit_history [OF sample_inv sample_start_ids sample_apply_start] sample_inv
    sample_start_ids sample_apply_start by simp

theorem ApplyCommit_cursor_witness:
  "ApplyCommit sample_host sample_snapshot sample_start = Inr sample_running \<and>
   unat (cu_Sequence (sn_Cursor sample_running)) = unat (cu_Sequence (sn_Cursor sample_snapshot)) + 2"
  using ApplyCommit_cursor [OF sample_apply_start] sample_apply_start
  by (simp add: sample_start_def)

theorem push_bounded_witness:
  "stream_inv (new_stream (sample_cursor 0) 0) \<and>
   push sample_accept 10 (new_stream (sample_cursor 0) 0) =
     (signal ((new_stream (sample_cursor 0) 0)\<lparr>st_queue := [(clone_event sample_accept, 10)], st_bytes := 10\<rparr>), True)"
  using push_bounded [OF stream_inv_new, of sample_accept 10 "sample_cursor 0" 0]
  by (simp add: new_stream_def MaxObserverEvents_def MaxObserverBytes_def stream_inv_def)

subsection \<open>A run\<close>

lemma sample_host_ok: "host_ok sample_host"
proof -
  have "int (n mod 1000) < 1000" for n by simp
  then have "time_encodable (100 + int (n mod 1000))" for n
    by (smt (verit) time_encodable_def of_nat_0_le_iff)
  then show ?thesis by (auto simp: host_ok_def sample_host_def)
qed

lemma dec_int_valid: "valid_utf8 (dec_int t)"
proof -
  have "list_all (\<lambda>c. byte c < 0x80) (dec_nat n)" for n
    using dec_nat_is_digit [of n] by (auto simp: list_all_iff is_digit_def)
  then show ?thesis by (auto simp: dec_int_def intro!: valid_utf8_ascii)
qed

lemma sample_host_text: "host_text_ok sample_host"
proof -
  have "dec_nat n = dec_int (int n)" for n by (simp add: dec_int_def)
  then have "num_token (dec_nat n)" for n by (metis dec_int_token)
  then show ?thesis
    by (simp add: host_text_ok_def sample_host_def parse_sequence_dec dec_int_valid)
qed

interpretation sample: runtime sample_host
  by unfold_locales (rule sample_host_ok, rule sample_host_text)

definition sample_file :: "bytes \<Rightarrow> File" where
  "sample_file b = \<lparr>f_bytes = b, f_pos = 0, f_calls = 0, f_env = (\<lambda>_. IoOk)\<rparr>"

definition sample_env :: "created \<Rightarrow> bytes \<Rightarrow> open_env" where
  "sample_env c b = \<lparr>oe_stat = (\<lambda>_. StatOk), oe_mkdir = None, oe_dir = (\<lambda>_. (None, None)), oe_lock_open = None,
     oe_flock = None, oe_lock_close = None, oe_create = c, oe_open = Inr (sample_file b), oe_rand = Inr sample_store\<rparr>"

lemma sample_quiet: "quiet (sample_env c b) [''data'']"
  by (simp add: quiet_def sample_env_def)

lemma sample_calm [simp]: "calm (sample_file b)"
  by (simp add: calm_def sample_file_def)

text \<open>The file after the first commit, and the journal that \<open>Open\<close> makes of it.\<close>

definition sample_log :: bytes where
  "sample_log = log_bytes sample_host sample_store [sample_commit]"

definition sample_journal :: Journal where
  "sample_journal = fst (Open sample_host (sample_env AlreadyExists sample_log) [''data''])"

subsection \<open>Sizes\<close>

text \<open>The size of a commit from the sizes of its parts, which are evaluated one by one.\<close>

definition opt_bound :: "('a \<Rightarrow> nat) \<Rightarrow> 'a option \<Rightarrow> nat" where
  "opt_bound f x = (case x of None \<Rightarrow> 0 | Some v \<Rightarrow> f v)"

lemma event_bound:
  "json_bound (event_json h e) \<le> 250 + json_bound (cursor_json (ev_Cursor e)) + json_bound (time_json h (ev_At e)) +
     6 * length (kind_str (ev_Kind e)) + 6 * length (ev_JobID e) + opt_bound (\<lambda>j. json_bound (job_json h j)) (ev_Job e) +
     opt_bound (\<lambda>d. json_bound (output_json d)) (ev_Output e) + opt_bound (\<lambda>q. json_bound (queue_json q)) (ev_Queue e)"
  by (simp add: event_json_def opt_field_def str_field_def opt_bound_def split: option.split)

lemma commit_bound:
  "json_bound (commit_json h c) \<le> 150 + length (dec_int (cm_Version c)) +
     sum_list (map (\<lambda>e. Suc (json_bound (event_json h e))) (cm_Events c)) +
     opt_bound (\<lambda>r. json_bound (receipt_json r)) (cm_Receipt c)"
  by (simp add: commit_json_def opt_field_def opt_bound_def comp_def split: option.split)

lemma sample_bounds:
  "json_bound (cursor_json (sample_cursor 1)) < 1000" "json_bound (cursor_json (sample_cursor 2)) < 1000"
  "json_bound (cursor_json (sample_cursor 3)) < 1000" "json_bound (cursor_json (sample_cursor 4)) < 1000"
  "json_bound (time_json sample_host 101) < 200" "json_bound (time_json sample_host 102) < 200"
  "json_bound (job_json sample_host (sample_job ''a'')) < 6000" "json_bound (job_json sample_host sample_running_job) < 6000"
  "json_bound (queue_json sample_queue) < 1000" "json_bound (queue_json sample_busy_queue) < 1000"
  "json_bound (receipt_json \<lparr>rc_Key = ''k'', rc_Digest = replicate 64 CHR ''0'', rc_JobID = ''a''\<rparr>) < 1000"
  "length (dec_int 1) < 10"
  by code_simp+

lemma sample_commit_small: "length (commit_text sample_host sample_commit) < 20000"
proof -
  have "json_bound (event_json sample_host sample_accept) < 8000"
    using event_bound [of sample_host sample_accept] sample_bounds
    by (simp add: sample_accept_def opt_bound_def)
  moreover have "json_bound (event_json sample_host sample_enqueue) < 4000"
    using event_bound [of sample_host sample_enqueue] sample_bounds
    by (simp add: sample_enqueue_def opt_bound_def)
  ultimately show ?thesis
    using commit_bound [of sample_host sample_commit] json_bound [of "commit_json sample_host sample_commit"] sample_bounds(11,12)
    by (simp add: commit_text_def sample_commit_def opt_bound_def)
qed

lemma sample_start_small: "length (commit_text sample_host sample_start) < 20000"
proof -
  have "json_bound (event_json sample_host (hd (cm_Events sample_start))) < 8000"
    using event_bound [of sample_host "hd (cm_Events sample_start)"] sample_bounds
    by (simp add: sample_start_def opt_bound_def)
  moreover have "json_bound (event_json sample_host (hd (tl (cm_Events sample_start)))) < 4000"
    using event_bound [of sample_host "hd (tl (cm_Events sample_start))"] sample_bounds
    by (simp add: sample_start_def opt_bound_def)
  ultimately show ?thesis
    using commit_bound [of sample_host sample_start] json_bound [of "commit_json sample_host sample_start"] sample_bounds(12)
    by (simp add: commit_text_def sample_start_def opt_bound_def)
qed

lemma sample_entry: "entry_ok sample_host sample_commit"
proof -
  have "commit_canon sample_commit" "list_all event_encodable (cm_Events sample_commit)" by code_simp+
  then show ?thesis
    using sample_commit_small by (simp add: entry_ok_def marshal_commit_def commit_text_def MaxCommitBytes_def)
qed

lemma sample_store_length: "length sample_store = 16"
  by (simp add: sample_store_def)

lemma sample_replay: "replay sample_host (fresh_snapshot (hex_encode sample_store)) [sample_commit] = Inr sample_snapshot"
  by (simp only: replay_Cons sample_apply sum.case log_simps)

lemma sample_log_ok: "log_ok sample_host sample_store [sample_commit]"
proof -
  have "distinct (map rc_Key (receipts_in [sample_commit]))" by code_simp
  then show ?thesis
    unfolding log_ok_def sample_replay using sample_entry
    by (simp only: sample_store_length list.pred_inject is_ok_simps simp_thms)
qed

lemma sample_log_length: "length sample_log < 20200"
proof -
  show ?thesis
    using sample_commit_small length_journal_header [OF sample_host_ok, of sample_store]
    by (simp add: sample_log_def log_bytes_def frame_of_def length_frame sample_host_ok sample_store_def
        HeaderSize_def FrameSize_def)
qed

lemma sample_open:
  "Open sample_host (sample_env AlreadyExists sample_log) [''data''] = (sample_journal, None)"
  "represents sample_host sample_store sample_journal [sample_commit]"
  "\<exists>f. jn_file sample_journal = Some f \<and> calm f"
proof -
  let ?env = "sample_env AlreadyExists sample_log"
  have e: "oe_create ?env = AlreadyExists" "oe_open ?env = Inr (sample_file sample_log)"
    by (simp_all only: sample_env_def open_env.simps)
  have f: "f_bytes (sample_file sample_log) = log_bytes sample_host sample_store [sample_commit] @ []"
    "length (f_bytes (sample_file sample_log)) \<le> HardBytes"
    using sample_log_length by (simp_all only: sample_file_def File.simps append_Nil2 sample_log_def [symmetric]) (simp add: HardBytes_def)
  from Open_existing [OF sample_host_ok sample_host_text sample_quiet e sample_calm f sample_log_ok disjI1 [OF refl]]
  obtain j where "Open sample_host ?env [''data''] = (j, None)" "represents sample_host sample_store j [sample_commit]"
    "\<exists>f. jn_file j = Some f \<and> calm f" by blast
  then show "Open sample_host (sample_env AlreadyExists sample_log) [''data''] = (sample_journal, None)"
    "represents sample_host sample_store sample_journal [sample_commit]"
    "\<exists>f. jn_file sample_journal = Some f \<and> calm f"
    by (auto simp: sample_journal_def)
qed

subsection \<open>A worker on the recovered journal\<close>

lemma sample_state: "jn_state sample_journal = \<lparr>rv_Snapshot = sample_snapshot, rv_Receipts = receipts_in [sample_commit]\<rparr>"
  using represents_state(4,5) [OF sample_open(2)] sample_replay by (cases "jn_state sample_journal") simp

definition sample_initial :: "Journal Worker" where
  "sample_initial = initial_worker sample_journal (jn_state sample_journal)"

definition sample_busy :: "Journal Worker" where
  "sample_busy = dispatch sample_host (journal_ops sample_host) sample_initial"

lemma sample_initial_simps:
  "w_state sample_initial = sample_snapshot" "w_store sample_initial = sample_journal" "w_ticks sample_initial = 0"
  "w_observers sample_initial = []" "w_fatal sample_initial = None" "w_gens sample_initial = []"
  "\<not> w_stopping sample_initial" "\<not> w_panicked sample_initial" "\<not> w_closed sample_initial"
  by (simp_all add: sample_initial_def initial_worker_def sample_state)

lemma sample_stamp:
  "stamp sample_host (cu_StoreID (sn_Cursor sample_snapshot)) (cu_Sequence (sn_Cursor sample_snapshot)) 1
     [jobEvent EventJobState sample_running_job, queueEvent sample_busy_queue] = (Some (cm_Events sample_start), 3)"
  by code_simp

lemma sample_reserve: "TerminalReserve sample_host sample_running < 200000"
proof -
  have "length (json_text (job_json sample_host sample_running_job)) < 6000"
    using json_bound sample_bounds(8) by (rule le_less_trans)
  then show ?thesis
    by (simp add: TerminalReserve_def sample_running_def job_reserve_def marshal_job_def MetadataReserve_def)
qed

lemma sample_start_canon: "commit_canon sample_start"
  by code_simp

lemma sample_append: "\<exists>j f. Append sample_host sample_journal None sample_start = (j, None) \<and> jn_file j = Some f \<and> calm f"
proof -
  obtain f where f: "jn_file sample_journal = Some f" "calm f" "jn_size sample_journal = length sample_log"
    "jn_hard sample_journal = HardBytes"
    using sample_open(2,3) by (auto simp: represents_def sample_log_def)
  have m: "marshal_commit sample_host sample_start = Some (commit_text sample_host sample_start)"
  proof -
    have "list_all event_encodable (cm_Events sample_start)" by code_simp
    then show ?thesis by (simp add: marshal_commit_def commit_text_def)
  qed
  have r: "cm_Receipt sample_start = None" by (simp add: sample_start_def)
  show ?thesis
    by (rule Append_succeeds [OF sample_open(2) f(1,2) m, of sample_running])
      (use sample_start_small sample_log_length sample_reserve f(3,4) r sample_apply_start in
        \<open>simp_all add: sample_state duplicate_def MaxCommitBytes_def HardBytes_def FrameSize_def\<close>)
qed

lemma publish_unobserved:
  fixes w :: "'st Worker"
  assumes "w_observers w = []"
  shows "publish h es w = w"
proof -
  have "w\<lparr>w_observers := []\<rparr> = w" using assms by (cases w) simp
  then have "publish_event h e w = w" for e using assms by (simp add: publish_event_def)
  then show ?thesis by (induction es) (simp_all add: publish_def)
qed

lemma commit_appends:
  assumes "stamp h (cu_StoreID (sn_Cursor (w_state w))) (cu_Sequence (sn_Cursor (w_state w))) (w_ticks w) es = (Some (cm_Events c), t)"
    and "ApplyCommit h (w_state w) c = Inr next" and "Append h (w_store w) None c = (j, None)"
    and "w_observers w = []" and "c = \<lparr>cm_Version = 1, cm_Events = cm_Events c, cm_Receipt = None\<rparr>"
  shows "commit h (journal_ops h) es None w = (w\<lparr>w_ticks := t, w_store := j, w_state := next\<rparr>, None)"
proof -
  have "w\<lparr>w_ticks := t, w_store := j, w_state := next, w_receipts := w_receipts w\<rparr> = w\<lparr>w_ticks := t, w_store := j, w_state := next\<rparr>"
    by (cases w) simp
  then show ?thesis
    using assms(2-4) by (simp add: commit_def assms(1) assms(5) [symmetric] Let_def journal_ops_def publish_unobserved)
qed

lemma sample_clone:
  "find_job (sn_Jobs sample_snapshot) ''a'' = Some (sample_job ''a'')" "Clone_job (sample_job ''a'') = Inr (sample_job ''a'')"
  "(sample_job ''a'')\<lparr>jb_State := JobRunning, jb_StartedAt := Some (h_now sample_host 0)\<rparr> = sample_running_job"
  "(clone_queue sample_queue)\<lparr>qs_Pending := Some (tl (pending_ids (clone_queue sample_queue))),
     qs_Active := Some (jb_ID sample_running_job)\<rparr> = sample_busy_queue"
  "pending_ids sample_queue = [''a'']"
  by code_simp+

lemma sample_dispatch:
  obtains j where "Append sample_host sample_journal None sample_start = (j, None)" "\<exists>f. jn_file j = Some f \<and> calm f"
    "sample_busy = sample_initial\<lparr>w_ticks := 3, w_store := j, w_state := sample_running, w_cancel := True,
      w_ctxdone := False, w_outputErr := None, w_gens := [(''a'', \<lparr>ii_Request = clone_request (jb_Request sample_running_job),
        ii_Instructions = clone_instructions (jb_Instructions sample_running_job)\<rparr>)]\<rparr>"
proof -
  let ?h = "sample_host" and ?w = "sample_initial\<lparr>w_ticks := 1\<rparr>"
  obtain j f where a: "Append ?h sample_journal None sample_start = (j, None)" and jf: "jn_file j = Some f" "calm f"
    using sample_append by blast
  have f: "w_state ?w = sample_snapshot" "w_store ?w = sample_journal" "w_ticks ?w = 1" "w_observers ?w = []"
    by (simp_all add: sample_initial_simps)
  have c: "commit ?h (journal_ops ?h) [jobEvent EventJobState sample_running_job, queueEvent sample_busy_queue] None ?w
      = (?w\<lparr>w_ticks := 3, w_store := j, w_state := sample_running\<rparr>, None)"
    by (rule commit_appends [where c = sample_start and w = ?w, unfolded f, OF sample_stamp sample_apply_start a refl])
      (simp add: sample_start_def)
  have i: "\<not> idle sample_initial" 
    by (simp add: idle_def sample_initial_simps sample_snapshot_def sample_clone(5)) (simp add: sample_queue_def)
  have q: "sn_Queue sample_snapshot = sample_queue" by (simp add: sample_snapshot_def)
  have k: "clone_of sample_initial (hd (pending_ids sample_queue)) = Some (sample_job ''a'')"
    by (simp only: clone_of_def sample_initial_simps sample_clone option.case sum.case list.sel)
  have n: "jb_ID sample_running_job = ''a''" by (simp add: sample_running_job_def sample_job_def)
  note c' = c [unfolded sample_clone(4) [symmetric] n One_nat_def]
  show thesis
    by (rule that [of j], rule a, use jf in blast)
      (simp only: sample_busy_def dispatch_def i q k c' n sample_initial_simps sample_clone(3) Let_def
        if_False option.case prod.case, simp add: sample_initial_simps)
qed

lemma sample_busy_simps:
  "w_state sample_busy = sample_running" "w_fatal sample_busy = None" "\<not> w_panicked sample_busy" "\<not> w_stopping sample_busy"
  "\<not> w_closed sample_busy" "w_observers sample_busy = []"
  "w_gens sample_busy = [(''a'', \<lparr>ii_Request = clone_request (jb_Request sample_running_job),
      ii_Instructions = clone_instructions (jb_Instructions sample_running_job)\<rparr>)]"
  "Append sample_host sample_journal None sample_start = (w_store sample_busy, None)"
  "w_receipts sample_busy = receipt_map (receipts_in [sample_commit])"
  "w_ticks sample_busy = 3" "w_outputErr sample_busy = None" "w_cancel sample_busy"
  "\<exists>f. jn_file (w_store sample_busy) = Some f \<and> calm f"
proof -
  obtain j where a: "Append sample_host sample_journal None sample_start = (j, None)"
    and jf: "\<exists>f. jn_file j = Some f \<and> calm f"
    and e: "sample_busy = sample_initial\<lparr>w_ticks := 3, w_store := j, w_state := sample_running, w_cancel := True,
      w_ctxdone := False, w_outputErr := None, w_gens := [(''a'', \<lparr>ii_Request = clone_request (jb_Request sample_running_job),
        ii_Instructions = clone_instructions (jb_Instructions sample_running_job)\<rparr>)]\<rparr>" by (rule sample_dispatch)
  show "w_state sample_busy = sample_running" "w_fatal sample_busy = None" "\<not> w_panicked sample_busy"
    "\<not> w_stopping sample_busy" "\<not> w_closed sample_busy" "w_observers sample_busy = []"
    "w_gens sample_busy = [(''a'', \<lparr>ii_Request = clone_request (jb_Request sample_running_job),
      ii_Instructions = clone_instructions (jb_Instructions sample_running_job)\<rparr>)]"
    "Append sample_host sample_journal None sample_start = (w_store sample_busy, None)"
    "w_receipts sample_busy = receipt_map (receipts_in [sample_commit])"
    "w_ticks sample_busy = 3" "w_outputErr sample_busy = None" "w_cancel sample_busy"
    "\<exists>f. jn_file (w_store sample_busy) = Some f \<and> calm f"
    unfolding e by (simp_all add: sample_initial_simps a jf, simp add: sample_initial_def initial_worker_def sample_state receipt_map_def)
qed

lemma sample_new: "\<exists>st. NewWorker sample_host (journal_ops sample_host) sample_journal = (st, Inr sample_busy)"
proof -
  have "so_Recover (journal_ops sample_host) sample_journal None = (sample_journal, Inr (jn_state sample_journal))"
    using Recover_ok [OF sample_open(2)] by (simp add: journal_ops_def)
  moreover have "qs_Active (sn_Queue (w_state sample_initial)) = None"
    by (simp add: sample_initial_simps sample_snapshot_def sample_queue_def)
  then have "interrupt_active sample_host (journal_ops sample_host) sample_initial = (sample_initial, None)"
    by (simp add: interrupt_active_def)
  ultimately show ?thesis
    by (simp add: NewWorker_def sample_initial_def [symmetric] sample_busy_def [symmetric] Let_def sample_busy_simps)
qed

lemma sample_journal_ok: "journal_ok sample_host sample_journal"
  using sample_open(2) by (auto simp: journal_ok_def)

lemma sample_runs: "running sample_host sample_busy"
  using sample_new sample_journal_ok starts by (fastforce simp: running_def)

lemma sample_busy_represents: "represents sample_host sample_store (w_store sample_busy) ([sample_commit] @ [sample_start])"
  using Append_represents [OF sample_host_ok sample_open(2) sample_start_canon sample_busy_simps(8)] by blast

lemma sample_healthy: "healthy sample_busy"
  using sample_busy_represents by (auto simp: healthy_def sample_busy_simps represents_def)

text \<open>A crash while the frame of the next commit is being written.\<close>

definition sample_tail :: bytes where
  "sample_tail = take 10 (frame sample_host ''x'')"

lemma sample_torn: "torn sample_host sample_tail"
  unfolding torn_def sample_tail_def
  by (intro exI [of _ "''x''"] exI [of _ 10]) (simp add: length_frame [OF sample_host_ok] FrameSize_def MaxCommitBytes_def)

lemma sample_env_simps:
  "oe_create (sample_env c b) = c" "oe_open (sample_env c b) = Inr (sample_file b)"
  by (simp_all add: sample_env_def)

lemma sample_tail_file:
  "f_bytes (sample_file (sample_log @ sample_tail)) = log_bytes sample_host sample_store [sample_commit] @ sample_tail"
  "length (f_bytes (sample_file (sample_log @ sample_tail))) \<le> HardBytes"
  using sample_log_length by (simp_all add: sample_file_def sample_log_def sample_tail_def HardBytes_def)

lemma sample_valid_cursor: "ValidateCursor (sample_cursor 1) (sample_cursor 2) = None"
  by code_simp

lemma sample_page:
  "page sample_host (nat 5) 0 (drop (unat (cu_Sequence (sample_cursor 1))) (log_events [sample_commit])) = [sample_enqueue]"
proof -
  have "event_len sample_host sample_enqueue < 4000"
    using event_bound [of sample_host sample_enqueue] sample_bounds json_bound [of "event_json sample_host sample_enqueue"]
    by (simp add: event_len_def marshal_event_def sample_enqueue_def opt_bound_def)
  then show ?thesis
    by (simp add: log_events_def sample_commit_def sample_cursor_def MaxObserverBytes_def)
qed

text \<open>The command whose receipt the journal holds, sent once more.\<close>

lemma sample_repeat_guards:
  "digest_of sample_host ''submit'' [] [] sample_request = Some (replicate 64 CHR ''0'')"
  "ValidateRequest sample_request (Compose sample_request) = None" "operation ''submit'' []"
  "find_job (sn_Jobs sample_running) ''a'' = Some sample_running_job"
proof -
  have "hex_encode (replicate 32 (char_of (0::nat))) = replicate 64 CHR ''0''" "options_encodable (rq_Options sample_request)"
    by code_simp+
  then show "digest_of sample_host ''submit'' [] [] sample_request = Some (replicate 64 CHR ''0'')"
    by (simp add: digest_of_def sample_host_def)
  show "ValidateRequest sample_request (Compose sample_request) = None" "operation ''submit'' []"
    "find_job (sn_Jobs sample_running) ''a'' = Some sample_running_job" by code_simp+
qed

lemma sample_receipt:
  "w_receipts sample_busy ''k'' = Some \<lparr>rc_Key = ''k'', rc_Digest = replicate 64 CHR ''0'', rc_JobID = ''a''\<rparr>"
  unfolding sample_busy_simps(9) by (simp add: sample_commit_def receipts_in_def receipt_list_def receipt_map_def)

subsection \<open>The end of the job\<close>

definition sample_done_job :: Job where
  "sample_done_job = sample_running_job\<lparr>jb_State := JobSucceeded, jb_FinishedAt := Some 103\<rparr>"

definition sample_idle_queue :: QueueState where
  "sample_idle_queue = \<lparr>qs_Paused = False, qs_Pending = Some [], qs_Active = None, qs_MaxPending = 64\<rparr>"

definition sample_finish :: Commit where
  "sample_finish = \<lparr>cm_Version = 1, cm_Events =
     [\<lparr>ev_Cursor = sample_cursor 5, ev_At = 104, ev_Kind = EventJobResult,
        ev_JobID = ''a'', ev_Job = Some sample_done_job, ev_Output = None, ev_Queue = None\<rparr>,
      \<lparr>ev_Cursor = sample_cursor 6, ev_At = 105, ev_Kind = EventQueueState,
        ev_JobID = [], ev_Job = None, ev_Output = None, ev_Queue = Some sample_idle_queue\<rparr>],
     cm_Receipt = None\<rparr>"

definition sample_done :: Snapshot where
  "sample_done = \<lparr>sn_Cursor = sample_cursor 6, sn_Queue = sample_idle_queue, sn_Jobs = [sample_done_job]\<rparr>"

definition sample_finished :: "Journal Worker" where
  "sample_finished = complete sample_host (journal_ops sample_host) ''a'' zero_Result None sample_busy"

lemma sample_finish_facts:
  "ApplyCommit sample_host sample_running sample_finish = Inr sample_done"
  "stamp sample_host (cu_StoreID (sn_Cursor sample_running)) (cu_Sequence (sn_Cursor sample_running)) 4
     [jobEvent EventJobResult sample_done_job, queueEvent sample_idle_queue] = (Some (cm_Events sample_finish), 6)"
  "Clone_job sample_running_job = Inr sample_running_job"
  "(clone_queue (sn_Queue sample_running))\<lparr>qs_Active := None\<rparr> = sample_idle_queue"
  "json_bound (cursor_json (sample_cursor 5)) < 1000" "json_bound (cursor_json (sample_cursor 6)) < 1000"
  "json_bound (time_json sample_host 104) < 200" "json_bound (time_json sample_host 105) < 200"
  "json_bound (job_json sample_host sample_done_job) < 6000" "json_bound (queue_json sample_idle_queue) < 1000"
  "list_all event_encodable (cm_Events sample_finish)"
  "outcome False (jb_State sample_running_job) None None = (JobSucceeded, None)"
  "sample_running_job\<lparr>jb_State := JobSucceeded, jb_FinishedAt := Some (h_now sample_host 3),
     jb_Result := clone_result (zero_Result\<lparr>rs_Text := rs_Text (jb_Result sample_running_job)\<rparr>),
     jb_Error := jb_Error sample_running_job\<rparr> = sample_done_job"
  "check_metadata sample_host zero_Result None = (zero_Result, None)"
  by code_simp+

lemma sample_finish_small: "length (commit_text sample_host sample_finish) < 20000"
proof -
  have "json_bound (event_json sample_host (hd (cm_Events sample_finish))) < 8000"
    using event_bound [of sample_host "hd (cm_Events sample_finish)"] sample_finish_facts(5,7,9)
    by (simp add: sample_finish_def opt_bound_def)
  moreover have "json_bound (event_json sample_host (hd (tl (cm_Events sample_finish)))) < 4000"
    using event_bound [of sample_host "hd (tl (cm_Events sample_finish))"] sample_finish_facts(6,8,10)
    by (simp add: sample_finish_def opt_bound_def)
  ultimately show ?thesis
    using commit_bound [of sample_host sample_finish] json_bound [of "commit_json sample_host sample_finish"] sample_bounds(12)
    by (simp add: commit_text_def sample_finish_def opt_bound_def)
qed

lemma sample_busy_size: "jn_size (w_store sample_busy) < 50000" "jn_hard (w_store sample_busy) = HardBytes"
  "rv_Snapshot (jn_state (w_store sample_busy)) = sample_running"
proof -
  have "length (log_bytes sample_host sample_store ([sample_commit] @ [sample_start])) = length sample_log +
      FrameSize + length (commit_text sample_host sample_start)"
    by (simp add: sample_log_def frame_of_def length_frame [OF sample_host_ok] del: append.simps)
  then show "jn_size (w_store sample_busy) < 50000" "jn_hard (w_store sample_busy) = HardBytes"
    using sample_busy_represents sample_log_length sample_start_small by (auto simp: represents_def FrameSize_def)
  show "rv_Snapshot (jn_state (w_store sample_busy)) = sample_running"
    using Append_represents [OF sample_host_ok sample_open(2) sample_start_canon sample_busy_simps(8)] sample_apply_start
    by (auto simp: sample_state)
qed

lemma sample_finish_append: "\<exists>j. Append sample_host (w_store sample_busy) None sample_finish = (j, None)"
proof -
  obtain f where f: "jn_file (w_store sample_busy) = Some f" "calm f" using sample_busy_simps(13) by blast
  have m: "marshal_commit sample_host sample_finish = Some (commit_text sample_host sample_finish)"
    using sample_finish_facts(11) by (simp add: marshal_commit_def commit_text_def)
  have r: "cm_Receipt sample_finish = None" by (simp add: sample_finish_def)
  have t: "TerminalReserve sample_host sample_done = 8192"
    by (simp add: TerminalReserve_def job_reserve_def sample_done_def sample_done_job_def Terminal_def)
  have "\<exists>j' f'. Append sample_host (w_store sample_busy) None sample_finish = (j', None) \<and> jn_file j' = Some f' \<and> calm f'"
    by (rule Append_succeeds [OF sample_busy_represents f m, of sample_done])
      (use sample_finish_small sample_busy_size(1) t r sample_finish_facts(1) in
        \<open>simp_all add: sample_busy_size(2,3) duplicate_def MaxCommitBytes_def HardBytes_def FrameSize_def\<close>)
  then show ?thesis by blast
qed

lemma sample_finished_simps: "w_state sample_finished = sample_done" "w_fatal sample_finished = None"
proof -
  let ?h = "sample_host" and ?w1 = "sample_busy\<lparr>w_gens := [], w_ctxdone := True, w_cancel := False\<rparr>"
  let ?w = "?w1\<lparr>w_ticks := 4\<rparr>"
  obtain j where a: "Append ?h (w_store sample_busy) None sample_finish = (j, None)" using sample_finish_append by blast
  have f: "w_state ?w = sample_running" "w_store ?w = w_store sample_busy" "w_ticks ?w = 4" "w_observers ?w = []"
    by (simp_all add: sample_busy_simps)
  let ?w2 = "?w\<lparr>w_ticks := 6, w_store := j, w_state := sample_done\<rparr>"
  have c: "commit ?h (journal_ops ?h) [jobEvent EventJobResult sample_done_job, queueEvent sample_idle_queue] None ?w = (?w2, None)"
    by (rule commit_appends [where c = sample_finish and w = ?w, unfolded f, OF sample_finish_facts(2,1) a refl])
      (simp add: sample_finish_def)
  have k: "clone_of ?w1 ''a'' = Some sample_running_job"
    using sample_repeat_guards(4) sample_finish_facts(3) by (simp add: clone_of_def sample_busy_simps)
  have g: "w_stopping ?w1 = False" "w_outputErr ?w1 = None" "w_ticks ?w1 = 3" "Suc 3 = 4" "w_state ?w1 = sample_running"
    by (simp_all add: sample_busy_simps)
  have e: "finish_job ?h (journal_ops ?h) ''a'' zero_Result None ?w1 = ?w2"
    by (simp only: finish_job_def k g sample_finish_facts(4,12,13,14) c option.case prod.case Let_def)
  have i: "idle ?w2" by (simp add: idle_def sample_done_def sample_idle_queue_def pending_ids_def)
  have "complete ?h (journal_ops ?h) ''a'' zero_Result None sample_busy = ?w2"
    using e i by (simp add: complete_def sample_busy_simps Let_def dispatch_def)
  then show "w_state sample_finished = sample_done" "w_fatal sample_finished = None"
    unfolding sample_finished_def by (simp_all add: sample_busy_simps)
qed

text \<open>An observer of the running job, opened at the end of the log.\<close>

definition sample_call :: call_ctx where
  "sample_call = \<lparr>cc_entry = None, cc_locked = None, cc_detached = None\<rparr>"

definition sample_watched :: "Journal Worker" where
  "sample_watched = fst (Watch sample_call (sample_cursor 4) sample_busy)"

lemma sample_watched_simps:
  "w_streams sample_watched = w_streams sample_busy @ [new_stream (sample_cursor 4) (cu_Sequence (sample_cursor 4))]"
  "w_state sample_watched = sample_running"
proof -
  have "ValidateCursor (sample_cursor 4) (sample_cursor 4) = None" by code_simp
  then show "w_streams sample_watched = w_streams sample_busy @ [new_stream (sample_cursor 4) (cu_Sequence (sample_cursor 4))]"
    "w_state sample_watched = sample_running"
    by (simp_all add: sample_watched_def Watch_def sample_call_def call_def watch_def available_def sample_busy_simps
        sample_running_def)
qed

lemma sample_watched_runs: "running sample_host sample_watched"
proof -
  obtain s where "Watch sample_call (sample_cursor 4) sample_busy = (sample_watched, s)"
    by (cases "Watch sample_call (sample_cursor 4) sample_busy") (simp add: sample_watched_def)
  then show ?thesis by (rule sample.running_step [OF sample_runs watches])
qed

end
