(* ===== verification/Go_Json.thy ===== *)
theory Go_Json
  imports Parse
begin

text \<open>
  The part of \<open>encoding/json\<close> that the network adapters rely on: the JSON grammar with white
  space and every escape, up to 10000 nested containers; the text of a string literal as Go
  decodes it; and the assignment of object members to struct fields by exact or folded name.

  The parser yields the source form of a value (\<open>raw\<close>), in which string literals and numbers
  keep their text, because the bridge compares and forwards that text; \<open>cook\<close> decodes it.
\<close>

subsection \<open>Lexical elements\<close>

definition is_ws :: "char \<Rightarrow> bool" where
  "is_ws c = (c \<in> set [CHR 0x20, CHR 0x09, CHR 0x0A, CHR 0x0D])"

abbreviation skip_ws :: "bytes \<Rightarrow> bytes" where
  "skip_ws \<equiv> dropWhile is_ws"

definition is_hex :: "char \<Rightarrow> bool" where
  "is_hex c = (unhex c \<noteq> None)"

text \<open>The content of a string literal up to its closing quote, and what follows it.\<close>

fun scan_string :: "bytes \<Rightarrow> (bytes \<times> bytes) option" where
  "scan_string [] = None"
| "scan_string (c # cs) =
     (if c = CHR 0x22 then Some ([], cs)
      else if byte c < 0x20 then None
      else if c \<noteq> CHR 0x5C then map_option (apfst ((#) c)) (scan_string cs)
      else (case cs of
          [] \<Rightarrow> None
        | e # ds \<Rightarrow>
            if e = CHR ''u'' then
              (case ds of
                 w # x # y # z # es \<Rightarrow>
                   if is_hex w \<and> is_hex x \<and> is_hex y \<and> is_hex z
                   then map_option (apfst (\<lambda>t. c # e # w # x # y # z # t)) (scan_string es) else None
               | _ \<Rightarrow> None)
            else if simple_escape e = None then None
            else map_option (apfst (\<lambda>t. c # e # t)) (scan_string ds)))"

definition scan_exponent :: "bytes \<Rightarrow> bytes \<Rightarrow> (bytes \<times> bytes) option" where
  "scan_exponent t s =
     (if s \<noteq> [] \<and> hd s \<in> {CHR ''e'', CHR ''E''} then
        (let sg = (if tl s \<noteq> [] \<and> hd (tl s) \<in> {CHR ''+'', CHR ''-''} then [hd (tl s)] else []);
             r = drop (length sg) (tl s) in
         if takeWhile is_digit r = [] then None
         else Some (t @ hd s # sg @ takeWhile is_digit r, dropWhile is_digit r))
      else Some (t, s))"

definition scan_fraction :: "bytes \<Rightarrow> bytes \<Rightarrow> (bytes \<times> bytes) option" where
  "scan_fraction t s =
     (if s \<noteq> [] \<and> hd s = CHR ''.'' then
        (if takeWhile is_digit (tl s) = [] then None
         else scan_exponent (t @ CHR ''.'' # takeWhile is_digit (tl s)) (dropWhile is_digit (tl s)))
      else scan_exponent t s)"

definition scan_number :: "bytes \<Rightarrow> (bytes \<times> bytes) option" where
  "scan_number s =
     (let sg = (if s \<noteq> [] \<and> hd s = CHR ''-'' then ''-'' else []); r = drop (length sg) s in
      case r of
        [] \<Rightarrow> None
      | c # cs \<Rightarrow>
          if c = CHR ''0'' then scan_fraction (sg @ [c]) cs
          else if is_digit c then scan_fraction (sg @ takeWhile is_digit r) (dropWhile is_digit r)
          else None)"

subsection \<open>Values\<close>

datatype raw =
    RNull
  | RBool bool
  | RNum bytes
  | RStr bytes
  | RArr "raw list"
  | RObj "(bytes \<times> raw) list"

definition maxNestingDepth :: nat where "maxNestingDepth = 10000"

text \<open>
  Recursive descent. The first argument is fuel (\<open>raw_fuel\<close> below shows that twice the length of
  the input and two is always enough), the second the number of open containers.
\<close>

fun raw_value :: "nat \<Rightarrow> nat \<Rightarrow> bytes \<Rightarrow> (raw \<times> bytes) option"
  and raw_elems :: "nat \<Rightarrow> nat \<Rightarrow> bytes \<Rightarrow> (raw list \<times> bytes) option"
  and raw_members :: "nat \<Rightarrow> nat \<Rightarrow> bytes \<Rightarrow> ((bytes \<times> raw) list \<times> bytes) option" where
  "raw_value 0 k s = None"
| "raw_value (Suc n) k s =
     (case skip_ws s of
        [] \<Rightarrow> None
      | c # cs \<Rightarrow>
          if c = CHR 0x22 then map_option (apfst RStr) (scan_string cs)
          else if c = CHR ''['' then
            (if k \<ge> maxNestingDepth then None
             else if skip_ws cs \<noteq> [] \<and> hd (skip_ws cs) = CHR '']'' then Some (RArr [], tl (skip_ws cs))
             else map_option (apfst RArr) (raw_elems n (Suc k) cs))
          else if c = CHR 0x7B then
            (if k \<ge> maxNestingDepth then None
             else if skip_ws cs \<noteq> [] \<and> hd (skip_ws cs) = CHR 0x7D then Some (RObj [], tl (skip_ws cs))
             else map_option (apfst RObj) (raw_members n (Suc k) cs))
          else if take 4 (c # cs) = ''null'' then Some (RNull, drop 4 (c # cs))
          else if take 4 (c # cs) = ''true'' then Some (RBool True, drop 4 (c # cs))
          else if take 5 (c # cs) = ''false'' then Some (RBool False, drop 5 (c # cs))
          else map_option (apfst RNum) (scan_number (c # cs)))"
| "raw_elems 0 k s = None"
| "raw_elems (Suc n) k s =
     (case raw_value n k s of
        None \<Rightarrow> None
      | Some (v, r) \<Rightarrow>
          (case skip_ws r of
             [] \<Rightarrow> None
           | c # r' \<Rightarrow>
               if c = CHR '','' then map_option (apfst ((#) v)) (raw_elems n k r')
               else if c = CHR '']'' then Some ([v], r') else None))"
| "raw_members 0 k s = None"
| "raw_members (Suc n) k s =
     (case skip_ws s of
        [] \<Rightarrow> None
      | q # cs \<Rightarrow>
          if q \<noteq> CHR 0x22 then None
          else (case scan_string cs of
              None \<Rightarrow> None
            | Some (key, r0) \<Rightarrow>
                if skip_ws r0 = [] \<or> hd (skip_ws r0) \<noteq> CHR '':'' then None
                else (case raw_value n k (tl (skip_ws r0)) of
                    None \<Rightarrow> None
                  | Some (v, r) \<Rightarrow>
                      (case skip_ws r of
                         [] \<Rightarrow> None
                       | c # r' \<Rightarrow>
                           if c = CHR '','' then map_option (apfst ((#) (key, v))) (raw_members n k r')
                           else if c = CHR 0x7D then Some ([(key, v)], r') else None))))"

text \<open>
  Every function consumes at least one byte, so fuel beyond the bound makes no difference.
\<close>

lemma scan_string_shorter: "scan_string s = Some (t, r) \<Longrightarrow> length r < length s"
proof (induction s arbitrary: t r rule: length_induct)
  case (1 s)
  have IH: "length r' < length ys" if "scan_string ys = Some (t', r')" "length ys < length s" for ys t' r'
    using 1(1) that by blast
  obtain c cs where s: "s = c # cs" using 1(2) by (cases s) auto
  consider (plain) "c = CHR 0x22 \<or> c \<noteq> CHR 0x5C" | (esc) "c = CHR 0x5C" "\<not> byte c < 0x20" "c \<noteq> CHR 0x22" by auto
  then show ?case
  proof cases
    case plain
    then show ?thesis using 1(2) s by (auto split: if_splits dest!: IH)
  next
    case esc
    obtain e ds where cs: "cs = e # ds" using 1(2) s esc by (auto split: list.splits)
    show ?thesis
    proof (cases "e = CHR ''u''")
      case True
      obtain w x y z es where ds: "ds = w # x # y # z # es"
        using 1(2) unfolding s cs True scan_string.simps(2)[of c] using esc by (auto split: list.splits)
      obtain t' where "scan_string es = Some (t', r)"
        using 1(2) unfolding s cs True ds scan_string.simps(2)[of c] using esc by (auto split: if_splits)
      from IH[OF this] show ?thesis by (simp add: s cs ds)
    next
      case False
      obtain t' where "scan_string ds = Some (t', r)"
        using 1(2) unfolding s cs scan_string.simps(2)[of c] using esc False by (auto split: if_splits)
      from IH[OF this] show ?thesis by (simp add: s cs)
    qed
  qed
qed

lemma scan_exponent_shorter: "scan_exponent t s = Some (u, r) \<Longrightarrow> length r \<le> length s"
  by (auto simp: scan_exponent_def Let_def split: if_splits intro!: le_trans[OF length_dropWhile_le])

lemma scan_fraction_shorter: "scan_fraction t s = Some (u, r) \<Longrightarrow> length r \<le> length s"
  by (auto simp: scan_fraction_def split: if_splits dest!: scan_exponent_shorter intro: order_trans[OF _ length_dropWhile_le] order_trans[OF order_trans[OF _ length_dropWhile_le]])

lemma scan_number_shorter: "scan_number s = Some (t, r) \<Longrightarrow> length r < length s"
proof -
  assume *: "scan_number s = Some (t, r)"
  define sg where "sg = (if s \<noteq> [] \<and> hd s = CHR ''-'' then ''-'' else [])"
  obtain c cs where d: "drop (length sg) s = c # cs"
    using * by (auto simp: scan_number_def Let_def sg_def split: list.splits)
  have l: "length cs < length s"
    using arg_cong[OF d, of length] by simp
  have "length r \<le> length cs"
    using * d by (auto simp: scan_number_def Let_def sg_def[symmetric] split: if_splits dest!: scan_fraction_shorter
        intro: order_trans[OF _ length_dropWhile_le])
  with l show ?thesis by simp
qed

lemma skip_ws_shorter: "length (skip_ws s) \<le> length s"
  by (rule length_dropWhile_le)

lemma raw_shorter:
  "raw_value n k s = Some (v, r) \<Longrightarrow> length r < length s"
  "raw_elems n k s = Some (vs, r) \<Longrightarrow> length r < length s"
  "raw_members n k s = Some (fs, r) \<Longrightarrow> length r < length s"
proof (induction n k s and n k s and n k s arbitrary: v r and vs r and fs r rule: raw_value_raw_elems_raw_members.induct)
  case (2 n k s)
  obtain c cs where s: "skip_ws s = c # cs" using 2(3) by (auto split: list.splits)
  have l: "length cs < length s" using arg_cong[OF s, of length] skip_ws_shorter[of s] by simp
  have d: "length (tl (skip_ws cs)) < length s" using skip_ws_shorter[of cs] l by simp
  consider "\<exists>t. scan_string cs = Some (t, r)" | "\<exists>t. scan_number (c # cs) = Some (t, r)" | "r = tl (skip_ws cs)"
    | "r = drop 4 (c # cs)" | "r = drop 5 (c # cs)"
    | (arr) vs where "c = CHR ''[''" "\<not> maxNestingDepth \<le> k" "\<not> (skip_ws cs \<noteq> [] \<and> hd (skip_ws cs) = CHR '']'')" "raw_elems n (Suc k) cs = Some (vs, r)"
    | (obj) fs where "c = CHR 0x7B" "\<not> maxNestingDepth \<le> k" "\<not> (skip_ws cs \<noteq> [] \<and> hd (skip_ws cs) = CHR 0x7D)" "raw_members n (Suc k) cs = Some (fs, r)"
    using 2(3) unfolding raw_value.simps s list.case by (auto simp del: take_Suc_Cons drop_Suc_Cons split: if_splits)
  then show ?case
  proof cases
    case arr
    have "length r < length cs" using 2(1)[OF s _ arr(1,2) arr(3) arr(4)] arr(1) by simp
    with l show ?thesis by simp
  next
    case obj
    have "length r < length cs" using 2(2)[OF s _ _ obj(1,2) obj(3) obj(4)] obj(1) by simp
    with l show ?thesis by simp
  qed (use l d s in \<open>auto dest!: scan_string_shorter scan_number_shorter\<close>)
next
  case (4 n k s)
  obtain v1 r1 where v: "raw_value n k s = Some (v1, r1)" using 4(3) by (auto split: option.splits)
  obtain c r2 where s: "skip_ws r1 = c # r2" using 4(3) v by (auto split: list.splits)
  have l: "length r2 < length r1" using arg_cong[OF s, of length] skip_ws_shorter[of r1] by simp
  show ?case using 4 v s l by (fastforce split: if_splits)
next
  case (6 n k s)
  obtain q cs where s: "skip_ws s = q # cs" using 6(3) by (auto split: list.splits)
  obtain key r0 where k: "scan_string cs = Some (key, r0)" using 6(3) s by (auto split: if_splits option.splits)
  have q: "q = CHR 0x22" using 6(3) s by (auto split: if_splits)
  obtain r3 where r0: "skip_ws r0 = CHR '':'' # r3"
    using 6(3) unfolding raw_members.simps s list.case q by (cases "skip_ws r0") (auto simp: k split: if_splits)
  obtain v1 r1 where v: "raw_value n k r3 = Some (v1, r1)"
    using 6(3) unfolding raw_members.simps s list.case q by (auto simp: k r0 split: option.splits)
  have e: "(case skip_ws r1 of [] \<Rightarrow> None
      | c # r' \<Rightarrow> if c = CHR '','' then map_option (apfst ((#) (key, v1))) (raw_members n k r')
          else if c = CHR 0x7D then Some ([(key, v1)], r') else None) = Some (fs, r)"
    using 6(3) by (simp only: raw_members.simps s list.case q k option.case prod.case r0 v list.sel simp_thms if_False not_True_eq_False list.distinct)
  obtain c r2 where r1: "skip_ws r1 = c # r2" using e by (cases "skip_ws r1") auto
  have m: "c = CHR '','' \<and> (\<exists>fs'. raw_members n k r2 = Some (fs', r)) \<or> r = r2"
    using e by (auto simp: r1 split: if_splits)
  have "length cs < length s" using arg_cong[OF s, of length] skip_ws_shorter[of s] by simp
  moreover have "length r0 < length cs" by (rule scan_string_shorter[OF k])
  moreover have "length r3 < length r0" using arg_cong[OF r0, of length] skip_ws_shorter[of r0] by simp
  moreover have "length r1 < length r3" using 6(1)[OF s _ k refl] by (simp add: q r0 v)
  moreover have "length r2 < length r1" using arg_cong[OF r1, of length] skip_ws_shorter[of r1] by simp
  ultimately have l: "length r2 < length s" by simp
  have "length r < length r2" if "c = CHR '',''" "raw_members n k r2 = Some (fs', r)" for fs'
    using 6(2)[OF s _ k refl _ _ refl r1 that(1) that(2)] by (simp add: q r0 v)
  with m l show ?case by fastforce
qed simp_all

text \<open>A number of a parsed value begins like a number.\<close>

fun nums_shaped :: "raw \<Rightarrow> bool" where
  "nums_shaped (RNum t) = (t \<noteq> [] \<and> (is_digit (hd t) \<or> hd t = CHR ''-''))"
| "nums_shaped (RArr vs) = list_all nums_shaped vs"
| "nums_shaped (RObj fs) = list_all (\<lambda>kv. nums_shaped (snd kv)) fs"
| "nums_shaped _ = True"

lemma scan_exponent_prefix: "scan_exponent t s = Some (u, r) \<Longrightarrow> \<exists>x. u = t @ x"
  by (auto simp: scan_exponent_def Let_def split: if_splits)

lemma scan_fraction_prefix: "scan_fraction t s = Some (u, r) \<Longrightarrow> \<exists>x. u = t @ x"
  by (auto simp: scan_fraction_def split: if_splits dest!: scan_exponent_prefix)

lemma scan_number_shaped: "scan_number s = Some (t, r) \<Longrightarrow> t \<noteq> [] \<and> (is_digit (hd t) \<or> hd t = CHR ''-'')"
  by (auto simp: scan_number_def Let_def is_digit_def split: if_splits list.splits dest!: scan_fraction_prefix)

lemma raw_shaped:
  "raw_value n k s = Some (v, r) \<Longrightarrow> nums_shaped v"
  "raw_elems n k s = Some (vs, r) \<Longrightarrow> list_all nums_shaped vs"
  "raw_members n k s = Some (fs, r) \<Longrightarrow> list_all (\<lambda>kv. nums_shaped (snd kv)) fs"
proof (induction n k s and n k s and n k s arbitrary: v r and vs r and fs r rule: raw_value_raw_elems_raw_members.induct)
  case (2 n k s)
  then show ?case by (auto split: list.splits if_splits dest: scan_number_shaped)
next
  case (4 n k s)
  then show ?case by (auto split: option.splits list.splits if_splits)
next
  case (6 n k s)
  then show ?case by (auto split: option.splits list.splits if_splits)
qed simp_all

lemma raw_fuel:
  "2 * length s + 1 \<le> n \<Longrightarrow> 2 * length s + 1 \<le> m \<Longrightarrow> raw_value n k s = raw_value m k s"
  "2 * length s + 2 \<le> n \<Longrightarrow> 2 * length s + 2 \<le> m \<Longrightarrow> raw_elems n k s = raw_elems m k s"
  "2 * length s + 2 \<le> n \<Longrightarrow> 2 * length s + 2 \<le> m \<Longrightarrow> raw_members n k s = raw_members m k s"
proof (induction n k s and n k s and n k s arbitrary: m and m and m rule: raw_value_raw_elems_raw_members.induct)
  case (2 n k s)
  obtain m' where m: "m = Suc m'" using 2(4) by (cases m) auto
  show ?case
  proof (cases "skip_ws s")
    case (Cons c cs)
    have l: "length cs < length s" using arg_cong[OF Cons, of length] skip_ws_shorter[of s] by simp
    have "raw_elems n (Suc k) cs = raw_elems m' (Suc k) cs"
      if "c \<noteq> CHR 0x22" "c = CHR ''[''" "\<not> maxNestingDepth \<le> k" "\<not> (skip_ws cs \<noteq> [] \<and> hd (skip_ws cs) = CHR '']'')"
      by (rule 2(1)[OF Cons that]) (use 2(3,4) l m in auto)
    moreover have "raw_members n (Suc k) cs = raw_members m' (Suc k) cs"
      if "c \<noteq> CHR 0x22" "c \<noteq> CHR ''[''" "c = CHR 0x7B" "\<not> maxNestingDepth \<le> k" "\<not> (skip_ws cs \<noteq> [] \<and> hd (skip_ws cs) = CHR 0x7D)"
      by (rule 2(2)[OF Cons that]) (use 2(3,4) l m in auto)
    ultimately show ?thesis unfolding m raw_value.simps Cons list.case
      by (intro if_cong refl) simp_all
  qed (simp add: m del: dropWhile_eq_Nil_conv)
next
  case (4 n k s)
  obtain m' where m: "m = Suc m'" using 4(4) by (cases m) auto
  have v: "raw_value n k s = raw_value m' k s" by (rule 4(1)) (use 4(3,4) m in auto)
  show ?case
  proof (cases "raw_value n k s")
    case (Some vr)
    obtain v1 r1 where vr: "vr = (v1, r1)" by (cases vr)
    have l1: "length r1 < length s" using raw_shorter(1) Some vr by blast
    show ?thesis
    proof (cases "skip_ws r1")
      case (Cons c r2)
      have l: "length r2 < length s" using arg_cong[OF Cons, of length] skip_ws_shorter[of r1] l1 by simp
      have "raw_elems n k r2 = raw_elems m' k r2" if "c = CHR '',''"
        by (rule 4(2)[OF Some vr[symmetric] Cons that]) (use 4(3,4) l m in auto)
      then show ?thesis unfolding m raw_elems.simps v[symmetric] Some vr by (simp add: Cons)
    qed (simp add: m v[symmetric] Some vr del: dropWhile_eq_Nil_conv)
  qed (simp add: m v[symmetric])
next
  case (6 n k s)
  obtain m' where m: "m = Suc m'" using 6(4) by (cases m) auto
  show ?case
  proof (cases "skip_ws s")
    case (Cons q cs)
    have lc: "length cs < length s" using arg_cong[OF Cons, of length] skip_ws_shorter[of s] by simp
    show ?thesis
    proof (cases "q = CHR 0x22 \<and> scan_string cs \<noteq> None")
      case True
      then obtain key r0 where q: "q = CHR 0x22" and sc: "scan_string cs = Some (key, r0)" by auto
      show ?thesis
      proof (cases "skip_ws r0 = [] \<or> hd (skip_ws r0) \<noteq> CHR '':''")
        case True
        then show ?thesis unfolding m raw_members.simps Cons list.case by (simp add: q sc del: dropWhile_eq_Nil_conv)
      next
        case False
        let ?r = "tl (skip_ws r0)"
        have lr: "length ?r < length s" using scan_string_shorter[OF sc] skip_ws_shorter[of r0] lc by simp
        have v: "raw_value n k ?r = raw_value m' k ?r"
          by (rule 6(1)[OF Cons _ sc refl False]) (use 6(3,4) lr m q in auto)
        show ?thesis
        proof (cases "raw_value n k ?r")
          case None
          then show ?thesis unfolding m raw_members.simps Cons list.case q using v False
            by (simp add: sc del: dropWhile_eq_Nil_conv)
        next
          case (Some vr)
          obtain v1 r1 where vr: "vr = (v1, r1)" by (cases vr)
          have l1: "length r1 < length ?r" using raw_shorter(1) Some vr by blast
          have nv: "raw_value n k ?r = Some (v1, r1)" "raw_value m' k ?r = Some (v1, r1)" using Some v vr by simp_all
          have "raw_members n k r2 = raw_members m' k r2" if "skip_ws r1 = c # r2" "c = CHR '',''" for c r2
            by (rule 6(2)[OF Cons _ sc refl False Some vr[symmetric] that])
              (use 6(3,4) lr l1 m q arg_cong[OF that(1), of length] skip_ws_shorter[of r1] in auto)
          then show ?thesis unfolding m raw_members.simps Cons list.case q using nv False
            by (cases "skip_ws r1") (simp_all add: sc del: dropWhile_eq_Nil_conv)
        qed
      qed
    next
      case False
      then show ?thesis by (cases "scan_string cs") (auto simp: m Cons)
    qed
  qed (simp add: m del: dropWhile_eq_Nil_conv)
qed simp_all

definition parse_raw :: "bytes \<Rightarrow> raw option" where
  "parse_raw s =
     (case raw_value (2 * length s + 2) 0 s of
        None \<Rightarrow> None | Some (v, r) \<Rightarrow> if skip_ws r = [] then Some v else None)"

lemma parse_raw_shaped: "parse_raw s = Some v \<Longrightarrow> nums_shaped v"
  by (auto simp: parse_raw_def simp del: raw_value.simps split: option.splits if_splits dest: raw_shaped(1))

text \<open>\<open>json.Valid\<close>\<close>

definition json_valid :: "bytes \<Rightarrow> bool" where
  "json_valid s = (parse_raw s \<noteq> None)"

text \<open>\<open>json.Compact\<close>: the value without white space between tokens.\<close>

fun raw_text :: "raw \<Rightarrow> bytes" where
  "raw_text RNull = ''null''"
| "raw_text (RBool b) = (if b then ''true'' else ''false'')"
| "raw_text (RNum t) = t"
| "raw_text (RStr s) = CHR 0x22 # s @ [CHR 0x22]"
| "raw_text (RArr vs) = CHR ''['' # commas (map raw_text vs) @ '']''"
| "raw_text (RObj fs) =
     CHR 0x7B # commas (map (\<lambda>kv. CHR 0x22 # fst kv @ CHR 0x22 # CHR '':'' # raw_text (snd kv)) fs) @ [CHR 0x7D]"

subsection \<open>Decoding string literals\<close>

definition rune_bytes :: "nat \<Rightarrow> bytes" where
  "rune_bytes n =
     (if n < 0x80 then [char_of n]
      else if n < 0x800 then [char_of (0xC0 + n div 64), char_of (0x80 + n mod 64)]
      else if n < 0x10000 then [char_of (0xE0 + n div 4096), char_of (0x80 + n div 64 mod 64), char_of (0x80 + n mod 64)]
      else [char_of (0xF0 + n div 262144), char_of (0x80 + n div 4096 mod 64), char_of (0x80 + n div 64 mod 64),
        char_of (0x80 + n mod 64)])"

definition surrogate :: "nat \<Rightarrow> bool" where
  "surrogate n = (0xD800 \<le> n \<and> n < 0xE000)"

definition replacement :: bytes where
  "replacement = [CHR 0xEF, CHR 0xBF, CHR 0xBD]"

definition hex_val :: "bytes \<Rightarrow> nat" where
  "hex_val s = foldl (\<lambda>v c. 16 * v + (case unhex c of None \<Rightarrow> 0 | Some d \<Rightarrow> d)) 0 s"

text \<open>\<open>getu4\<close>: the escaped code unit a text begins with.\<close>

definition getu4 :: "bytes \<Rightarrow> nat option" where
  "getu4 s = (if 6 \<le> length s \<and> take 2 s = [CHR 0x5C, CHR ''u''] \<and> list_all is_hex (take 4 (drop 2 s))
     then Some (hex_val (take 4 (drop 2 s))) else None)"

text \<open>Unpaired surrogates and invalid UTF-8 become the replacement character.\<close>

function unquote :: "bytes \<Rightarrow> bytes" where
  "unquote s =
     (if s = [] then []
      else if hd s = CHR 0x5C then
        (case getu4 s of
           Some n \<Rightarrow>
             if surrogate n then
               (case getu4 (drop 6 s) of
                  Some m \<Rightarrow>
                    if n < 0xDC00 \<and> 0xDC00 \<le> m \<and> m < 0xE000
                    then rune_bytes (0x10000 + (n - 0xD800) * 1024 + (m - 0xDC00)) @ unquote (drop 12 s)
                    else replacement @ unquote (drop 6 s)
                | None \<Rightarrow> replacement @ unquote (drop 6 s))
             else rune_bytes n @ unquote (drop 6 s)
         | None \<Rightarrow>
             (case simple_escape (hd (tl s)) of None \<Rightarrow> [] | Some d \<Rightarrow> d # unquote (drop 2 s)))
      else (case rune_len s of
          None \<Rightarrow> replacement @ unquote (tl s)
        | Some n \<Rightarrow> take n s @ unquote (drop n s)))"
  by pat_completeness auto
termination
  by (relation "measure length") (auto dest: rune_len_bounds)

declare unquote.simps [simp del]

fun cook :: "raw \<Rightarrow> json" where
  "cook RNull = JNull"
| "cook (RBool b) = JBool b"
| "cook (RNum t) = JNum t"
| "cook (RStr s) = JStr (unquote s)"
| "cook (RArr vs) = JArr (map cook vs)"
| "cook (RObj fs) = JObj (map (\<lambda>kv. (unquote (fst kv), cook (snd kv))) fs)"

definition parse_go :: "bytes \<Rightarrow> json option" where
  "parse_go s = map_option cook (parse_raw s)"

subsection \<open>Struct fields\<close>

text \<open>\<open>foldName\<close> on field names in ASCII: letter case, the long s and the Kelvin sign.\<close>

function fold_name :: "bytes \<Rightarrow> bytes" where
  "fold_name s =
     (if s = [] then []
      else if take 2 s = [CHR 0xC5, CHR 0xBF] then CHR ''S'' # fold_name (drop 2 s)
      else if take 3 s = [CHR 0xE2, CHR 0x84, CHR 0xAA] then CHR ''K'' # fold_name (drop 3 s)
      else (if 97 \<le> byte (hd s) \<and> byte (hd s) \<le> 122 then char_of (byte (hd s) - 32) else hd s) # fold_name (tl s))"
  by pat_completeness auto
termination
  by (relation "measure length") auto

declare fold_name.simps [simp del]

text \<open>
  \<open>json.Unmarshal\<close> of object members into a struct: a table of field names with what each does
  with a value. A member goes to the field of its exact name, else to one of the same folded
  name, else nowhere; the members are taken in order and the first error makes the call fail.
\<close>

definition field_named :: "(bytes \<times> 'f) list \<Rightarrow> bytes \<Rightarrow> 'f option" where
  "field_named table key =
     (case map_of table key of
        Some f \<Rightarrow> Some f
      | None \<Rightarrow> map_option snd (find (\<lambda>kf. fold_name (fst kf) = fold_name key) table))"

fun set_fields :: "(bytes \<times> ('v \<Rightarrow> 's \<Rightarrow> 's option)) list \<Rightarrow> (bytes \<times> 'v) list \<Rightarrow> 's \<Rightarrow> 's option" where
  "set_fields table [] s = Some s"
| "set_fields table (kv # kvs) s =
     (case field_named table (fst kv) of
        None \<Rightarrow> set_fields table kvs s
      | Some f \<Rightarrow> (case f (snd kv) s of None \<Rightarrow> None | Some s' \<Rightarrow> set_fields table kvs s'))"

text \<open>Into a struct value: \<open>null\<close> leaves it alone, anything but an object is an error.\<close>

definition into_struct :: "(bytes \<times> (json \<Rightarrow> 's \<Rightarrow> 's option)) list \<Rightarrow> json \<Rightarrow> 's \<Rightarrow> 's option" where
  "into_struct table v s = (case v of JNull \<Rightarrow> Some s | JObj kvs \<Rightarrow> set_fields table kvs s | _ \<Rightarrow> None)"

definition into_string :: "json \<Rightarrow> bytes \<Rightarrow> bytes option" where
  "into_string v old = (case v of JNull \<Rightarrow> Some old | JStr s \<Rightarrow> Some s | _ \<Rightarrow> None)"

definition into_bool :: "json \<Rightarrow> bool \<Rightarrow> bool option" where
  "into_bool v old = (case v of JNull \<Rightarrow> Some old | JBool b \<Rightarrow> Some b | _ \<Rightarrow> None)"

text \<open>A 64-bit signed integer: a number without fraction or exponent, in range.\<close>

definition into_int :: "json \<Rightarrow> int \<Rightarrow> int option" where
  "into_int v old =
     (case v of
        JNull \<Rightarrow> Some old
      | JNum t \<Rightarrow>
          (let ds = (if t \<noteq> [] \<and> hd t = CHR ''-'' then tl t else t);
               n = (if t \<noteq> [] \<and> hd t = CHR ''-'' then - int (dec_val ds) else int (dec_val ds)) in
           if ds \<noteq> [] \<and> list_all is_digit ds \<and> - (2 ^ 63) \<le> n \<and> n < 2 ^ 63 then Some n else None)
      | _ \<Rightarrow> None)"

text \<open>A field with its own target type.\<close>

definition slot ::
  "(json \<Rightarrow> 'a \<Rightarrow> 'a option) \<Rightarrow> ('s \<Rightarrow> 'a) \<Rightarrow> (('a \<Rightarrow> 'a) \<Rightarrow> 's \<Rightarrow> 's) \<Rightarrow> json \<Rightarrow> 's \<Rightarrow> 's option" where
  "slot into get upd v s = map_option (\<lambda>x. upd (\<lambda>_. x) s) (into v (get s))"

text \<open>A pointer: \<open>null\<close> is nil, anything else goes into the old or a new target.\<close>

definition into_pointer :: "(json \<Rightarrow> 'a \<Rightarrow> 'a option) \<Rightarrow> 'a \<Rightarrow> json \<Rightarrow> 'a option \<Rightarrow> 'a option option" where
  "into_pointer f zero v old =
     (if v = JNull then Some None
      else map_option Some (f v (case old of None \<Rightarrow> zero | Some x \<Rightarrow> x)))"

text \<open>A slice: \<open>null\<close> is nil; the elements are decoded over the old ones, then over zero values.\<close>

fun into_elems :: "(json \<Rightarrow> 'a \<Rightarrow> 'a option) \<Rightarrow> 'a \<Rightarrow> json list \<Rightarrow> 'a list \<Rightarrow> 'a list option" where
  "into_elems f zero [] old = Some []"
| "into_elems f zero (v # vs) old =
     (case f v (case old of [] \<Rightarrow> zero | x # _ \<Rightarrow> x) of
        None \<Rightarrow> None
      | Some x \<Rightarrow> map_option ((#) x) (into_elems f zero vs (tl old)))"

definition into_slice :: "(json \<Rightarrow> 'a \<Rightarrow> 'a option) \<Rightarrow> 'a \<Rightarrow> json \<Rightarrow> 'a list \<Rightarrow> 'a list option" where
  "into_slice f zero v old =
     (case v of JNull \<Rightarrow> Some [] | JArr vs \<Rightarrow> into_elems f zero vs old | _ \<Rightarrow> None)"

subsection \<open>Decoded text is valid UTF-8\<close>

lemma unhex_less: "unhex c = Some d \<Longrightarrow> d < 16"
  by (auto simp: unhex_def split: if_splits)

lemma hex_val_less: "length s = 4 \<Longrightarrow> hex_val s < 65536"
proof -
  assume "length s = 4"
  then obtain a b c d where s: "s = [a, b, c, d]" by (auto simp: numeral_eq_Suc length_Suc_conv)
  have "(case unhex x of None \<Rightarrow> 0 | Some d \<Rightarrow> d) \<le> 15" for x using unhex_less [of x] by (auto split: option.split)
  from this [of a] this [of b] this [of c] this [of d] show ?thesis by (simp add: s hex_val_def)
qed

lemma getu4_less: "getu4 s = Some n \<Longrightarrow> n < 65536 \<and> 6 \<le> length s"
  using hex_val_less [of "take 4 (drop 2 s)"] by (auto simp: getu4_def split: if_splits)

lemma rune_len_rune_bytes:
  assumes "n < 0x110000" and "\<not> surrogate n"
  shows "rune_len (rune_bytes n @ s) = Some (length (rune_bytes n))"
proof -
  have mod64: "x mod 64 \<le> 63" for x :: nat using mod_less_divisor [of 64 x] by linarith
  consider "n < 0x80" | "0x80 \<le> n" "n < 0x800" | "0x800 \<le> n" "n < 0x10000" | "0x10000 \<le> n" by linarith
  then show ?thesis
  proof cases
    case 1
    then show ?thesis by (simp add: rune_bytes_def rune_len_ascii)
  next
    case 2
    have "2 \<le> n div 64" "n div 64 < 32" using 2 by (simp_all add: less_mult_imp_div_less div_le_mono [of 128 n 64, simplified])
    then show ?thesis using 2
      by (simp add: rune_bytes_def rune_len_Cons rune_size_def second_ok_def Let_def)
  next
    case 3
    let ?a = "n div 4096" and ?b = "n div 64 mod 64"
    have a: "?a < 16" using 3 by (simp add: less_mult_imp_div_less)
    have b: "n div 64 = 64 * ?a + ?b" by (simp add: div_mult2_eq [of n 64 64, simplified])
    have c: "32 \<le> n div 64" using 3 by (simp add: div_le_mono [of 2048 n 64, simplified])
    have d: "\<not> (864 \<le> n div 64 \<and> n div 64 < 896)"
    proof
      assume "864 \<le> n div 64 \<and> n div 64 < 896"
      then have "0xD800 \<le> n \<and> n < 0xE000" by linarith
      with assms(2) show False by (simp add: surrogate_def)
    qed
    have "second_ok (char_of (224 + ?a)) (char_of (128 + ?b))"
      using a b c d mod_less_divisor [of 64 "n div 64"] by (auto simp: second_ok_def Let_def simp del: mod_less_divisor)
    moreover have "rune_size (char_of (224 + ?a)) = 3" using a by (simp add: rune_size_def Let_def)
    ultimately show ?thesis using 3
      by (simp add: rune_bytes_def rune_len_Cons cont_def mod64)
  next
    case 4
    let ?a = "n div 262144" and ?b = "n div 4096 mod 64"
    have a: "?a < 5" using assms(1) by (simp add: less_mult_imp_div_less)
    have b: "n div 4096 = 64 * ?a + ?b" by (simp add: div_mult2_eq [of n 4096 64, simplified])
    have c: "16 \<le> n div 4096" using 4 by (simp add: div_le_mono [of 65536 n 4096, simplified])
    have d: "n div 4096 < 272" using assms(1) by (simp add: less_mult_imp_div_less)
    have "second_ok (char_of (240 + ?a)) (char_of (128 + ?b))"
      using a b c d mod_less_divisor [of 64 "n div 4096"] by (auto simp: second_ok_def Let_def simp del: mod_less_divisor)
    moreover have "rune_size (char_of (240 + ?a)) = 4" using a by (simp add: rune_size_def Let_def)
    ultimately show ?thesis using 4
      by (simp add: rune_bytes_def rune_len_Cons cont_def numeral_2_eq_2 mod64)
  qed
qed

lemma valid_rune_bytes:
  "n < 0x110000 \<Longrightarrow> \<not> surrogate n \<Longrightarrow> valid_utf8 (rune_bytes n @ s) \<longleftrightarrow> valid_utf8 s"
  using rune_len_rune_bytes [of n s] valid_utf8_step [of "rune_bytes n @ s"] by simp

lemma valid_replacement: "valid_utf8 (replacement @ s) \<longleftrightarrow> valid_utf8 s"
  using replacement_rune [of s] valid_utf8_step [of "replacement @ s"] by (simp add: replacement_def)

lemma simple_escape_ascii: "simple_escape e = Some d \<Longrightarrow> byte d < 0x80"
  by (auto simp: simple_escape_def split: if_splits)

lemma valid_unquote: "valid_utf8 (unquote s)"
proof (induction s rule: length_induct)
  case (1 s)
  have IH: "valid_utf8 (unquote t)" if "length t < length s" for t using 1 that by blast
  show ?case
  proof (cases "s = []")
    case True
    then show ?thesis by (simp add: unquote.simps)
  next
    case ne: False
    show ?thesis
    proof (cases "hd s = CHR 0x5C")
      case True
      show ?thesis
      proof (cases "getu4 s")
        case None
        then show ?thesis using IH ne True
          by (subst unquote.simps) (auto split: option.split dest: simple_escape_ascii
              simp: valid_utf8_step [OF rune_len_ascii])
      next
        case (Some n)
        note n = Some getu4_less [OF Some]
        show ?thesis
        proof (cases "surrogate n")
          case False
          then show ?thesis using IH ne True n
            by (subst unquote.simps) (simp add: valid_rune_bytes)
        next
          case sg: True
          show ?thesis
          proof (cases "getu4 (drop 6 s)")
            case None
            then show ?thesis using IH ne True n sg
              by (subst unquote.simps) (simp add: valid_replacement)
          next
            case m: (Some m)
            show ?thesis
            proof (cases "n < 0xDC00 \<and> 0xDC00 \<le> m \<and> m < 0xE000")
              case p: True
              let ?r = "0x10000 + (n - 0xD800) * 1024 + (m - 0xDC00)"
              have "n - 0xD800 < 1024" "m - 0xDC00 < 1024" using p sg by (auto simp: surrogate_def)
              then have "(n - 0xD800) * 1024 + (m - 0xDC00) < 1048576" by linarith
              then have "?r < 0x110000" "\<not> surrogate ?r" by (auto simp: surrogate_def)
              then show ?thesis using IH ne True n sg m p
                by (subst unquote.simps) (simp add: valid_rune_bytes)
            next
              case q: False
              then show ?thesis using IH ne True n sg m
                by (subst unquote.simps) (auto simp: valid_replacement)
            qed
          qed
        qed
      qed
    next
      case False
      show ?thesis
      proof (cases "rune_len s")
        case None
        then show ?thesis using IH ne False
          by (subst unquote.simps) (simp add: valid_replacement)
      next
        case (Some n)
        have "rune_len (take n s @ unquote (drop n s)) = Some n"
          using Some rune_len_take [OF Some order_refl] rune_len_append by blast
        then show ?thesis using IH ne False Some rune_len_bounds [OF Some]
          by (subst unquote.simps) (simp add: valid_utf8_step)
      qed
    qed
  qed
qed

text \<open>All strings of a decoded value, keys included.\<close>

fun text_ok :: "json \<Rightarrow> bool" where
  "text_ok (JStr s) = valid_utf8 s"
| "text_ok (JArr vs) = list_all text_ok vs"
| "text_ok (JObj kvs) = list_all (\<lambda>kv. valid_utf8 (fst kv) \<and> text_ok (snd kv)) kvs"
| "text_ok _ = True"

lemma text_ok_cook: "text_ok (cook r)"
proof (induction r)
  case (RObj fs)
  then show ?case by (fastforce simp: list_all_iff valid_unquote)
qed (auto simp: valid_unquote list_all_iff)

lemma text_ok_parse_go: "parse_go s = Some v \<Longrightarrow> text_ok v"
  using text_ok_cook by (auto simp: parse_go_def)

text \<open>An invariant that every field keeps is kept by decoding into a struct.\<close>

lemma set_fields_invariant:
  assumes "set_fields table kvs s = Some s'" and "P s" and "list_all (\<lambda>kv. text_ok (snd kv)) kvs"
    and "\<And>k f v s s'. (k, f) \<in> set table \<Longrightarrow> text_ok v \<Longrightarrow> P s \<Longrightarrow> f v s = Some s' \<Longrightarrow> P s'"
  shows "P s'"
  using assms(1-3)
proof (induction kvs arbitrary: s)
  case (Cons kv kvs)
  show ?case
  proof (cases "field_named table (fst kv)")
    case (Some f)
    have "\<exists>k. (k, f) \<in> set table"
      using Some by (auto simp: field_named_def find_Some_iff in_set_conv_nth split: option.splits dest!: map_of_SomeD)
        (metis eq_fst_iff eq_snd_iff)
    then show ?thesis using Cons Some assms(4) by (auto split: option.splits)
  qed (use Cons in auto)
qed simp

lemma into_struct_invariant:
  assumes "into_struct table v s = Some s'" and "text_ok v" and "P s"
    and "\<And>k f v s s'. (k, f) \<in> set table \<Longrightarrow> text_ok v \<Longrightarrow> P s \<Longrightarrow> f v s = Some s' \<Longrightarrow> P s'"
  shows "P s'"
proof (cases v)
  case (JObj kvs)
  have "list_all (\<lambda>kv. text_ok (snd kv)) kvs" using assms(2) JObj by (auto simp: list_all_iff)
  with assms JObj show ?thesis by (auto simp: into_struct_def intro: set_fields_invariant)
qed (use assms in \<open>auto simp: into_struct_def\<close>)

lemma into_string_valid: "into_string v old = Some s \<Longrightarrow> text_ok v \<Longrightarrow> valid_utf8 old \<Longrightarrow> valid_utf8 s"
  by (auto simp: into_string_def split: json.splits)

end
