(* ===== verification/Go_Strings.thy ===== *)
theory Go_Strings
  imports Utf8
begin

text \<open>
  Functions of Go's \<open>strings\<close> package on byte strings, as the network adapters use them.
\<close>

subsection \<open>Case and affixes\<close>

text \<open>
  \<open>strings.ToLower\<close> as far as a comparison with an ASCII word can see it: besides the ASCII
  letters only the dotted I and the Kelvin sign have an ASCII lower case.
\<close>

function lower :: "bytes \<Rightarrow> bytes" where
  "lower s =
     (if s = [] then []
      else if take 2 s = [CHR 0xC4, CHR 0xB0] then CHR ''i'' # lower (drop 2 s)
      else if take 3 s = [CHR 0xE2, CHR 0x84, CHR 0xAA] then CHR ''k'' # lower (drop 3 s)
      else (if 65 \<le> byte (hd s) \<and> byte (hd s) \<le> 90 then char_of (byte (hd s) + 32) else hd s) # lower (tl s))"
  by pat_completeness auto
termination
  by (relation "measure length") auto

declare lower.simps [simp del]

definition has_suffix :: "bytes \<Rightarrow> bytes \<Rightarrow> bool" where
  "has_suffix s p = (length p \<le> length s \<and> drop (length s - length p) s = p)"

definition trim_suffix :: "bytes \<Rightarrow> bytes \<Rightarrow> bytes" where
  "trim_suffix s p = (if length p \<le> length s \<and> drop (length s - length p) s = p then take (length s - length p) s else s)"

definition has_prefix :: "bytes \<Rightarrow> bytes \<Rightarrow> bool" where
  "has_prefix s p = (take (length p) s = p)"

definition trim_prefix :: "bytes \<Rightarrow> bytes \<Rightarrow> bytes" where
  "trim_prefix s p = (if has_prefix s p then drop (length p) s else s)"

subsection \<open>Splitting\<close>

text \<open>\<open>strings.Split\<close> at a one-character separator.\<close>

fun split_at :: "char \<Rightarrow> bytes \<Rightarrow> bytes list" where
  "split_at sep [] = [[]]"
| "split_at sep (c # s) = (if c = sep then [] # split_at sep s else (c # hd (split_at sep s)) # tl (split_at sep s))"

lemma split_at_none: "sep \<notin> set s \<Longrightarrow> split_at sep s = [s]"
  by (induction s) auto

lemma split_at_append: "sep \<notin> set p \<Longrightarrow> split_at sep (p @ sep # q) = p # split_at sep q"
  by (induction p) auto

lemma split_at_nonempty: "split_at sep s \<noteq> []"
  by (cases s) auto

lemma split_at_one: "split_at sep s = [p] \<Longrightarrow> s = p"
proof (induction s arbitrary: p)
  case (Cons c s)
  then show ?case using split_at_nonempty [of sep s] by (cases "split_at sep s") (auto split: if_splits)
qed simp

lemma split_at_two: "split_at sep s = [p, q] \<Longrightarrow> s = p @ sep # q"
proof (induction s arbitrary: p)
  case (Cons c s)
  then show ?case using split_at_nonempty [of sep s]
    by (cases "split_at sep s") (auto split: if_splits dest: split_at_one)
qed simp

end
