(* ===== verification/Modelfile.thy ===== *)
theory Modelfile
  imports Utf8
begin

text \<open>
  \<open>internal/adapters/ollama/modelfile.go\<close>: the check that a generated Modelfile holds nothing
  but a source, one template, the expected system text and harmless trailing commands.
\<close>

subsection \<open>Strings\<close>

definition blank :: "char \<Rightarrow> bool" where
  "blank c = (c = CHR 0x20 \<or> c = CHR 0x09)"

definition line_end :: "char \<Rightarrow> bool" where
  "line_end c = (c = CHR 0x0D \<or> c = CHR 0x0A)"

definition space_char :: "char \<Rightarrow> bool" where
  "space_char c = (blank c \<or> line_end c)"

text \<open>
  \<open>strings.ToUpper\<close> as far as a comparison with an ASCII word can see it: besides the ASCII
  letters only the dotless i and the long s have an ASCII upper case.
\<close>

function upper :: "bytes \<Rightarrow> bytes" where
  "upper s =
     (if s = [] then []
      else if take 2 s = [CHR 0xC4, CHR 0xB1] then CHR ''I'' # upper (drop 2 s)
      else if take 2 s = [CHR 0xC5, CHR 0xBF] then CHR ''S'' # upper (drop 2 s)
      else (if 97 \<le> byte (hd s) \<and> byte (hd s) \<le> 122 then char_of (byte (hd s) - 32) else hd s) # upper (tl s))"
  by pat_completeness auto
termination
  by (relation "measure length") auto

declare upper.simps [simp del]

text \<open>\<open>strings.Index\<close> of a non-empty pattern, as the text before and after its first occurrence.\<close>

fun cut :: "bytes \<Rightarrow> bytes \<Rightarrow> (bytes \<times> bytes) option" where
  "cut p s =
     (if take (length p) s = p then Some ([], drop (length p) s)
      else (case s of [] \<Rightarrow> None | c # cs \<Rightarrow> map_option (apfst ((#) c)) (cut p cs)))"

declare cut.simps [simp del]

definition modelfileLine :: "bytes \<Rightarrow> bytes \<times> bytes" where
  "modelfileLine s = (takeWhile (\<lambda>c. \<not> line_end c) s, drop 1 (dropWhile (\<lambda>c. \<not> line_end c) s))"

definition quote3 :: bytes where
  "quote3 = [CHR 0x22, CHR 0x22, CHR 0x22]"

definition modelfileValue :: "bytes \<Rightarrow> (bytes \<times> bytes) option" where
  "modelfileValue s =
     (if s = [] \<or> line_end (hd s) then None
      else let delimiter = (if take 3 s = quote3 then quote3 else if hd s = CHR 0x22 then [CHR 0x22] else []) in
        if delimiter = [] then (case modelfileLine s of (value, rest) \<Rightarrow> Some (TrimSpace value, rest))
        else (case cut delimiter (drop (length delimiter) s) of
            None \<Rightarrow> None
          | Some (value, after) \<Rightarrow>
              (case modelfileLine after of (line, rest) \<Rightarrow>
                if dropWhile blank line = [] then Some (value, rest) else None)))"

subsection \<open>The loop over the commands\<close>

record mf_state =
  mf_from :: bool
  mf_template :: bool
  mf_system :: bool
  mf_tail :: bool

definition word_char :: "char \<Rightarrow> bool" where
  "word_char c = (97 \<le> byte c \<and> byte c \<le> 122 \<or> 65 \<le> byte c \<and> byte c \<le> 90 \<or> 48 \<le> byte c \<and> byte c \<le> 57 \<or> byte c = 95)"

text \<open>The name of a \<open>PARAMETER\<close>, consumed before its value.\<close>

definition parameter_rest :: "bytes \<Rightarrow> bytes option" where
  "parameter_rest s =
     (let name = takeWhile (\<lambda>c. \<not> space_char c) s; r = dropWhile (\<lambda>c. \<not> space_char c) s in
      if r = [] \<or> name = [] \<or> line_end (hd r) then None
      else if \<not> list_all word_char name then None
      else Some (dropWhile blank r))"

text \<open>
  One command whose line begins at \<open>s\<close> (its first byte is neither white space nor \<open>#\<close>): the
  new flags and the text behind the command, or \<open>None\<close> where the source returns false.
\<close>

definition modelfile_command ::
  "bytes \<Rightarrow> bytes \<Rightarrow> bytes \<Rightarrow> mf_state \<Rightarrow> (mf_state \<times> bytes) option" where
  "modelfile_command template system s m =
     (let word = takeWhile (\<lambda>c. \<not> space_char c) s; r = dropWhile (\<lambda>c. \<not> space_char c) s;
          command = upper word; src = dropWhile blank r in
      if r = [] \<or> line_end (hd r) then None
      else if command = ''RENDERER'' \<or> command = ''MESSAGE'' then None
      else if command = ''FROM'' \<or> command = ''ADAPTER'' then
        (case modelfileLine src of (value, remaining) \<Rightarrow>
           if TrimSpace value = [] \<or> list_ex (\<lambda>c. c = CHR 0x22 \<or> c = CHR 0x09) value \<or> mf_template m \<or> mf_tail m then None
           else if command = ''FROM'' then (if mf_from m then None else Some (m\<lparr>mf_from := True\<rparr>, remaining))
           else if \<not> mf_from m then None else Some (m, remaining))
      else
        (case (if command = ''TEMPLATE'' then
                 (if \<not> mf_from m \<or> mf_template m \<or> mf_tail m then None else Some (m, src))
               else if command = ''SYSTEM'' then
                 (if \<not> mf_template m \<or> mf_system m \<or> mf_tail m \<or> system = [] then None else Some (m, src))
               else if command = ''LICENSE'' \<or> command = ''PARSER'' \<or> command = ''REQUIRES'' then
                 (if \<not> mf_template m \<or> system \<noteq> [] \<and> \<not> mf_system m then None else Some (m\<lparr>mf_tail := True\<rparr>, src))
               else if command = ''PARAMETER'' then
                 (if \<not> mf_template m \<or> system \<noteq> [] \<and> \<not> mf_system m then None
                  else map_option (\<lambda>r. (m\<lparr>mf_tail := True\<rparr>, r)) (parameter_rest src))
               else None) of
           None \<Rightarrow> None
         | Some (m', src') \<Rightarrow>
             (case modelfileValue src' of
                None \<Rightarrow> None
              | Some (value, remaining) \<Rightarrow>
                  if value = [] \<and> command \<noteq> ''PARAMETER'' then None
                  else if command = ''TEMPLATE'' then
                    (if value \<noteq> template then None else Some (m'\<lparr>mf_template := True\<rparr>, remaining))
                  else if command = ''SYSTEM'' then
                    (if value \<noteq> system then None else Some (m'\<lparr>mf_system := True\<rparr>, remaining))
                  else Some (m', remaining))))"

lemma dropWhile_length: "length (dropWhile p s) \<le> length s"
  by (induction s) auto

lemma modelfileLine_length: "length (snd (modelfileLine s)) \<le> length s - 1"
proof -
  have "length (dropWhile (\<lambda>c. \<not> line_end c) s) \<le> length s" by (rule dropWhile_length)
  then show ?thesis by (auto simp: modelfileLine_def)
qed

lemma cut_length: "cut p s = Some (a, b) \<Longrightarrow> s = a @ p @ b"
proof (induction s arbitrary: a)
  case Nil
  then show ?case by (simp add: cut.simps [of p "[]"] split: if_splits)
next
  case (Cons c s)
  show ?case
  proof (cases "take (length p) (c # s) = p")
    case True
    then show ?thesis using Cons.prems append_take_drop_id [of "length p" "c # s"] by (simp add: cut.simps [of p "c # s"])
  next
    case False
    with Cons show ?thesis by (auto simp: cut.simps [of p "c # s"])
  qed
qed

lemma modelfileValue_length: "modelfileValue s = Some (v, r) \<Longrightarrow> length r < length s"
proof -
  assume v: "modelfileValue s = Some (v, r)"
  then have s: "s \<noteq> []" by (auto simp: modelfileValue_def)
  show ?thesis
  proof (cases "hd s = CHR 0x22 \<or> take 3 s = quote3")
    case False
    with v have "r = snd (modelfileLine s)" by (auto simp: modelfileValue_def Let_def split: if_splits prod.splits)
    with modelfileLine_length [of s] s show ?thesis by (cases s) auto
  next
    case True
    define d where "d = (if take 3 s = quote3 then quote3 else if hd s = CHR 0x22 then [CHR 0x22] else [])"
    have d: "d \<noteq> []" using True by (auto simp: d_def quote3_def)
    then obtain a where "cut d (drop (length d) s) = Some (v, a)" "r = snd (modelfileLine a)"
      using v unfolding modelfileValue_def d_def [symmetric] Let_def by (auto split: if_splits prod.splits option.splits)
    note a = this d
    then have "length a \<le> length s - length d" "length r \<le> length a" "0 < length d"
      using a cut_length [of d "drop (length d) s" v a] modelfileLine_length [of a] by (auto dest: arg_cong [of _ _ length])
    moreover have "0 < length s" using s by simp
    ultimately show ?thesis by linarith
  qed
qed

lemma modelfile_command_length:
  assumes "modelfile_command template system s m = Some (m', r)"
  shows "length r < length s"
proof -
  let ?src = "dropWhile blank (dropWhile (\<lambda>c. \<not> space_char c) s)"
  have le: "length ?src \<le> length s" using dropWhile_length le_trans by blast
  have s: "s \<noteq> []" using assms by (auto simp: modelfile_command_def Let_def)
  have "r = snd (modelfileLine ?src) \<or> (\<exists>src' v. length src' \<le> length ?src \<and> modelfileValue src' = Some (v, r))"
    using assms dropWhile_length le_trans
    by (auto simp: modelfile_command_def parameter_rest_def Let_def split: if_splits option.splits prod.splits; blast)
  then show ?thesis
  proof
    assume "r = snd (modelfileLine ?src)"
    with modelfileLine_length [of ?src] le s show ?thesis by (cases s) auto
  next
    assume "\<exists>src' v. length src' \<le> length ?src \<and> modelfileValue src' = Some (v, r)"
    with modelfileValue_length le show ?thesis by fastforce
  qed
qed

function modelfile_loop :: "bytes \<Rightarrow> bytes \<Rightarrow> bytes \<Rightarrow> mf_state \<Rightarrow> mf_state option" where
  "modelfile_loop template system source m =
     (let s = dropWhile space_char source in
      if s = [] then Some m
      else if hd s = CHR ''#'' then modelfile_loop template system (snd (modelfileLine s)) m
      else (case modelfile_command template system s m of
          None \<Rightarrow> None | Some (m', r) \<Rightarrow> modelfile_loop template system r m'))"
  by pat_completeness auto
termination
proof (relation "measure (\<lambda>(_, _, s, _). length s)", goal_cases)
  case (2 template system source m s)
  then have "s \<noteq> []" "length s \<le> length source" using dropWhile_length by auto
  with modelfileLine_length [of s] have "length (snd (modelfileLine s)) < length source" by (cases s) auto
  then show ?case by simp
next
  case (3 template system source m s x m' r)
  then have "length r < length s" "length s \<le> length source"
    using modelfile_command_length dropWhile_length by auto
  then show ?case by simp
qed simp

declare modelfile_loop.simps [simp del]

definition templateOnlyModelfile :: "bytes \<Rightarrow> bytes \<Rightarrow> bytes \<Rightarrow> bool" where
  "templateOnlyModelfile source template system =
     (if source = [] \<or> CHR 0x00 \<in> set source then False
      else (case modelfile_loop template system source \<lparr>mf_from = False, mf_template = False, mf_system = False, mf_tail = False\<rparr> of
          None \<Rightarrow> False
        | Some m \<Rightarrow> mf_from m \<and> mf_template m \<and> (system = [] \<or> mf_system m)))"

subsection \<open>The accepted files as a grammar\<close>

text \<open>
  The specification separates reading from judging: \<open>read_directives\<close> splits the text into
  commands with their values, and \<open>plain_modelfile\<close> says which command lists are harmless.
\<close>

definition read_directive :: "bytes \<Rightarrow> (bytes \<times> bytes \<times> bytes) option" where
  "read_directive s =
     (let r = dropWhile (\<lambda>c. \<not> space_char c) s; command = upper (takeWhile (\<lambda>c. \<not> space_char c) s); src = dropWhile blank r in
      if r = [] \<or> line_end (hd r) then None
      else if command = ''FROM'' \<or> command = ''ADAPTER'' then Some (command, modelfileLine src)
      else (case (if command = ''PARAMETER'' then parameter_rest src else Some src) of
          None \<Rightarrow> None
        | Some src' \<Rightarrow> map_option (\<lambda>vr. (command, vr)) (modelfileValue src')))"

lemma read_directive_length: "read_directive s = Some (c, v, r) \<Longrightarrow> length r < length s"
proof -
  assume d: "read_directive s = Some (c, v, r)"
  let ?src = "dropWhile blank (dropWhile (\<lambda>c. \<not> space_char c) s)"
  have le: "length ?src \<le> length s" using dropWhile_length le_trans by blast
  have s: "s \<noteq> []" using d by (auto simp: read_directive_def Let_def)
  have "r = snd (modelfileLine ?src) \<or> (\<exists>src' v. length src' \<le> length ?src \<and> modelfileValue src' = Some (v, r))"
    using d dropWhile_length le_trans
    by (auto simp: read_directive_def parameter_rest_def Let_def split: if_splits option.splits; blast)
  then show ?thesis
  proof
    assume "r = snd (modelfileLine ?src)"
    with modelfileLine_length [of ?src] le s show ?thesis by (cases s) auto
  next
    assume "\<exists>src' v. length src' \<le> length ?src \<and> modelfileValue src' = Some (v, r)"
    with modelfileValue_length le show ?thesis by fastforce
  qed
qed

function read_directives :: "bytes \<Rightarrow> (bytes \<times> bytes) list option" where
  "read_directives source =
     (let s = dropWhile space_char source in
      if s = [] then Some []
      else if hd s = CHR ''#'' then read_directives (snd (modelfileLine s))
      else (case read_directive s of
          None \<Rightarrow> None | Some (c, v, r) \<Rightarrow> map_option ((#) (c, v)) (read_directives r)))"
  by pat_completeness auto
termination
proof (relation "measure length", goal_cases)
  case (2 source s)
  then have "s \<noteq> []" "length s \<le> length source" using dropWhile_length by auto
  with modelfileLine_length [of s] have "length (snd (modelfileLine s)) < length source" by (cases s) auto
  then show ?case by simp
next
  case (3 source s x c y v r)
  then have "length r < length s" "length s \<le> length source"
    using read_directive_length dropWhile_length by auto
  then show ?case by simp
qed simp

declare read_directives.simps [simp del]

definition path_ok :: "bytes \<Rightarrow> bool" where
  "path_ok v = (TrimSpace v \<noteq> [] \<and> list_all (\<lambda>c. c \<noteq> CHR 0x22 \<and> c \<noteq> CHR 0x09) v)"

definition tail_ok :: "bytes \<times> bytes \<Rightarrow> bool" where
  "tail_ok d = (fst d \<in> {''LICENSE'', ''PARSER'', ''REQUIRES''} \<and> snd d \<noteq> [] \<or> fst d = ''PARAMETER'')"

definition plain_modelfile :: "bytes \<Rightarrow> bytes \<Rightarrow> (bytes \<times> bytes) list \<Rightarrow> bool" where
  "plain_modelfile template system ds =
     (\<exists>path adapters tail. ds = (''FROM'', path) # map (Pair ''ADAPTER'') adapters @ (''TEMPLATE'', template) #
        (if system = [] then [] else [(''SYSTEM'', system)]) @ tail \<and>
        path_ok path \<and> list_all path_ok adapters \<and> list_all tail_ok tail)"

text \<open>The loop judges a command by the flags alone.\<close>

definition mf_step :: "bytes \<Rightarrow> bytes \<Rightarrow> mf_state \<Rightarrow> bytes \<Rightarrow> bytes \<Rightarrow> mf_state option" where
  "mf_step template system m c v =
     (if c = ''FROM'' then (if path_ok v \<and> \<not> mf_template m \<and> \<not> mf_tail m \<and> \<not> mf_from m then Some (m\<lparr>mf_from := True\<rparr>) else None)
      else if c = ''ADAPTER'' then (if path_ok v \<and> \<not> mf_template m \<and> \<not> mf_tail m \<and> mf_from m then Some m else None)
      else if c = ''TEMPLATE'' then
        (if mf_from m \<and> \<not> mf_template m \<and> \<not> mf_tail m \<and> v = template \<and> v \<noteq> [] then Some (m\<lparr>mf_template := True\<rparr>) else None)
      else if c = ''SYSTEM'' then
        (if mf_template m \<and> \<not> mf_system m \<and> \<not> mf_tail m \<and> v = system \<and> v \<noteq> [] then Some (m\<lparr>mf_system := True\<rparr>) else None)
      else if tail_ok (c, v) \<and> mf_template m \<and> (system = [] \<or> mf_system m) then Some (m\<lparr>mf_tail := True\<rparr>) else None)"

lemma modelfile_command_step:
  "modelfile_command template system s m =
     (case read_directive s of None \<Rightarrow> None
      | Some (c, v, r) \<Rightarrow> map_option (\<lambda>m'. (m', r)) (mf_step template system m c v))"
proof -
  have p: "path_ok v \<longleftrightarrow> \<not> (TrimSpace v = [] \<or> list_ex (\<lambda>c. c = CHR 0x22 \<or> c = CHR 0x09) v)" for v
    by (auto simp: path_ok_def list_all_iff list_ex_iff)
  define r where "r = dropWhile (\<lambda>c. \<not> space_char c) s"
  define c where "c = upper (takeWhile (\<lambda>c. \<not> space_char c) s)"
  note folds = r_def [symmetric] c_def [symmetric]
  show ?thesis
  proof (cases "r = [] \<or> line_end (hd r)")
    case True
    then show ?thesis by (simp add: modelfile_command_def read_directive_def folds Let_def)
  next
    case False
    have "c = x1 \<or> c = x2 \<or> c = x3 \<or> c = x4 \<or> c = x5 \<or> c \<in> {y1, y2, y3} \<or> c \<in> {z1, z2} \<or>
        c \<notin> {x1, x2, x3, x4, x5, y1, y2, y3, z1, z2}" for x1 x2 x3 x4 x5 y1 y2 y3 z1 z2 by blast
    from this [of "''FROM''" "''ADAPTER''" "''TEMPLATE''" "''SYSTEM''" "''PARAMETER''" "''LICENSE''" "''PARSER''" "''REQUIRES''"
        "''RENDERER''" "''MESSAGE''"]
    consider "c = ''FROM''" | "c = ''ADAPTER''" | "c = ''TEMPLATE''" | "c = ''SYSTEM''" | "c = ''PARAMETER''"
      | "c \<in> {''LICENSE'', ''PARSER'', ''REQUIRES''}" | "c \<in> {''RENDERER'', ''MESSAGE''}"
      | "c \<notin> {''FROM'', ''ADAPTER'', ''TEMPLATE'', ''SYSTEM'', ''PARAMETER'', ''LICENSE'', ''PARSER'', ''REQUIRES'', ''RENDERER'', ''MESSAGE''}"
      by (elim disjE)
    then show ?thesis
    proof cases
      case 1
      with False show ?thesis
        by (simp add: modelfile_command_def read_directive_def mf_step_def p folds Let_def split: prod.split)
    next
      case 2
      with False show ?thesis
        by (simp add: modelfile_command_def read_directive_def mf_step_def p folds Let_def split: prod.split)
    next
      case 3
      with False show ?thesis
        by (simp add: modelfile_command_def read_directive_def mf_step_def folds Let_def split: option.split)
    next
      case 4
      with False show ?thesis
        by (simp add: modelfile_command_def read_directive_def mf_step_def folds Let_def split: option.split)
    next
      case 5
      have "modelfile_command template system s m =
          (if \<not> mf_template m \<or> system \<noteq> [] \<and> \<not> mf_system m then None
           else (case parameter_rest (dropWhile blank r) of None \<Rightarrow> None
             | Some src \<Rightarrow> map_option (\<lambda>vr. (m\<lparr>mf_tail := True\<rparr>, snd vr)) (modelfileValue src)))"
        using False 5 unfolding modelfile_command_def folds Let_def
        by (cases "parameter_rest (dropWhile blank r)") (simp_all split: option.split)
      moreover have "read_directive s = (case parameter_rest (dropWhile blank r) of None \<Rightarrow> None
          | Some src \<Rightarrow> map_option (\<lambda>vr. (c, vr)) (modelfileValue src))"
        using False 5 unfolding read_directive_def folds Let_def by simp
      moreover have "mf_step template system m c v =
          (if \<not> mf_template m \<or> system \<noteq> [] \<and> \<not> mf_system m then None else Some (m\<lparr>mf_tail := True\<rparr>))" for v
        using 5 by (simp add: mf_step_def tail_ok_def)
      ultimately show ?thesis by (auto split: option.split)
    next
      case 6
      then consider "c = ''LICENSE''" | "c = ''PARSER''" | "c = ''REQUIRES''" by (simp only: insert_iff empty_iff simp_thms) (elim disjE)
      then show ?thesis
        by cases (use False in \<open>simp add: modelfile_command_def read_directive_def mf_step_def tail_ok_def folds Let_def split: option.split\<close>)+
    next
      case 7
      then consider "c = ''RENDERER''" | "c = ''MESSAGE''" by (simp only: insert_iff empty_iff simp_thms) (elim disjE)
      then show ?thesis
        by cases (use False in \<open>simp add: modelfile_command_def read_directive_def mf_step_def tail_ok_def folds Let_def split: option.split\<close>)+
    next
      case 8
      with False show ?thesis
        by (simp only: insert_iff empty_iff simp_thms de_Morgan_disj) (simp add: modelfile_command_def read_directive_def mf_step_def tail_ok_def folds Let_def split: option.split)
    qed
  qed
qed

fun mf_run :: "bytes \<Rightarrow> bytes \<Rightarrow> mf_state \<Rightarrow> (bytes \<times> bytes) list \<Rightarrow> mf_state option" where
  "mf_run template system m [] = Some m"
| "mf_run template system m (d # ds) =
     (case mf_step template system m (fst d) (snd d) of None \<Rightarrow> None | Some m' \<Rightarrow> mf_run template system m' ds)"

lemma modelfile_loop_run:
  "modelfile_loop template system source m =
     (case read_directives source of None \<Rightarrow> None | Some ds \<Rightarrow> mf_run template system m ds)"
proof (induction source arbitrary: m rule: read_directives.induct)
  case (1 source)
  show ?case
    using 1 by (subst modelfile_loop.simps, subst read_directives.simps)
      (auto simp: Let_def modelfile_command_step split: option.split)
qed

definition mf_accepts :: "bytes \<Rightarrow> bytes \<Rightarrow> mf_state \<Rightarrow> (bytes \<times> bytes) list \<Rightarrow> bool" where
  "mf_accepts template system m ds =
     (case mf_run template system m ds of None \<Rightarrow> False | Some m' \<Rightarrow> mf_from m' \<and> mf_template m' \<and> (system = [] \<or> mf_system m'))"

lemma mf_accepts_Nil: "mf_accepts template system m [] \<longleftrightarrow> mf_from m \<and> mf_template m \<and> (system = [] \<or> mf_system m)"
  by (simp add: mf_accepts_def)

lemma mf_accepts_Cons:
  "mf_accepts template system m (d # ds) \<longleftrightarrow>
   (\<exists>m'. mf_step template system m (fst d) (snd d) = Some m' \<and> mf_accepts template system m' ds)"
  by (auto simp: mf_accepts_def split: option.split)

lemma tail_names: "tail_ok d \<Longrightarrow> fst d \<notin> {''FROM'', ''ADAPTER'', ''TEMPLATE'', ''SYSTEM''}"
  by (cases d) (auto simp: tail_ok_def)

lemma mf_step_names:
  "mf_step template system m ''FROM'' v = (if path_ok v \<and> \<not> mf_template m \<and> \<not> mf_tail m \<and> \<not> mf_from m then Some (m\<lparr>mf_from := True\<rparr>) else None)"
  "mf_step template system m ''ADAPTER'' v = (if path_ok v \<and> \<not> mf_template m \<and> \<not> mf_tail m \<and> mf_from m then Some m else None)"
  "mf_step template system m ''TEMPLATE'' v =
     (if mf_from m \<and> \<not> mf_template m \<and> \<not> mf_tail m \<and> v = template \<and> v \<noteq> [] then Some (m\<lparr>mf_template := True\<rparr>) else None)"
  "mf_step template system m ''SYSTEM'' v =
     (if mf_template m \<and> \<not> mf_system m \<and> \<not> mf_tail m \<and> v = system \<and> v \<noteq> [] then Some (m\<lparr>mf_system := True\<rparr>) else None)"
  by (simp_all add: mf_step_def)

lemma mf_step_tail:
  assumes "c \<notin> {''FROM'', ''ADAPTER'', ''TEMPLATE'', ''SYSTEM''}"
  shows "mf_step template system m c v =
    (if tail_ok (c, v) \<and> mf_template m \<and> (system = [] \<or> mf_system m) then Some (m\<lparr>mf_tail := True\<rparr>) else None)"
  using assms unfolding mf_step_def by (simp only: insert_iff empty_iff simp_thms de_Morgan_disj if_False)

lemma command_cases:
  obtains "c = ''FROM''" | "c = ''ADAPTER''" | "c = ''TEMPLATE''" | "c = ''SYSTEM''"
    | "c \<notin> {''FROM'', ''ADAPTER'', ''TEMPLATE'', ''SYSTEM''}"
proof -
  have "c = x1 \<or> c = x2 \<or> c = x3 \<or> c = x4 \<or> c \<notin> {x1, x2, x3, x4}" for x1 x2 x3 x4 by blast
  from this [of "''FROM''" "''ADAPTER''" "''TEMPLATE''" "''SYSTEM''"] show thesis
    using that by (elim disjE)
qed

text \<open>What is accepted once the system text has been settled, before it, and before the template.\<close>

lemma mf_accepts_tail:
  assumes "mf_from m" "mf_template m" "system = [] \<or> mf_system m"
  shows "mf_accepts template system m ds \<longleftrightarrow> list_all tail_ok ds"
  using assms
proof (induction ds arbitrary: m)
  case Nil
  then show ?case by (simp add: mf_accepts_Nil)
next
  case (Cons d ds)
  obtain c v where d: "d = (c, v)" by (cases d)
  have no: "\<not> tail_ok (c, v)" if "c \<in> {''FROM'', ''ADAPTER'', ''TEMPLATE'', ''SYSTEM''}" using tail_names [of "(c, v)"] that by auto
  show ?case
  proof (cases c rule: command_cases)
    case 5
    then show ?thesis using Cons by (auto simp: mf_accepts_Cons d mf_step_tail)
  qed (use Cons.prems no in \<open>auto simp: mf_accepts_Cons d mf_step_names\<close>)
qed

lemma mf_accepts_system:
  assumes "mf_from m" "mf_template m" "system \<noteq> []" "\<not> mf_system m" "\<not> mf_tail m"
  shows "mf_accepts template system m ds \<longleftrightarrow> (\<exists>tail. ds = (''SYSTEM'', system) # tail \<and> list_all tail_ok tail)"
proof (cases ds)
  case Nil
  then show ?thesis using assms by (simp add: mf_accepts_Nil)
next
  case (Cons d ds')
  obtain c v where d: "d = (c, v)" by (cases d)
  show ?thesis
  proof (cases c rule: command_cases)
    case 4
    then show ?thesis
      using assms mf_accepts_tail [of "m\<lparr>mf_system := True\<rparr>" system template ds']
      by (auto simp: Cons mf_accepts_Cons d mf_step_names)
  next
    case 5
    then have "c \<noteq> ''SYSTEM''" by auto
    then show ?thesis using assms by (simp add: Cons mf_accepts_Cons d mf_step_tail [OF 5])
  qed (use assms in \<open>simp_all add: Cons mf_accepts_Cons d mf_step_names\<close>)
qed

lemma mf_accepts_template:
  assumes "mf_from m" "\<not> mf_template m" "\<not> mf_system m" "\<not> mf_tail m" "template \<noteq> []"
  shows "mf_accepts template system m ds \<longleftrightarrow>
    (\<exists>adapters tail. ds = map (Pair ''ADAPTER'') adapters @ (''TEMPLATE'', template) #
        (if system = [] then [] else [(''SYSTEM'', system)]) @ tail \<and> list_all path_ok adapters \<and> list_all tail_ok tail)"
    (is "_ \<longleftrightarrow> ?P ds")
  using assms
proof (induction ds)
  case Nil
  then show ?case by (simp add: mf_accepts_Nil)
next
  case (Cons d ds)
  obtain c v where d: "d = (c, v)" by (cases d)
  let ?rest = "(''TEMPLATE'', template) # (if system = [] then [] else [(''SYSTEM'', system)])"
  have split: "(\<exists>adapters tail. d # ds = map (Pair ''ADAPTER'') adapters @ ?rest @ tail \<and> list_all path_ok adapters \<and> list_all tail_ok tail) \<longleftrightarrow>
      c = ''ADAPTER'' \<and> path_ok v \<and> (\<exists>adapters tail. ds = map (Pair ''ADAPTER'') adapters @ ?rest @ tail \<and> list_all path_ok adapters \<and> list_all tail_ok tail) \<or>
      c = ''TEMPLATE'' \<and> v = template \<and> (\<exists>tail. ds = (if system = [] then [] else [(''SYSTEM'', system)]) @ tail \<and> list_all tail_ok tail)"
    (is "?L \<longleftrightarrow> ?A \<or> ?T")
  proof
    assume ?L
    then obtain adapters tail where l: "d # ds = map (Pair ''ADAPTER'') adapters @ ?rest @ tail" "list_all path_ok adapters" "list_all tail_ok tail"
      by blast
    show "?A \<or> ?T"
    proof (cases adapters)
      case Nil
      with l d have ?T by simp
      then show ?thesis ..
    next
      case (Cons a as)
      with l d have "c = ''ADAPTER''" "v = a" "path_ok a" "ds = map (Pair ''ADAPTER'') as @ ?rest @ tail" "list_all path_ok as" by simp_all
      with l(3) have ?A by blast
      then show ?thesis ..
    qed
  next
    assume "?A \<or> ?T"
    then show ?L
    proof
      assume ?A
      then obtain as tail where "ds = map (Pair ''ADAPTER'') as @ ?rest @ tail" "list_all path_ok as" "list_all tail_ok tail"
        "c = ''ADAPTER''" "path_ok v" by blast
      then show ?L by (intro exI [of _ "v # as"] exI [of _ tail]) (simp add: d)
    next
      assume ?T
      then obtain tail where "c = ''TEMPLATE''" "v = template" "ds = (if system = [] then [] else [(''SYSTEM'', system)]) @ tail"
        "list_all tail_ok tail" by blast
      then show ?L by (intro exI [of _ "[]"] exI [of _ tail]) (simp add: d)
    qed
  qed
  show ?case
  proof (cases c rule: command_cases)
    case 1
    then show ?thesis using Cons.prems split by (simp add: mf_accepts_Cons d mf_step_names)
  next
    case 2
    then show ?thesis using Cons split by (simp add: mf_accepts_Cons d mf_step_names)
  next
    case 3
    let ?m = "m\<lparr>mf_template := True\<rparr>"
    have "mf_accepts template system ?m ds \<longleftrightarrow> (\<exists>tail. ds = (if system = [] then [] else [(''SYSTEM'', system)]) @ tail \<and> list_all tail_ok tail)"
      using mf_accepts_tail [of ?m system template ds] mf_accepts_system [of ?m system template ds] Cons.prems by (cases "system = []") simp_all
    then show ?thesis using 3 Cons.prems split by (auto simp: mf_accepts_Cons d mf_step_names)
  next
    case 4
    then show ?thesis using Cons.prems split by (simp add: mf_accepts_Cons d mf_step_names)
  next
    case 5
    then have "c \<noteq> ''ADAPTER''" "c \<noteq> ''TEMPLATE''" by auto
    then show ?thesis using Cons.prems split by (simp add: mf_accepts_Cons d mf_step_tail [OF 5])
  qed
qed

lemma mf_accepts_start:
  assumes "template \<noteq> []"
  shows "mf_accepts template system \<lparr>mf_from = False, mf_template = False, mf_system = False, mf_tail = False\<rparr> ds \<longleftrightarrow>
    plain_modelfile template system ds"
proof (cases ds)
  case Nil
  then show ?thesis by (simp add: mf_accepts_Nil plain_modelfile_def)
next
  case (Cons d ds')
  obtain c v where d: "d = (c, v)" by (cases d)
  let ?m = "\<lparr>mf_from = True, mf_template = False, mf_system = False, mf_tail = False\<rparr>"
  show ?thesis
  proof (cases c rule: command_cases)
    case 1
    then show ?thesis
      using mf_accepts_template [of ?m template system ds'] assms
      by (auto simp: Cons mf_accepts_Cons d mf_step_names plain_modelfile_def)
  next
    case 5
    then have "c \<noteq> ''FROM''" by auto
    then show ?thesis by (simp add: Cons mf_accepts_Cons d mf_step_tail [OF 5] plain_modelfile_def)
  qed (simp_all add: Cons mf_accepts_Cons d mf_step_names plain_modelfile_def)
qed

lemma mf_no_template:
  "mf_run [] system m ds = Some m' \<Longrightarrow> mf_template m' = mf_template m"
proof (induction ds arbitrary: m)
  case (Cons d ds)
  then obtain m1 where m1: "mf_step [] system m (fst d) (snd d) = Some m1" "mf_run [] system m1 ds = Some m'"
    by (auto split: option.splits)
  have "mf_template m1 = mf_template m"
  proof (cases "fst d" rule: command_cases)
    case 5
    then show ?thesis using m1(1) unfolding mf_step_tail [OF 5] by (auto split: if_splits)
  qed (use m1(1) in \<open>auto simp: mf_step_names split: if_splits\<close>)
  with Cons.IH [OF m1(2)] show ?case by simp
qed simp

text \<open>
  C27. The Modelfile check is exact. A generated file is accepted if and only if its text reads
  as one source, adapters, exactly the expected template, exactly the expected system text
  (none when it is empty) and then only licence, parser, requirement and parameter commands;
  in particular no accepted file holds a renderer or message command.
\<close>

theorem templateOnlyModelfile_grammar:
  "templateOnlyModelfile source template system \<longleftrightarrow>
   source \<noteq> [] \<and> CHR 0x00 \<notin> set source \<and> template \<noteq> [] \<and>
   (\<exists>ds. read_directives source = Some ds \<and> plain_modelfile template system ds)"
proof -
  let ?m = "\<lparr>mf_from = False, mf_template = False, mf_system = False, mf_tail = False\<rparr>"
  have a: "templateOnlyModelfile source template system \<longleftrightarrow> source \<noteq> [] \<and> CHR 0x00 \<notin> set source \<and>
      (\<exists>ds. read_directives source = Some ds \<and> mf_accepts template system ?m ds)"
    by (simp add: templateOnlyModelfile_def modelfile_loop_run mf_accepts_def split: option.split)
  have "\<not> mf_accepts [] system ?m ds" for ds
    using mf_no_template [of system ?m ds] by (auto simp: mf_accepts_def split: option.split)
  then show ?thesis unfolding a using mf_accepts_start [of template system] by (cases "template = []") simp_all
qed

end
