(* ===== verification/Ollama.thy ===== *)
theory Ollama
  imports Go_Json Go_Strings Modelfile Worker
begin

text \<open>
  \<open>internal/adapters/ollama\<close>: the backend that talks to a local Ollama server
  (\<open>http.go\<close>, \<open>models.go\<close>, \<open>generate.go\<close>). The server is an oracle: \<open>nt_reply n\<close> is what
  the \<open>n\<close>-th exchange yields, so nothing is assumed about it. \<open>nt_sent\<close> records every request
  that leaves the process; \<open>nt_ctx\<close> is what the successive calls of \<open>ctx.Err\<close> return. Response
  bodies are bytes, decoded by the JSON decoder of \<open>Go_Json\<close>.
\<close>

subsection \<open>The network\<close>

datatype body_end = BodyEOF | BodyTimeout | BodyError

datatype reply = NoReply | Reply int bytes body_end

record net =
  nt_reply :: "nat \<Rightarrow> reply"
  nt_sent :: "(bytes \<times> json option) list"
  nt_ctx :: "nat \<Rightarrow> goerr option"
  nt_checks :: nat
  nt_ticks :: nat

definition ctx_err :: "net \<Rightarrow> net \<times> goerr option" where
  "ctx_err n = (n\<lparr>nt_checks := Suc (nt_checks n)\<rparr>, nt_ctx n (nt_checks n))"

definition net_now :: "host \<Rightarrow> net \<Rightarrow> net \<times> time" where
  "net_now h n = (n\<lparr>nt_ticks := Suc (nt_ticks n)\<rparr>, h_now h (nt_ticks n))"

subsection \<open>Constants and faults (\<open>http.go\<close>)\<close>

definition metadataLimit :: nat where "metadataLimit = 4194304"
definition recordLimit :: nat where "recordLimit = 262144"
definition streamLimit :: nat where "streamLimit = 33554432"

definition ollama_fault :: "ErrorCode \<Rightarrow> goerr" where
  "ollama_fault code = FaultErr \<lparr>ft_Code = code,
     ft_Message = (case code of
         ErrInvalidRequest \<Rightarrow> ''Ollama request or context budget is invalid''
       | ErrUnsupported \<Rightarrow> ''Ollama version, model, or option is unsupported''
       | ErrLimitExceeded \<Rightarrow> ''Ollama response exceeds adapter limits''
       | ErrBackendUnavailable \<Rightarrow> ''Ollama is unavailable''
       | _ \<Rightarrow> ''Ollama operation failed''),
     ft_Retryable = (code = ErrBackendUnavailable), ft_Details = []\<rparr>"

definition transportError :: "net \<Rightarrow> net \<times> goerr" where
  "transportError n = (case ctx_err n of (n1, e) \<Rightarrow>
     (n1, if e = Some Canceled then Canceled else ollama_fault ErrBackendUnavailable))"

text \<open>A request: \<open>None\<close> is no body, \<open>Some None\<close> one that does not encode.\<close>

definition request :: "bytes \<Rightarrow> json option option \<Rightarrow> net \<Rightarrow> net \<times> (goerr + bytes \<times> body_end)" where
  "request path body n =
     (if body = Some None then (n, Inl (ollama_fault ErrInvalidRequest))
      else let n1 = n\<lparr>nt_sent := nt_sent n @ [(path, case body of None \<Rightarrow> None | Some j \<Rightarrow> j)]\<rparr> in
        case nt_reply n (length (nt_sent n)) of
          NoReply \<Rightarrow> (case transportError n1 of (n2, e) \<Rightarrow> (n2, Inl e))
        | Reply status b be \<Rightarrow>
            if status = 200 then (n1, Inr (b, be))
            else (n1, Inl (ollama_fault
              (if status \<in> {400, 404, 422} then ErrInvalidRequest
               else if status \<in> {429, 502, 503, 504} then ErrBackendUnavailable else ErrBackendFailure))))"

text \<open>\<open>validObject\<close> of \<open>generate.go\<close>: no duplicate keys, at most 64 levels, an object on top.\<close>

fun tokens_ok :: "nat \<Rightarrow> raw \<Rightarrow> bool" where
  "tokens_ok d (RObj fs) = (d \<le> 64 \<and> distinct (map (unquote \<circ> fst) fs) \<and> list_all (\<lambda>kv. tokens_ok (Suc d) (snd kv)) fs)"
| "tokens_ok d (RArr vs) = (0 < d \<and> d \<le> 64 \<and> list_all (tokens_ok (Suc d)) vs)"
| "tokens_ok d _ = (0 < d \<and> d \<le> 64)"

definition validObject :: "bytes \<Rightarrow> bool" where
  "validObject b = (valid_utf8 b \<and> (case parse_raw b of None \<Rightarrow> False | Some v \<Rightarrow> tokens_ok 0 v))"

text \<open>\<open>(*Backend).json\<close>: the decoded body of a bounded exchange.\<close>

definition get_json ::
  "(json \<Rightarrow> 'a \<Rightarrow> 'a option) \<Rightarrow> 'a \<Rightarrow> bytes \<Rightarrow> json option option \<Rightarrow> net \<Rightarrow> net \<times> (goerr + 'a)" where
  "get_json into zero path body n =
     (case request path body n of
        (n1, Inl e) \<Rightarrow> (n1, Inl e)
      | (n1, Inr (b, be)) \<Rightarrow>
          if be \<noteq> BodyEOF \<and> length b \<le> metadataLimit then (case transportError n1 of (n2, e) \<Rightarrow> (n2, Inl e))
          else if length b > metadataLimit then (n1, Inl (ollama_fault ErrLimitExceeded))
          else if \<not> validObject b then (n1, Inl (ollama_fault ErrBackendFailure))
          else (case Option.bind (parse_go b) (\<lambda>v. into v zero) of
              None \<Rightarrow> (n1, Inl (ollama_fault ErrBackendFailure)) | Some x \<Rightarrow> (n1, Inr x)))"

definition id_char_bad :: "char \<Rightarrow> bool" where
  "id_char_bad c = (c \<in> set [CHR 0x20, CHR 0x09, CHR 0x0D, CHR 0x0A, CHR ''?'', CHR ''#'', CHR ''%'', CHR 0x5C])"

definition validID :: "bytes \<Rightarrow> bool" where
  "validID i =
     (if i = [] \<or> length i > 512 \<or> \<not> valid_utf8 i \<or> list_ex id_char_bad i then False
      else let last = lower (rev (takeWhile (\<lambda>c. c \<noteq> CHR '':'') (rev i))) in
        last \<noteq> ''cloud'' \<and> last \<noteq> ''local'' \<and> \<not> has_suffix last ''-cloud'')"

subsection \<open>Models (\<open>models.go\<close>)\<close>

definition supportedVersion :: bytes where "supportedVersion = ''0.18.3''"

record installed =
  is_Name :: bytes
  is_Digest :: bytes
  is_RemoteHost :: bytes
  is_RemoteModel :: bytes

definition zero_installed :: installed where
  "zero_installed = \<lparr>is_Name = [], is_Digest = [], is_RemoteHost = [], is_RemoteModel = []\<rparr>"

definition into_installed :: "json \<Rightarrow> installed \<Rightarrow> installed option" where
  "into_installed = into_struct
     [(''name'', slot into_string is_Name is_Name_update), (''digest'', slot into_string is_Digest is_Digest_update),
      (''remote_host'', slot into_string is_RemoteHost is_RemoteHost_update),
      (''remote_model'', slot into_string is_RemoteModel is_RemoteModel_update)]"

record details =
  ds_Capabilities :: "bytes list"
  ds_Template :: bytes
  ds_Modelfile :: bytes
  ds_System :: bytes
  ds_Renderer :: bytes
  ds_Messages :: "json list"
  ds_RemoteHost :: bytes
  ds_RemoteModel :: bytes
  ds_Format :: bytes
  ds_Info :: "(bytes \<times> json) list"

definition zero_details :: details where
  "zero_details = \<lparr>ds_Capabilities = [], ds_Template = [], ds_Modelfile = [], ds_System = [], ds_Renderer = [],
     ds_Messages = [], ds_RemoteHost = [], ds_RemoteModel = [], ds_Format = [], ds_Info = []\<rparr>"

text \<open>A map field: \<open>null\<close> is nil, an object adds to the entries; the last entry of a key counts.\<close>

definition into_map :: "json \<Rightarrow> (bytes \<times> json) list \<Rightarrow> (bytes \<times> json) list option" where
  "into_map v old = (case v of JNull \<Rightarrow> Some [] | JObj kvs \<Rightarrow> Some (old @ kvs) | _ \<Rightarrow> None)"

definition info_at :: "details \<Rightarrow> bytes \<Rightarrow> json option" where
  "info_at d key = map_of (rev (ds_Info d)) key"

definition into_details :: "json \<Rightarrow> details \<Rightarrow> details option" where
  "into_details = into_struct
     [(''capabilities'', slot (into_slice into_string []) ds_Capabilities ds_Capabilities_update),
      (''template'', slot into_string ds_Template ds_Template_update),
      (''modelfile'', slot into_string ds_Modelfile ds_Modelfile_update),
      (''system'', slot into_string ds_System ds_System_update),
      (''renderer'', slot into_string ds_Renderer ds_Renderer_update),
      (''messages'', slot (into_slice (\<lambda>v _. Some v) JNull) ds_Messages ds_Messages_update),
      (''remote_host'', slot into_string ds_RemoteHost ds_RemoteHost_update),
      (''remote_model'', slot into_string ds_RemoteModel ds_RemoteModel_update),
      (''details'', into_struct [(''format'', slot into_string ds_Format ds_Format_update)]),
      (''model_info'', slot into_map ds_Info ds_Info_update)]"

text \<open>A response whose only field of interest is \<open>key\<close>.\<close>

definition into_only :: "bytes \<Rightarrow> (json \<Rightarrow> 'a \<Rightarrow> 'a option) \<Rightarrow> json \<Rightarrow> 'a \<Rightarrow> 'a option" where
  "into_only key into = into_struct [(key, into)]"

definition version :: "net \<Rightarrow> net \<times> goerr option" where
  "version n =
     (case get_json (into_only ''version'' into_string) [] ''/api/version'' None n of
        (n1, Inl e) \<Rightarrow> (n1, Some e)
      | (n1, Inr v) \<Rightarrow> (n1, if v \<noteq> supportedVersion then Some (ollama_fault ErrUnsupported) else None))"

definition inventory :: "net \<Rightarrow> net \<times> (goerr + installed list)" where
  "inventory n =
     (case get_json (into_only ''models'' (into_slice into_installed zero_installed)) [] ''/api/tags'' None n of
        (n1, Inl e) \<Rightarrow> (n1, Inl e)
      | (n1, Inr ms) \<Rightarrow>
          if length ms > 1024 then (n1, Inl (ollama_fault ErrLimitExceeded))
          else if list_ex (\<lambda>m. is_Name m = [] \<or> length (is_Name m) > 512) ms \<or> \<not> distinct (map is_Name ms)
          then (n1, Inl (ollama_fault ErrBackendFailure))
          else (n1, Inr ms))"

definition local_tag :: "bytes \<Rightarrow> bytes" where
  "local_tag i = i @ '':local''"

definition capacity_of :: "details \<Rightarrow> (bytes \<times> int) option" where
  "capacity_of d =
     (let arch = (case info_at d ''general.architecture'' of Some (JStr s) \<Rightarrow> s | _ \<Rightarrow> []) in
      if arch = [] \<or> length arch > 128 then None
      else (case Option.bind (info_at d (arch @ ''.context_length'')) (\<lambda>v. into_int v 0) of
          Some c \<Rightarrow> if c > 0 then Some (arch, c) else None
        | None \<Rightarrow> None))"

definition show_model :: "host \<Rightarrow> bytes \<Rightarrow> net \<Rightarrow> net \<times> (goerr + details \<times> ContextInfo)" where
  "show_model h i n =
     (case get_json into_details zero_details ''/api/show'' (Some (Some (JObj [(''model'', JStr (local_tag i))]))) n of
        (n1, Inl e) \<Rightarrow> (n1, Inl e)
      | (n1, Inr d) \<Rightarrow>
          (case capacity_of d of
             None \<Rightarrow> (n1, Inr (d, zero_ContextInfo))
           | Some (arch, c) \<Rightarrow>
               (case net_now h n1 of (n2, t) \<Rightarrow>
                  (n2, Inr (d, zero_ContextInfo\<lparr>ci_ModelCapacityTokens := Some c,
                     ci_ModelCapacitySource := ''ollama /api/show model_info.'' @ arch @ ''.context_length'',
                     ci_ModelCapacityObservedAt := Some t\<rparr>)))))"

definition usable :: "installed \<Rightarrow> details \<Rightarrow> bool" where
  "usable m d =
     (validID (is_Name m) \<and> is_RemoteHost m = [] \<and> is_RemoteModel m = [] \<and>
      ds_RemoteHost d = [] \<and> ds_RemoteModel d = [] \<and> ds_Format d = ''gguf'' \<and>
      ds_Messages d = [] \<and> ds_Renderer d = [] \<and> ds_Template d \<noteq> [] \<and>
      templateOnlyModelfile (ds_Modelfile d) (ds_Template d) (ds_System d) \<and>
      ''completion'' \<in> set (ds_Capabilities d) \<and> ''vision'' \<notin> set (ds_Capabilities d) \<and> ''image'' \<notin> set (ds_Capabilities d))"

record process =
  ps_Name :: bytes
  ps_Digest :: bytes
  ps_Context :: "int option"

definition into_process :: "json \<Rightarrow> process \<Rightarrow> process option" where
  "into_process = into_struct
     [(''name'', slot into_string ps_Name ps_Name_update), (''digest'', slot into_string ps_Digest ps_Digest_update),
      (''context_length'', slot (into_pointer into_int 0) ps_Context ps_Context_update)]"

definition loaded :: "host \<Rightarrow> installed \<Rightarrow> net \<Rightarrow> net \<times> (goerr + ContextObservation option)" where
  "loaded h m n =
     (case get_json (into_only ''models'' (into_slice into_process \<lparr>ps_Name = [], ps_Digest = [], ps_Context = None\<rparr>)) []
         ''/api/ps'' None n of
        (n1, Inl e) \<Rightarrow> (n1, Inl e)
      | (n1, Inr ps) \<Rightarrow>
          (case find (\<lambda>p. ps_Name p = is_Name m \<and> ps_Digest p = is_Digest m \<and> (case ps_Context p of None \<Rightarrow> False | Some c \<Rightarrow> c > 0)) ps of
             None \<Rightarrow> (n1, Inr None)
           | Some p \<Rightarrow>
               (case net_now h n1 of (n2, t) \<Rightarrow>
                  (n2, Inr (Some \<lparr>co_Tokens = the (ps_Context p), co_Model = is_Name m,
                     co_Source = ''ollama /api/ps context_length (shared residency observation)'', co_ObservedAt = t\<rparr>)))))"

definition zero_Capabilities :: Capabilities where
  "zero_Capabilities = \<lparr>cp_TextGeneration = False, cp_Streaming = False, cp_Cancellation = False,
     cp_ContextRequest = False, cp_LoadedContext = False, cp_ExactPauseResume = False, cp_Checkpoints = False\<rparr>"

definition describe :: "host \<Rightarrow> installed \<Rightarrow> net \<Rightarrow> net \<times> (goerr + Model)" where
  "describe h m n =
     (let model = \<lparr>md_ID = is_Name m, md_Capabilities = zero_Capabilities, md_Context = zero_ContextInfo\<rparr> in
      if validID (is_Name m) \<and> is_RemoteHost m = [] \<and> is_RemoteModel m = [] then
        (case show_model h (is_Name m) n of
           (n1, Inl e) \<Rightarrow> (n1, Inl e)
         | (n1, Inr (d, info)) \<Rightarrow>
             (case loaded h m n1 of
                (n2, Inl e) \<Rightarrow> (n2, Inl e)
              | (n2, Inr l) \<Rightarrow>
                  (n2, Inr (model\<lparr>md_Context := info\<lparr>ci_Loaded := l\<rparr>,
                     md_Capabilities := (if usable m d
                       then zero_Capabilities\<lparr>cp_TextGeneration := True, cp_Streaming := True, cp_Cancellation := True,
                         cp_ContextRequest := True, cp_LoadedContext := True\<rparr>
                       else zero_Capabilities)\<rparr>))))
      else (n, Inr model))"

fun describe_all :: "host \<Rightarrow> installed list \<Rightarrow> net \<Rightarrow> net \<times> (goerr + Model list)" where
  "describe_all h [] n = (n, Inr [])"
| "describe_all h (m # ms) n =
     (case describe h m n of
        (n1, Inl e) \<Rightarrow> (n1, Inl e)
      | (n1, Inr model) \<Rightarrow>
          (case describe_all h ms n1 of (n2, Inl e) \<Rightarrow> (n2, Inl e) | (n2, Inr out) \<Rightarrow> (n2, Inr (model # out))))"

definition ollama_Models :: "host \<Rightarrow> net \<Rightarrow> net \<times> (goerr + Model list)" where
  "ollama_Models h n =
     (case version n of
        (n1, Some e) \<Rightarrow> (n1, Inl e)
      | (n1, None) \<Rightarrow>
          (case inventory n1 of (n2, Inl e) \<Rightarrow> (n2, Inl e) | (n2, Inr ms) \<Rightarrow> describe_all h ms n2))"

definition selectModel :: "host \<Rightarrow> bytes \<Rightarrow> net \<Rightarrow> net \<times> (goerr + installed \<times> details \<times> ContextInfo)" where
  "selectModel h i n =
     (if \<not> validID i then (n, Inl (ollama_fault ErrUnsupported))
      else (case inventory n of
          (n1, Inl e) \<Rightarrow> (n1, Inl e)
        | (n1, Inr ms) \<Rightarrow>
            (case find (\<lambda>m. is_Name m = i) ms of
               None \<Rightarrow> (n1, Inl (ollama_fault ErrInvalidRequest))
             | Some m \<Rightarrow>
                 if is_RemoteHost m \<noteq> [] \<or> is_RemoteModel m \<noteq> [] then (n1, Inl (ollama_fault ErrUnsupported))
                 else (case show_model h i n1 of
                     (n2, Inl e) \<Rightarrow> (n2, Inl e)
                   | (n2, Inr (d, info)) \<Rightarrow>
                       (n2, if \<not> usable m d then Inl (ollama_fault ErrUnsupported) else Inr (m, d, info))))))"

end
