(* ===== verification/Lines.thy ===== *)
theory Lines
  imports Prelude
begin

text \<open>
  Reading a byte stream line by line, as \<open>bufio.Reader.ReadSlice\<close> does it for the Ollama stream
  and the MCP input.
\<close>

text \<open>\<open>ReadSlice('\n')\<close>: the line with its newline and the rest, or all that is left.\<close>

definition newline :: char where "newline = CHR 0x0A"

definition read_slice :: "bytes \<Rightarrow> bytes \<times> bytes option" where
  "read_slice s =
     (if newline \<in> set s
      then (takeWhile (\<lambda>c. c \<noteq> newline) s @ [newline], Some (tl (dropWhile (\<lambda>c. c \<noteq> newline) s)))
      else (s, None))"

lemma read_slice_length: "read_slice s = (line, Some r) \<Longrightarrow> length r < length s"
proof -
  assume *: "read_slice s = (line, Some r)"
  then have "newline \<in> set s" and r: "r = tl (dropWhile (\<lambda>c. c \<noteq> newline) s)"
    by (auto simp: read_slice_def split: if_splits)
  then have "s \<noteq> []" by auto
  then show ?thesis using length_dropWhile_le [of "\<lambda>c. c \<noteq> newline" s] by (cases s) (auto simp: r)
qed

text \<open>The lines of a text, each with its newline; the last one may lack it.\<close>

function body_lines :: "bytes \<Rightarrow> bytes list" where
  "body_lines s =
     (if s = [] then [] else (case read_slice s of (l, None) \<Rightarrow> [l] | (l, Some r) \<Rightarrow> l # body_lines r))"
  by pat_completeness auto
termination
  by (relation "measure length") (auto dest: read_slice_length [OF sym])

declare body_lines.simps [simp del]

text \<open>The number of reads: one more than there are newlines.\<close>

definition reads :: "bytes \<Rightarrow> nat" where
  "reads s = Suc (count_list s newline)"

lemma read_slice_append: "read_slice s = (l, m) \<Longrightarrow> s = l @ (case m of None \<Rightarrow> [] | Some r \<Rightarrow> r)"
proof -
  assume *: "read_slice s = (l, m)"
  show ?thesis
  proof (cases "newline \<in> set s")
    case True
    then have "dropWhile (\<lambda>c. c \<noteq> newline) s \<noteq> []" by auto
    moreover from this have "hd (dropWhile (\<lambda>c. c \<noteq> newline) s) = newline" using hd_dropWhile by blast
    ultimately have "s = takeWhile (\<lambda>c. c \<noteq> newline) s @ newline # tl (dropWhile (\<lambda>c. c \<noteq> newline) s)"
      by (metis list.collapse takeWhile_dropWhile_id)
    with * True show ?thesis by (auto simp: read_slice_def)
  qed (use * in \<open>auto simp: read_slice_def\<close>)
qed

lemma read_slice_nonempty: "read_slice s = (l, Some r) \<Longrightarrow> l \<noteq> []"
  by (auto simp: read_slice_def split: if_splits)

lemma read_slice_last: "read_slice s = (l, None) \<Longrightarrow> l = s \<and> reads s = 1"
  by (auto simp: read_slice_def reads_def count_list_0_iff split: if_splits)

lemma count_list_takeWhile: "count_list (takeWhile (\<lambda>c. c \<noteq> x) s) x = 0"
  by (auto simp: count_list_0_iff dest: set_takeWhileD)

lemma read_slice_reads: "read_slice s = (l, Some r) \<Longrightarrow> reads s = Suc (reads r)"
proof -
  assume *: "read_slice s = (l, Some r)"
  then have "l = takeWhile (\<lambda>c. c \<noteq> newline) s @ [newline]" by (auto simp: read_slice_def split: if_splits)
  then have "count_list l newline = 1" using count_list_takeWhile [of newline s] by simp
  moreover have "s = l @ r" using read_slice_append [OF *] by simp
  ultimately show ?thesis by (simp add: reads_def count_list_append)
qed

lemma body_lines_last: "newline \<notin> set s \<Longrightarrow> body_lines s = (if s = [] then [] else [s])"
  by (subst body_lines.simps) (simp add: read_slice_def)

lemma body_lines_next:
  assumes "newline \<notin> set a"
  shows "body_lines (a @ newline # r) = (a @ [newline]) # body_lines r"
proof -
  have "read_slice (a @ newline # r) = (a @ [newline], Some r)"
    using assms by (auto simp: read_slice_def takeWhile_append dropWhile_append)
  then show ?thesis by (subst body_lines.simps) simp
qed

end
