(* ===== verification/Ollama_Generate.thy ===== *)
theory Ollama_Generate
  imports Ollama Lines
begin

text \<open>
  \<open>(*Backend).Generate\<close> of \<open>internal/adapters/ollama/generate.go\<close>: model selection, the load
  request, the second selection, the context budget and the streamed answer. The callback
  \<open>emit\<close> (\<open>cb\<close> here) acts on the caller's state; \<open>None\<close> stands for a nil callback. Reading the body is
  reading lines from its bytes, then its end.
\<close>

subsection \<open>Messages\<close>

record message =
  mg_Role :: bytes
  mg_Content :: bytes

record chatRequest =
  cq_Model :: bytes
  cq_Messages :: "message list"
  cq_Stream :: bool
  cq_Truncate :: bool
  cq_Shift :: bool
  cq_Think :: bool
  cq_Options :: GenerationOptions

definition chat_message_json :: "message \<Rightarrow> json" where
  "chat_message_json m = JObj [(''role'', JStr (mg_Role m)), (''content'', JStr (mg_Content m))]"

text \<open>The options map in the key order of \<open>json.Encode\<close>.\<close>

definition chat_options_json :: "host \<Rightarrow> GenerationOptions \<Rightarrow> json" where
  "chat_options_json h o' = JObj (
     opt_field ''num_ctx'' JInt (op_ContextTokens o') @
     [(''num_predict'', JInt (op_MaxOutputTokens o'))] @
     opt_field ''seed'' JInt (op_Seed o') @
     opt_field ''temperature'' (float_json h) (op_Temperature o'))"

definition chat_json :: "host \<Rightarrow> chatRequest \<Rightarrow> json option" where
  "chat_json h q =
     (if \<not> options_encodable (cq_Options q) then None
      else Some (JObj [(''model'', JStr (cq_Model q)), (''messages'', JArr (map chat_message_json (cq_Messages q))),
        (''stream'', JBool (cq_Stream q)), (''truncate'', JBool (cq_Truncate q)), (''shift'', JBool (cq_Shift q)),
        (''think'', JBool (cq_Think q)), (''options'', chat_options_json h (cq_Options q))]))"

record chat_record =
  cr_Model :: bytes
  cr_RemoteHost :: bytes
  cr_RemoteModel :: bytes
  cr_Message :: "message option"
  cr_Done :: "bool option"
  cr_Reason :: bytes
  cr_Error :: "bytes option"
  cr_Input :: "int option"
  cr_Output :: "int option"
  cr_TotalNS :: "int option"
  cr_LoadNS :: "int option"
  cr_GenerateNS :: "int option"

definition zero_record :: chat_record where
  "zero_record = \<lparr>cr_Model = [], cr_RemoteHost = [], cr_RemoteModel = [], cr_Message = None, cr_Done = None,
     cr_Reason = [], cr_Error = None, cr_Input = None, cr_Output = None, cr_TotalNS = None, cr_LoadNS = None,
     cr_GenerateNS = None\<rparr>"

definition into_message :: "json \<Rightarrow> message \<Rightarrow> message option" where
  "into_message = into_struct
     [(''role'', slot into_string mg_Role mg_Role_update), (''content'', slot into_string mg_Content mg_Content_update)]"

definition into_record :: "json \<Rightarrow> chat_record \<Rightarrow> chat_record option" where
  "into_record = into_struct
     [(''model'', slot into_string cr_Model cr_Model_update),
      (''remote_host'', slot into_string cr_RemoteHost cr_RemoteHost_update),
      (''remote_model'', slot into_string cr_RemoteModel cr_RemoteModel_update),
      (''message'', slot (into_pointer into_message \<lparr>mg_Role = [], mg_Content = []\<rparr>) cr_Message cr_Message_update),
      (''done'', slot (into_pointer into_bool False) cr_Done cr_Done_update),
      (''done_reason'', slot into_string cr_Reason cr_Reason_update),
      (''error'', slot (into_pointer into_string []) cr_Error cr_Error_update),
      (''prompt_eval_count'', slot (into_pointer into_int 0) cr_Input cr_Input_update),
      (''eval_count'', slot (into_pointer into_int 0) cr_Output cr_Output_update),
      (''total_duration'', slot (into_pointer into_int 0) cr_TotalNS cr_TotalNS_update),
      (''load_duration'', slot (into_pointer into_int 0) cr_LoadNS cr_LoadNS_update),
      (''eval_duration'', slot (into_pointer into_int 0) cr_GenerateNS cr_GenerateNS_update)]"

subsection \<open>The token budget\<close>

definition estimate :: "Instructions \<Rightarrow> bytes \<Rightarrow> TokenEstimate" where
  "estimate i template =
     (let n = length (in_System i) + length (in_Prompt i) + length template
            + sum_list (map (\<lambda>m. length (ms_Content m)) (in_History i)) in
      \<lparr>te_Tokens = int ((n + 3) div 4 + 16 * (length (in_History i) + 2)),
        te_Method = ''heuristic: ceil((UTF-8 input bytes + template source bytes)/4) + 16 per message; not an upper bound'',
        te_Exact = False\<rparr>)"

text \<open>\<open>check\<close> of \<open>budget\<close>; \<open>Generate\<close> has always set the estimate before.\<close>

definition exceeds :: "ContextInfo \<Rightarrow> int \<Rightarrow> bool" where
  "exceeds info n =
     (ci_ReservedOutputTokens info \<ge> n \<or>
      (case ci_InputEstimate info of None \<Rightarrow> False | Some e \<Rightarrow> te_Tokens e > n - ci_ReservedOutputTokens info))"

definition budget :: "ContextInfo \<Rightarrow> goerr option" where
  "budget info =
     (if (case ci_ModelCapacityTokens info of None \<Rightarrow> False
          | Some c \<Rightarrow> ci_ReservedOutputTokens info \<ge> c \<or>
              (case ci_RequestedTokens info of None \<Rightarrow> False | Some r \<Rightarrow> r > c))
      then Some (ollama_fault ErrInvalidRequest)
      else if (case ci_ModelCapacityTokens info of None \<Rightarrow> False | Some c \<Rightarrow> exceeds info c)
      then Some (ollama_fault ErrInvalidRequest)
      else if (case ci_RequestedTokens info of None \<Rightarrow> False | Some r \<Rightarrow> exceeds info r)
      then Some (ollama_fault ErrInvalidRequest)
      else if (case ci_Loaded info of None \<Rightarrow> False | Some l \<Rightarrow> exceeds info (co_Tokens l))
      then Some (ollama_fault ErrInvalidRequest)
      else None)"

definition sameModel :: "bytes \<Rightarrow> bytes \<Rightarrow> bool" where
  "sameModel reported i = (reported = i \<or> reported = local_tag i)"

definition nonneg :: "int option \<Rightarrow> bool" where
  "nonneg x = (case x of None \<Rightarrow> True | Some v \<Rightarrow> v \<ge> 0)"

definition validMetrics :: "chat_record \<Rightarrow> bool" where
  "validMetrics v = (nonneg (cr_Input v) \<and> nonneg (cr_Output v) \<and> nonneg (cr_TotalNS v) \<and> nonneg (cr_LoadNS v) \<and>
     nonneg (cr_GenerateNS v))"

subsection \<open>The stream\<close>

definition context_error_text :: bytes where
  "context_error_text = ''the input length exceeds the context length''"

definition record_result :: "chat_record \<Rightarrow> Result" where
  "record_result v = zero_Result\<lparr>rs_FinishReason := cr_Reason v, rs_EffectiveModel := cr_Model v,
     rs_Usage := \<lparr>us_InputTokens = cr_Input v, us_OutputTokens = cr_Output v, us_TotalDurationNS = cr_TotalNS v,
       us_LoadDurationNS = cr_LoadNS v, us_GenerateDurationNS = cr_GenerateNS v\<rparr>\<rparr>"

text \<open>What is checked of one decoded record before its text is used.\<close>

definition record_error :: "bytes \<Rightarrow> chat_record \<Rightarrow> goerr option" where
  "record_error i v =
     (case cr_Error v of
        Some e \<Rightarrow> Some (ollama_fault (if TrimSpace e = context_error_text then ErrInvalidRequest else ErrBackendFailure))
      | None \<Rightarrow>
          (case (cr_Done v, cr_Message v) of
             (Some d, Some m) \<Rightarrow>
               if mg_Role m \<noteq> ''assistant'' \<or> \<not> sameModel (cr_Model v) i \<or> cr_RemoteHost v \<noteq> [] \<or>
                  cr_RemoteModel v \<noteq> [] \<or> \<not> validMetrics v
               then Some (ollama_fault ErrBackendFailure)
               else if d \<and> cr_Reason v \<noteq> ''stop'' \<and> cr_Reason v \<noteq> ''length''
               then Some (ollama_fault ErrBackendFailure)
               else None
           | _ \<Rightarrow> Some (ollama_fault ErrBackendFailure)))"

type_synonym 'w emitter = "bytes \<Rightarrow> 'w \<Rightarrow> 'w \<times> goerr option"

text \<open>
  One non-empty line: \<open>out\<close> bytes were emitted before, \<open>res\<close> is the result of a final record
  already seen. The new count and result, or the error, after emitting the text.
\<close>

definition stream_line ::
  "bytes \<Rightarrow> 'w emitter \<Rightarrow> bytes \<Rightarrow> nat \<Rightarrow> Result option \<Rightarrow> 'w \<Rightarrow> 'w \<times> (goerr + nat \<times> Result option)" where
  "stream_line i cb line out res w =
     (if res \<noteq> None \<or> \<not> validObject line then (w, Inl (ollama_fault ErrBackendFailure))
      else (case Option.bind (parse_go line) (\<lambda>j. into_record j zero_record) of
          None \<Rightarrow> (w, Inl (ollama_fault ErrBackendFailure))
        | Some v \<Rightarrow>
            (case record_error i v of
               Some e \<Rightarrow> (w, Inl e)
             | None \<Rightarrow>
                 (let text = mg_Content (the (cr_Message v)); out' = out + length text;
                      res' = (if the (cr_Done v) then Some (record_result v) else None) in
                  if out' > MaxOutputBytes then (w, Inl (ollama_fault ErrLimitExceeded))
                  else if text = [] then (w, Inr (out', res'))
                  else (case cb text w of
                      (w1, Some e) \<Rightarrow> (w1, Inl e)
                    | (w1, None) \<Rightarrow> (w1, Inr (out', res')))))))"

text \<open>
  The reading loop. A line too long for the buffer exceeds \<open>recordLimit\<close>, so that
  \<open>bufio.ErrBufferFull\<close> is never the only reason to stop.
\<close>

function stream_loop ::
  "bytes \<Rightarrow> 'w emitter \<Rightarrow> body_end \<Rightarrow> bytes \<Rightarrow> nat \<Rightarrow> nat \<Rightarrow> Result option \<Rightarrow> net \<Rightarrow> 'w
    \<Rightarrow> net \<times> 'w \<times> (goerr + Result)" where
  "stream_loop i cb be s got out res n w =
     (let (line, more) = read_slice s; got' = got + length line in
      if length line > recordLimit \<or> got' > streamLimit then (n, w, Inl (ollama_fault ErrLimitExceeded))
      else (case ctx_err n of
          (n1, Some e) \<Rightarrow> (n1, w, Inl e)
        | (n1, None) \<Rightarrow>
            (case (if line = [] then (w, Inr (out, res)) else stream_line i cb line out res w) of
               (w1, Inl e) \<Rightarrow> (n1, w1, Inl e)
             | (w1, Inr (out', res')) \<Rightarrow>
                 (case more of
                    Some r \<Rightarrow> stream_loop i cb be r got' out' res' n1 w1
                  | None \<Rightarrow>
                      (n1, w1,
                        (case (be, res') of
                           (BodyEOF, Some x) \<Rightarrow> Inr x
                         | _ \<Rightarrow> Inl (ollama_fault (if be = BodyTimeout then ErrBackendUnavailable else ErrBackendFailure))))))))"
  by pat_completeness auto
termination
  by (relation "measure (\<lambda>(i, cb, be, s, got, out, res, n, w). length s)") (auto dest: read_slice_length[OF sym])

declare stream_loop.simps [simp del]

text \<open>The body behind \<open>io.LimitReader\<close>, then the loop.\<close>

definition stream ::
  "host \<Rightarrow> chatRequest \<Rightarrow> bytes \<Rightarrow> 'w emitter \<Rightarrow> net \<Rightarrow> 'w \<Rightarrow> net \<times> 'w \<times> (goerr + Result)" where
  "stream h q i cb n w =
     (case request ''/api/chat'' (Some (chat_json h q)) n of
        (n1, Inl e) \<Rightarrow> (n1, w, Inl e)
      | (n1, Inr (b, be)) \<Rightarrow>
          stream_loop i cb (if length b > streamLimit then BodyEOF else be) (take (streamLimit + 1) b) 0 0 None n1 w)"

subsection \<open>\<open>Generate\<close>\<close>

definition then_net ::
  "net \<times> (goerr + 'a) \<Rightarrow> ('a \<Rightarrow> net \<Rightarrow> net \<times> (goerr + 'b)) \<Rightarrow> net \<times> (goerr + 'b)" where
  "then_net r f = (case r of (n, Inl e) \<Rightarrow> (n, Inl e) | (n, Inr x) \<Rightarrow> f x n)"

text \<open>\<open>math.MaxFloat32\<close> as a \<open>float64\<close>; a NaN is not greater than it.\<close>

definition above_float32 :: "f64 \<Rightarrow> bool" where
  "above_float32 x = (0x47EFFFFFE0000000 < x \<and> x \<le> 0x7FF0000000000000)"

text \<open>The checks before the first request.\<close>

definition input_refused :: "InferenceInput \<Rightarrow> ErrorCode option" where
  "input_refused inp =
     (case ValidateRequest (ii_Request inp) (ii_Instructions inp) of
        Some f \<Rightarrow> Some (if ft_Code f = ErrLimitExceeded then ErrLimitExceeded else ErrInvalidRequest)
      | None \<Rightarrow>
          if (case op_Temperature (rq_Options (ii_Request inp)) of None \<Rightarrow> False | Some t \<Rightarrow> above_float32 t) \<or>
             (case op_Seed (rq_Options (ii_Request inp)) of None \<Rightarrow> False | Some k \<Rightarrow> k < 0 \<or> k > 4294967295)
          then Some ErrUnsupported else None)"

definition load_request :: "bytes \<Rightarrow> GenerationOptions \<Rightarrow> chatRequest" where
  "load_request i o' = \<lparr>cq_Model = local_tag i, cq_Messages = [], cq_Stream = False, cq_Truncate = False,
     cq_Shift = False, cq_Think = False, cq_Options = o'\<rparr>"

definition prompt_messages :: "Instructions \<Rightarrow> message list" where
  "prompt_messages i =
     \<lparr>mg_Role = ''system'', mg_Content = in_System i\<rparr>
     # map (\<lambda>m. \<lparr>mg_Role = role_str (ms_Role m), mg_Content = ms_Content m\<rparr>) (in_History i)
     @ [\<lparr>mg_Role = ''user'', mg_Content = in_Prompt i\<rparr>]"

definition prompt_request :: "bytes \<Rightarrow> InferenceInput \<Rightarrow> chatRequest" where
  "prompt_request i inp = (load_request i (rq_Options (ii_Request inp)))
     \<lparr>cq_Messages := prompt_messages (ii_Instructions inp), cq_Stream := True\<rparr>"

definition loaded_ok :: "bytes \<Rightarrow> chat_record \<Rightarrow> bool" where
  "loaded_ok i v = (cr_Done v = Some True \<and> cr_Reason v = ''load'' \<and> cr_Error v = None \<and> cr_RemoteHost v = [] \<and>
     cr_RemoteModel v = [] \<and> sameModel (cr_Model v) i)"

text \<open>Version, selection and the first budget.\<close>

definition choose_model :: "host \<Rightarrow> InferenceInput \<Rightarrow> net \<Rightarrow> net \<times> (goerr + installed \<times> ContextInfo)" where
  "choose_model h inp n =
     (case version n of
        (n1, Some e) \<Rightarrow> (n1, Inl e)
      | (n1, None) \<Rightarrow>
          then_net (selectModel h (rq_Model (ii_Request inp)) n1) (\<lambda>(m, d, info0) n2.
            let info = info0\<lparr>ci_RequestedTokens := op_ContextTokens (rq_Options (ii_Request inp)),
                  ci_ReservedOutputTokens := op_MaxOutputTokens (rq_Options (ii_Request inp)),
                  ci_InputEstimate := Some (estimate (ii_Instructions inp) (ds_Template d))\<rparr> in
            case budget info of Some e \<Rightarrow> (n2, Inl e) | None \<Rightarrow> (n2, Inr (m, info))))"

text \<open>Loading, the second selection, the residency observation and the second budget.\<close>

definition load_model ::
  "host \<Rightarrow> InferenceInput \<Rightarrow> installed \<Rightarrow> ContextInfo \<Rightarrow> net \<Rightarrow> net \<times> (goerr + ContextInfo)" where
  "load_model h inp m info n =
     then_net (get_json into_record zero_record ''/api/chat''
         (Some (chat_json h (load_request (is_Name m) (rq_Options (ii_Request inp))))) n) (\<lambda>load n1.
       if \<not> loaded_ok (is_Name m) load then (n1, Inl (ollama_fault ErrBackendFailure))
       else then_net (selectModel h (is_Name m) n1) (\<lambda>(m2, d2, refreshed) n2.
         if is_Digest m = [] \<or> is_Digest m2 \<noteq> is_Digest m then (n2, Inl (ollama_fault ErrBackendFailure))
         else then_net (loaded h m n2) (\<lambda>l n3.
           let info' = info\<lparr>ci_ModelCapacityTokens := ci_ModelCapacityTokens refreshed,
                 ci_ModelCapacitySource := ci_ModelCapacitySource refreshed,
                 ci_ModelCapacityObservedAt := ci_ModelCapacityObservedAt refreshed,
                 ci_Loaded := l,
                 ci_InputEstimate := Some (estimate (ii_Instructions inp) (ds_Template d2))\<rparr> in
           case budget info' of
             Some e \<Rightarrow> (n3, Inl e)
           | None \<Rightarrow>
               if ci_RequestedTokens info' = None \<and> ci_Loaded info' = None
               then (n3, Inl (ollama_fault ErrUnsupported)) else (n3, Inr info'))))"

text \<open>The last observation and the size of the result.\<close>

definition seal :: "host \<Rightarrow> installed \<Rightarrow> ContextInfo \<Rightarrow> Result \<Rightarrow> net \<Rightarrow> net \<times> (goerr + Result)" where
  "seal h m info r n =
     then_net (loaded h m n) (\<lambda>l n1.
       let r' = r\<lparr>rs_Context := info\<lparr>ci_Loaded := l\<rparr>\<rparr> in
       case marshal_result h r' of
         None \<Rightarrow> (n1, Inl (ollama_fault ErrLimitExceeded))
       | Some b \<Rightarrow>
           if length b > MetadataReserve div 2 then (n1, Inl (ollama_fault ErrLimitExceeded))
           else (case ctx_err n1 of (n2, Some e) \<Rightarrow> (n2, Inl e) | (n2, None) \<Rightarrow> (n2, Inr r')))"

definition generate_body ::
  "host \<Rightarrow> 'w emitter option \<Rightarrow> InferenceInput \<Rightarrow> net \<Rightarrow> 'w \<Rightarrow> net \<times> 'w \<times> (goerr + Result)" where
  "generate_body h cbo inp n w =
     (case cbo of None \<Rightarrow> (n, w, Inl (ollama_fault ErrInvalidRequest)) | Some cb \<Rightarrow>
     (case input_refused inp of Some c \<Rightarrow> (n, w, Inl (ollama_fault c)) | None \<Rightarrow>
     (case choose_model h inp n of (n1, Inl e) \<Rightarrow> (n1, w, Inl e) | (n1, Inr (m, info)) \<Rightarrow>
     (case load_model h inp m info n1 of (n2, Inl e) \<Rightarrow> (n2, w, Inl e) | (n2, Inr info') \<Rightarrow>
     (case stream h (prompt_request (is_Name m) inp) (is_Name m) cb n2 w of
        (n3, w1, Inl e) \<Rightarrow> (n3, w1, Inl e)
      | (n3, w1, Inr r) \<Rightarrow> (case seal h m info' r n3 of (n4, x) \<Rightarrow> (n4, w1, x)))))))"

text \<open>The deferred function: after a missed deadline every error is \<open>backend_unavailable\<close>.\<close>

definition Generate ::
  "host \<Rightarrow> 'w emitter option \<Rightarrow> InferenceInput \<Rightarrow> net \<Rightarrow> 'w \<Rightarrow> net \<times> 'w \<times> (goerr + Result)" where
  "Generate h cbo inp n w =
     (case generate_body h cbo inp n w of
        (n1, w1, Inr r) \<Rightarrow> (n1, w1, Inr r)
      | (n1, w1, Inl e) \<Rightarrow>
          (case ctx_err n1 of (n2, c) \<Rightarrow>
             (n2, w1, Inl (if c = Some DeadlineExceeded then ollama_fault ErrBackendUnavailable else e))))"

end
