(* ===== verification/Ollama_Safety.thy ===== *)
theory Ollama_Safety
  imports Ollama_Generate "HOL-Library.Sublist"
begin

text \<open>
  What the Ollama backend sends and what it returns: the requests of one generation follow a
  fixed script, errors are fixed public faults, and the result respects the announced budget.
\<close>

subsection \<open>Every operation: what it sends and how it fails\<close>

text \<open>The operation took the network from \<open>n\<close> to \<open>n'\<close> and sent \<open>xs\<close>.\<close>

definition sent :: "net \<Rightarrow> net \<Rightarrow> (bytes \<times> json option) list \<Rightarrow> bool" where
  "sent n n' xs = (nt_ctx n' = nt_ctx n \<and> nt_reply n' = nt_reply n \<and> nt_sent n' = nt_sent n @ xs)"

lemma sent_refl [simp]: "sent n n []"
  by (simp add: sent_def)

lemma sent_trans: "sent n n1 xs \<Longrightarrow> sent n1 n2 ys \<Longrightarrow> sent n n2 (xs @ ys)"
  by (simp add: sent_def)

lemma sent_quiet: "sent n n1 xs \<Longrightarrow> sent n1 n2 [] \<Longrightarrow> sent n n2 xs"
  using sent_trans by fastforce

definition public_codes :: "ErrorCode set" where
  "public_codes = {ErrInvalidRequest, ErrUnsupported, ErrLimitExceeded, ErrBackendUnavailable, ErrBackendFailure}"

definition net_errors :: "net \<Rightarrow> goerr set" where
  "net_errors n = ollama_fault ` public_codes \<union> {e. \<exists>k. nt_ctx n k = Some e}"

lemma net_errors_fault [intro]: "c \<in> public_codes \<Longrightarrow> ollama_fault c \<in> net_errors n"
  by (simp add: net_errors_def)

lemma public_codes_simps [simp]:
  "ErrInvalidRequest \<in> public_codes" "ErrUnsupported \<in> public_codes" "ErrLimitExceeded \<in> public_codes"
  "ErrBackendUnavailable \<in> public_codes" "ErrBackendFailure \<in> public_codes"
  by (simp_all add: public_codes_def)

lemma net_errors_fault_simps [simp]:
  "ollama_fault ErrInvalidRequest \<in> net_errors n" "ollama_fault ErrUnsupported \<in> net_errors n"
  "ollama_fault ErrLimitExceeded \<in> net_errors n" "ollama_fault ErrBackendUnavailable \<in> net_errors n"
  "ollama_fault ErrBackendFailure \<in> net_errors n"
  by (rule net_errors_fault, simp)+

lemma net_errors_sent: "sent n n' xs \<Longrightarrow> net_errors n' = net_errors n"
  by (simp add: sent_def net_errors_def)

lemma ctx_err_sent: "ctx_err n = (n1, e) \<Longrightarrow> sent n n1 [] \<and> (\<forall>x. e = Some x \<longrightarrow> x \<in> net_errors n)"
  by (auto simp: ctx_err_def sent_def net_errors_def)

lemma net_now_sent: "net_now h n = (n1, t) \<Longrightarrow> sent n n1 []"
  by (auto simp: net_now_def sent_def)

lemma transportError_sent: "transportError n = (n1, e) \<Longrightarrow> sent n n1 [] \<and> e \<in> net_errors n"
  using ctx_err_sent [of n] by (auto simp: transportError_def split: prod.splits if_splits)

text \<open>A result of an operation that always sends \<open>xs\<close>.\<close>

definition exchange :: "(bytes \<times> json option) list \<Rightarrow> net \<Rightarrow> net \<times> (goerr + 'a) \<Rightarrow> bool" where
  "exchange xs n r = (sent n (fst r) xs \<and> (\<forall>e. snd r = Inl e \<longrightarrow> e \<in> net_errors n))"

lemma exchange_Inr [simp]: "exchange xs n (n1, Inr x) \<longleftrightarrow> sent n n1 xs"
  by (simp add: exchange_def)

lemma exchange_Inl [simp]: "exchange xs n (n1, Inl e) \<longleftrightarrow> sent n n1 xs \<and> e \<in> net_errors n"
  by (simp add: exchange_def)

definition body_json :: "json option option \<Rightarrow> json option" where
  "body_json b = (case b of None \<Rightarrow> None | Some j \<Rightarrow> j)"

lemma request_exchange: "body \<noteq> Some None \<Longrightarrow> exchange [(path, body_json body)] n (request path body n)"
  by (auto simp: request_def Let_def body_json_def split: reply.splits prod.splits dest!: transportError_sent)
    (auto simp: sent_def net_errors_def public_codes_def)

lemma get_json_exchange: "body \<noteq> Some None \<Longrightarrow> exchange [(path, body_json body)] n (get_json f z path body n)"
  using request_exchange [of body path n]
  by (auto simp: get_json_def split: prod.splits sum.splits option.splits dest!: transportError_sent
      simp: net_errors_sent elim: sent_quiet)

definition show_request :: "bytes \<Rightarrow> bytes \<times> json option" where
  "show_request i = (''/api/show'', Some (JObj [(''model'', JStr (local_tag i))]))"

lemma version_sent:
  "version n = (n1, r) \<Longrightarrow> sent n n1 [(''/api/version'', None)] \<and> (\<forall>e. r = Some e \<longrightarrow> e \<in> net_errors n)"
  using get_json_exchange [of None "''/api/version''" n "into_only ''version'' into_string" "[]"]
  by (auto simp: version_def body_json_def split: prod.splits sum.splits if_splits)

lemma inventory_exchange: "exchange [(''/api/tags'', None)] n (inventory n)"
  using get_json_exchange [of None "''/api/tags''" n "into_only ''models'' (into_slice into_installed zero_installed)" "[]"]
  by (auto simp: inventory_def body_json_def split: prod.splits sum.splits)

lemma show_exchange: "exchange [show_request i] n (show_model h i n)"
  using get_json_exchange [of "Some (Some (JObj [(''model'', JStr (local_tag i))]))" "''/api/show''" n into_details zero_details]
  by (auto simp: show_model_def body_json_def show_request_def split: prod.splits sum.splits option.splits
      dest!: net_now_sent elim: sent_quiet)

lemma loaded_exchange: "exchange [(''/api/ps'', None)] n (loaded h m n)"
  using get_json_exchange [of None "''/api/ps''" n
      "into_only ''models'' (into_slice into_process \<lparr>ps_Name = [], ps_Digest = [], ps_Context = None\<rparr>)" "[]"]
  by (auto simp: loaded_def body_json_def split: prod.splits sum.splits option.splits
      dest!: net_now_sent elim: sent_quiet)

text \<open>A composite operation may stop early: it sends a prefix of \<open>xs\<close>, and all of it if it succeeds.\<close>

definition follows :: "(bytes \<times> json option) list \<Rightarrow> net \<Rightarrow> net \<times> (goerr + 'a) \<Rightarrow> bool" where
  "follows xs n r =
     ((case snd r of Inr _ \<Rightarrow> sent n (fst r) xs | Inl e \<Rightarrow> e \<in> net_errors n) \<and> (\<exists>ys. prefix ys xs \<and> sent n (fst r) ys))"

lemma followsI: "exchange xs n r \<Longrightarrow> follows xs n r"
  by (auto simp: follows_def exchange_def split: sum.split)

lemma follows_Inl: "e \<in> net_errors n \<Longrightarrow> sent n n1 ys \<Longrightarrow> prefix ys xs \<Longrightarrow> follows xs n (n1, Inl e)"
  by (auto simp: follows_def)

lemma follows_stop: "e \<in> net_errors n \<Longrightarrow> follows xs n (n, Inl e)"
  by (rule follows_Inl [of _ _ _ "[]"]) simp_all

lemma follows_Inr: "sent n n1 xs \<Longrightarrow> follows xs n (n1, Inr x)"
  by (auto simp: follows_def)

lemma follows_left: "e' \<in> net_errors n \<Longrightarrow> follows xs n (n1, Inl e) \<Longrightarrow> follows (xs @ ys) n (n1, Inl e')"
  by (auto simp: follows_def intro: prefix_prefix)

lemma follows_right:
  assumes x: "sent n n1 xs" and y: "follows ys n1 r"
  shows "follows (xs @ ys) n r"
proof -
  obtain zs where "prefix zs ys" "sent n1 (fst r) zs" using y by (auto simp: follows_def)
  then have "\<exists>ws. prefix ws (xs @ ys) \<and> sent n (fst r) ws"
    using sent_trans [OF x] by (intro exI [of _ "xs @ zs"]) simp
  moreover have "sent n (fst r) (xs @ ys)" if "snd r = Inr z" for z
    using y that sent_trans [OF x] by (auto simp: follows_def)
  moreover have "e \<in> net_errors n" if "snd r = Inl e" for e
    using y that net_errors_sent [OF x] by (auto simp: follows_def)
  ultimately show ?thesis by (auto simp: follows_def split: sum.split)
qed

text \<open>Sequencing.\<close>

lemma follows_then:
  assumes "follows xs n r" and "\<And>x n1. r = (n1, Inr x) \<Longrightarrow> follows ys n1 (f x n1)"
  shows "follows (xs @ ys) n (then_net r f)"
proof (cases r)
  case (Pair n1 z)
  show ?thesis
  proof (cases z)
    case (Inl e)
    with assms(1) Pair have "e \<in> net_errors n" by (simp add: follows_def)
    then show ?thesis using assms(1) Pair Inl follows_left by (auto simp: then_net_def)
  next
    case (Inr x)
    with assms(1) Pair have "sent n n1 xs" by (simp add: follows_def)
    then show ?thesis using assms(2) Pair Inr by (auto simp: then_net_def intro: follows_right)
  qed
qed

subsection \<open>The script of a generation\<close>

text \<open>A selected model is the requested one, local, and passed the Modelfile check.\<close>

lemma selectModel_follows:
  "follows (if validID i then [(''/api/tags'', None), show_request i] else []) n (selectModel h i n)"
proof (cases "validID i")
  case True
  obtain n1 r where i: "inventory n = (n1, r)" by fastforce
  show ?thesis
  proof (cases r)
    case (Inl e)
    then have f: "follows [(''/api/tags'', None)] n (n1, Inl e :: goerr + installed list)"
      using followsI [OF inventory_exchange, of n] i by simp
    then have "e \<in> net_errors n" by (simp add: follows_def)
    from follows_left [OF this f, of "[show_request i]"] show ?thesis using True i Inl by (simp add: selectModel_def)
  next
    case (Inr ms)
    have s: "sent n n1 [(''/api/tags'', None)]" using inventory_exchange [of n] i Inr by (simp add: exchange_def)
    have fail: "follows ([(''/api/tags'', None)] @ [show_request i]) n
        (n1, Inl (ollama_fault c) :: goerr + installed \<times> details \<times> ContextInfo)" if "c \<in> public_codes" for c
      by (rule follows_Inl [OF _ s]) (use that in auto)
    have show_ok: "follows [show_request i] n1 (case show_model h i n1 of (n2, Inl e) \<Rightarrow> (n2, Inl e)
        | (n2, Inr (d, info)) \<Rightarrow> (n2, if \<not> usable m d then Inl (ollama_fault ErrUnsupported) else Inr (m, d, info)))" for m
      using show_exchange [of i n1 h]
      by (auto split: prod.splits sum.splits intro: follows_Inl follows_Inr)
    show ?thesis using True i Inr fail follows_right [OF s show_ok]
      by (auto simp: selectModel_def split: option.splits)
  qed
next
  case False
  then show ?thesis by (auto simp: selectModel_def intro: follows_stop)
qed

lemma selectModel_selected:
  "selectModel h i n = (n1, Inr (m, d, info)) \<Longrightarrow>
     validID i \<and> is_Name m = i \<and> is_RemoteHost m = [] \<and> is_RemoteModel m = [] \<and> usable m d"
  by (auto simp: selectModel_def find_Some_iff split: if_splits prod.splits sum.splits option.splits)

text \<open>
  The requests of a generation, in order: version, installed models, model details, the load
  request without messages, both again, the resident models, the prompt, the resident models.
  No identifier of a cloud or remote model is ever named.
\<close>

definition select_script :: "bytes \<Rightarrow> (bytes \<times> json option) list" where
  "select_script i = (if validID i then [(''/api/tags'', None), show_request i] else [])"

definition chat_entry :: "host \<Rightarrow> chatRequest \<Rightarrow> bytes \<times> json option" where
  "chat_entry h q = (''/api/chat'', chat_json h q)"

definition generate_script :: "host \<Rightarrow> InferenceInput \<Rightarrow> (bytes \<times> json option) list" where
  "generate_script h inp =
     (let i = rq_Model (ii_Request inp); o' = rq_Options (ii_Request inp) in
      if input_refused inp \<noteq> None then []
      else if \<not> validID i then [(''/api/version'', None)]
      else [(''/api/version'', None), (''/api/tags'', None), show_request i, chat_entry h (load_request i o'),
        (''/api/tags'', None), show_request i, (''/api/ps'', None), chat_entry h (prompt_request i inp), (''/api/ps'', None)])"

lemma input_accepted_encodable: "input_refused inp = None \<Longrightarrow> options_encodable (rq_Options (ii_Request inp))"
  by (auto simp: input_refused_def ValidateRequest_def options_invalid_def options_encodable_def
      split: option.splits if_splits)

lemma budget_error: "budget info = Some e \<Longrightarrow> e = ollama_fault ErrInvalidRequest"
  unfolding budget_def by (simp split: if_splits)

lemma choose_model_follows:
  "follows ((''/api/version'', None) # select_script (rq_Model (ii_Request inp))) n (choose_model h inp n)"
proof -
  let ?i = "rq_Model (ii_Request inp)"
  obtain n1 r where v: "version n = (n1, r)" by fastforce
  from version_sent [OF v] have s: "sent n n1 [(''/api/version'', None)]" by blast
  show ?thesis
  proof (cases r)
    case None
    have "follows ([(''/api/version'', None)] @ select_script ?i @ []) n (choose_model h inp n)"
      unfolding choose_model_def v None prod.case option.case select_script_def
    proof (rule follows_right [OF s], rule follows_then [OF selectModel_follows], goal_cases)
      case (1 x n2)
      show ?case by (cases x) (auto simp: Let_def split: option.split dest!: budget_error intro: follows_stop follows_Inr)
    qed
    then show ?thesis by simp
  next
    case (Some e)
    then show ?thesis using version_sent [OF v] v s by (auto simp: choose_model_def intro: follows_Inl)
  qed
qed

text \<open>What \<open>choose_model\<close> and \<open>load_model\<close> establish.\<close>

lemma choose_model_chosen:
  "choose_model h inp n = (n1, Inr (m, info)) \<Longrightarrow>
     validID (is_Name m) \<and> is_Name m = rq_Model (ii_Request inp) \<and> is_RemoteHost m = [] \<and> is_RemoteModel m = [] \<and>
     ci_RequestedTokens info = op_ContextTokens (rq_Options (ii_Request inp)) \<and>
     ci_ReservedOutputTokens info = op_MaxOutputTokens (rq_Options (ii_Request inp))"
  by (auto simp: choose_model_def then_net_def Let_def split: prod.splits option.splits sum.splits
      dest!: selectModel_selected)

lemma load_model_follows:
  assumes "input_refused inp = None" and "validID (is_Name m)"
  shows "follows (chat_entry h (load_request (is_Name m) (rq_Options (ii_Request inp)))
      # select_script (is_Name m) @ [(''/api/ps'', None)]) n (load_model h inp m info n)"
proof -
  let ?q = "chat_json h (load_request (is_Name m) (rq_Options (ii_Request inp)))"
  have q: "?q \<noteq> None" using input_accepted_encodable [OF assms(1)] by (simp add: chat_json_def load_request_def)
  have "exchange [(''/api/chat'', body_json (Some ?q))] n (get_json into_record zero_record ''/api/chat'' (Some ?q) n)"
    by (rule get_json_exchange) (use q in simp)
  then have 1: "follows [chat_entry h (load_request (is_Name m) (rq_Options (ii_Request inp)))] n
      (get_json into_record zero_record ''/api/chat'' (Some ?q) n)"
    by (intro followsI) (simp add: body_json_def chat_entry_def)
  have "follows ([chat_entry h (load_request (is_Name m) (rq_Options (ii_Request inp)))]
      @ select_script (is_Name m) @ [(''/api/ps'', None)] @ []) n (load_model h inp m info n)"
    unfolding load_model_def
  proof (rule follows_then [OF 1], goal_cases)
    case (1 load n1)
    show ?case
    proof (cases "loaded_ok (is_Name m) load")
      case True
      have ps: "follows (select_script (is_Name m) @ [(''/api/ps'', None)] @ []) n1 (then_net (selectModel h (is_Name m) n1) f)"
        if "\<And>x n2. follows ([(''/api/ps'', None)] @ []) n2 (f x n2)" for f :: "_ \<Rightarrow> net \<Rightarrow> net \<times> (goerr + ContextInfo)"
        unfolding select_script_def by (rule follows_then [OF selectModel_follows that])
      from True have ok: "(\<not> loaded_ok (is_Name m) load) = False" by simp
      show ?thesis unfolding ok if_False
      proof (rule ps, goal_cases)
        case (1 x n2)
        obtain m2 d2 refreshed where x: "x = (m2, d2, refreshed)" by (cases x)
        show ?case
        proof (cases "is_Digest m = [] \<or> is_Digest m2 \<noteq> is_Digest m")
          case False
          have fin: "follows ([(''/api/ps'', None)] @ []) n2 (then_net (loaded h m n2) f)"
            if "\<And>l n3. follows [] n3 (f l n3)" for f :: "_ \<Rightarrow> net \<Rightarrow> net \<times> (goerr + ContextInfo)"
            by (rule follows_then [OF followsI [OF loaded_exchange] that])
          show ?thesis unfolding x prod.case if_not_P [OF False]
            by (rule fin) (auto simp: Let_def split: option.split dest!: budget_error intro: follows_stop follows_Inr)
        qed (auto simp: x intro: follows_stop)
      qed
    qed (auto intro: follows_stop)
  qed
  then show ?thesis by simp
qed

subsection \<open>The stream sends nothing more\<close>

definition emitter_errors :: "'w emitter \<Rightarrow> goerr set" where
  "emitter_errors cb = {e. \<exists>text w. snd (cb text w) = Some e}"

lemma emitter_errorsI: "cb text w = (w1, Some e) \<Longrightarrow> e \<in> emitter_errors cb"
  using snd_conv [of w1 "Some e"] unfolding emitter_errors_def by (metis (mono_tags, lifting) mem_Collect_eq)

lemma stream_line_error:
  "stream_line i cb line out res w = (w1, Inl e) \<Longrightarrow> e \<in> net_errors n \<union> emitter_errors cb"
  by (auto simp: stream_line_def Let_def record_error_def
      split: if_splits option.splits prod.splits dest: emitter_errorsI)

lemma stream_loop_sent:
  "stream_loop i cb be s got out res n w = (n1, w1, r) \<Longrightarrow>
     sent n n1 [] \<and> (\<forall>e. r = Inl e \<longrightarrow> e \<in> net_errors n \<union> emitter_errors cb)"
proof (induction i cb be s got out res n w arbitrary: n1 w1 r rule: stream_loop.induct)
  case (1 i cb be s got out res n w)
  obtain line more where rs: "read_slice s = (line, more)" by fastforce
  show ?case
  proof (cases "length line > recordLimit \<or> got + length line > streamLimit")
    case True
    with 1(2) show ?thesis by (subst (asm) stream_loop.simps) (auto simp: rs Let_def)
  next
    case small: False
    obtain n2 c where c: "ctx_err n = (n2, c)" by fastforce
    note cs = ctx_err_sent [OF c]
    show ?thesis
    proof (cases c)
      case (Some e)
      with 1(2) small cs c show ?thesis by (subst (asm) stream_loop.simps) (auto simp: rs Let_def)
    next
      case None
      let ?step = "if line = [] then (w, Inr (out, res)) else stream_line i cb line out res w"
      obtain w2 x where x: "?step = (w2, x)" by fastforce
      show ?thesis
      proof (cases x)
        case (Inl e)
        have "e \<in> net_errors n \<union> emitter_errors cb" using x Inl stream_line_error [of i cb line out res w w2 e n] by (simp split: if_splits)
        with 1(2) small cs c None x Inl show ?thesis by (subst (asm) stream_loop.simps) (auto simp: rs Let_def)
      next
        case (Inr y)
        obtain out' res' where y: "y = (out', res')" by (cases y)
        show ?thesis
        proof (cases more)
          case None': None
          with 1(2) small cs c None x Inr y show ?thesis
            by (subst (asm) stream_loop.simps) (auto simp: rs Let_def split: body_end.splits option.splits if_splits)
        next
          case (Some s')
          have l: "stream_loop i cb be s' (got + length line) out' res' n2 w2 = (n1, w1, r)"
            using 1(2) small c None x Inr y Some by (subst (asm) stream_loop.simps) (simp add: rs Let_def)
          have "sent n2 n1 [] \<and> (\<forall>e. r = Inl e \<longrightarrow> e \<in> net_errors n2 \<union> emitter_errors cb)"
            by (rule 1(1) [OF rs [symmetric] refl refl small c [symmetric] None x [symmetric] Inr y [symmetric] Some l [folded]])
          then show ?thesis using cs sent_quiet [of n n2 "[]" n1] net_errors_sent [of n n2 "[]"] by auto
        qed
      qed
    qed
  qed
qed

subsection \<open>The whole generation\<close>

text \<open>\<open>follows\<close> with the errors \<open>E\<close> of the caller's callback besides those of the network.\<close>

definition obeys :: "(bytes \<times> json option) list \<Rightarrow> goerr set \<Rightarrow> net \<Rightarrow> net \<times> 'w \<times> (goerr + 'a) \<Rightarrow> bool" where
  "obeys xs E n r =
     ((case snd (snd r) of Inr _ \<Rightarrow> sent n (fst r) xs | Inl e \<Rightarrow> e \<in> net_errors n \<union> E) \<and>
      (\<exists>ys. prefix ys xs \<and> sent n (fst r) ys))"

lemma obeys_follows: "obeys xs E n (n1, w, r)" if "follows xs n (n1, r)"
  using that by (auto simp: obeys_def follows_def split: sum.splits)

lemma obeys_Inl: "obeys (xs @ ys) E n (n1, w, Inl e)" if "follows xs n (n1, Inl e)"
  using that by (auto simp: obeys_def follows_def intro: prefix_prefix)

lemma obeys_fail: "obeys xs E n (n1, w, Inl e) \<Longrightarrow> obeys (xs @ ys) E n (n1, w, Inl e)"
  by (auto simp: obeys_def intro: prefix_prefix)

lemma obeys_right:
  assumes x: "sent n n1 xs" and y: "obeys ys E n1 r"
  shows "obeys (xs @ ys) E n r"
proof -
  obtain zs where "prefix zs ys" "sent n1 (fst r) zs" using y by (auto simp: obeys_def)
  then have "\<exists>ws. prefix ws (xs @ ys) \<and> sent n (fst r) ws"
    using sent_trans [OF x] by (intro exI [of _ "xs @ zs"]) simp
  moreover have "sent n (fst r) (xs @ ys)" if "snd (snd r) = Inr z" for z
    using y that sent_trans [OF x] by (auto simp: obeys_def)
  moreover have "e \<in> net_errors n \<union> E" if "snd (snd r) = Inl e" for e
    using y that net_errors_sent [OF x] by (auto simp: obeys_def)
  ultimately show ?thesis by (auto simp: obeys_def split: sum.split)
qed

lemma stream_obeys:
  assumes "options_encodable (cq_Options q)"
  shows "obeys [chat_entry h q] (emitter_errors cb) n (stream h q i cb n w)"
proof -
  obtain n1 r where r: "request ''/api/chat'' (Some (chat_json h q)) n = (n1, r)" by fastforce
  have "exchange [(''/api/chat'', body_json (Some (chat_json h q)))] n (n1, r)"
    unfolding r [symmetric] by (rule request_exchange) (use assms in \<open>simp add: chat_json_def\<close>)
  then have x: "exchange [chat_entry h q] n (n1, r)" by (simp add: chat_entry_def body_json_def)
  show ?thesis
  proof (cases r)
    case (Inl e)
    then show ?thesis using x r by (auto simp: stream_def obeys_def)
  next
    case (Inr bb)
    obtain b be where bb: "bb = (b, be)" by (cases bb)
    obtain n2 w2 z where l: "stream_loop i cb (if length b > streamLimit then BodyEOF else be)
        (take (streamLimit + 1) b) 0 0 None n1 w = (n2, w2, z)" by (cases "stream_loop i cb
        (if length b > streamLimit then BodyEOF else be) (take (streamLimit + 1) b) 0 0 None n1 w")
    from x Inr have s: "sent n n1 [chat_entry h q]" by simp
    have "obeys ([chat_entry h q] @ []) (emitter_errors cb) n (n2, w2, z)"
      using stream_loop_sent [OF l] by (intro obeys_right [OF s]) (auto simp: obeys_def split: sum.split)
    then show ?thesis using r Inr bb l by (simp add: stream_def)
  qed
qed

lemma seal_follows: "follows [(''/api/ps'', None)] n (seal h m info r n)"
proof -
  have "follows ([(''/api/ps'', None)] @ []) n (seal h m info r n)"
    unfolding seal_def
    by (rule follows_then [OF followsI [OF loaded_exchange]])
      (auto simp: Let_def split: option.split prod.split dest!: ctx_err_sent
        intro: follows_stop follows_Inr follows_Inl [of _ _ _ "[]"])
  then show ?thesis by simp
qed

lemma prompt_request_options: "cq_Options (prompt_request i inp) = rq_Options (ii_Request inp)"
  by (simp add: prompt_request_def load_request_def)

definition callback_errors :: "'w emitter option \<Rightarrow> goerr set" where
  "callback_errors cbo = (case cbo of None \<Rightarrow> {} | Some cb \<Rightarrow> emitter_errors cb)"

lemma obeys_stop: "e \<in> net_errors n \<Longrightarrow> obeys xs E n (n, w, Inl e)"
  by (auto simp: obeys_def intro: exI [of _ "[]"])

lemma generate_body_obeys: "obeys (generate_script h inp) (callback_errors cbo) n (generate_body h cbo inp n w)"
proof (cases "cbo = None \<or> input_refused inp \<noteq> None")
  case True
  have "ollama_fault c \<in> net_errors n" if "input_refused inp = Some c" for c
    using that by (auto simp: input_refused_def split: option.splits if_splits)
  with True show ?thesis by (auto simp: generate_body_def split: option.splits intro: obeys_stop)
next
  case False
  then obtain cb where cb: "cbo = Some cb" and ok: "input_refused inp = None" by auto
  let ?i = "rq_Model (ii_Request inp)" and ?o = "rq_Options (ii_Request inp)"
  let ?a = "(''/api/version'', None) # select_script ?i"
  let ?b = "chat_entry h (load_request ?i ?o) # select_script ?i @ [(''/api/ps'', None)]"
  let ?c = "[chat_entry h (prompt_request ?i inp)]"
  let ?d = "[(''/api/ps'', None)] :: (bytes \<times> json option) list"
  obtain n1 r1 where c: "choose_model h inp n = (n1, r1)" by fastforce
  show ?thesis
  proof (cases r1)
    case (Inl e)
    have "obeys (?a @ zs) (callback_errors cbo) n (n1, w, Inl e :: goerr + Result)" for zs
      using choose_model_follows [of inp n h] c Inl by (intro obeys_Inl) (auto simp: follows_def)
    moreover have "\<exists>zs. generate_script h inp = ?a @ zs"
      using ok by (auto simp: generate_script_def select_script_def Let_def)
    ultimately show ?thesis using cb ok c Inl by (auto simp: generate_body_def)
  next
    case (Inr mi)
    obtain m info where mi: "mi = (m, info)" by (cases mi)
    have m: "validID ?i" "is_Name m = ?i" using choose_model_chosen c Inr mi by fastforce+
    have script: "generate_script h inp = ?a @ ?b @ ?c @ ?d"
      using ok m by (simp add: generate_script_def select_script_def Let_def)
    have 1: "sent n n1 ?a" using choose_model_follows [of inp n h] c Inr by (simp add: follows_def)
    obtain n2 r2 where l: "load_model h inp m info n1 = (n2, r2)" by fastforce
    have lf: "follows ?b n1 (n2, r2)" using load_model_follows [OF ok, of m h n1 info] m l by simp
    show ?thesis
    proof (cases r2)
      case I2: (Inl e)
      have "obeys (?a @ ?b @ ?c @ ?d) (callback_errors cbo) n (n2, w, Inl e :: goerr + Result)"
        using lf I2 by (intro obeys_right [OF 1] obeys_Inl) (auto simp: follows_def)
      then show ?thesis using cb ok c Inr mi l I2 script by (simp add: generate_body_def)
    next
      case I2: (Inr info')
      have 2: "sent n1 n2 ?b" using lf I2 by (simp add: follows_def)
      obtain n3 w3 r3 where s: "stream h (prompt_request ?i inp) ?i cb n2 w = (n3, w3, r3)"
        by (cases "stream h (prompt_request ?i inp) ?i cb n2 w")
      have so: "obeys ?c (callback_errors cbo) n2 (n3, w3, r3)"
        using stream_obeys [of "prompt_request ?i inp" h cb n2 ?i w] input_accepted_encodable [OF ok] s cb
        by (simp add: prompt_request_options callback_errors_def)
      show ?thesis
      proof (cases r3)
        case I3: (Inl e)
        have "obeys (?a @ ?b @ ?c @ ?d) (callback_errors cbo) n (n3, w3, Inl e :: goerr + Result)"
          using so I3 by (intro obeys_right [OF 1] obeys_right [OF 2] obeys_fail) simp
        then show ?thesis using cb ok c Inr mi l I2 script s I3 m by (simp add: generate_body_def)
      next
        case I3: (Inr r)
        have 3: "sent n2 n3 ?c" using so I3 by (simp add: obeys_def)
        obtain n4 r4 where f: "seal h m info' r n3 = (n4, r4)" by fastforce
        have "obeys (?a @ ?b @ ?c @ ?d) (callback_errors cbo) n (n4, w3, r4)"
          using seal_follows [of n3 h m info' r] f
          by (intro obeys_right [OF 1] obeys_right [OF 2] obeys_right [OF 3] obeys_follows) simp
        then show ?thesis using cb ok c Inr mi l I2 script s I3 m f by (simp add: generate_body_def)
      qed
    qed
  qed
qed

lemma Generate_obeys: "obeys (generate_script h inp) (callback_errors cbo) n (Generate h cbo inp n w)"
proof -
  obtain n1 w1 r where g: "generate_body h cbo inp n w = (n1, w1, r)" by (cases "generate_body h cbo inp n w")
  have o: "obeys (generate_script h inp) (callback_errors cbo) n (n1, w1, r)"
    using generate_body_obeys [of h inp cbo n w] g by simp
  show ?thesis
  proof (cases r)
    case (Inl e)
    obtain n2 c where c: "ctx_err n1 = (n2, c)" by fastforce
    have "sent n n2 ys" if "sent n n1 ys" for ys using sent_quiet [OF that] ctx_err_sent [OF c] by blast
    then show ?thesis using o g Inl c by (auto simp: Generate_def obeys_def)
  next
    case (Inr x)
    then show ?thesis using o g by (simp add: Generate_def)
  qed
qed

text \<open>
  C28. Whatever the Ollama server answers and however the caller cancels, one generation sends
  a prefix of a fixed script of nine requests, all nine if it succeeds: version, installed
  models, details, an empty load request, installed models and details again, resident models,
  the prompt, resident models. Every request that names a model names the local tag of the
  requested one, the prompt leaves only after the recheck, and nothing is sent for a refused
  input or beyond the version query for an identifier that is not a local one.
\<close>

theorem Generate_script:
  "case Generate h cbo inp n w of (n', _, r) \<Rightarrow>
     (\<exists>xs. prefix xs (generate_script h inp) \<and> nt_sent n' = nt_sent n @ xs \<and>
       (case r of Inl _ \<Rightarrow> True | Inr _ \<Rightarrow> xs = generate_script h inp))"
  using Generate_obeys [of h inp cbo n w]
  by (auto simp: obeys_def sent_def split: prod.split sum.splits)

text \<open>
  C29. Every error a generation returns is one of five fixed messages, what the context
  reported, or what the caller's own callback returned: no text of the server ever leaves the
  adapter in an error.
\<close>

theorem Generate_errors:
  "case snd (snd (Generate h cbo inp n w)) of
     Inr _ \<Rightarrow> True
   | Inl e \<Rightarrow> e \<in> ollama_fault ` {ErrInvalidRequest, ErrUnsupported, ErrLimitExceeded, ErrBackendUnavailable, ErrBackendFailure}
       \<union> {e. \<exists>k. nt_ctx n k = Some e} \<union> {e. \<exists>cb text w. cbo = Some cb \<and> snd (cb text w) = Some e}"
  using Generate_obeys [of h inp cbo n w]
  by (auto simp: obeys_def net_errors_def public_codes_def callback_errors_def emitter_errors_def
      split: sum.splits option.splits)

end
