(* ===== verification/Ollama_Stream.thy ===== *)
theory Ollama_Stream
  imports Ollama_Safety
begin

text \<open>
  What a streamed answer is: the loop that reads it line by line succeeds exactly on the bodies
  described by \<open>answer\<close>, and then has emitted exactly their text.
\<close>

subsection \<open>Answers\<close>

definition record_text :: "chat_record \<Rightarrow> bytes" where
  "record_text v = (case cr_Message v of None \<Rightarrow> [] | Some m \<Rightarrow> mg_Content m)"

definition decodes :: "bytes \<Rightarrow> bytes \<Rightarrow> chat_record \<Rightarrow> bool" where
  "decodes i line v = (length line \<le> recordLimit \<and> validObject line \<and>
     Option.bind (parse_go line) (\<lambda>j. into_record j zero_record) = Some v \<and> record_error i v = None)"

definition answer :: "bytes \<Rightarrow> bytes list \<Rightarrow> chat_record list \<Rightarrow> bool" where
  "answer i ls vs = (list_all2 (decodes i) ls vs \<and> vs \<noteq> [] \<and> cr_Done (last vs) = Some True \<and>
     list_all (\<lambda>v. cr_Done v = Some False) (butlast vs))"

fun emit_all :: "'w emitter \<Rightarrow> bytes list \<Rightarrow> 'w \<Rightarrow> 'w \<times> goerr option" where
  "emit_all cb [] w = (w, None)"
| "emit_all cb (t # ts) w =
     (if t = [] then emit_all cb ts w
      else (case cb t w of (w1, Some e) \<Rightarrow> (w1, Some e) | (w1, None) \<Rightarrow> emit_all cb ts w1))"

definition ctx_quiet :: "net \<Rightarrow> nat \<Rightarrow> bool" where
  "ctx_quiet n k = (\<forall>j<k. nt_ctx n (nt_checks n + j) = None)"

definition checked :: "net \<Rightarrow> nat \<Rightarrow> net" where
  "checked n k = n\<lparr>nt_checks := nt_checks n + k\<rparr>"

lemma ctx_quiet_Suc: "ctx_quiet n (Suc k) \<longleftrightarrow> nt_ctx n (nt_checks n) = None \<and> ctx_quiet (checked n 1) k"
  by (auto simp: ctx_quiet_def checked_def less_Suc_eq_0_disj)

lemma checked_checked: "checked (checked n a) b = checked n (a + b)"
  by (simp add: checked_def add.assoc)

lemma ctx_err_checked: "ctx_err n = (checked n 1, nt_ctx n (nt_checks n))"
  by (simp add: ctx_err_def checked_def)

lemma record_error_None:
  "record_error i v = None \<Longrightarrow> \<exists>d m. cr_Done v = Some d \<and> cr_Message v = Some m \<and> cr_Error v = None \<and>
     sameModel (cr_Model v) i \<and> (d \<longrightarrow> cr_Reason v = ''stop'' \<or> cr_Reason v = ''length'')"
  by (auto simp: record_error_def split: option.splits if_splits)

lemma stream_line_ok:
  assumes "length line \<le> recordLimit"
  shows "stream_line i cb line out res w = (w1, Inr (out', res')) \<longleftrightarrow>
     res = None \<and> (\<exists>v. decodes i line v \<and> out' = out + length (record_text v) \<and> out' \<le> MaxOutputBytes \<and>
       emit_all cb [record_text v] w = (w1, None) \<and>
       res' = (if cr_Done v = Some True then Some (record_result v) else None))"
proof (cases "res = None \<and> validObject line")
  case True
  show ?thesis
  proof (cases "Option.bind (parse_go line) (\<lambda>j. into_record j zero_record)")
    case (Some v)
    show ?thesis
    proof (cases "record_error i v")
      case None
      with record_error_None [OF None] obtain d m where "cr_Done v = Some d" "cr_Message v = Some m" by blast
      with True Some None assms show ?thesis
        by (auto simp: stream_line_def decodes_def record_text_def Let_def split: option.splits prod.splits)
    qed (use True Some in \<open>auto simp: stream_line_def decodes_def\<close>)
  qed (use True in \<open>auto simp: stream_line_def decodes_def\<close>)
qed (auto simp: stream_line_def decodes_def)

text \<open>After a final record only the end of the body may follow.\<close>

lemma stream_loop_done:
  "stream_loop i cb be s got out (Some x) n w = (n1, w1, Inr r) \<longleftrightarrow>
     s = [] \<and> be = BodyEOF \<and> got \<le> streamLimit \<and> ctx_quiet n 1 \<and> n1 = checked n 1 \<and> w1 = w \<and> r = x"
proof (cases "s = []")
  case True
  then show ?thesis
    by (subst stream_loop.simps)
      (auto simp: read_slice_def ctx_err_checked ctx_quiet_Suc ctx_quiet_def split: body_end.splits option.splits)
next
  case False
  obtain line mo where rs: "read_slice s = (line, mo)" by fastforce
  have "line \<noteq> []" using False rs read_slice_nonempty [of s line] read_slice_last [of s line] by (cases mo) auto
  with False rs show ?thesis
    by (subst stream_loop.simps) (auto simp: ctx_err_checked stream_line_def Let_def split: option.splits)
qed

lemma stream_loop_step:
  assumes rs: "read_slice s = (line, mo)" and "line \<noteq> []"
  shows "stream_loop i cb be s got out None n w = (n1, w1, Inr r) \<longleftrightarrow>
     got + length line \<le> streamLimit \<and> nt_ctx n (nt_checks n) = None \<and>
     (\<exists>v w2. decodes i line v \<and> out + length (record_text v) \<le> MaxOutputBytes \<and>
       emit_all cb [record_text v] w = (w2, None) \<and>
       (case mo of
          None \<Rightarrow> n1 = checked n 1 \<and> w1 = w2 \<and> be = BodyEOF \<and> cr_Done v = Some True \<and> r = record_result v
        | Some s' \<Rightarrow> stream_loop i cb be s' (got + length line) (out + length (record_text v))
            (if cr_Done v = Some True then Some (record_result v) else None) (checked n 1) w2 = (n1, w1, Inr r)))"
proof (cases "length line \<le> recordLimit \<and> got + length line \<le> streamLimit \<and> nt_ctx n (nt_checks n) = None")
  case False
  then show ?thesis
    by (subst stream_loop.simps) (auto simp: rs Let_def ctx_err_checked decodes_def split: option.splits)
next
  case True
  obtain w2 x where x: "stream_line i cb line out None w = (w2, x)" by fastforce
  have e: "stream_loop i cb be s got out None n w =
      (case x of Inl e \<Rightarrow> (checked n 1, w2, Inl e)
       | Inr (out', res') \<Rightarrow> (case mo of
            Some r \<Rightarrow> stream_loop i cb be r (got + length line) out' res' (checked n 1) w2
          | None \<Rightarrow> (checked n 1, w2, (case (be, res') of (BodyEOF, Some x) \<Rightarrow> Inr x
              | _ \<Rightarrow> Inl (ollama_fault (if be = BodyTimeout then ErrBackendUnavailable else ErrBackendFailure))))))"
    using True assms(2) x by (subst stream_loop.simps) (simp add: rs ctx_err_checked del: One_nat_def)
  have ok: "x = Inr (out', res') \<longleftrightarrow>
     (\<exists>v. decodes i line v \<and> out' = out + length (record_text v) \<and> out' \<le> MaxOutputBytes \<and>
       emit_all cb [record_text v] w = (w2, None) \<and>
       res' = (if cr_Done v = Some True then Some (record_result v) else None))" for out' res'
    using stream_line_ok [of line i cb out None w w2 out' res'] True x by simp
  show ?thesis
  proof (cases x)
    case (Inl y)
    have "\<not> (decodes i line v \<and> out + length (record_text v) \<le> MaxOutputBytes \<and> emit_all cb [record_text v] w = (w3, None))" for v w3
    proof
      assume "decodes i line v \<and> out + length (record_text v) \<le> MaxOutputBytes \<and> emit_all cb [record_text v] w = (w3, None)"
      then have "stream_line i cb line out None w = (w3, Inr (out + length (record_text v),
          if cr_Done v = Some True then Some (record_result v) else None))"
        using stream_line_ok [of line i cb out None w w3] True by blast
      with x Inl show False by simp
    qed
    then show ?thesis unfolding e Inl by auto
  next
    case (Inr y)
    obtain out' res' where y: "y = (out', res')" by (cases y)
    from ok Inr y obtain v where v: "decodes i line v" "out' = out + length (record_text v)" "out' \<le> MaxOutputBytes"
      "emit_all cb [record_text v] w = (w2, None)" "res' = (if cr_Done v = Some True then Some (record_result v) else None)"
      by blast
    have u: "v' = v" if "decodes i line v'" for v' using that v(1) by (simp add: decodes_def)
    have ex: "(\<exists>v' w3. decodes i line v' \<and> out + length (record_text v') \<le> MaxOutputBytes \<and>
        emit_all cb [record_text v'] w = (w3, None) \<and> Q v' w3) \<longleftrightarrow> Q v w2" for Q
    proof
      assume "\<exists>v' w3. decodes i line v' \<and> out + length (record_text v') \<le> MaxOutputBytes \<and>
        emit_all cb [record_text v'] w = (w3, None) \<and> Q v' w3"
      then obtain v' w3 where "decodes i line v'" and q: "emit_all cb [record_text v'] w = (w3, None)" "Q v' w3" by blast
      from u [OF this(1)] q v(4) show "Q v w2" by simp
    qed (use v in blast)
    show ?thesis unfolding e ex Inr y using True v(2,5)
      by (cases mo) (auto split: body_end.splits option.splits if_splits)
  qed
qed

lemma answer_Nil: "\<not> answer i [] vs"
  by (auto simp: answer_def)

lemma answer_Cons:
  "answer i (l # ls) vs \<longleftrightarrow>
     (\<exists>v. decodes i l v \<and> (if cr_Done v = Some True then ls = [] \<and> vs = [v] else (\<exists>us. vs = v # us \<and> answer i ls us)))"
proof (cases vs)
  case (Cons v us)
  show ?thesis
  proof (cases "us = []")
    case True
    then show ?thesis using Cons by (auto simp: answer_def)
  next
    case False
    have "cr_Done v = Some False" if "decodes i l v" "cr_Done v \<noteq> Some True"
      using that record_error_None [of i v] by (auto simp: decodes_def)
    then show ?thesis using Cons False by (auto simp: answer_def intro!: exI [of _ v])
  qed
qed (auto simp: answer_def)

lemma emit_all_Cons: "emit_all cb (t # ts) w = (w1, None) \<longleftrightarrow>
   (\<exists>w2. emit_all cb [t] w = (w2, None) \<and> emit_all cb ts w2 = (w1, None))"
  by (auto split: prod.splits option.splits)

lemma stream_loop_ok:
  "stream_loop i cb be s got out None n w = (n1, w1, Inr r) \<longleftrightarrow>
     be = BodyEOF \<and> got + length s \<le> streamLimit \<and>
     (\<exists>vs. answer i (body_lines s) vs \<and> out + sum_list (map (\<lambda>v. length (record_text v)) vs) \<le> MaxOutputBytes \<and>
       emit_all cb (map record_text vs) w = (w1, None) \<and> r = record_result (last vs)) \<and>
     ctx_quiet n (reads s) \<and> n1 = checked n (reads s)"
proof (induction s arbitrary: got out n w rule: length_induct)
  case (1 s)
  obtain line mo where rs: "read_slice s = (line, mo)" by fastforce
  show ?case
  proof (cases "s = []")
    case True
    then show ?thesis
      by (subst stream_loop.simps) (auto simp: read_slice_def ctx_err_checked body_lines.simps answer_Nil split: option.splits body_end.splits)
  next
    case False
    have l: "line \<noteq> []" using False rs read_slice_nonempty [of s line] read_slice_last [of s line] by (cases mo) auto
    show ?thesis
    proof (cases mo)
      case None
      with rs read_slice_last [of s line] have s: "line = s" "reads s = 1" by auto
      have "body_lines s = [s]" using False rs None s by (simp add: body_lines.simps)
      then show ?thesis using None s
        by (simp add: stream_loop_step [OF rs l] answer_Cons answer_Nil ctx_quiet_Suc [of n 0, simplified]) (auto simp: ctx_quiet_def)
    next
      case (Some s')
      have s: "s = line @ s'" "reads s = Suc (reads s')" using read_slice_append [OF rs] read_slice_reads [of s line s'] rs Some by simp_all
      have b: "body_lines s = line # body_lines s'" using False rs Some by (simp add: body_lines.simps)
      have IH: "stream_loop i cb be s' got' out' None n' w' = (n1, w1, Inr r) \<longleftrightarrow>
          be = BodyEOF \<and> got' + length s' \<le> streamLimit \<and>
          (\<exists>vs. answer i (body_lines s') vs \<and> out' + sum_list (map (\<lambda>v. length (record_text v)) vs) \<le> MaxOutputBytes \<and>
            emit_all cb (map record_text vs) w' = (w1, None) \<and> r = record_result (last vs)) \<and>
          ctx_quiet n' (reads s') \<and> n1 = checked n' (reads s')" for got' out' n' w'
        using 1 s l by simp
      have e: "body_lines s' = [] \<longleftrightarrow> s' = []" by (subst body_lines.simps) (auto split: prod.splits option.splits)
      have one: "reads [] = 1" by (simp add: reads_def)
      show ?thesis
      proof (cases "\<exists>v. decodes i line v")
        case True
        then obtain v where v: "decodes i line v" by blast
        have u: "v' = v" if "decodes i line v'" for v' using that v by (simp add: decodes_def)
        have ex1: "(\<exists>v'. decodes i line v' \<and> Q v') \<longleftrightarrow> Q v" for Q using u v by blast
        let ?res = "if cr_Done v = Some True then Some (record_result v) else None"
        have step: "stream_loop i cb be s got out None n w = (n1, w1, Inr r) \<longleftrightarrow>
            got + length line \<le> streamLimit \<and> nt_ctx n (nt_checks n) = None \<and>
            out + length (record_text v) \<le> MaxOutputBytes \<and>
            (\<exists>w2. emit_all cb [record_text v] w = (w2, None) \<and>
               stream_loop i cb be s' (got + length line) (out + length (record_text v)) ?res (checked n 1) w2 = (n1, w1, Inr r))"
          unfolding stream_loop_step [OF rs l, of i cb be got out n w n1 w1 r, unfolded Some option.case]
          using u v by blast
        show ?thesis
        proof (cases "cr_Done v = Some True")
          case True
          have a: "answer i (body_lines s) vs \<longleftrightarrow> s' = [] \<and> vs = [v]" for vs
            unfolding b answer_Cons ex1 e using True by simp
          have c: "ctx_quiet n (reads s) \<longleftrightarrow> nt_ctx n (nt_checks n) = None \<and> ctx_quiet (checked n 1) (reads s')"
            unfolding s(2) ctx_quiet_Suc ..
          have d: "checked n (reads s) = checked (checked n 1) (reads s')" unfolding s(2) checked_checked by simp
          show ?thesis unfolding step True if_True simp_thms stream_loop_done a c d
            by (cases "s' = []") (auto simp: one s(1) simp del: emit_all.simps One_nat_def)
        next
          case False
          have a: "answer i (body_lines s) vs \<longleftrightarrow> (\<exists>us. vs = v # us \<and> answer i (body_lines s') us)" for vs
            unfolding b answer_Cons ex1 using False by simp
          have last: "last (v # us) = last us" if "answer i (body_lines s') us" for us
            using that by (auto simp: answer_def)
          have c: "ctx_quiet n (reads s) \<longleftrightarrow> nt_ctx n (nt_checks n) = None \<and> ctx_quiet (checked n 1) (reads s')"
            unfolding s(2) ctx_quiet_Suc ..
          have d: "checked n (reads s) = checked (checked n 1) (reads s')" unfolding s(2) checked_checked by simp
          have f: "(if cr_Done v = Some True then Some (record_result v) else None) = None" using False by simp
          show ?thesis unfolding step f IH a c d
          proof (intro iffI; elim conjE exE)
            fix w2 vs
            assume "got + length line + length s' \<le> streamLimit" "be = BodyEOF" "nt_ctx n (nt_checks n) = None"
              "emit_all cb [record_text v] w = (w2, None)" "answer i (body_lines s') vs"
              "out + length (record_text v) + sum_list (map (\<lambda>v. length (record_text v)) vs) \<le> MaxOutputBytes"
              "emit_all cb (map record_text vs) w2 = (w1, None)" "r = record_result (last vs)"
              "ctx_quiet (checked n 1) (reads s')" "n1 = checked (checked n 1) (reads s')"
            note h = this
            have "\<exists>vs. (\<exists>us. vs = v # us \<and> answer i (body_lines s') us) \<and>
                 out + sum_list (map (\<lambda>v. length (record_text v)) vs) \<le> MaxOutputBytes \<and>
                 emit_all cb (map record_text vs) w = (w1, None) \<and> r = record_result (last vs)"
              by (rule exI [of _ "v # vs"])
                (use h emit_all_Cons [of cb "record_text v" "map record_text vs" w w1] last [of vs] in
                  \<open>auto simp del: emit_all.simps\<close>)
            then show "be = BodyEOF \<and> got + length s \<le> streamLimit \<and>
               (\<exists>vs. (\<exists>us. vs = v # us \<and> answer i (body_lines s') us) \<and>
                 out + sum_list (map (\<lambda>v. length (record_text v)) vs) \<le> MaxOutputBytes \<and>
                 emit_all cb (map record_text vs) w = (w1, None) \<and> r = record_result (last vs)) \<and>
               (nt_ctx n (nt_checks n) = None \<and> ctx_quiet (checked n 1) (reads s')) \<and>
               n1 = checked (checked n 1) (reads s')"
              using h s(1) by simp
          next
            fix vs us
            assume "be = BodyEOF" "got + length s \<le> streamLimit" "vs = v # us" "answer i (body_lines s') us"
              "out + sum_list (map (\<lambda>v. length (record_text v)) vs) \<le> MaxOutputBytes"
              "emit_all cb (map record_text vs) w = (w1, None)" "r = record_result (last vs)"
              "nt_ctx n (nt_checks n) = None" "ctx_quiet (checked n 1) (reads s')" "n1 = checked (checked n 1) (reads s')"
            then show "got + length line \<le> streamLimit \<and> nt_ctx n (nt_checks n) = None \<and>
               out + length (record_text v) \<le> MaxOutputBytes \<and>
               (\<exists>w2. emit_all cb [record_text v] w = (w2, None) \<and>
                 be = BodyEOF \<and> got + length line + length s' \<le> streamLimit \<and>
                 (\<exists>vs. answer i (body_lines s') vs \<and>
                   out + length (record_text v) + sum_list (map (\<lambda>v. length (record_text v)) vs) \<le> MaxOutputBytes \<and>
                   emit_all cb (map record_text vs) w2 = (w1, None) \<and> r = record_result (last vs)) \<and>
                 ctx_quiet (checked n 1) (reads s') \<and> n1 = checked (checked n 1) (reads s'))"
              using emit_all_Cons [of cb "record_text v" "map record_text us" w w1] last [of us] s(1)
              by (auto simp del: emit_all.simps simp: add.assoc intro!: exI [of _ us])
          qed
        qed
      qed (auto simp: stream_loop_step [OF rs l] b answer_Cons)
    qed
  qed
qed

text \<open>
  C30. A streamed answer is accepted exactly if its body ends cleanly within the stream limit,
  every line is a valid record of the requested model within the record limit, only the last
  record is final, and the text stays within the output limit and was accepted by the callback;
  the callback then received exactly the texts of the records, in order, and the result is that
  of the final record.
\<close>

theorem stream_exact:
  "stream h q i cb n w = (n', w', Inr r) \<longleftrightarrow>
     (\<exists>b n1 vs. request ''/api/chat'' (Some (chat_json h q)) n = (n1, Inr (b, BodyEOF)) \<and>
        length b \<le> streamLimit \<and> answer i (body_lines b) vs \<and>
        sum_list (map (\<lambda>v. length (record_text v)) vs) \<le> MaxOutputBytes \<and>
        emit_all cb (map record_text vs) w = (w', None) \<and> r = record_result (last vs) \<and>
        ctx_quiet n1 (reads b) \<and> n' = checked n1 (reads b))"
proof -
  obtain n1 x where r: "request ''/api/chat'' (Some (chat_json h q)) n = (n1, x)" by fastforce
  show ?thesis
  proof (cases x)
    case (Inr bb)
    obtain b be where bb: "bb = (b, be)" by (cases bb)
    show ?thesis
    proof (cases "length b \<le> streamLimit")
      case True
      then show ?thesis
        by (auto simp: stream_def r Inr bb stream_loop_ok)
    next
      case False
      then show ?thesis by (auto simp: stream_def r Inr bb stream_loop_ok)
    qed
  qed (simp add: stream_def r)
qed

subsection \<open>The callback\<close>

definition message_ok :: "message option \<Rightarrow> bool" where
  "message_ok x = (case x of None \<Rightarrow> True | Some m \<Rightarrow> valid_utf8 (mg_Content m))"

lemma into_message_ok:
  assumes "into_message v m = Some m'" and "text_ok v" and "valid_utf8 (mg_Content m)"
  shows "valid_utf8 (mg_Content m')"
  using assms unfolding into_message_def
proof (rule into_struct_invariant [where P = "\<lambda>m. valid_utf8 (mg_Content m)"], goal_cases)
  case (1 k f v s s')
  then show ?case
    using into_string_valid [of v "mg_Content s" "mg_Content s'"] by (auto simp: slot_def)
qed

lemma into_record_ok:
  assumes "into_record v x = Some x'" and "text_ok v" and "message_ok (cr_Message x)"
  shows "message_ok (cr_Message x')"
  using assms unfolding into_record_def
proof (rule into_struct_invariant [where P = "\<lambda>x. message_ok (cr_Message x)"], goal_cases)
  case (1 k f v s s')
  then show ?case
    using into_message_ok [of v "case cr_Message s of None \<Rightarrow> \<lparr>mg_Role = [], mg_Content = []\<rparr> | Some m \<Rightarrow> m"]
    by (auto simp: slot_def into_pointer_def message_ok_def split: if_splits option.splits)
qed

lemma decoded_text_valid:
  "parse_go line = Some j \<Longrightarrow> into_record j zero_record = Some v \<Longrightarrow> valid_utf8 (record_text v)"
  using into_record_ok [of j zero_record v] text_ok_parse_go [of line j]
  by (auto simp: zero_record_def message_ok_def record_text_def split: option.splits)

definition guarded :: "'w emitter \<Rightarrow> 'w emitter" where
  "guarded cb text w =
     (if text \<noteq> [] \<and> valid_utf8 text \<and> length text \<le> MaxOutputBytes then cb text w else (w, None))"

lemma stream_line_guarded: "stream_line i (guarded cb) line out res w = stream_line i cb line out res w"
proof (cases "res \<noteq> None \<or> \<not> validObject line")
  case False
  show ?thesis
  proof (cases "Option.bind (parse_go line) (\<lambda>j. into_record j zero_record)")
    case (Some v)
    then have t: "valid_utf8 (record_text v)" using decoded_text_valid by (auto simp: bind_eq_Some_conv)
    show ?thesis
    proof (cases "record_error i v")
      case None
      with record_error_None [OF None] obtain d m where "cr_Done v = Some d" "cr_Message v = Some m" by blast
      with False Some None t show ?thesis
        by (simp add: stream_line_def guarded_def record_text_def Let_def)
    qed (use False Some in \<open>simp add: stream_line_def\<close>)
  qed (use False in \<open>simp add: stream_line_def\<close>)
qed (simp add: stream_line_def)

lemma stream_loop_guarded:
  "stream_loop i (guarded cb) be s got out res n w = stream_loop i cb be s got out res n w"
proof (induction s arbitrary: got out res n w rule: length_induct)
  case (1 s)
  obtain line mo where rs: "read_slice s = (line, mo)" by fastforce
  have IH: "stream_loop i (guarded cb) be r got out res n w = stream_loop i cb be r got out res n w"
    if "mo = Some r" for r got out res n w
    using 1 read_slice_length [of s line r] rs that by simp
  have eq: "stream_loop i f be s got out res n w =
     (if length line > recordLimit \<or> got + length line > streamLimit then (n, w, Inl (ollama_fault ErrLimitExceeded))
      else (case ctx_err n of
          (n1, Some e) \<Rightarrow> (n1, w, Inl e)
        | (n1, None) \<Rightarrow>
            (case (if line = [] then (w, Inr (out, res)) else stream_line i f line out res w) of
               (w1, Inl e) \<Rightarrow> (n1, w1, Inl e)
             | (w1, Inr (out', res')) \<Rightarrow>
                 (case mo of
                    Some r \<Rightarrow> stream_loop i f be r (got + length line) out' res' n1 w1
                  | None \<Rightarrow>
                      (n1, w1,
                        (case (be, res') of
                           (BodyEOF, Some x) \<Rightarrow> Inr x
                         | _ \<Rightarrow> Inl (ollama_fault (if be = BodyTimeout then ErrBackendUnavailable else ErrBackendFailure))))))))" for f
    by (subst stream_loop.simps) (simp only: rs prod.case Let_def)
  show ?case
  proof (cases mo)
    case None
    show ?thesis unfolding eq None option.case stream_line_guarded by (rule refl)
  next
    case (Some r)
    show ?thesis unfolding eq Some option.case stream_line_guarded IH [OF Some] by (rule refl)
  qed
qed

lemma stream_guarded: "stream h q i (guarded cb) n w = stream h q i cb n w"
  unfolding stream_def stream_loop_guarded by (rule refl)

text \<open>
  C31. A generation calls the callback only with non-empty valid UTF-8 text of at most
  \<open>MaxOutputBytes\<close> bytes: guarding the callback against anything else changes nothing.
\<close>

theorem Generate_emits:
  "Generate h (Some (guarded cb)) inp n w = Generate h (Some cb) inp n w"
  unfolding Generate_def generate_body_def option.case stream_guarded by (rule refl)

subsection \<open>The result\<close>

definition room :: "int \<Rightarrow> int option \<Rightarrow> bool" where
  "room need limit = (case limit of None \<Rightarrow> True | Some k \<Rightarrow> need \<le> k)"

lemma budget_ok:
  assumes "budget info = None" and "ci_InputEstimate info = Some e"
  shows "room (ci_ReservedOutputTokens info + te_Tokens e) (ci_ModelCapacityTokens info) \<and>
     room (ci_ReservedOutputTokens info + te_Tokens e) (ci_RequestedTokens info) \<and>
     room (ci_ReservedOutputTokens info + te_Tokens e) (map_option co_Tokens (ci_Loaded info))"
  using assms unfolding budget_def
  by (auto simp: room_def exceeds_def split: option.splits if_splits)

lemma load_model_budget:
  assumes "load_model h inp m info n = (n1, Inr info')"
  shows "budget info' = None \<and> ci_RequestedTokens info' = ci_RequestedTokens info \<and>
     ci_ReservedOutputTokens info' = ci_ReservedOutputTokens info \<and> ci_InputEstimate info' \<noteq> None"
  using assms unfolding load_model_def
  by (auto simp: then_net_def Let_def split: prod.splits sum.splits if_splits option.splits)

lemma seal_result:
  assumes "seal h m info r n = (n1, Inr r')"
  shows "\<exists>l b. r' = r\<lparr>rs_Context := info\<lparr>ci_Loaded := l\<rparr>\<rparr> \<and> marshal_result h r' = Some b \<and> length b \<le> MetadataReserve div 2"
  using assms unfolding seal_def
  by (auto simp: then_net_def Let_def split: prod.splits sum.splits if_splits option.splits)

lemma stream_result:
  assumes "stream h q i cb n w = (n1, w1, Inr r)" and "validID i"
  shows "rs_Text r = [] \<and> rs_FinishReason r \<in> {''stop'', ''length''} \<and> valid_utf8 (rs_EffectiveModel r)"
proof -
  from assms(1) obtain ls vs where a: "answer i ls vs" and r: "r = record_result (last vs)"
    unfolding stream_exact by blast
  from a have "list_all2 (decodes i) ls vs" "vs \<noteq> []" by (simp_all add: answer_def)
  then have "decodes i (ls ! (length vs - 1)) (last vs)"
    by (simp add: list_all2_conv_all_nth last_conv_nth)
  then have "record_error i (last vs) = None" by (auto simp: decodes_def)
  moreover have "cr_Done (last vs) = Some True" using a by (simp add: answer_def)
  ultimately have "cr_Reason (last vs) \<in> {''stop'', ''length''}" "sameModel (cr_Model (last vs)) i"
    using record_error_None [of i "last vs"] by auto
  moreover have "valid_utf8 i" using assms(2) by (auto simp: validID_def split: if_splits)
  then have "valid_utf8 (local_tag i)"
    by (simp add: local_tag_def valid_utf8_append valid_utf8_ascii)
  ultimately show ?thesis using \<open>valid_utf8 i\<close>
    by (auto simp: r record_result_def zero_Result_def sameModel_def)
qed

lemma generate_result:
  assumes "generate_body h cbo inp n w = (n1, w1, Inr r)"
  shows "ci_RequestedTokens (rs_Context r) = op_ContextTokens (rq_Options (ii_Request inp)) \<and>
     ci_ReservedOutputTokens (rs_Context r) = op_MaxOutputTokens (rq_Options (ii_Request inp)) \<and>
     (\<exists>e. ci_InputEstimate (rs_Context r) = Some e \<and>
        room (op_MaxOutputTokens (rq_Options (ii_Request inp)) + te_Tokens e) (ci_ModelCapacityTokens (rs_Context r)) \<and>
        room (op_MaxOutputTokens (rq_Options (ii_Request inp)) + te_Tokens e) (ci_RequestedTokens (rs_Context r))) \<and>
     check_metadata h r None = (r, None)"
proof -
  from assms obtain cb m info n2 info' n3 n4 r0 where cb: "cbo = Some cb" and ok: "input_refused inp = None"
    and c: "choose_model h inp n = (n2, Inr (m, info))" and l: "load_model h inp m info n2 = (n3, Inr info')"
    and s: "stream h (prompt_request (is_Name m) inp) (is_Name m) cb n3 w = (n4, w1, Inr r0)"
    and f: "seal h m info' r0 n4 = (n1, Inr r)"
    by (auto simp: generate_body_def split: option.splits prod.splits sum.splits)
  note chosen = choose_model_chosen [OF c] and lb = load_model_budget [OF l]
  from lb obtain e where e: "ci_InputEstimate info' = Some e" by auto
  from seal_result [OF f] obtain lo b where r: "r = r0\<lparr>rs_Context := info'\<lparr>ci_Loaded := lo\<rparr>\<rparr>"
    and b: "marshal_result h r = Some b" "length b \<le> MetadataReserve div 2" by blast
  have t: "rs_Text r0 = []" "rs_FinishReason r0 \<in> {''stop'', ''length''}" "valid_utf8 (rs_EffectiveModel r0)"
    using stream_result [OF s] chosen by auto
  have same: "r\<lparr>rs_Text := []\<rparr> = r" using t r by simp
  have "valid_utf8 (rs_FinishReason r)" using t r by (auto intro!: valid_utf8_ascii)
  moreover have "valid_utf8 (rs_EffectiveModel r)" using t r by simp
  ultimately have "check_metadata h r None = (r, None)"
    unfolding check_metadata_def same Let_def using b by simp
  then show ?thesis using chosen lb budget_ok [of info' e] e r by simp
qed

text \<open>
  C32. The result of a generation keeps the announced budget: it reports the requested context
  and output reservation, reservation and input estimate together fit the model's capacity and
  the requested context wherever these are known, and the worker accepts its metadata as it is.
\<close>

theorem Generate_budget:
  "case snd (snd (Generate h cbo inp n w)) of
     Inl _ \<Rightarrow> True
   | Inr r \<Rightarrow>
       ci_RequestedTokens (rs_Context r) = op_ContextTokens (rq_Options (ii_Request inp)) \<and>
       ci_ReservedOutputTokens (rs_Context r) = op_MaxOutputTokens (rq_Options (ii_Request inp)) \<and>
       (\<exists>e. ci_InputEstimate (rs_Context r) = Some e \<and>
          room (op_MaxOutputTokens (rq_Options (ii_Request inp)) + te_Tokens e) (ci_ModelCapacityTokens (rs_Context r)) \<and>
          room (op_MaxOutputTokens (rq_Options (ii_Request inp)) + te_Tokens e) (ci_RequestedTokens (rs_Context r))) \<and>
       check_metadata h r None = (r, None)"
proof -
  obtain n1 w1 x where g: "generate_body h cbo inp n w = (n1, w1, x)" by (cases "generate_body h cbo inp n w")
  show ?thesis
  proof (cases x)
    case (Inr r)
    then have e: "snd (snd (Generate h cbo inp n w)) = Inr r" by (simp add: Generate_def g)
    show ?thesis unfolding e sum.case by (rule generate_result [OF g [unfolded Inr]])
  qed (simp add: Generate_def g split: prod.split)
qed

end
