(* ===== verification/Mcp_Framing.thy ===== *)
theory Mcp_Framing
  imports Go_Json Lines Contract
begin

text \<open>
  \<open>internal/adapters/mcpbridge/framing.go\<close>: the line framing between the MCP client on stdin and
  stdout and the SDK. Lines are screened before the SDK sees them; responses to cancelled
  requests are dropped. A \<open>json.RawMessage\<close> is a \<open>raw\<close> value, which keeps the source text of
  strings and numbers. Writes to stdout and to the SDK's pipe fail as two oracles say.
\<close>

subsection \<open>Screening an envelope\<close>

definition maxJSONDepth :: nat where "maxJSONDepth = 512"
definition maxSafeID :: nat where "maxSafeID = 2 ^ 53 - 1"

text \<open>The scan of \<open>jsonDepth\<close>: depth, maximum, \<open>inString\<close>, \<open>escaped\<close>.\<close>

fun depth_step :: "char \<Rightarrow> int \<times> int \<times> bool \<times> bool \<Rightarrow> int \<times> int \<times> bool \<times> bool" where
  "depth_step c (d, m, True, escaped) =
     (if escaped then (d, m, True, False)
      else if c = CHR 0x5C then (d, m, True, True)
      else if c = CHR 0x22 then (d, m, False, False) else (d, m, True, False))"
| "depth_step c (d, m, False, escaped) =
     (if c = CHR 0x22 then (d, m, True, escaped)
      else if c = CHR 0x7B \<or> c = CHR ''['' then (d + 1, max m (d + 1), False, escaped)
      else if c = CHR 0x7D \<or> c = CHR '']'' then (d - 1, m, False, escaped) else (d, m, False, escaped))"

definition jsonDepth :: "bytes \<Rightarrow> int" where
  "jsonDepth b = fst (snd (fold depth_step b (0, 0, False, False)))"

text \<open>A number written as a plain integer within plus or minus \<open>maxSafeID\<close>.\<close>

definition safe_integer :: "bytes \<Rightarrow> bool" where
  "safe_integer t =
     (let ds = (if t \<noteq> [] \<and> hd t = CHR ''-'' then tl t else t) in
      ds \<noteq> [] \<and> list_all is_digit ds \<and> (length ds = 1 \<or> hd ds \<noteq> CHR ''0'') \<and> t \<noteq> ''-0'' \<and> dec_val ds \<le> maxSafeID)"

definition idProblem :: "raw \<Rightarrow> bytes option" where
  "idProblem r =
     (case r of
        RNull \<Rightarrow> None
      | RStr _ \<Rightarrow> None
      | RNum t \<Rightarrow> if safe_integer t then None
          else Some (''\"id\" must be a string or an integer within +-9007199254740991'')
      | _ \<Rightarrow> Some (''\"id\" must be a string or an integer within +-9007199254740991''))"

text \<open>The members of an object by decoded name; of several, the last counts.\<close>

definition member_at :: "raw \<Rightarrow> bytes \<Rightarrow> raw option" where
  "member_at r key = (case r of RObj fs \<Rightarrow> map_of (rev (map (apfst unquote) fs)) key | _ \<Rightarrow> None)"

fun is_RObj :: "raw \<Rightarrow> bool" where
  "is_RObj (RObj _) = True"
| "is_RObj _ = False"

fun is_RStr :: "raw \<Rightarrow> bool" where
  "is_RStr (RStr _) = True"
| "is_RStr _ = False"

definition messageProblem :: "raw \<Rightarrow> bytes option" where
  "messageProblem r =
     (if \<not> is_RObj r then Some ''a message must be a JSON object''
      else if (case member_at r ''jsonrpc'' of Some (RStr s) \<Rightarrow> unquote s \<noteq> ''2.0'' | _ \<Rightarrow> True)
      then Some ''\"jsonrpc\" must be the string \"2.0\"''
      else if (case member_at r ''method'' of Some v \<Rightarrow> \<not> is_RStr v | None \<Rightarrow> False)
      then Some ''\"method\" must be a string''
      else (case Option.bind (member_at r ''id'') idProblem of
          Some p \<Rightarrow> Some p
        | None \<Rightarrow>
            if member_at r ''method'' = None \<and> member_at r ''id'' = None
            then Some ''a message needs a \"method\" or an \"id\"''
            else if member_at r ''method'' = None \<and> member_at r ''id'' = Some RNull
            then Some ''a response needs a non-null \"id\"''
            else None))"

fun first_problem :: "raw list \<Rightarrow> bytes option" where
  "first_problem [] = None"
| "first_problem (r # rs) = (case messageProblem r of Some p \<Rightarrow> Some p | None \<Rightarrow> first_problem rs)"

text \<open>\<open>line\<close> is valid JSON that begins with a brace or a bracket.\<close>

definition envelopeProblem :: "bytes \<Rightarrow> bytes option" where
  "envelopeProblem line =
     (if jsonDepth line > int maxJSONDepth then Some ''nesting is deeper than 512 levels''
      else (case parse_raw line of
          Some (RArr batch) \<Rightarrow>
            if batch = [] then Some ''an empty batch is not a message'' else first_problem batch
        | Some r \<Rightarrow> messageProblem r
        | None \<Rightarrow> Some (if hd line = CHR ''['' then ''a batch must be an array of messages''
            else ''a message must be a JSON object'')))"

subsection \<open>The framer\<close>

record framer =
  fr_out :: "bytes list"
  fr_fail :: "nat \<Rightarrow> goerr option"
  fr_inflight :: "bytes set"
  fr_cancelled :: "bytes set"

definition newFramer :: "(nat \<Rightarrow> goerr option) \<Rightarrow> framer" where
  "newFramer fail = \<lparr>fr_out = [], fr_fail = fail, fr_inflight = {}, fr_cancelled = {}\<rparr>"

definition canonID :: "raw \<Rightarrow> bytes" where
  "canonID r = raw_text r"

text \<open>The struct fields the framer reads; names match as \<open>json.Unmarshal\<close> matches them.\<close>

record frame_fields =
  ff_ID :: "raw option"
  ff_Method :: bytes
  ff_Params :: "raw option"

definition raw_field :: "((raw option \<Rightarrow> raw option) \<Rightarrow> 's \<Rightarrow> 's) \<Rightarrow> raw \<Rightarrow> 's \<Rightarrow> 's option" where
  "raw_field upd v s = Some (upd (\<lambda>_. Some v) s)"

definition raw_string :: "((bytes \<Rightarrow> bytes) \<Rightarrow> 's \<Rightarrow> 's) \<Rightarrow> raw \<Rightarrow> 's \<Rightarrow> 's option" where
  "raw_string upd v s = (case v of RNull \<Rightarrow> Some s | RStr t \<Rightarrow> Some (upd (\<lambda>_. unquote t) s) | _ \<Rightarrow> None)"

definition raw_struct :: "(bytes \<times> (raw \<Rightarrow> 's \<Rightarrow> 's option)) list \<Rightarrow> raw \<Rightarrow> 's \<Rightarrow> 's option" where
  "raw_struct table v s =
     (case v of RNull \<Rightarrow> Some s | RObj fs \<Rightarrow> set_fields table (map (apfst unquote) fs) s | _ \<Rightarrow> None)"

definition zero_fields :: frame_fields where
  "zero_fields = \<lparr>ff_ID = None, ff_Method = [], ff_Params = None\<rparr>"

definition read_tracked :: "bytes \<Rightarrow> frame_fields option" where
  "read_tracked line = Option.bind (parse_raw line) (\<lambda>r. raw_struct
     [(''id'', raw_field ff_ID_update), (''method'', raw_string ff_Method_update), (''params'', raw_field ff_Params_update)]
     r zero_fields)"

definition read_written :: "bytes \<Rightarrow> frame_fields option" where
  "read_written p = Option.bind (parse_raw p) (\<lambda>r. raw_struct
     [(''id'', raw_field ff_ID_update), (''method'', raw_string ff_Method_update)] r zero_fields)"

definition cancelled_id :: "raw option \<Rightarrow> bytes option" where
  "cancelled_id params =
     (case Option.bind params (\<lambda>r. raw_struct [(''requestId'', \<lambda>v _. Some (Some v))] r None) of
        Some (Some v) \<Rightarrow> Some (canonID v) | _ \<Rightarrow> None)"

definition track :: "bytes \<Rightarrow> framer \<Rightarrow> framer" where
  "track line f =
     (case read_tracked line of
        None \<Rightarrow> f
      | Some m \<Rightarrow>
          if ff_Method m = [] then f
          else if ff_Method m = ''notifications/cancelled'' then
            (case cancelled_id (ff_Params m) of
               None \<Rightarrow> f
             | Some i \<Rightarrow> if i \<in> fr_inflight f then f\<lparr>fr_cancelled := insert i (fr_cancelled f)\<rparr> else f)
          else (case ff_ID m of
              None \<Rightarrow> f
            | Some v \<Rightarrow> if v = RNull then f else f\<lparr>fr_inflight := insert (canonID v) (fr_inflight f)\<rparr>))"

definition put_out :: "bytes \<Rightarrow> framer \<Rightarrow> framer \<times> goerr option" where
  "put_out p f = (f\<lparr>fr_out := fr_out f @ [p]\<rparr>, fr_fail f (length (fr_out f)))"

definition Write :: "bytes \<Rightarrow> framer \<Rightarrow> framer \<times> goerr option" where
  "Write p f =
     (if fr_inflight f = {} then put_out p f
      else (case read_written p of
          None \<Rightarrow> put_out p f
        | Some m \<Rightarrow>
            if ff_Method m \<noteq> [] then put_out p f
            else (case ff_ID m of
                None \<Rightarrow> put_out p f
              | Some v \<Rightarrow>
                  (let i = canonID v in
                   if i \<notin> fr_inflight f then put_out p f
                   else (let f1 = f\<lparr>fr_inflight := fr_inflight f - {i}\<rparr> in
                     if i \<in> fr_cancelled f then (f1\<lparr>fr_cancelled := fr_cancelled f - {i}\<rparr>, None)
                     else put_out p f1)))))"

subsection \<open>The input filter\<close>

definition rpcError :: "int \<Rightarrow> bytes \<Rightarrow> bytes" where
  "rpcError code msg = json_text (JObj [(''error'', JObj [(''code'', JInt code), (''message'', JStr msg)]),
     (''id'', JNull), (''jsonrpc'', JStr ''2.0'')]) @ [newline]"

record wire =
  wi_framer :: framer
  wi_sdk :: "bytes list"
  wi_sdkfail :: "nat \<Rightarrow> goerr option"
  wi_notes :: "bytes list"

definition answer_error :: "bytes \<Rightarrow> int \<Rightarrow> bytes \<Rightarrow> wire \<Rightarrow> wire \<times> goerr option" where
  "answer_error what code msg w =
     (case Write (rpcError code msg) (wi_framer w) of
        (f, e) \<Rightarrow> (w\<lparr>wi_framer := f, wi_notes := wi_notes w @ [what]\<rparr>, e))"

definition pipe :: "bytes \<Rightarrow> wire \<Rightarrow> wire \<times> goerr option" where
  "pipe m w = (w\<lparr>wi_sdk := wi_sdk w @ [m]\<rparr>, wi_sdkfail w (length (wi_sdk w)))"

definition flush :: "nat \<Rightarrow> bytes \<Rightarrow> bool \<Rightarrow> wire \<Rightarrow> wire \<times> goerr option" where
  "flush limit line oversized w =
     (if oversized then answer_error ''inbound message exceeded the size bound and was discarded'' (-32600)
        (''message exceeds the '' @ dec_nat limit @ '' byte limit'') w
      else
        (let trimmed = TrimSpace line in
         if trimmed = [] then (w, None)
         else if \<not> json_valid trimmed then
           answer_error ''inbound line was not valid JSON'' (-32700)
             ''Parse error: each line must be one complete JSON-RPC message'' w
         else if hd trimmed \<noteq> CHR 0x7B \<and> hd trimmed \<noteq> CHR ''['' then
           answer_error ''inbound line was not a JSON-RPC message'' (-32600)
             ''Invalid Request: a message must be a JSON object'' w
         else (case envelopeProblem trimmed of
             Some reason \<Rightarrow>
               answer_error ''inbound message was not a JSON-RPC message the bridge can pass on'' (-32600)
                 (''Invalid Request: '' @ reason) w
           | None \<Rightarrow> pipe (trimmed @ [newline]) (w\<lparr>wi_framer := track trimmed (wi_framer w)\<rparr>))))"

text \<open>\<open>ReadSlice\<close> on a buffer of 64 KiB: a chunk, and how it ended.\<close>

datatype chunk_end = AtNewline bytes | BufferFull bytes | AtEnd

definition chunk_size :: nat where "chunk_size = 65536"

definition read_chunk :: "bytes \<Rightarrow> bytes \<times> chunk_end" where
  "read_chunk s =
     (let k = length (takeWhile (\<lambda>c. c \<noteq> newline) s) in
      if k < length s \<and> k < chunk_size then (take (Suc k) s, AtNewline (drop (Suc k) s))
      else if chunk_size \<le> length s then (take chunk_size s, BufferFull (drop chunk_size s))
      else (s, AtEnd))"

text \<open>
  The reading loop. The input ends with EOF (\<open>None\<close>) or an error; the second result is what the
  pipe to the SDK is closed with.
\<close>

function filter_loop ::
  "nat \<Rightarrow> goerr option \<Rightarrow> bytes \<Rightarrow> bytes \<Rightarrow> bool \<Rightarrow> wire \<Rightarrow> wire \<times> goerr option" where
  "filter_loop limit fin s line oversized w =
     (let (chunk, ending) = read_chunk s;
          (line', oversized') =
            (if oversized then (line, True)
             else if length line + length chunk > limit then ([], True)
             else (line @ chunk, False)) in
      case ending of
        BufferFull r \<Rightarrow> filter_loop limit fin r line' oversized' w
      | AtEnd \<Rightarrow>
          (case fin of
             Some e \<Rightarrow> (w, Some e)
           | None \<Rightarrow> if line' \<noteq> [] \<or> oversized' then flush limit line' oversized' w else (w, None))
      | AtNewline r \<Rightarrow>
          (case flush limit line' oversized' w of
             (w1, Some e) \<Rightarrow> (w1, Some e)
           | (w1, None) \<Rightarrow> filter_loop limit fin r [] False w1))"
  by pat_completeness auto
termination
  by (relation "measure (\<lambda>(limit, fin, s, line, oversized, w). length s)")
    (auto simp: read_chunk_def chunk_size_def Let_def split: if_splits)

declare filter_loop.simps [simp del]

definition filterInput :: "nat \<Rightarrow> bytes \<Rightarrow> goerr option \<Rightarrow> wire \<Rightarrow> wire \<times> goerr option" where
  "filterInput limit s fin w = filter_loop limit fin s [] False w"

end
