(* ===== verification/Go_Roundtrip.thy ===== *)
theory Go_Roundtrip
  imports Go_Json
begin

text \<open>
  Reading back what \<open>encoding/json\<close> writes: the source parser yields the value whose compact
  text it is given, and a marshalled value decodes to itself.
\<close>

subsection \<open>Tokens\<close>

definition stops :: "bytes \<Rightarrow> bool" where
  "stops r = (r = [] \<or> (\<not> is_digit (hd r) \<and> hd r \<noteq> CHR ''.'' \<and> hd r \<noteq> CHR ''e'' \<and> hd r \<noteq> CHR ''E''))"

definition lit_ok :: "bytes \<Rightarrow> bool" where
  "lit_ok s = (\<forall>r. scan_string (s @ CHR 0x22 # r) = Some (s, r))"

definition num_ok :: "bytes \<Rightarrow> bool" where
  "num_ok t = (t \<noteq> [] \<and> (is_digit (hd t) \<or> hd t = CHR ''-'') \<and> (\<forall>r. stops r \<longrightarrow> scan_number (t @ r) = Some (t, r)))"

fun raw_ok :: "raw \<Rightarrow> bool" where
  "raw_ok (RNum t) = num_ok t"
| "raw_ok (RStr s) = lit_ok s"
| "raw_ok (RArr vs) = list_all raw_ok vs"
| "raw_ok (RObj fs) = list_all (\<lambda>kv. lit_ok (fst kv) \<and> raw_ok (snd kv)) fs"
| "raw_ok _ = True"

text \<open>The number of nested containers.\<close>

fun raw_depth :: "raw \<Rightarrow> nat" where
  "raw_depth (RArr vs) = Suc (foldr (\<lambda>v m. max (raw_depth v) m) vs 0)"
| "raw_depth (RObj fs) = Suc (foldr (\<lambda>kv m. max (raw_depth (snd kv)) m) fs 0)"
| "raw_depth _ = 0"

lemma skip_ws_id: "s = [] \<or> \<not> is_ws (hd s) \<Longrightarrow> skip_ws s = s"
  by (cases s) auto

lemma raw_text_hd:
  assumes "raw_ok v"
  shows "raw_text v \<noteq> [] \<and> \<not> is_ws (hd (raw_text v)) \<and> hd (raw_text v) \<noteq> CHR '']'' \<and> hd (raw_text v) \<noteq> CHR 0x7D"
proof (cases v)
  case (RNum t)
  then have "is_digit (hd t) \<or> hd t = CHR ''-''" "t \<noteq> []" using assms by (auto simp: num_ok_def)
  moreover have "\<not> is_digit (CHR '']'')" "\<not> is_digit (CHR 0x7D)" "\<not> is_digit (CHR 0x20)" "\<not> is_digit (CHR 0x09)"
    "\<not> is_digit (CHR 0x0A)" "\<not> is_digit (CHR 0x0D)"
    by (simp_all add: is_digit_def)
  ultimately show ?thesis using RNum by (auto simp: is_ws_def)
qed (auto simp: is_ws_def)

lemma stops_simps [simp]: "stops []" "stops (CHR '','' # r)" "stops (CHR '']'' # r)" "stops (CHR 0x7D # r)"
  by (simp_all add: stops_def is_digit_def)

lemma not_ws [simp]:
  "\<not> is_ws (CHR '','')" "\<not> is_ws (CHR '']'')" "\<not> is_ws (CHR 0x7D)" "\<not> is_ws (CHR '':'')" "\<not> is_ws (CHR 0x22)"
  "\<not> is_ws (CHR ''['')" "\<not> is_ws (CHR 0x7B)"
  by (simp_all add: is_ws_def)

subsection \<open>Parsing a compact text\<close>

definition reads_back :: "raw \<Rightarrow> bool" where
  "reads_back v = (\<forall>n k r. k + raw_depth v \<le> maxNestingDepth \<longrightarrow> stops r \<longrightarrow> 2 * length (raw_text v @ r) + 1 \<le> n \<longrightarrow>
     raw_value n k (raw_text v @ r) = Some (v, r))"

lemma reads_backD:
  "reads_back v \<Longrightarrow> k + raw_depth v \<le> maxNestingDepth \<Longrightarrow> stops r \<Longrightarrow> s = raw_text v @ r \<Longrightarrow> 2 * length s + 1 \<le> n \<Longrightarrow>
     raw_value n k s = Some (v, r)"
  by (simp add: reads_back_def)

lemma raw_elems_text:
  assumes "vs \<noteq> []" and "\<forall>v\<in>set vs. reads_back v \<and> k + raw_depth v \<le> maxNestingDepth"
    and "2 * length (commas (map raw_text vs) @ CHR '']'' # r) + 2 \<le> n"
  shows "raw_elems n k (commas (map raw_text vs) @ CHR '']'' # r) = Some (vs, r)"
  using assms
proof (induction vs arbitrary: n)
  case (Cons v vs)
  then obtain m where n: "n = Suc m" by (cases n) auto
  show ?case
  proof (cases "vs = []")
    case True
    have "raw_value m k (raw_text v @ CHR '']'' # r) = Some (v, CHR '']'' # r)"
      by (rule reads_backD [OF _ _ _ refl]) (use Cons.prems n True in auto)
    then show ?thesis using n True by simp
  next
    case False
    let ?t = "commas (map raw_text vs) @ CHR '']'' # r"
    have "raw_value m k (raw_text v @ CHR '','' # ?t) = Some (v, CHR '','' # ?t)"
      by (rule reads_backD [OF _ _ _ refl]) (use Cons.prems n False in \<open>auto simp: commas_Cons\<close>)
    moreover have "raw_elems m k ?t = Some (vs, r)"
      by (rule Cons.IH [OF False]) (use Cons.prems n False in \<open>auto simp: commas_Cons\<close>)
    ultimately show ?thesis using n False by (simp add: commas_Cons)
  qed
qed simp

definition raw_member :: "bytes \<times> raw \<Rightarrow> bytes" where
  "raw_member kv = CHR 0x22 # fst kv @ CHR 0x22 # CHR '':'' # raw_text (snd kv)"

lemma raw_members_text:
  assumes "fs \<noteq> []" and "\<forall>kv\<in>set fs. lit_ok (fst kv) \<and> reads_back (snd kv) \<and> k + raw_depth (snd kv) \<le> maxNestingDepth"
    and "2 * length (commas (map raw_member fs) @ CHR 0x7D # r) + 2 \<le> n"
  shows "raw_members n k (commas (map raw_member fs) @ CHR 0x7D # r) = Some (fs, r)"
  using assms
proof (induction fs arbitrary: n)
  case (Cons kv fs)
  then obtain m where n: "n = Suc m" by (cases n) auto
  obtain key v where kv: "kv = (key, v)" by (cases kv)
  have rm: "raw_member kv = CHR 0x22 # key @ CHR 0x22 # CHR '':'' # raw_text v" by (simp add: raw_member_def kv)
  have sc: "scan_string (key @ CHR 0x22 # t) = Some (key, t)" for t
    using Cons.prems(2) kv by (simp add: lit_ok_def)
  show ?case
  proof (cases "fs = []")
    case True
    have "raw_value m k (raw_text v @ CHR 0x7D # r) = Some (v, CHR 0x7D # r)"
      by (rule reads_backD [OF _ _ _ refl]) (use Cons.prems n True kv rm in auto)
    then show ?thesis using n True rm by (simp add: kv sc)
  next
    case False
    let ?t = "commas (map raw_member fs) @ CHR 0x7D # r"
    have "raw_value m k (raw_text v @ CHR '','' # ?t) = Some (v, CHR '','' # ?t)"
      by (rule reads_backD [OF _ _ _ refl]) (use Cons.prems n False kv rm in \<open>auto simp: commas_Cons\<close>)
    moreover have "raw_members m k ?t = Some (fs, r)"
      by (rule Cons.IH [OF False]) (use Cons.prems n False rm in \<open>auto simp: commas_Cons\<close>)
    ultimately show ?thesis using n False rm by (simp add: commas_Cons kv sc)
  qed
qed simp

lemma raw_depth_elem: "v \<in> set vs \<Longrightarrow> raw_depth v \<le> foldr (\<lambda>v m. max (raw_depth v) m) vs 0"
  by (induction vs) auto

lemma raw_depth_member: "kv \<in> set fs \<Longrightarrow> raw_depth (snd kv) \<le> foldr (\<lambda>kv m. max (raw_depth (snd kv)) m) fs 0"
  by (induction fs) auto

lemma is_digit_not: "is_digit c \<Longrightarrow> c \<noteq> CHR 0x22 \<and> c \<noteq> CHR ''['' \<and> c \<noteq> CHR 0x7B \<and> c \<noteq> CHR ''n'' \<and> c \<noteq> CHR ''t'' \<and> c \<noteq> CHR ''f'' \<and> \<not> is_ws c"
  by (auto simp: is_digit_def is_ws_def)

lemma number_head: "is_digit c \<or> c = CHR ''-'' \<Longrightarrow> c \<noteq> CHR 0x22 \<and> c \<noteq> CHR ''['' \<and> c \<noteq> CHR 0x7B \<and> c \<noteq> CHR ''n'' \<and> c \<noteq> CHR ''t'' \<and> c \<noteq> CHR ''f'' \<and> \<not> is_ws c"
  by (elim disjE, erule is_digit_not) (simp add: is_ws_def)

lemma take_hd: "c \<noteq> d \<Longrightarrow> take 4 (c # x) \<noteq> d # y" "c \<noteq> d \<Longrightarrow> take 5 (c # x) \<noteq> d # y"
  by (simp_all add: numeral_eq_Suc)

lemma reads_backI: "(\<And>m k r. raw_value (Suc m) k (raw_text v @ r) = Some (v, r)) \<Longrightarrow> reads_back v"
  unfolding reads_back_def by (metis Suc_le_D add.commute plus_1_eq_Suc)

lemma raw_ok_reads_back: "raw_ok v \<Longrightarrow> reads_back v"
proof (induction v)
  case (RNum t)
  show ?case unfolding reads_back_def
  proof (intro allI impI)
    fix n k r
    assume r: "stops r" and n: "2 * length (raw_text (RNum t) @ r) + 1 \<le> n"
    from n obtain m where m: "n = Suc m" by (cases n) auto
    from RNum r have s: "scan_number (t @ r) = Some (t, r)" and h: "t \<noteq> []" "is_digit (hd t) \<or> hd t = CHR ''-''"
      by (auto simp: num_ok_def)
    obtain c t' where t: "t = c # t'" using h by (cases t) auto
    have c: "c \<noteq> CHR 0x22" "c \<noteq> CHR ''[''" "c \<noteq> CHR 0x7B" "c \<noteq> CHR ''n''" "c \<noteq> CHR ''t''" "c \<noteq> CHR ''f''" "\<not> is_ws c"
      using number_head [of c] h(2) unfolding t list.sel by simp_all
    show "raw_value n k (raw_text (RNum t) @ r) = Some (RNum t, r)"
    proof -
      have sk: "skip_ws (t @ r) = c # (t' @ r)" using c t by simp
      have tk: "take 4 (c # x) \<noteq> ''null''" "take 4 (c # x) \<noteq> ''true''" "take 5 (c # x) \<noteq> ''false''" for x
        by (rule take_hd [OF c(4)], rule take_hd [OF c(5)], rule take_hd [OF c(6)])
      have "scan_number (c # t' @ r) = Some (t, r)" using s t by simp
      then show ?thesis unfolding m raw_text.simps raw_value.simps sk list.case using c(1-6) by simp
    qed
  qed
next
  case (RArr vs)
  show ?case unfolding reads_back_def
  proof (intro allI impI)
    fix n k r
    assume d: "k + raw_depth (RArr vs) \<le> maxNestingDepth" and n: "2 * length (raw_text (RArr vs) @ r) + 1 \<le> n"
    from n obtain m where m: "n = Suc m" by (cases n) auto
    show "raw_value n k (raw_text (RArr vs) @ r) = Some (RArr vs, r)"
    proof (cases "vs = []")
      case True
      then show ?thesis using d m by (simp add: is_ws_def)
    next
      case False
      then obtain v ws where vs: "vs = v # ws" by (cases vs) auto
      have h: "raw_text v \<noteq> []" "\<not> is_ws (hd (raw_text v))" "hd (raw_text v) \<noteq> CHR '']''"
        using raw_text_hd [of v] RArr.prems vs by auto
      let ?t = "commas (map raw_text vs) @ CHR '']'' # r"
      have hd: "?t \<noteq> [] \<and> hd ?t = hd (raw_text v)" using h vs by (simp add: commas_Cons)
      then have sk: "skip_ws ?t = ?t" using h by (intro skip_ws_id) simp
      have "raw_elems m (Suc k) ?t = Some (vs, r)"
      proof (rule raw_elems_text [OF False])
        show "\<forall>v\<in>set vs. reads_back v \<and> Suc k + raw_depth v \<le> maxNestingDepth"
          using RArr d raw_depth_elem [of _ vs] by (fastforce simp: list_all_iff)
      qed (use n m in simp)
      then show ?thesis using d m sk hd h by (simp add: is_ws_def)
    qed
  qed
next
  case (RObj fs)
  show ?case unfolding reads_back_def
  proof (intro allI impI)
    fix n k r
    assume d: "k + raw_depth (RObj fs) \<le> maxNestingDepth" and n: "2 * length (raw_text (RObj fs) @ r) + 1 \<le> n"
    from n obtain m where m: "n = Suc m" by (cases n) auto
    have e: "raw_text (RObj fs) @ r = CHR 0x7B # commas (map raw_member fs) @ CHR 0x7D # r"
      by (simp add: raw_member_def [abs_def])
    show "raw_value n k (raw_text (RObj fs) @ r) = Some (RObj fs, r)"
    proof (cases "fs = []")
      case True
      then show ?thesis using d m by (simp add: is_ws_def)
    next
      case False
      then obtain kv ws where fs: "fs = kv # ws" by (cases fs) auto
      let ?t = "commas (map raw_member fs) @ CHR 0x7D # r"
      have hd: "?t \<noteq> [] \<and> hd ?t = CHR 0x22" using fs by (simp add: commas_Cons raw_member_def)
      then have sk: "skip_ws ?t = ?t" by (intro skip_ws_id) (simp add: is_ws_def)
      have "raw_members m (Suc k) ?t = Some (fs, r)"
      proof (rule raw_members_text [OF False])
        show "\<forall>kv\<in>set fs. lit_ok (fst kv) \<and> reads_back (snd kv) \<and> Suc k + raw_depth (snd kv) \<le> maxNestingDepth"
        proof
          fix kv assume i: "kv \<in> set fs"
          have "reads_back (snd kv)" using RObj.IH [of kv "snd kv"] RObj.prems i by (cases kv) (auto simp: list_all_iff)
          then show "lit_ok (fst kv) \<and> reads_back (snd kv) \<and> Suc k + raw_depth (snd kv) \<le> maxNestingDepth"
            using RObj.prems d i raw_depth_member [OF i] by (auto simp: list_all_iff)
        qed
      qed (use n m e in simp)
      then show ?thesis unfolding e using d m sk hd by (simp add: is_ws_def)
    qed
  qed
next
  case (RStr s)
  then show ?case by (intro reads_backI) (simp add: lit_ok_def)
qed (rule reads_backI, simp add: is_ws_def numeral_eq_Suc)+

theorem parse_raw_text_ws:
  assumes "raw_ok v" and "raw_depth v \<le> maxNestingDepth" and "list_all is_ws r"
  shows "parse_raw (raw_text v @ r) = Some v"
proof -
  have "stops r" using assms(3) by (cases r) (auto simp: stops_def is_digit_def is_ws_def)
  then have "raw_value (2 * length (raw_text v @ r) + 2) 0 (raw_text v @ r) = Some (v, r)"
    by (intro reads_backD [OF raw_ok_reads_back [OF assms(1)]]) (use assms(2) in simp_all)
  moreover have "skip_ws r = []" using assms(3) by (auto simp: list_all_iff)
  ultimately show ?thesis unfolding parse_raw_def by simp
qed

lemma parse_raw_text: "raw_ok v \<Longrightarrow> raw_depth v \<le> maxNestingDepth \<Longrightarrow> parse_raw (raw_text v) = Some v"
  using parse_raw_text_ws [of v "[]"] by simp

subsection \<open>Escaped strings\<close>

definition passes :: "bytes \<Rightarrow> bool" where
  "passes p = (\<forall>r. scan_string (p @ r) = map_option (apfst ((@) p)) (scan_string r))"

lemma passes_Nil: "passes []"
proof -
  have "scan_string r = map_option (apfst ((@) [])) (scan_string r)" for r by (cases "scan_string r") auto
  then show ?thesis by (simp add: passes_def)
qed

lemma passes_append: "passes p \<Longrightarrow> passes q \<Longrightarrow> passes (p @ q)"
  unfolding passes_def
proof
  fix r
  assume "\<forall>r. scan_string (p @ r) = map_option (apfst ((@) p)) (scan_string r)"
    and "\<forall>r. scan_string (q @ r) = map_option (apfst ((@) q)) (scan_string r)"
  then show "scan_string ((p @ q) @ r) = map_option (apfst ((@) (p @ q))) (scan_string r)"
    by (cases "scan_string r") auto
qed

lemma passes_lit: "passes p \<Longrightarrow> lit_ok p"
  unfolding passes_def lit_ok_def by simp

lemma passes_plain: "c \<noteq> CHR 0x22 \<Longrightarrow> c \<noteq> CHR 0x5C \<Longrightarrow> \<not> byte c < 0x20 \<Longrightarrow> passes [c]"
  unfolding passes_def by (auto simp: apfst_def map_prod_def)

lemma passes_high: "list_all (\<lambda>c. 0x80 \<le> byte c) p \<Longrightarrow> passes p"
proof (induction p)
  case (Cons c p)
  then have "c \<noteq> CHR 0x22" "c \<noteq> CHR 0x5C" "\<not> byte c < 0x20" by auto
  then have "passes ([c] @ p)" using Cons by (intro passes_append passes_plain) auto
  then show ?case by simp
qed (simp add: passes_Nil)

lemma passes_simple: "simple_escape e \<noteq> None \<Longrightarrow> e \<noteq> CHR ''u'' \<Longrightarrow> passes [CHR 0x5C, e]"
  unfolding passes_def by (auto simp: apfst_def map_prod_def)

lemma passes_unicode:
  "is_hex w \<Longrightarrow> is_hex x \<Longrightarrow> is_hex y \<Longrightarrow> is_hex z \<Longrightarrow> passes [CHR 0x5C, CHR ''u'', w, x, y, z]"
  unfolding passes_def by (auto simp: apfst_def map_prod_def)

lemma esc_ascii_cases:
  obtains e where "esc_ascii c = [CHR 0x5C, e]" "simple_escape e = Some c" "e \<noteq> CHR ''u''"
  | "esc_ascii c = [CHR 0x5C, CHR ''u'', CHR ''0'', CHR ''0'', hex_digit (byte c div 16), hex_digit (byte c mod 16)]"
  | "esc_ascii c = [c]" "c \<noteq> CHR 0x22" "c \<noteq> CHR 0x5C" "\<not> byte c < 0x20"
proof -
  have cs: "byte c = n \<Longrightarrow> c = char_of n" for n by auto
  have "byte c \<in> {0x22, 0x5C, 0x08, 0x0C, 0x0A, 0x0D, 0x09} \<or>
      esc_ascii c = [CHR 0x5C, CHR ''u'', CHR ''0'', CHR ''0''] @ hex_byte c \<or>
      esc_ascii c = [c] \<and> byte c \<noteq> 0x22 \<and> byte c \<noteq> 0x5C \<and> \<not> byte c < 0x20"
    by (auto simp: esc_ascii_def Let_def)
  then consider "byte c = 0x22" | "byte c = 0x5C" | "byte c = 0x08" | "byte c = 0x0C" | "byte c = 0x0A"
    | "byte c = 0x0D" | "byte c = 0x09"
    | "esc_ascii c = [CHR 0x5C, CHR ''u'', CHR ''0'', CHR ''0''] @ hex_byte c"
    | "esc_ascii c = [c]" "byte c \<noteq> 0x22" "byte c \<noteq> 0x5C" "\<not> byte c < 0x20"
    by blast
  then show thesis
  proof cases
    case 8
    then show thesis using that(2) by (simp add: hex_byte_def)
  next
    case 9
    then have "c \<noteq> CHR 0x22" "c \<noteq> CHR 0x5C" by auto
    with 9 that(3) show thesis by simp
  next
    case 1
    with cs have c: "c = CHR 0x22" by (simp add: char_consts)
    show thesis by (rule that(1) [of "CHR 0x22"]) (simp_all add: c esc_ascii_def simple_escape_def)
  next
    case 2
    with cs have c: "c = CHR 0x5C" by (simp add: char_consts)
    show thesis by (rule that(1) [of "CHR 0x5C"]) (simp_all add: c esc_ascii_def simple_escape_def)
  next
    case 3
    with cs have c: "c = CHR 0x08" by (simp add: char_consts)
    show thesis by (rule that(1) [of "CHR ''b''"]) (simp_all add: c esc_ascii_def simple_escape_def)
  next
    case 4
    with cs have c: "c = CHR 0x0C" by (simp add: char_consts)
    show thesis by (rule that(1) [of "CHR ''f''"]) (simp_all add: c esc_ascii_def simple_escape_def)
  next
    case 5
    with cs have c: "c = CHR 0x0A" by (simp add: char_consts)
    show thesis by (rule that(1) [of "CHR ''n''"]) (simp_all add: c esc_ascii_def simple_escape_def)
  next
    case 6
    with cs have c: "c = CHR 0x0D" by (simp add: char_consts)
    show thesis by (rule that(1) [of "CHR ''r''"]) (simp_all add: c esc_ascii_def simple_escape_def)
  next
    case 7
    with cs have c: "c = CHR 0x09" by (simp add: char_consts)
    show thesis by (rule that(1) [of "CHR ''t''"]) (simp_all add: c esc_ascii_def simple_escape_def)
  qed
qed

lemma is_hex_digit: "d < 16 \<Longrightarrow> is_hex (hex_digit d)"
  by (simp add: is_hex_def unhex_digit)

lemma is_hex_consts: "is_hex (CHR ''0'')" "is_hex (CHR ''2'')" "is_hex (CHR ''8'')" "is_hex (CHR ''9'')"
  "is_hex (CHR ''f'')" "is_hex (CHR ''d'')"
  by (simp_all add: is_hex_def unhex_def)

lemma passes_esc_ascii: "byte c < 0x80 \<Longrightarrow> passes (esc_ascii c)"
  by (rule esc_ascii_cases [of c])
    (auto intro!: passes_simple passes_plain passes_unicode is_hex_consts is_hex_digit)

lemma rune_one: "rune_len (c # s) = Some 1 \<Longrightarrow> byte c < 0x80"
  by (auto simp: rune_len_def rune_size_def Let_def split: if_splits)

lemma escape_Rune:
  assumes "rune_len s = Some n"
  shows "escape s = (if n = 1 then esc_ascii (hd s)
     else if take n s = [CHR 0xE2, CHR 0x80, CHR 0xA8] then CHR 0x5C # ''u2028''
     else if take n s = [CHR 0xE2, CHR 0x80, CHR 0xA9] then CHR 0x5C # ''u2029''
     else take n s) @ escape (drop n s)"
  using assms rune_len_bounds [OF assms] by (subst escape.simps) auto

lemma escape_bad: "rune_len (c # s) = None \<Longrightarrow> escape (c # s) = CHR 0x5C # ''ufffd'' @ escape s"
  by (subst escape.simps) simp

lemma passes_escape: "passes (escape s)"
proof (induction s rule: length_induct)
  case (1 s)
  show ?case
  proof (cases "rune_len s")
    case None
    show ?thesis
    proof (cases s)
      case (Cons c t)
      have "passes ([CHR 0x5C, CHR ''u'', CHR ''f'', CHR ''f'', CHR ''f'', CHR ''d''] @ escape t)"
        using 1 Cons by (intro passes_append passes_unicode is_hex_consts) auto
      then show ?thesis using None Cons by (simp add: escape_bad)
    qed (simp add: passes_Nil)
  next
    case (Some n)
    note b = rune_len_bounds [OF Some]
    from b have "length (drop n s) < length s" by auto
    with 1 have rest: "passes (escape (drop n s))" by blast
    obtain c t where s: "s = c # t" using b by (cases s) auto
    have "passes (if n = 1 then esc_ascii (hd s)
       else if take n s = [CHR 0xE2, CHR 0x80, CHR 0xA8] then CHR 0x5C # ''u2028''
       else if take n s = [CHR 0xE2, CHR 0x80, CHR 0xA9] then CHR 0x5C # ''u2029'' else take n s)"
    proof (cases "n = 1")
      case True
      then show ?thesis using rune_one [of c t] Some s by (simp add: passes_esc_ascii)
    next
      case False
      then show ?thesis using passes_high [OF rune_len_high [OF Some]] by (auto intro: passes_unicode is_hex_consts)
    qed
    then show ?thesis unfolding escape_Rune [OF Some] using rest by (rule passes_append)
  qed
qed

lemma unquote_unicode:
  assumes "is_hex w" "is_hex x" "is_hex y" "is_hex z" and "hex_val [w, x, y, z] = n" and "\<not> surrogate n"
  shows "unquote (CHR 0x5C # CHR ''u'' # w # x # y # z # r) = rune_bytes n @ unquote r"
  using assms by (subst unquote.simps) (simp add: getu4_def)

lemma unquote_simple:
  assumes "simple_escape e = Some d" and "e \<noteq> CHR ''u''"
  shows "unquote (CHR 0x5C # e # r) = d # unquote r"
  using assms by (subst unquote.simps) (simp add: getu4_def)

lemma unquote_rune:
  assumes "rune_len s = Some n" and "hd s \<noteq> CHR 0x5C"
  shows "unquote (take n s @ r) = take n s @ unquote r"
proof -
  note b = rune_len_bounds [OF assms(1)]
  have "rune_len (take n s @ r) = Some n"
    using rune_len_append [OF rune_len_take [OF assms(1) order_refl]] .
  moreover have "hd (take n s @ r) \<noteq> CHR 0x5C" "take n s @ r \<noteq> []" using assms b by (cases s; auto)+
  moreover have "s \<noteq> []" using b by auto
  ultimately show ?thesis using b by (subst unquote.simps) simp
qed

lemma unquote_plain: "byte c < 0x80 \<Longrightarrow> c \<noteq> CHR 0x5C \<Longrightarrow> unquote (c # r) = c # unquote r"
  using unquote_rune [of "[c]" 1 r] by (simp add: rune_len_ascii)

lemma unquote_esc_ascii:
  assumes "byte c < 0x80"
  shows "unquote (esc_ascii c @ r) = c # unquote r"
proof (rule esc_ascii_cases [of c])
  assume e: "esc_ascii c = [CHR 0x5C, CHR ''u'', CHR ''0'', CHR ''0'', hex_digit (byte c div 16), hex_digit (byte c mod 16)]"
  have h: "byte c div 16 < 16" "byte c mod 16 < 16" using assms by auto
  have "hex_val [CHR ''0'', CHR ''0'', hex_digit (byte c div 16), hex_digit (byte c mod 16)] = byte c"
    using h by (simp add: hex_val_def unhex_digit) (simp add: unhex_def)
  moreover have "\<not> surrogate (byte c)" "rune_bytes (byte c) = [c]" using assms by (simp_all add: surrogate_def rune_bytes_def)
  ultimately show ?thesis
    using unquote_unicode [of "CHR ''0''" "CHR ''0''" "hex_digit (byte c div 16)" "hex_digit (byte c mod 16)" "byte c" r] h e
    by (simp add: is_hex_consts is_hex_digit)
qed (use assms in \<open>simp_all add: unquote_simple unquote_plain\<close>)

lemma more_chars: "char_of (239 :: nat) = CHR 0xEF" "char_of (191 :: nat) = CHR 0xBF" "char_of (189 :: nat) = CHR 0xBD"
  by code_simp+

lemma hv: "hex_val ''2028'' = 0x2028" "hex_val ''2029'' = 0x2029" "hex_val ''fffd'' = 0xFFFD"
    "rune_bytes 0x2028 = [CHR 0xE2, CHR 0x80, CHR 0xA8]" "rune_bytes 0x2029 = [CHR 0xE2, CHR 0x80, CHR 0xA9]"
    "rune_bytes 0xFFFD = [CHR 0xEF, CHR 0xBF, CHR 0xBD]" "\<not> surrogate 0x2028" "\<not> surrogate 0x2029" "\<not> surrogate 0xFFFD"
  by (simp_all add: hex_val_def unhex_def rune_bytes_def surrogate_def char_consts more_chars)

lemma unquote_escape: "unquote (escape s) = to_valid s"
proof (induction s rule: length_induct)
  case (1 s)
  show ?case
  proof (cases "rune_len s")
    case None
    show ?thesis
    proof (cases s)
      case Nil
      then show ?thesis by (simp add: unquote.simps to_valid.simps)
    next
      case (Cons c t)
      have "to_valid s = [CHR 0xEF, CHR 0xBF, CHR 0xBD] @ to_valid t" using None Cons by (subst to_valid.simps) simp
      moreover have "unquote (escape s) = rune_bytes 0xFFFD @ unquote (escape t)"
        using None Cons unquote_unicode [of "CHR ''f''" "CHR ''f''" "CHR ''f''" "CHR ''d''" "0xFFFD"] hv
        by (simp add: escape_bad is_hex_consts)
      ultimately show ?thesis using 1 Cons hv by simp
    qed
  next
    case (Some n)
    note b = rune_len_bounds [OF Some]
    obtain c t where s: "s = c # t" using b by (cases s) auto
    have v: "to_valid s = take n s @ unquote (escape (drop n s))"
      using 1 Some s b by (subst to_valid.simps) simp
    show ?thesis
    proof (cases "n = 1")
      case True
      have "byte c < 0x80" using rune_one [of c t] Some s True by simp
      then show ?thesis unfolding escape_Rune [OF Some] using v True s unquote_esc_ascii [of c] by simp
    next
      case False
      then have "0x80 \<le> byte c" using rune_len_high [OF Some] b s by (cases n) auto
      then have h: "hd s \<noteq> CHR 0x5C" using s by auto
      consider "take n s = [CHR 0xE2, CHR 0x80, CHR 0xA8]" | "take n s = [CHR 0xE2, CHR 0x80, CHR 0xA9]"
        | "take n s \<noteq> [CHR 0xE2, CHR 0x80, CHR 0xA8]" "take n s \<noteq> [CHR 0xE2, CHR 0x80, CHR 0xA9]" by blast
      then show ?thesis
      proof cases
        case 1
        then show ?thesis unfolding escape_Rune [OF Some] v using False hv
            unquote_unicode [of "CHR ''2''" "CHR ''0''" "CHR ''2''" "CHR ''8''" "0x2028" "escape (drop n s)"]
          by (simp add: is_hex_consts)
      next
        case 2
        then show ?thesis unfolding escape_Rune [OF Some] v using False hv
            unquote_unicode [of "CHR ''2''" "CHR ''0''" "CHR ''2''" "CHR ''9''" "0x2029" "escape (drop n s)"]
          by (simp add: is_hex_consts)
      next
        case 3
        then show ?thesis unfolding escape_Rune [OF Some] v using False unquote_rune [OF Some h] by simp
      qed
    qed
  qed
qed

subsection \<open>Marshalled values\<close>

fun raw_of :: "json \<Rightarrow> raw" where
  "raw_of JNull = RNull"
| "raw_of (JBool b) = RBool b"
| "raw_of (JNum t) = RNum t"
| "raw_of (JStr s) = RStr (escape s)"
| "raw_of (JArr vs) = RArr (map raw_of vs)"
| "raw_of (JObj fs) = RObj (map (\<lambda>kv. (escape (fst kv), raw_of (snd kv))) fs)"

text \<open>Values without invalid UTF-8 whose numbers are JSON numbers.\<close>

fun go_ok :: "json \<Rightarrow> bool" where
  "go_ok (JNum t) = num_ok t"
| "go_ok (JStr s) = valid_utf8 s"
| "go_ok (JArr vs) = list_all go_ok vs"
| "go_ok (JObj fs) = list_all (\<lambda>kv. valid_utf8 (fst kv) \<and> go_ok (snd kv)) fs"
| "go_ok _ = True"

lemma raw_text_of: "raw_text (raw_of v) = json_text v"
proof (induction v)
  case (JArr vs)
  then have "map (raw_text \<circ> raw_of) vs = map json_text vs" by simp
  then have "commas (map (raw_text \<circ> raw_of) vs) = commas (map json_text vs)" by (rule arg_cong)
  then show ?case by simp
next
  case (JObj fs)
  then have "map (\<lambda>kv. CHR 0x22 # escape (fst kv) @ CHR 0x22 # CHR '':'' # raw_text (raw_of (snd kv))) fs =
      map (\<lambda>kv. json_string (fst kv) @ CHR '':'' # json_text (snd kv)) fs"
    by (fastforce simp: json_string_def)
  then have "commas (map (\<lambda>kv. CHR 0x22 # escape (fst kv) @ CHR 0x22 # CHR '':'' # raw_text (raw_of (snd kv))) fs) =
      commas (map (\<lambda>kv. json_string (fst kv) @ CHR '':'' # json_text (snd kv)) fs)" by (rule arg_cong)
  then show ?case by (simp add: comp_def)
qed (simp_all add: json_string_def)

lemma raw_ok_of: "go_ok v \<Longrightarrow> raw_ok (raw_of v)"
proof (induction v)
  case (JObj fs)
  then show ?case using passes_lit [OF passes_escape] by (fastforce simp: list_all_iff)
qed (auto simp: list_all_iff passes_lit passes_escape)

lemma cook_of: "go_ok v \<Longrightarrow> cook (raw_of v) = v"
proof (induction v)
  case (JArr vs)
  then show ?case by (auto simp: list_all_iff intro: map_idI)
next
  case (JObj fs)
  then show ?case by (fastforce simp: list_all_iff unquote_escape to_valid_id intro: map_idI)
qed (simp_all add: unquote_escape to_valid_id)

theorem parse_go_text:
  assumes "go_ok v" and "raw_depth (raw_of v) \<le> maxNestingDepth"
  shows "parse_raw (json_text v) = Some (raw_of v)" and "parse_go (json_text v) = Some v"
proof -
  show "parse_raw (json_text v) = Some (raw_of v)"
    using parse_raw_text [OF raw_ok_of [OF assms(1)] assms(2)] by (simp add: raw_text_of)
  then show "parse_go (json_text v) = Some v" by (simp add: parse_go_def cook_of [OF assms(1)])
qed

lemma scan_exponent_stops: "stops r \<Longrightarrow> scan_exponent t r = Some (t, r)"
  by (auto simp: scan_exponent_def stops_def)

lemma scan_fraction_stops: "stops r \<Longrightarrow> scan_fraction t r = Some (t, r)"
  by (auto simp: scan_fraction_def stops_def scan_exponent_stops)

lemma takeWhile_digits:
  "list_all is_digit t \<Longrightarrow> stops r \<Longrightarrow> takeWhile is_digit (t @ r) = t \<and> dropWhile is_digit (t @ r) = r"
  by (induction t) (cases r; auto simp: stops_def)+

lemma num_ok_dec_nat: "num_ok (dec_nat n)"
proof -
  have d: "list_all is_digit (dec_nat n)" by (rule dec_nat_is_digit)
  obtain c t where t: "dec_nat n = c # t" using dec_nat_nonempty [of n] by (cases "dec_nat n") auto
  have c: "is_digit c" "c \<noteq> CHR ''-''" using d t by (auto simp: is_digit_def)
  have z: "t = []" if "c = CHR ''0''" using that dec_nat_hd [of n] t digit_0 by (cases t) auto
  have "scan_number (dec_nat n @ r) = Some (dec_nat n, r)" if r: "stops r" for r
  proof (cases "c = CHR ''0''")
    case True
    then show ?thesis using z t r by (simp add: scan_number_def scan_fraction_stops)
  next
    case False
    then show ?thesis using t c r takeWhile_digits [OF d r]
      by (simp add: scan_number_def scan_fraction_stops)
  qed
  then show ?thesis using t c by (simp add: num_ok_def)
qed

lemma num_ok_minus: "num_ok (dec_nat n) \<Longrightarrow> num_ok (CHR ''-'' # dec_nat n)"
proof -
  have d: "list_all is_digit (dec_nat n)" by (rule dec_nat_is_digit)
  obtain c t where t: "dec_nat n = c # t" using dec_nat_nonempty [of n] by (cases "dec_nat n") auto
  have c: "is_digit c" "c \<noteq> CHR ''-''" using d t by (auto simp: is_digit_def)
  have z: "t = []" if "c = CHR ''0''" using that dec_nat_hd [of n] t digit_0 by (cases t) auto
  have "scan_number (CHR ''-'' # dec_nat n @ r) = Some (CHR ''-'' # dec_nat n, r)" if r: "stops r" for r
  proof (cases "c = CHR ''0''")
    case True
    then show ?thesis using z t r by (simp add: scan_number_def scan_fraction_stops)
  next
    case False
    then show ?thesis using t c r takeWhile_digits [OF d r]
      by (simp add: scan_number_def scan_fraction_stops)
  qed
  then show ?thesis by (simp add: num_ok_def)
qed

lemma num_ok_dec_int [simp]: "num_ok (dec_int i)"
  by (simp add: dec_int_def num_ok_dec_nat num_ok_minus)

end
