(* ===== verification/Mcp_Filter.thy ===== *)
theory Mcp_Filter
  imports Mcp_Framing Go_Roundtrip "HOL-Library.Sublist"
begin

text \<open>
  The input filter read as a loop over lines: the chunked reading with its size bound is
  equivalent to serving the lines one by one, and what is forwarded to the SDK.
\<close>

subsection \<open>Serving lines\<close>

definition serve_line :: "nat \<Rightarrow> bytes \<Rightarrow> wire \<Rightarrow> wire \<times> goerr option" where
  "serve_line limit l w = (if length l > limit then flush limit [] True w else flush limit l False w)"

fun serve_lines :: "nat \<Rightarrow> bytes list \<Rightarrow> wire \<Rightarrow> wire \<times> goerr option" where
  "serve_lines limit [] w = (w, None)"
| "serve_lines limit (l # ls) w =
     (case serve_line limit l w of (w1, Some e) \<Rightarrow> (w1, Some e) | (w1, None) \<Rightarrow> serve_lines limit ls w1)"

text \<open>After a read error the last line is served only if it is complete.\<close>

definition served :: "goerr option \<Rightarrow> bytes list \<Rightarrow> bytes list" where
  "served fin ls = (if fin = None then ls else filter (\<lambda>l. newline \<in> set l) ls)"

lemma takeWhile_newline: "newline \<notin> set (takeWhile (\<lambda>c. c \<noteq> newline) s)"
  by (auto dest: set_takeWhileD)

lemma read_chunk_newline:
  assumes "read_chunk s = (c, AtNewline r)"
  shows "\<exists>a. newline \<notin> set a \<and> c = a @ [newline] \<and> s = c @ r"
proof -
  let ?a = "takeWhile (\<lambda>c. c \<noteq> newline) s"
  from assms have k: "length ?a < length s" and c: "c = take (Suc (length ?a)) s" "r = drop (Suc (length ?a)) s"
    by (auto simp: read_chunk_def Let_def split: if_splits)
  have "s ! length ?a = newline" using nth_length_takeWhile [of "\<lambda>c. c \<noteq> newline" s] k by simp
  then have "c = ?a @ [newline]" using k c by (simp add: take_Suc_conv_app_nth takeWhile_eq_take [symmetric])
  moreover have "s = c @ r" using c by simp
  ultimately show ?thesis using takeWhile_newline [of s] by blast
qed

lemma read_chunk_full: "read_chunk s = (c, BufferFull r) \<Longrightarrow> newline \<notin> set c \<and> s = c @ r \<and> length r < length s"
proof -
  assume *: "read_chunk s = (c, BufferFull r)"
  let ?a = "takeWhile (\<lambda>c. c \<noteq> newline) s"
  from * have k: "\<not> (length ?a < length s \<and> length ?a < chunk_size)" "chunk_size \<le> length s"
    and c: "c = take chunk_size s" "r = drop chunk_size s"
    by (auto simp: read_chunk_def Let_def split: if_splits)
  have "chunk_size \<le> length ?a" using k by linarith
  then have "take chunk_size (take (length ?a) s) = take chunk_size s" by (simp add: min_absorb1)
  then have "c = take chunk_size ?a" using c takeWhile_eq_take [of "\<lambda>c. c \<noteq> newline" s] by simp
  then have "newline \<notin> set c" using takeWhile_newline [of s] by (auto dest: in_set_takeD)
  then show ?thesis using c k by (auto simp: chunk_size_def)
qed

lemma read_chunk_end: "read_chunk s = (c, AtEnd) \<Longrightarrow> newline \<notin> set c \<and> s = c"
proof -
  assume *: "read_chunk s = (c, AtEnd)"
  let ?a = "takeWhile (\<lambda>c. c \<noteq> newline) s"
  from * have k: "\<not> (length ?a < length s \<and> length ?a < chunk_size)" "\<not> chunk_size \<le> length s" "c = s"
    by (auto simp: read_chunk_def Let_def split: if_splits)
  then have "length ?a = length s" using length_takeWhile_le [of "\<lambda>c. c \<noteq> newline" s] by linarith
  then have "?a = s" using takeWhile_eq_take [of "\<lambda>c. c \<noteq> newline" s] by simp
  then show ?thesis using k takeWhile_newline [of s] by auto
qed

text \<open>What the loop keeps of the text \<open>a\<close> read so far of the current line.\<close>

definition kept :: "nat \<Rightarrow> bytes \<Rightarrow> bytes" where
  "kept limit a = (if length a > limit then [] else a)"

lemma kept_step:
  "(if length a > limit then (kept limit a, True)
    else if length (kept limit a) + length c > limit then ([], True) else (kept limit a @ c, False))
   = (kept limit (a @ c), length (a @ c) > limit)"
  by (auto simp: kept_def)

lemma flush_kept: "flush limit (kept limit l) (length l > limit) w = serve_line limit l w"
  by (simp add: serve_line_def kept_def)

lemma filter_loop_lines:
  assumes "newline \<notin> set a"
  shows "filter_loop limit fin s (kept limit a) (length a > limit) w =
    (case serve_lines limit (served fin (body_lines (a @ s))) w of (w1, Some e) \<Rightarrow> (w1, Some e) | (w1, None) \<Rightarrow> (w1, fin))"
  using assms
proof (induction s arbitrary: a w rule: length_induct)
  case (1 s)
  note IH = 1(1) [rule_format] and a = 1(2)
  obtain c ending where rc: "read_chunk s = (c, ending)" by fastforce
  have eq: "filter_loop limit fin s (kept limit a) (length a > limit) w =
      (case ending of
        BufferFull r \<Rightarrow> filter_loop limit fin r (kept limit (a @ c)) (length (a @ c) > limit) w
      | AtEnd \<Rightarrow>
          (case fin of
             Some e \<Rightarrow> (w, Some e)
           | None \<Rightarrow> if kept limit (a @ c) \<noteq> [] \<or> length (a @ c) > limit
               then serve_line limit (a @ c) w else (w, None))
      | AtNewline r \<Rightarrow>
          (case serve_line limit (a @ c) w of
             (w1, Some e) \<Rightarrow> (w1, Some e)
           | (w1, None) \<Rightarrow> filter_loop limit fin r [] False w1))"
    unfolding filter_loop.simps [of limit fin s] rc prod.case Let_def kept_step flush_kept by (rule refl)
  show ?case
  proof (cases ending)
    case (AtNewline r)
    with rc read_chunk_newline obtain b where b: "newline \<notin> set b" "c = b @ [newline]" "s = c @ r" by blast
    have l: "body_lines (a @ s) = (a @ c) # body_lines r"
      using body_lines_next [of "a @ b" r] a b by simp
    have r: "filter_loop limit fin r [] False w1 = (case serve_lines limit (served fin (body_lines r)) w1 of
        (w1, Some e) \<Rightarrow> (w1, Some e) | (w1, None) \<Rightarrow> (w1, fin))" for w1
      using IH [of r "[]" w1] b by (simp add: kept_def)
    have "newline \<in> set (a @ c)" using b by simp
    then have "served fin (body_lines (a @ s)) = (a @ c) # served fin (body_lines r)" unfolding l served_def by simp
    then show ?thesis unfolding eq AtNewline chunk_end.case r by (simp split: prod.split option.split)
  next
    case (BufferFull r)
    with rc read_chunk_full have c: "newline \<notin> set c" "s = c @ r" "length r < length s" by blast+
    then show ?thesis unfolding eq BufferFull chunk_end.case using IH [of r "a @ c" w] a by simp
  next
    case AtEnd
    with rc read_chunk_end have c: "newline \<notin> set c" "s = c" by blast+
    have l: "body_lines (a @ s) = (if a @ c = [] then [] else [a @ c])" using body_lines_last [of "a @ c"] a c by simp
    have k: "kept limit (a @ c) \<noteq> [] \<or> length (a @ c) > limit \<longleftrightarrow> a @ c \<noteq> []" by (auto simp: kept_def)
    show ?thesis unfolding eq AtEnd chunk_end.case k l using a c
      by (cases fin) (auto simp: served_def split: prod.split option.split)
  qed
qed

text \<open>
  C33. Reading in chunks of 64 KiB with a bound on the kept text serves exactly the lines of the
  input in order: each line within the limit is screened, each longer one is answered with a
  size error without being kept, an incomplete last line is served at the end of the input but
  not after a read error, and the pipe is closed with the first failed write or that error.
\<close>

theorem filterInput_lines:
  "filterInput limit s fin w =
     (case serve_lines limit (served fin (body_lines s)) w of (w1, Some e) \<Rightarrow> (w1, Some e) | (w1, None) \<Rightarrow> (w1, fin))"
  unfolding filterInput_def using filter_loop_lines [of "[]" limit fin s w] by (simp add: kept_def)

subsection \<open>What becomes of a line\<close>

datatype verdict = Ignored | Forwarded bytes | Answered bytes

definition verdict :: "nat \<Rightarrow> bytes \<Rightarrow> verdict" where
  "verdict limit l =
     (if length l > limit then Answered (rpcError (-32600) (''message exceeds the '' @ dec_nat limit @ '' byte limit''))
      else let t = TrimSpace l in
        if t = [] then Ignored
        else if \<not> json_valid t then Answered (rpcError (-32700) ''Parse error: each line must be one complete JSON-RPC message'')
        else if hd t \<noteq> CHR 0x7B \<and> hd t \<noteq> CHR ''[''
        then Answered (rpcError (-32600) ''Invalid Request: a message must be a JSON object'')
        else (case envelopeProblem t of
            Some reason \<Rightarrow> Answered (rpcError (-32600) (''Invalid Request: '' @ reason))
          | None \<Rightarrow> Forwarded (t @ [newline])))"

text \<open>The null ID of an error reply is never in flight, so the reply is never taken for a response.\<close>

definition null_free :: "wire \<Rightarrow> bool" where
  "null_free w = (''null'' \<notin> fr_inflight (wi_framer w))"

lemma raw_text_null: "nums_shaped v \<Longrightarrow> raw_text v = ''null'' \<Longrightarrow> v = RNull"
proof (cases v)
  case (RBool b)
  then show "raw_text v = ''null'' \<Longrightarrow> v = RNull" by (cases b) simp_all
next
  case (RNum t)
  assume "nums_shaped v" "raw_text v = ''null''"
  then have "is_digit (CHR ''n'') \<or> CHR ''n'' = CHR ''-''" using RNum by simp
  then show ?thesis by (simp add: is_digit_def)
qed simp_all

lemma set_fields_shaped:
  assumes "set_fields table kvs s = Some s'" and "P s" and "list_all (\<lambda>kv. nums_shaped (snd kv)) kvs"
    and "\<And>k f v s s'. (k, f) \<in> set table \<Longrightarrow> nums_shaped v \<Longrightarrow> P s \<Longrightarrow> f v s = Some s' \<Longrightarrow> P s'"
  shows "P s'"
  using assms(1-3)
proof (induction kvs arbitrary: s)
  case (Cons kv kvs)
  show ?case
  proof (cases "field_named table (fst kv)")
    case (Some f)
    have "\<exists>k. (k, f) \<in> set table"
      using Some by (auto simp: field_named_def find_Some_iff in_set_conv_nth split: option.splits dest!: map_of_SomeD)
        (metis eq_fst_iff eq_snd_iff)
    then show ?thesis using Cons Some assms(4) by (auto split: option.splits)
  qed (use Cons in auto)
qed simp

definition id_shaped :: "raw option \<Rightarrow> bool" where
  "id_shaped x = (case x of None \<Rightarrow> True | Some v \<Rightarrow> nums_shaped v)"

lemma read_tracked_shaped: "read_tracked line = Some m \<Longrightarrow> id_shaped (ff_ID m)"
proof -
  let ?T = "[(''id'', raw_field ff_ID_update), (''method'', raw_string ff_Method_update), (''params'', raw_field ff_Params_update)]"
  assume "read_tracked line = Some m"
  then obtain r where r: "parse_raw line = Some r" and m: "raw_struct ?T r zero_fields = Some m"
    by (auto simp: read_tracked_def bind_eq_Some_conv)
  have z: "id_shaped (ff_ID zero_fields)" by (simp add: zero_fields_def id_shaped_def)
  show ?thesis
  proof (cases r)
    case (RObj fs)
    have "set_fields ?T (map (apfst unquote) fs) zero_fields = Some m" using m RObj by (simp add: raw_struct_def)
    moreover have "list_all (\<lambda>kv. nums_shaped (snd kv)) (map (apfst unquote) fs)"
      using parse_raw_shaped [OF r] RObj by (auto simp: list_all_iff)
    ultimately show ?thesis
      by (rule set_fields_shaped [where P = "\<lambda>m. id_shaped (ff_ID m)", OF _ z])
        (auto simp: raw_field_def raw_string_def id_shaped_def split: raw.splits)
  qed (use m z in \<open>auto simp: raw_struct_def\<close>)
qed

lemma track_null_free: "''null'' \<notin> fr_inflight f \<Longrightarrow> ''null'' \<notin> fr_inflight (track line f)"
  using read_tracked_shaped [of line] raw_text_null
  by (auto simp: track_def canonID_def id_shaped_def split: option.splits)

lemma rpcError_fields: "read_written (rpcError code msg) = Some \<lparr>ff_ID = Some RNull, ff_Method = [], ff_Params = None\<rparr>"
proof -
  let ?v = "JObj [(''error'', JObj [(''code'', JInt code), (''message'', JStr msg)]), (''id'', JNull), (''jsonrpc'', JStr ''2.0'')]"
  have keys: "valid_utf8 ''error''" "valid_utf8 ''id''" "valid_utf8 ''jsonrpc''" by (rule valid_utf8_ascii, simp)+
  have "raw_ok (raw_of ?v)" using passes_lit [OF passes_escape] by simp
  moreover have "raw_depth (raw_of ?v) \<le> maxNestingDepth" by (simp add: maxNestingDepth_def)
  ultimately have "parse_raw (raw_text (raw_of ?v) @ [newline]) = Some (raw_of ?v)"
    by (rule parse_raw_text_ws) (simp add: newline_def is_ws_def)
  then have p: "parse_raw (rpcError code msg) = Some (raw_of ?v)" by (simp only: rpcError_def raw_text_of)
  let ?T = "[(''id'', raw_field ff_ID_update), (''method'', raw_string ff_Method_update)] :: (bytes \<times> (raw \<Rightarrow> frame_fields \<Rightarrow> frame_fields option)) list"
  have f: "fold_name ''error'' \<noteq> fold_name ''id''" "fold_name ''error'' \<noteq> fold_name ''method''"
    "fold_name ''jsonrpc'' \<noteq> fold_name ''id''" "fold_name ''jsonrpc'' \<noteq> fold_name ''method''"
    by code_simp+
  have "field_named ?T ''error'' = None" "field_named ?T ''jsonrpc'' = None" "field_named ?T ''id'' = Some (raw_field ff_ID_update)"
    using f by (auto simp: field_named_def)
  then show ?thesis
    by (simp add: read_written_def p raw_struct_def unquote_escape to_valid_id keys raw_field_def zero_fields_def)
qed

lemma Write_rpcError: "''null'' \<notin> fr_inflight f \<Longrightarrow> Write (rpcError code msg) f = put_out (rpcError code msg) f"
  by (simp add: Write_def rpcError_fields canonID_def)

text \<open>Serving a line does what its verdict says.\<close>

lemma serve_line_verdict:
  assumes "null_free w" and "serve_line limit l w = (w', e)"
  shows "null_free w' \<and>
     wi_sdk w' = wi_sdk w @ (case verdict limit l of Forwarded m \<Rightarrow> [m] | _ \<Rightarrow> []) \<and>
     fr_out (wi_framer w') = fr_out (wi_framer w) @ (case verdict limit l of Answered a \<Rightarrow> [a] | _ \<Rightarrow> [])"
proof -
  have n: "''null'' \<notin> fr_inflight (wi_framer w)" using assms(1) by (simp add: null_free_def)
  have ans: "null_free w' \<and> wi_sdk w' = wi_sdk w \<and> fr_out (wi_framer w') = fr_out (wi_framer w) @ [rpcError c m]"
    if "answer_error what c m w = (w', e)" for what c m
    using that n by (auto simp: answer_error_def Write_rpcError put_out_def null_free_def)
  have fwd: "null_free w' \<and> wi_sdk w' = wi_sdk w @ [t @ [newline]] \<and> fr_out (wi_framer w') = fr_out (wi_framer w)"
    if "pipe (t @ [newline]) (w\<lparr>wi_framer := track t (wi_framer w)\<rparr>) = (w', e)" for t
    using that track_null_free [OF n, of t]
    by (auto simp: pipe_def null_free_def track_def split: option.splits)
  show ?thesis
  proof (cases "length l > limit")
    case True
    then show ?thesis using assms(2) ans by (auto simp: serve_line_def flush_def verdict_def)
  next
    case False
    let ?t = "TrimSpace l"
    consider "?t = []" | "?t \<noteq> []" "\<not> json_valid ?t" | "?t \<noteq> []" "json_valid ?t" "hd ?t \<noteq> CHR 0x7B \<and> hd ?t \<noteq> CHR ''[''"
      | r where "?t \<noteq> []" "json_valid ?t" "\<not> (hd ?t \<noteq> CHR 0x7B \<and> hd ?t \<noteq> CHR ''['')" "envelopeProblem ?t = Some r"
      | "?t \<noteq> []" "json_valid ?t" "\<not> (hd ?t \<noteq> CHR 0x7B \<and> hd ?t \<noteq> CHR ''['')" "envelopeProblem ?t = None"
      by (cases "envelopeProblem ?t") blast+
    then show ?thesis
    proof cases
      case 1
      then show ?thesis using False assms by (simp add: serve_line_def flush_def verdict_def)
    next
      case 2
      then show ?thesis using False assms(2) ans by (simp add: serve_line_def flush_def verdict_def)
    next
      case 3
      then show ?thesis using False assms(2) ans by (simp add: serve_line_def flush_def verdict_def)
    next
      case (4 r)
      from 4(3) have e: "(hd ?t \<noteq> CHR 0x7B \<and> hd ?t \<noteq> CHR ''['') = False" by blast
      show ?thesis using False assms(2) 4(1,2,4) ans unfolding serve_line_def flush_def verdict_def Let_def e if_False by simp
    next
      case 5
      from 5(3) have e: "(hd ?t \<noteq> CHR 0x7B \<and> hd ?t \<noteq> CHR ''['') = False" by blast
      show ?thesis using False assms(2) 5(1,2,4) fwd unfolding serve_line_def flush_def verdict_def Let_def e if_False by simp
    qed
  qed
qed

fun forwarded :: "verdict list \<Rightarrow> bytes list" where
  "forwarded [] = []"
| "forwarded (v # vs) = (case v of Forwarded m \<Rightarrow> m # forwarded vs | _ \<Rightarrow> forwarded vs)"

fun answered :: "verdict list \<Rightarrow> bytes list" where
  "answered [] = []"
| "answered (v # vs) = (case v of Answered a \<Rightarrow> a # answered vs | _ \<Rightarrow> answered vs)"

lemma serve_lines_verdicts:
  "null_free w \<Longrightarrow> serve_lines limit ls w = (w', e) \<Longrightarrow>
     \<exists>us. prefix us ls \<and> (case e of None \<Rightarrow> us = ls | Some _ \<Rightarrow> True) \<and>
       wi_sdk w' = wi_sdk w @ forwarded (map (verdict limit) us) \<and>
       fr_out (wi_framer w') = fr_out (wi_framer w) @ answered (map (verdict limit) us)"
proof (induction ls arbitrary: w)
  case (Cons l ls)
  obtain w1 x where s: "serve_line limit l w = (w1, x)" by fastforce
  note v = serve_line_verdict [OF Cons.prems(1) s]
  show ?case
  proof (cases x)
    case (Some d)
    with Cons.prems(2) s have "w' = w1" "e = Some d" by simp_all
    with v show ?thesis by (intro exI [of _ "[l]"]) (simp split: verdict.splits)
  next
    case None
    with Cons.prems(2) s have "serve_lines limit ls w1 = (w', e)" by simp
    from Cons.IH [OF _ this] v obtain us where "prefix us ls" "case e of None \<Rightarrow> us = ls | Some _ \<Rightarrow> True"
      "wi_sdk w' = wi_sdk w1 @ forwarded (map (verdict limit) us)"
      "fr_out (wi_framer w') = fr_out (wi_framer w1) @ answered (map (verdict limit) us)" by blast
    with v show ?thesis by (intro exI [of _ "l # us"]) (simp split: verdict.splits option.splits)
  qed
qed simp

lemma strip_all_head: "p \<in> set ps \<Longrightarrow> p \<noteq> [] \<Longrightarrow> take (length p) (strip_all ps s) \<noteq> p"
proof (induction ps s rule: strip_all.induct)
  case (1 ps s)
  show ?case
  proof (cases "find (\<lambda>p. p \<noteq> [] \<and> take (length p) s = p) ps")
    case None
    have "strip_all ps s = s" by (subst strip_all.simps) (simp only: None option.case)
    with None "1.prems" show ?thesis by (auto simp: find_None_iff)
  next
    case (Some q)
    with "1.IH" [OF Some] "1.prems" show ?thesis by (subst strip_all.simps) simp
  qed
qed

lemma TrimSpace_last: "TrimSpace s \<noteq> [] \<Longrightarrow> last (TrimSpace s) \<noteq> newline"
proof
  assume ne: "TrimSpace s \<noteq> []" and l: "last (TrimSpace s) = newline"
  let ?r = "strip_all (map rev space_runes) (rev (strip_all space_runes s))"
  have "?r = newline # tl ?r" using ne l by (cases ?r) (simp_all add: TrimSpace_def)
  then have "take (length [newline]) ?r = [newline]" by (metis length_Cons list.size(3) take0 take_Suc_Cons)
  moreover have "[newline] \<in> set (map rev space_runes)" by (simp add: space_runes_def newline_def)
  ultimately show False using strip_all_head [of "[newline]"] by blast
qed

lemma body_lines_inner: "l \<in> set (body_lines s) \<Longrightarrow> newline \<notin> set (butlast l)"
proof (induction s rule: length_induct)
  case (1 s)
  show ?case
  proof (cases "newline \<in> set s")
    case True
    then obtain a r where s: "s = a @ newline # r" "newline \<notin> set a" by (meson split_list_first)
    then have "l = a @ [newline] \<or> l \<in> set (body_lines r)" using 1(2) body_lines_next [of a r] by simp
    then show ?thesis using 1(1) s by auto
  next
    case False
    then show ?thesis using 1(2) body_lines_last [of s] by (auto split: if_splits dest: in_set_butlastD)
  qed
qed

lemma trimmed_line: "newline \<notin> set (butlast l) \<Longrightarrow> newline \<notin> set (TrimSpace l)"
proof
  assume b: "newline \<notin> set (butlast l)" and n: "newline \<in> set (TrimSpace l)"
  obtain p q where l: "l = p @ TrimSpace l @ q" using TrimSpace_infix by blast
  have ne: "TrimSpace l \<noteq> []" using n by auto
  show False
  proof (cases "q = []")
    case True
    then have "butlast l = p @ butlast (TrimSpace l)" using l ne by (metis append_Nil2 butlast_append)
    with b have "newline \<notin> set (butlast (TrimSpace l))" by simp
    with n ne have "last (TrimSpace l) = newline" by (metis append_butlast_last_id in_set_conv_decomp_last
        set_ConsD Un_iff empty_iff empty_set set_append)
    with TrimSpace_last ne show False by blast
  next
    case False
    then have "butlast l = p @ TrimSpace l @ butlast q" using l ne by (metis append_is_Nil_conv butlast_append)
    with b n show False by simp
  qed
qed

definition sdk_message :: "nat \<Rightarrow> bytes \<Rightarrow> bool" where
  "sdk_message limit m = (\<exists>t. m = t @ [newline] \<and> newline \<notin> set t \<and> length t \<le> limit \<and> json_valid t \<and> envelopeProblem t = None)"

lemma verdict_forwarded:
  assumes "verdict limit l = Forwarded m" and "newline \<notin> set (butlast l)"
  shows "sdk_message limit m"
proof -
  let ?t = "TrimSpace l"
  from assms(1) have "m = ?t @ [newline]" "length l \<le> limit" "json_valid ?t" "envelopeProblem ?t = None"
    unfolding verdict_def Let_def by (simp_all split: if_splits option.splits)
  moreover have "length ?t \<le> length l" by (rule TrimSpace_length)
  ultimately show ?thesis using trimmed_line [OF assms(2)] unfolding sdk_message_def by (intro exI [of _ ?t]) simp
qed

lemma forwarded_messages:
  "list_all (\<lambda>l. newline \<notin> set (butlast l)) ls \<Longrightarrow> list_all (sdk_message limit) (forwarded (map (verdict limit) ls))"
proof (induction ls)
  case (Cons l ls)
  then show ?case using verdict_forwarded [of limit l] by (cases "verdict limit l") auto
qed simp

definition start_wire :: "(nat \<Rightarrow> goerr option) \<Rightarrow> (nat \<Rightarrow> goerr option) \<Rightarrow> wire" where
  "start_wire outfail sdkfail = \<lparr>wi_framer = newFramer outfail, wi_sdk = [], wi_sdkfail = sdkfail, wi_notes = []\<rparr>"

text \<open>
  C34. Every line of the client has one outcome: blank lines are ignored, acceptable messages go
  to the SDK and every other line is answered with exactly one error reply; both streams keep the
  order of the lines, and only a failed write stops the service of further lines. Whatever the
  input, each piece the SDK reads is one complete line within the limit that holds valid JSON
  with an acceptable envelope.
\<close>

theorem filterInput_outcomes:
  "case filterInput limit s fin (start_wire outfail sdkfail) of (w', e) \<Rightarrow>
     (\<exists>us. prefix us (served fin (body_lines s)) \<and>
        (case e of None \<Rightarrow> us = served fin (body_lines s) | Some _ \<Rightarrow> True) \<and>
        wi_sdk w' = forwarded (map (verdict limit) us) \<and>
        fr_out (wi_framer w') = answered (map (verdict limit) us)) \<and>
     list_all (sdk_message limit) (wi_sdk w')"
proof -
  let ?w = "start_wire outfail sdkfail" and ?ls = "served fin (body_lines s)"
  obtain w1 x where s: "serve_lines limit ?ls ?w = (w1, x)" by fastforce
  have n: "null_free ?w" by (simp add: null_free_def start_wire_def newFramer_def)
  from serve_lines_verdicts [OF n s] obtain us where us: "prefix us ?ls" "case x of None \<Rightarrow> us = ?ls | Some _ \<Rightarrow> True"
    "wi_sdk w1 = forwarded (map (verdict limit) us)" "fr_out (wi_framer w1) = answered (map (verdict limit) us)"
    by (auto simp: start_wire_def newFramer_def)
  have "list_all (\<lambda>l. newline \<notin> set (butlast l)) us"
    using us(1) set_mono_prefix [of us ?ls] body_lines_inner [of _ s] by (auto simp: served_def list_all_iff split: if_splits)
  then have "list_all (sdk_message limit) (wi_sdk w1)" using us(3) forwarded_messages by simp
  then show ?thesis using us by (auto simp: filterInput_lines s split: option.splits intro!: exI [of _ us])
qed

subsection \<open>Cancelled requests\<close>

text \<open>What a line from the client and a message of the SDK mean for the requests in flight.\<close>

datatype traffic = Request bytes | Cancel bytes | OtherTraffic

definition inbound :: "bytes \<Rightarrow> traffic" where
  "inbound line =
     (case read_tracked line of
        None \<Rightarrow> OtherTraffic
      | Some m \<Rightarrow>
          if ff_Method m = [] then OtherTraffic
          else if ff_Method m = ''notifications/cancelled'' then
            (case cancelled_id (ff_Params m) of None \<Rightarrow> OtherTraffic | Some i \<Rightarrow> Cancel i)
          else (case ff_ID m of
              None \<Rightarrow> OtherTraffic | Some v \<Rightarrow> if v = RNull then OtherTraffic else Request (canonID v)))"

definition outbound :: "bytes \<Rightarrow> bytes option" where
  "outbound p =
     (case read_written p of
        None \<Rightarrow> None | Some m \<Rightarrow> if ff_Method m \<noteq> [] then None else map_option canonID (ff_ID m))"

text \<open>The abstract life of one request ID.\<close>

datatype id_state = Idle | Pending | Cancelled

fun on_traffic :: "traffic \<Rightarrow> (bytes \<Rightarrow> id_state) \<Rightarrow> (bytes \<Rightarrow> id_state)" where
  "on_traffic (Request i) s = (if s i = Idle then s(i := Pending) else s)"
| "on_traffic (Cancel i) s = (if s i = Pending then s(i := Cancelled) else s)"
| "on_traffic OtherTraffic s = s"

datatype wire_event = FromClient bytes | FromSDK bytes

text \<open>The messages that must reach the client.\<close>

fun delivered :: "wire_event list \<Rightarrow> (bytes \<Rightarrow> id_state) \<Rightarrow> bytes list" where
  "delivered [] s = []"
| "delivered (FromClient l # es) s = delivered es (on_traffic (inbound l) s)"
| "delivered (FromSDK p # es) s =
     (case outbound p of
        None \<Rightarrow> p # delivered es s
      | Some i \<Rightarrow>
          if s i = Cancelled then delivered es (s(i := Idle)) else p # delivered es (s(i := Idle)))"

fun run_framer :: "wire_event list \<Rightarrow> framer \<Rightarrow> framer" where
  "run_framer [] f = f"
| "run_framer (FromClient l # es) f = run_framer es (track l f)"
| "run_framer (FromSDK p # es) f = run_framer es (fst (Write p f))"

definition id_states :: "framer \<Rightarrow> bytes \<Rightarrow> id_state" where
  "id_states f i = (if i \<in> fr_cancelled f then Cancelled else if i \<in> fr_inflight f then Pending else Idle)"

definition framer_ok :: "framer \<Rightarrow> bool" where
  "framer_ok f = (fr_cancelled f \<subseteq> fr_inflight f)"

lemma track_alt:
  "track line f = (case inbound line of
     Request i \<Rightarrow> f\<lparr>fr_inflight := insert i (fr_inflight f)\<rparr>
   | Cancel i \<Rightarrow> if i \<in> fr_inflight f then f\<lparr>fr_cancelled := insert i (fr_cancelled f)\<rparr> else f
   | OtherTraffic \<Rightarrow> f)"
  by (simp add: track_def inbound_def split: option.split)

lemma Write_alt:
  "Write p f = (case outbound p of
     None \<Rightarrow> put_out p f
   | Some i \<Rightarrow>
       if i \<notin> fr_inflight f then put_out p f
       else if i \<in> fr_cancelled f
       then (f\<lparr>fr_inflight := fr_inflight f - {i}, fr_cancelled := fr_cancelled f - {i}\<rparr>, None)
       else put_out p (f\<lparr>fr_inflight := fr_inflight f - {i}\<rparr>))"
  by (auto simp: Write_def outbound_def Let_def split: option.split)

lemma track_refines:
  assumes "framer_ok f"
  shows "framer_ok (track l f) \<and> id_states (track l f) = on_traffic (inbound l) (id_states f) \<and> fr_out (track l f) = fr_out f"
  using assms by (auto simp: track_alt framer_ok_def id_states_def fun_eq_iff split: traffic.split)

lemma Write_refines:
  assumes "framer_ok f"
  shows "framer_ok (fst (Write p f)) \<and>
     id_states (fst (Write p f)) = (case outbound p of None \<Rightarrow> id_states f | Some i \<Rightarrow> (id_states f)(i := Idle)) \<and>
     fr_out (fst (Write p f)) =
       fr_out f @ (case outbound p of None \<Rightarrow> [p] | Some i \<Rightarrow> if id_states f i = Cancelled then [] else [p])"
  using assms
  by (cases "outbound p") (auto simp: Write_alt framer_ok_def id_states_def put_out_def fun_eq_iff)

lemma run_framer_refines:
  "framer_ok f \<Longrightarrow> fr_out (run_framer es f) = fr_out f @ delivered es (id_states f)"
proof (induction es arbitrary: f)
  case (Cons e es)
  show ?case
  proof (cases e)
    case (FromClient l)
    then show ?thesis using Cons track_refines [of f l] by simp
  next
    case (FromSDK p)
    then show ?thesis using Cons Write_refines [OF Cons.prems, of p] by (simp split: option.split)
  qed
qed simp

text \<open>
  C35. Over any interleaving of client lines and SDK messages the framer delivers exactly what
  the life of the request IDs prescribes: a response is dropped if and only if its request was
  cancelled after it was received and before it was answered; everything else is delivered once
  and in order, and an answered ID starts afresh, so an old cancellation never suppresses the
  response to a reused ID.
\<close>

theorem framer_delivers:
  "fr_out (run_framer es (newFramer fail)) = delivered es (\<lambda>_. Idle)"
proof -
  have "id_states (newFramer fail) = (\<lambda>_. Idle)" by (simp add: id_states_def newFramer_def fun_eq_iff)
  then show ?thesis using run_framer_refines [of "newFramer fail" es] by (simp add: framer_ok_def newFramer_def)
qed

end
