(* ===== verification/Json_Texts.thy ===== *)
theory Json_Texts
  imports Go_Roundtrip Roundtrip
begin

text \<open>
  Properties of the bytes of marshalled JSON, by the pieces \<open>encoding/json\<close> writes: what is
  closed under concatenation and holds of every piece holds of every escaped string, and of
  every JSON text whose numbers are printable. Instances: the text is valid UTF-8 and stays on
  one line.
\<close>

subsection \<open>Escaped strings\<close>

locale escaped_text =
  fixes P :: "bytes \<Rightarrow> bool"
  assumes no_text: "P []"
    and joined: "P a \<Longrightarrow> P b \<Longrightarrow> P (a @ b)"
    and plain: "c \<noteq> CHR 0x22 \<Longrightarrow> c \<noteq> CHR 0x5C \<Longrightarrow> 0x20 \<le> byte c \<Longrightarrow> byte c < 0x80 \<Longrightarrow> P [c]"
    and rune_kept: "rune_len s = Some n \<Longrightarrow> n \<noteq> 1 \<Longrightarrow> P (take n s)"
    and simple: "simple_escape e \<noteq> None \<Longrightarrow> e \<noteq> CHR ''u'' \<Longrightarrow> 0x20 \<le> byte e \<Longrightarrow> P [CHR 0x5C, e]"
    and unicode: "is_hex w \<Longrightarrow> is_hex x \<Longrightarrow> is_hex y \<Longrightarrow> is_hex z \<Longrightarrow> \<not> surrogate (hex_val [w, x, y, z]) \<Longrightarrow>
      P [CHR 0x5C, CHR ''u'', w, x, y, z]"

lemma simple_escape_printable: "simple_escape e = Some d \<Longrightarrow> 0x20 \<le> byte e \<and> byte e < 0x80"
  by (auto simp: simple_escape_def split: if_splits)

lemma hex_val_low: "m < 8 \<Longrightarrow> n < 16 \<Longrightarrow> hex_val [CHR ''0'', CHR ''0'', hex_digit m, hex_digit n] < 128"
  by (simp add: hex_val_def unhex_digit unhex_def [of "CHR ''0''"])

context escaped_text
begin

lemma esc_ascii: "byte c < 0x80 \<Longrightarrow> P (esc_ascii c)"
proof (rule esc_ascii_cases [of c])
  fix e
  assume e: "esc_ascii c = [CHR 0x5C, e]" "simple_escape e = Some c" "e \<noteq> CHR ''u''"
  then show ?thesis using simple [of e] simple_escape_printable by simp
next
  assume c: "byte c < 0x80"
    and e: "esc_ascii c = [CHR 0x5C, CHR ''u'', CHR ''0'', CHR ''0'', hex_digit (byte c div 16), hex_digit (byte c mod 16)]"
  have "hex_val [CHR ''0'', CHR ''0'', hex_digit (byte c div 16), hex_digit (byte c mod 16)] < 128"
    using c by (intro hex_val_low) auto
  then have "P [CHR 0x5C, CHR ''u'', CHR ''0'', CHR ''0'', hex_digit (byte c div 16), hex_digit (byte c mod 16)]"
    using c by (intro unicode is_hex_consts is_hex_digit) (auto simp: surrogate_def)
  with e show ?thesis by simp
qed (use plain [of c] in auto)

lemma escaped: "P (escape s)"
proof (induction s rule: length_induct)
  case (1 s)
  show ?case
  proof (cases "rune_len s")
    case None
    show ?thesis
    proof (cases s)
      case (Cons c t)
      have "P ([CHR 0x5C, CHR ''u'', CHR ''f'', CHR ''f'', CHR ''f'', CHR ''d''] @ escape t)"
        using 1 Cons hv by (intro joined unicode is_hex_consts) auto
      then show ?thesis using None Cons by (simp add: escape_bad)
    qed (simp add: no_text)
  next
    case (Some n)
    note b = rune_len_bounds [OF Some]
    from b have "length (drop n s) < length s" by auto
    with 1 have rest: "P (escape (drop n s))" by blast
    obtain c t where s: "s = c # t" using b by (cases s) auto
    have "P (if n = 1 then esc_ascii (hd s)
       else if take n s = [CHR 0xE2, CHR 0x80, CHR 0xA8] then CHR 0x5C # ''u2028''
       else if take n s = [CHR 0xE2, CHR 0x80, CHR 0xA9] then CHR 0x5C # ''u2029'' else take n s)"
    proof (cases "n = 1")
      case True
      then show ?thesis using rune_one [of c t] Some s by (simp add: esc_ascii)
    next
      case False
      then show ?thesis using rune_kept [OF Some] hv by (auto intro: unicode is_hex_consts)
    qed
    then show ?thesis unfolding escape_Rune [OF Some] using rest by (rule joined)
  qed
qed

end

subsection \<open>Whole texts\<close>

locale printable_text =
  fixes P :: "bytes \<Rightarrow> bool"
  assumes empty: "P []"
    and join: "P a \<Longrightarrow> P b \<Longrightarrow> P (a @ b)"
    and ascii: "0x20 \<le> byte c \<Longrightarrow> byte c < 0x80 \<Longrightarrow> P [c]"
    and rune: "rune_len s = Some n \<Longrightarrow> n \<noteq> 1 \<Longrightarrow> P (take n s)"

lemma is_hex_printable: "is_hex c \<Longrightarrow> 0x20 \<le> byte c \<and> byte c < 0x80"
  by (auto simp: is_hex_def unhex_def split: if_splits)

sublocale printable_text \<subseteq> escaped_text P
proof
  show "P [CHR 0x5C, e]" if "simple_escape e \<noteq> None" "e \<noteq> CHR ''u''" "0x20 \<le> byte e" for e
    using join [OF ascii ascii, of "CHR 0x5C" e] simple_escape_printable that by auto
  show "P [CHR 0x5C, CHR ''u'', w, x, y, z]" if "is_hex w" "is_hex x" "is_hex y" "is_hex z" for w x y z
  proof -
    have "P ([CHR 0x5C] @ [CHR ''u''] @ [w] @ [x] @ [y] @ [z])"
      using that is_hex_printable by (intro join ascii) auto
    then show ?thesis by simp
  qed
qed (rule empty, rule join, assumption+, rule ascii, assumption+, rule rune)

context printable_text
begin

lemma cons: "0x20 \<le> byte c \<Longrightarrow> byte c < 0x80 \<Longrightarrow> P s \<Longrightarrow> P (c # s)"
  using join [OF ascii, of c s] by simp

lemma printable: "list_all (\<lambda>c. 0x20 \<le> byte c \<and> byte c < 0x80) s \<Longrightarrow> P s"
  by (induction s) (auto intro: empty cons)

lemma commas: "list_all P xs \<Longrightarrow> P (commas xs)"
  by (induction xs rule: commas.induct) (auto intro!: empty join cons)

lemma quoted: "P (json_string s)"
  unfolding json_string_def by (intro cons join escaped) (auto intro: ascii empty)

lemma json_text: "json_ok v \<Longrightarrow> P (json_text v)"
proof (induction v)
  case (JBool b)
  then show ?case by (auto intro: printable)
next
  case (JNum t)
  then have "list_all num_char t" by (simp add: num_token_def)
  moreover have "num_char c \<Longrightarrow> 0x20 \<le> byte c \<and> byte c < 0x80" for c
    by (auto simp: num_char_def is_digit_def)
  ultimately show ?case by (auto simp: list_all_iff intro: printable)
next
  case (JArr vs)
  then have "list_all P (map json_text vs)" by (auto simp: list_all_iff)
  then show ?case by (auto intro!: cons join commas ascii)
next
  case (JObj fs)
  then have "list_all P (map (\<lambda>kv. json_string (fst kv) @ CHR '':'' # json_text (snd kv)) fs)"
    by (fastforce simp: list_all_iff intro!: join quoted cons)
  then show ?case by (auto intro!: cons join commas ascii)
qed (auto intro: printable quoted)

end

interpretation utf8_text: printable_text valid_utf8
proof
  show "valid_utf8 (take n s)" if "rune_len s = Some n" for s n
    using that rune_len_bounds [OF that] rune_len_take [OF that] by (auto simp: valid_utf8_step)
qed (auto simp: valid_utf8_append intro: valid_utf8_ascii)

interpretation line_text: printable_text "\<lambda>s. CHR 0x0A \<notin> set s"
proof
  show "CHR 0x0A \<notin> set (take n s)" if "rune_len s = Some n" "n \<noteq> 1" for s n
    using rune_len_high [OF that] by (auto simp: list_all_iff)
qed auto

end
