(* ===== verification/Http_Codec.thy ===== *)
theory Http_Codec
  imports Json_Texts Go_Strings Reducer
begin

text \<open>
  \<open>internal/adapters/httpapi/codec.go\<close>: the strict decoding of commands and the text of event
  cursors. A command type is described by the tree of its JSON field names (\<open>gotype\<close>), which is
  what the source reads off by reflection, and by the targets \<open>json.Unmarshal\<close> writes to.
\<close>

definition MaxBody :: nat where "MaxBody = 8388608"
definition MaxResponse :: nat where "MaxResponse = 268435456"
definition MaxEvent :: nat where "MaxEvent = 16777216"

definition invalid :: goerr where
  "invalid = FaultErr (fault ErrInvalidRequest ''invalid JSON command'')"

subsection \<open>Cursors\<close>

definition CursorID :: "Cursor \<Rightarrow> bytes" where
  "CursorID c = cu_StoreID c @ CHR '':'' # dec_nat (unat (cu_Sequence c))"

definition cursor_bad :: goerr where
  "cursor_bad = FaultErr (fault ErrCursorInvalid ''invalid event cursor'')"

definition ParseCursor :: "bytes \<Rightarrow> goerr + Cursor" where
  "ParseCursor s =
     (case split_at (CHR '':'') s of
        [p, q] \<Rightarrow>
          if length p \<noteq> 32 \<or> q = [] then Inl cursor_bad
          else if \<not> list_all hex_lower p then Inl cursor_bad
          else (case parse_digits q 0 of
              None \<Rightarrow> Inl cursor_bad
            | Some n \<Rightarrow>
                if dec_nat (unat n) \<noteq> q then Inl cursor_bad else Inr \<lparr>cu_StoreID = p, cu_Sequence = n\<rparr>)
      | _ \<Rightarrow> Inl cursor_bad)"

definition store_id :: "bytes \<Rightarrow> bool" where
  "store_id s = (length s = 32 \<and> list_all hex_lower s)"

lemma colon_not: "\<not> hex_lower (CHR '':'')" "\<not> is_digit (CHR '':'')"
  by (simp_all add: hex_lower_def is_digit_def)

lemma split_CursorID:
  assumes "store_id (cu_StoreID c)"
  shows "split_at (CHR '':'') (CursorID c) = [cu_StoreID c, dec_nat (unat (cu_Sequence c))]"
proof -
  have "CHR '':'' \<notin> set (cu_StoreID c)" "CHR '':'' \<notin> set (dec_nat (unat (cu_Sequence c)))"
    using assms dec_nat_is_digit [of "unat (cu_Sequence c)"] colon_not by (auto simp: store_id_def list_all_iff)
  then show ?thesis by (simp add: CursorID_def split_at_append split_at_none)
qed

lemma parse_digits_dec: "parse_digits (dec_nat (unat n)) 0 = Some n"
  using unat64_less [of n] by (simp add: parse_digits_iff dec_nat_is_digit)

text \<open>
  C36. The text form of an event cursor is canonical: \<open>ParseCursor\<close> accepts exactly the texts
  \<open>CursorID\<close> writes for a 32-digit lower-case store identity and any 64-bit sequence, and
  returns that cursor. Upper case, signs, leading zeros, overflow and extra parts are refused.
\<close>

theorem ParseCursor_canonical:
  "ParseCursor s = Inr c \<longleftrightarrow> s = CursorID c \<and> store_id (cu_StoreID c)"
proof
  assume p: "ParseCursor s = Inr c"
  then obtain a q where q: "split_at (CHR '':'') s = [a, q]"
    by (auto simp: ParseCursor_def split: list.splits)
  then show "s = CursorID c \<and> store_id (cu_StoreID c)"
    using p split_at_two [OF q]
    by (auto simp: ParseCursor_def CursorID_def store_id_def split: if_splits option.splits)
next
  assume "s = CursorID c \<and> store_id (cu_StoreID c)"
  then show "ParseCursor s = Inr c"
    by (simp add: ParseCursor_def split_CursorID parse_digits_dec store_id_def)
qed

subsection \<open>Command bodies\<close>

text \<open>The type of a command as \<open>shape\<close> sees it; pointers count as what they point to.\<close>

datatype gotype = Leaf | Struct "(bytes \<times> gotype) list"

fun shape :: "nat \<Rightarrow> gotype \<Rightarrow> raw \<Rightarrow> bool" where
  "shape depth t RNull = False"
| "shape depth (Struct ftypes) (RObj kvs) =
     (depth \<le> 16 \<and> distinct (map (unquote \<circ> fst) kvs) \<and>
      list_all (\<lambda>kv. case map_of ftypes (unquote (fst kv)) of
          None \<Rightarrow> False | Some ft \<Rightarrow> shape (Suc depth) ft (snd kv)) kvs)"
| "shape depth (Struct ftypes) v = False"
| "shape depth Leaf (RObj kvs) = False"
| "shape depth Leaf (RArr vs) = False"
| "shape depth Leaf v = (depth \<le> 16)"

text \<open>
  \<open>validEscapes\<close> outside and inside a string literal: no escaped surrogate without its partner.
  It runs on valid JSON, where an escape is complete; the two cases of an incomplete one are
  index panics in the source and do not arise.
\<close>

fun validEscapes :: "bytes \<Rightarrow> bool" and valid_literal :: "bytes \<Rightarrow> bool" where
  "validEscapes [] = True"
| "validEscapes (c # s) = (if c = CHR 0x22 then valid_literal s else validEscapes s)"
| "valid_literal [] = True"
| "valid_literal (c # s) =
     (if c = CHR 0x22 then validEscapes s
      else if c \<noteq> CHR 0x5C then valid_literal s
      else (case s of
          [] \<Rightarrow> False
        | e # r \<Rightarrow>
            if e \<noteq> CHR ''u'' then valid_literal r
            else (case r of
                w # x # y # z # r1 \<Rightarrow>
                  (let n = (if list_all is_hex [w, x, y, z] then hex_val [w, x, y, z] else 0) in
                   if 0xD800 \<le> n \<and> n \<le> 0xDBFF then
                     (case r1 of
                        b1 # b2 # w' # x' # y' # z' # r2 \<Rightarrow>
                          b1 = CHR 0x5C \<and> b2 = CHR ''u'' \<and> list_all is_hex [w', x', y', z'] \<and>
                          0xDC00 \<le> hex_val [w', x', y', z'] \<and> hex_val [w', x', y', z'] \<le> 0xDFFF \<and> valid_literal r2
                      | _ \<Rightarrow> False)
                   else if 0xDC00 \<le> n \<and> n \<le> 0xDFFF then False
                   else valid_literal r1)
              | _ \<Rightarrow> False)))"

definition DecodeCommand :: "gotype \<Rightarrow> (json \<Rightarrow> 'c \<Rightarrow> 'c option) \<Rightarrow> 'c \<Rightarrow> bytes \<Rightarrow> goerr + 'c" where
  "DecodeCommand t into zero b =
     (if length b > MaxBody then Inl (FaultErr (fault ErrLimitExceeded ''command exceeds body limit''))
      else if \<not> valid_utf8 b \<or> \<not> json_valid b \<or> \<not> validEscapes b then Inl invalid
      else (case parse_raw b of
          None \<Rightarrow> Inl invalid
        | Some v \<Rightarrow>
            if \<not> shape 0 t v then Inl invalid
            else (case into (cook v) zero of None \<Rightarrow> Inl invalid | Some c \<Rightarrow> Inr c)))"

subsection \<open>The command types\<close>

definition into_float :: "host \<Rightarrow> json \<Rightarrow> f64 \<Rightarrow> f64 option" where
  "into_float h v old = (case v of JNull \<Rightarrow> Some old | JNum t \<Rightarrow> h_unfloat h t | _ \<Rightarrow> None)"

definition into_options :: "host \<Rightarrow> json \<Rightarrow> GenerationOptions \<Rightarrow> GenerationOptions option" where
  "into_options h = into_struct
     [(''context_tokens'', slot (into_pointer into_int 0) op_ContextTokens op_ContextTokens_update),
      (''max_output_tokens'', slot into_int op_MaxOutputTokens op_MaxOutputTokens_update),
      (''temperature'', slot (into_pointer (into_float h) 0) op_Temperature op_Temperature_update),
      (''seed'', slot (into_pointer into_int 0) op_Seed op_Seed_update)]"

definition into_request :: "host \<Rightarrow> json \<Rightarrow> Request \<Rightarrow> Request option" where
  "into_request h = into_struct
     [(''model'', slot into_string rq_Model rq_Model_update), (''role'', slot into_string rq_Role rq_Role_update),
      (''system_prompt'', slot into_string rq_SystemPrompt rq_SystemPrompt_update),
      (''prompt'', slot into_string rq_Prompt rq_Prompt_update),
      (''options'', slot (into_options h) rq_Options rq_Options_update)]"

definition into_submit :: "host \<Rightarrow> json \<Rightarrow> SubmitCommand \<Rightarrow> SubmitCommand option" where
  "into_submit h = into_struct
     [(''idempotency_key'', slot into_string sc_Key sc_Key_update), (''origin'', slot into_string sc_Origin sc_Origin_update),
      (''request'', slot (into_request h) sc_Request sc_Request_update)]"

definition into_retry :: "json \<Rightarrow> RetryCommand \<Rightarrow> RetryCommand option" where
  "into_retry = into_struct
     [(''idempotency_key'', slot into_string rt_Key rt_Key_update), (''origin'', slot into_string rt_Origin rt_Origin_update),
      (''parent_id'', slot into_string rt_ParentID rt_ParentID_update)]"

definition into_branch :: "host \<Rightarrow> json \<Rightarrow> BranchCommand \<Rightarrow> BranchCommand option" where
  "into_branch h = into_struct
     [(''idempotency_key'', slot into_string bc_Key bc_Key_update), (''origin'', slot into_string bc_Origin bc_Origin_update),
      (''parent_id'', slot into_string bc_ParentID bc_ParentID_update),
      (''request'', slot (into_request h) bc_Request bc_Request_update)]"

definition into_empty :: "json \<Rightarrow> unit \<Rightarrow> unit option" where
  "into_empty = into_struct []"

definition options_type :: gotype where
  "options_type = Struct [(''context_tokens'', Leaf), (''max_output_tokens'', Leaf), (''temperature'', Leaf), (''seed'', Leaf)]"

definition request_type :: gotype where
  "request_type = Struct [(''model'', Leaf), (''role'', Leaf), (''system_prompt'', Leaf), (''prompt'', Leaf),
     (''options'', options_type)]"

definition submit_type :: gotype where
  "submit_type = Struct [(''idempotency_key'', Leaf), (''origin'', Leaf), (''request'', request_type)]"

definition retry_type :: gotype where
  "retry_type = Struct [(''idempotency_key'', Leaf), (''origin'', Leaf), (''parent_id'', Leaf)]"

definition branch_type :: gotype where
  "branch_type = Struct [(''idempotency_key'', Leaf), (''origin'', Leaf), (''parent_id'', Leaf), (''request'', request_type)]"

definition zero_submit :: SubmitCommand where
  "zero_submit = \<lparr>sc_Key = [], sc_Origin = [], sc_Request = zero_Request\<rparr>"

definition zero_retry :: RetryCommand where
  "zero_retry = \<lparr>rt_Key = [], rt_Origin = [], rt_ParentID = []\<rparr>"

definition zero_branch :: BranchCommand where
  "zero_branch = \<lparr>bc_Key = [], bc_Origin = [], bc_ParentID = [], bc_Request = zero_Request\<rparr>"

definition decode_submit :: "host \<Rightarrow> bytes \<Rightarrow> goerr + SubmitCommand" where
  "decode_submit h = DecodeCommand submit_type (into_submit h) zero_submit"

definition decode_retry :: "bytes \<Rightarrow> goerr + RetryCommand" where
  "decode_retry = DecodeCommand retry_type into_retry zero_retry"

definition decode_branch :: "host \<Rightarrow> bytes \<Rightarrow> goerr + BranchCommand" where
  "decode_branch h = DecodeCommand branch_type (into_branch h) zero_branch"

definition decode_empty :: "bytes \<Rightarrow> goerr + unit" where
  "decode_empty = DecodeCommand (Struct []) into_empty ()"

end
