(* ===== verification/Http_Server.thy ===== *)
theory Http_Server
  imports Http_Codec Watch Lines
begin

text \<open>
  \<open>internal/adapters/httpapi/server.go\<close> and \<open>internal/adapters/webui/assets.go\<close>: the version 1
  HTTP protocol over any implementation of \<open>core.Service\<close>. A request is what \<open>net/http\<close> hands
  to the handler; a response is its status, headers and body. The contents of the embedded files
  and \<open>mime.ParseMediaType\<close> are parameters; deadlines only bound how long the code runs.
\<close>

subsection \<open>Faults and JSON bodies\<close>

definition statuses :: "(bytes \<times> int) list" where
  "statuses = [(''invalid_request'', 400), (''not_found'', 404), (''conflict'', 409), (''queue_full'', 429),
     (''limit_exceeded'', 413), (''unsupported'', 422), (''backend_unavailable'', 503), (''backend_failure'', 502),
     (''cancelled'', 409), (''interrupted'', 409), (''cursor_expired'', 410), (''cursor_invalid'', 400),
     (''slow_consumer'', 429), (''storage_failure'', 503), (''unavailable'', 503), (''internal'', 500)]"

fun errors_is :: "goerr \<Rightarrow> goerr \<Rightarrow> bool" where
  "errors_is (Wrapped m e) target = (Wrapped m e = target \<or> errors_is e target)"
| "errors_is e target = (e = target)"

definition PublicFault :: "goerr \<Rightarrow> Fault" where
  "PublicFault err =
     (let rest = (if errors_is err DeadlineExceeded \<or> errors_is err Canceled
         then \<lparr>ft_Code = ErrUnavailable, ft_Message = ''request ended; acceptance may be uncertain'', ft_Retryable = True, ft_Details = []\<rparr>
         else fault ErrInternal ''service operation failed'') in
      case errors_as err of
        Some (Some f) \<Rightarrow>
          if map_of statuses (code_str (ft_Code f)) \<noteq> None
          then \<lparr>ft_Code = ft_Code f, ft_Message = code_str (ft_Code f), ft_Retryable = ft_Retryable f, ft_Details = []\<rparr>
          else rest
      | _ \<Rightarrow> rest)"

definition snapshot_json :: "host \<Rightarrow> Snapshot \<Rightarrow> json" where
  "snapshot_json h s = JObj [(''cursor'', cursor_json (sn_Cursor s)), (''queue'', queue_json (sn_Queue s)),
     (''jobs'', if sn_Jobs s = [] then JNull else JArr (map (job_json h) (sn_Jobs s)))]"

definition capabilities_json :: "Capabilities \<Rightarrow> json" where
  "capabilities_json c = JObj [(''text_generation'', JBool (cp_TextGeneration c)), (''streaming'', JBool (cp_Streaming c)),
     (''cancellation'', JBool (cp_Cancellation c)), (''context_request'', JBool (cp_ContextRequest c)),
     (''loaded_context'', JBool (cp_LoadedContext c)), (''exact_pause_resume'', JBool (cp_ExactPauseResume c)),
     (''checkpoints'', JBool (cp_Checkpoints c))]"

definition model_json :: "host \<Rightarrow> Model \<Rightarrow> json" where
  "model_json h m = JObj [(''id'', JStr (md_ID m)), (''capabilities'', capabilities_json (md_Capabilities m)),
     (''context'', context_json h (md_Context m))]"

text \<open>\<open>json.NewEncoder(w).Encode(v)\<close>: nothing is written where the encoding fails.\<close>

definition encoded :: "json option \<Rightarrow> bytes" where
  "encoded v = (case v of None \<Rightarrow> [] | Some j \<Rightarrow> json_text j @ [newline])"

definition job_body :: "host \<Rightarrow> Job \<Rightarrow> json option" where
  "job_body h j = (if job_encodable j then Some (job_json h j) else None)"

definition snapshot_body :: "host \<Rightarrow> Snapshot \<Rightarrow> json option" where
  "snapshot_body h s = (if snapshot_encodable s then Some (snapshot_json h s) else None)"

definition jobs_body :: "host \<Rightarrow> Job list \<Rightarrow> json option" where
  "jobs_body h js = (if list_all job_encodable js then Some (if js = [] then JNull else JArr (map (job_json h) js)) else None)"

definition models_body :: "host \<Rightarrow> Model list \<Rightarrow> json option" where
  "models_body h ms = (if list_all model_encodable ms then Some (JArr (map (model_json h) ms)) else None)"

subsection \<open>Requests and responses\<close>

record http_request =
  hr_Host :: bytes
  hr_Header :: "bytes \<Rightarrow> bytes list option"
  hr_Method :: bytes
  hr_Path :: bytes
  hr_RawPath :: bytes
  hr_RawQuery :: bytes
  hr_ContentLength :: int
  hr_TransferEncoding :: "bytes list"
  hr_Body :: bytes
  hr_BodyErr :: bool

record http_response =
  hp_Status :: int
  hp_Header :: "(bytes \<times> bytes) list"
  hp_Body :: bytes

definition header_values :: "http_request \<Rightarrow> bytes \<Rightarrow> bytes list" where
  "header_values r name = (case hr_Header r name of None \<Rightarrow> [] | Some vs \<Rightarrow> vs)"

definition header_get :: "http_request \<Rightarrow> bytes \<Rightarrow> bytes" where
  "header_get r name = (case header_values r name of [] \<Rightarrow> [] | v # _ \<Rightarrow> v)"

definition base_headers :: "(bytes \<times> bytes) list" where
  "base_headers = [(''Cache-Control'', ''no-store''), (''X-Content-Type-Options'', ''nosniff'')]"

definition writeJSON :: "int \<Rightarrow> json option \<Rightarrow> (bytes \<times> bytes) list \<Rightarrow> http_response" where
  "writeJSON status v hs =
     \<lparr>hp_Status = status, hp_Header = hs @ [(''Content-Type'', ''application/json'')], hp_Body = encoded v\<rparr>"

definition status_of :: "Fault \<Rightarrow> int" where
  "status_of f = (case map_of statuses (code_str (ft_Code f)) of None \<Rightarrow> 0 | Some n \<Rightarrow> n)"

definition fail :: "goerr \<Rightarrow> http_response" where
  "fail e = (let f = PublicFault e in writeJSON (status_of f) (Some (fault_json f)) base_headers)"

definition protocol :: "int \<Rightarrow> bytes \<Rightarrow> (bytes \<times> bytes) list \<Rightarrow> http_response" where
  "protocol status message hs = writeJSON status (Some (fault_json (fault ErrInvalidRequest message))) (base_headers @ hs)"

definition code_fault :: "ErrorCode \<Rightarrow> goerr" where
  "code_fault c = FaultErr (fault c [])"

subsection \<open>Authority and origin\<close>

text \<open>\<open>net.SplitHostPort\<close>.\<close>

definition split_host_port :: "bytes \<Rightarrow> (bytes \<times> bytes) option" where
  "split_host_port s =
     (if CHR '':'' \<notin> set s then None
      else let port = rev (takeWhile (\<lambda>c. c \<noteq> CHR '':'') (rev s));
               pre = take (length s - Suc (length port)) s in
        if hd s = CHR ''['' then
          (let host = takeWhile (\<lambda>c. c \<noteq> CHR '']'') (tl s) in
           if pre \<noteq> CHR ''['' # host @ [CHR '']''] \<or> CHR ''['' \<in> set (tl s) \<or> CHR '']'' \<in> set port then None
           else Some (host, port))
        else if CHR '':'' \<in> set pre \<or> CHR ''['' \<in> set s \<or> CHR '']'' \<in> set s then None
        else Some (pre, port))"

definition sameAuthority :: "bytes \<Rightarrow> bytes \<Rightarrow> bool" where
  "sameAuthority authority socketAddress =
     (authority = socketAddress \<or>
      (case split_host_port socketAddress of
         None \<Rightarrow> False
       | Some (_, port) \<Rightarrow> port = ''80'' \<and> authority = trim_suffix socketAddress '':80''))"

definition sameOrigin :: "bytes \<Rightarrow> bytes \<Rightarrow> bool" where
  "sameOrigin origin socketAddress =
     (has_prefix origin ''http://'' \<and> sameAuthority (drop 7 origin) socketAddress)"

subsection \<open>Routing\<close>

record assets =
  as_page :: bytes
  as_style :: bytes
  as_app :: bytes
  as_state :: bytes

definition Asset :: "assets \<Rightarrow> bytes \<Rightarrow> (bytes \<times> bytes) option" where
  "Asset a path =
     (if path = ''/'' then Some (as_page a, ''text/html; charset=utf-8'')
      else if path = ''/app.css'' then Some (as_style a, ''text/css; charset=utf-8'')
      else if path = ''/app.js'' then Some (as_app a, ''text/javascript; charset=utf-8'')
      else if path = ''/state.js'' then Some (as_state a, ''text/javascript; charset=utf-8'')
      else None)"

definition jobID :: "bytes \<Rightarrow> bool" where
  "jobID s = (length s = 32 \<and> list_all hex_lower s)"

definition get_paths :: "bytes list" where
  "get_paths = [''/v1/health'', ''/v1/models'', ''/v1/snapshot'', ''/v1/jobs'', ''/v1/queue'', ''/v1/events'']"

definition post_paths :: "bytes list" where
  "post_paths = [''/v1/submit'', ''/v1/retry'', ''/v1/branch'', ''/v1/queue/pause'', ''/v1/queue/resume'']"

definition job_parts :: "bytes \<Rightarrow> bytes list" where
  "job_parts path = split_at (CHR ''/'') (trim_prefix path ''/v1/jobs/'')"

text \<open>The method a path requires; \<open>None\<close> for an unknown one.\<close>

definition route :: "bytes \<Rightarrow> bytes option" where
  "route path =
     (if path \<in> set get_paths then Some ''GET''
      else if path \<in> set post_paths then Some ''POST''
      else let parts = job_parts path in
        if \<not> has_prefix path ''/v1/jobs/'' \<or> length parts > 2 \<or> \<not> jobID (hd parts) then None
        else if length parts = 2 then
          (if parts ! 1 = ''cancel'' then Some ''POST'' else if parts ! 1 \<noteq> ''result'' then None else Some ''GET'')
        else Some ''GET'')"

text \<open>\<open>url.QueryUnescape\<close> and \<open>url.ParseQuery\<close>; keys keep the order of their values.\<close>

fun query_unescape :: "bytes \<Rightarrow> bytes option" where
  "query_unescape [] = Some []"
| "query_unescape (c # s) =
     (if c = CHR 0x25 then
        (case s of
           x # y # r \<Rightarrow>
             (case (unhex x, unhex y) of
                (Some a, Some b) \<Rightarrow> map_option ((#) (char_of (16 * a + b))) (query_unescape r) | _ \<Rightarrow> None)
         | _ \<Rightarrow> None)
      else map_option ((#) (if c = CHR ''+'' then CHR '' '' else c)) (query_unescape s))"

definition cut_at :: "char \<Rightarrow> bytes \<Rightarrow> bytes \<times> bytes" where
  "cut_at sep s = (takeWhile (\<lambda>c. c \<noteq> sep) s, tl (dropWhile (\<lambda>c. c \<noteq> sep) s))"

definition query_pair :: "bytes \<Rightarrow> (bytes \<times> bytes) option" where
  "query_pair piece =
     (if CHR '';'' \<in> set piece then None
      else case cut_at (CHR ''='') piece of (k, v) \<Rightarrow>
        (case (query_unescape k, query_unescape v) of (Some k', Some v') \<Rightarrow> Some (k', v') | _ \<Rightarrow> None))"

definition parse_query :: "bytes \<Rightarrow> (bytes \<times> bytes) list option" where
  "parse_query q = those (map query_pair (filter (\<lambda>p. p \<noteq> []) (split_at (CHR ''&'') q)))"

subsection \<open>The service and the handler\<close>

text \<open>
  \<open>core.Service\<close> and its streams over a state of type \<open>'w\<close>. The contexts of the calls are part
  of the operations. \<open>sv_Next\<close> returns \<open>None\<close> while the stream waits.
\<close>

record 'w service =
  sv_Submit :: "SubmitCommand \<Rightarrow> 'w \<Rightarrow> 'w \<times> (goerr + Job)"
  sv_Retry :: "RetryCommand \<Rightarrow> 'w \<Rightarrow> 'w \<times> (goerr + Job)"
  sv_Branch :: "BranchCommand \<Rightarrow> 'w \<Rightarrow> 'w \<times> (goerr + Job)"
  sv_Cancel :: "JobID \<Rightarrow> 'w \<Rightarrow> 'w \<times> (goerr + Job)"
  sv_SetQueuePaused :: "bool \<Rightarrow> 'w \<Rightarrow> 'w \<times> (goerr + QueueState)"
  sv_GetJob :: "JobID \<Rightarrow> 'w \<Rightarrow> 'w \<times> (goerr + Job)"
  sv_Snapshot :: "'w \<Rightarrow> 'w \<times> (goerr + Snapshot)"
  sv_Models :: "'w \<Rightarrow> 'w \<times> (goerr + Model list)"
  sv_Watch :: "Cursor \<Rightarrow> 'w \<Rightarrow> 'w \<times> (goerr + nat)"
  sv_Next :: "nat \<Rightarrow> 'w \<Rightarrow> 'w \<times> (goerr + Event) option"
  sv_Close :: "nat \<Rightarrow> 'w \<Rightarrow> 'w"

text \<open>\<open>hd_Media\<close> is \<open>mime.ParseMediaType\<close>; \<open>hd_Busy\<close> is the number of slots in use.\<close>

record handler =
  hd_Host :: bytes
  hd_Assets :: assets
  hd_Media :: "bytes \<Rightarrow> (bytes \<times> (bytes \<times> bytes) list) option"
  hd_Busy :: nat

definition slot_count :: nat where "slot_count = 32"

definition origin_refused :: "handler \<Rightarrow> http_request \<Rightarrow> bool" where
  "origin_refused hh r =
     (case hr_Header r ''Origin'' of
        None \<Rightarrow> False
      | Some [origin] \<Rightarrow> \<not> sameOrigin origin (hd_Host hh)
      | Some _ \<Rightarrow> True)"

definition site_refused :: "http_request \<Rightarrow> bool" where
  "site_refused r =
     (case hr_Header r ''Sec-Fetch-Site'' of
        None \<Rightarrow> False
      | Some [v] \<Rightarrow> v \<noteq> ''same-origin'' \<and> v \<noteq> ''none''
      | Some _ \<Rightarrow> True)"

text \<open>The checks before any routing.\<close>

definition refusal :: "handler \<Rightarrow> http_request \<Rightarrow> http_response option" where
  "refusal hh r =
     (if \<not> sameAuthority (hr_Host r) (hd_Host hh) then Some (protocol 403 ''Host rejected'' [])
      else if origin_refused hh r then Some (protocol 403 ''Origin rejected'' [])
      else if site_refused r then Some (protocol 403 ''cross-site request rejected'' [])
      else if slot_count \<le> hd_Busy hh
      then Some (fail (FaultErr \<lparr>ft_Code = ErrUnavailable, ft_Message = [], ft_Retryable = True, ft_Details = []\<rparr>))
      else if hr_RawPath r \<noteq> [] then Some (protocol 400 ''encoded path rejected'' [])
      else None)"

definition has_body :: "http_request \<Rightarrow> bool" where
  "has_body r = (hr_ContentLength r \<noteq> 0 \<or> hr_TransferEncoding r \<noteq> [])"

definition src :: "bytes \<Rightarrow> bytes \<Rightarrow> bytes" where
  "src name value = name @ '' '' @ [CHR 0x27] @ value @ [CHR 0x27]"

definition asset_headers :: "bytes \<Rightarrow> (bytes \<times> bytes) list" where
  "asset_headers contentType = [(''Content-Type'', contentType),
     (''Content-Security-Policy'', src ''default-src'' ''none'' @ src ''; script-src'' ''self'' @ src ''; style-src'' ''self'' @
        src ''; connect-src'' ''self'' @ src ''; base-uri'' ''none'' @ src ''; frame-ancestors'' ''none'' @
        src ''; form-action'' ''none''),
     (''Referrer-Policy'', ''no-referrer'')]"

definition serve_asset :: "http_request \<Rightarrow> bytes \<Rightarrow> bytes \<Rightarrow> http_response" where
  "serve_asset r body contentType =
     (if hr_Method r \<noteq> ''GET'' then protocol 405 ''method rejected'' [(''Allow'', ''GET'')]
      else if hr_RawQuery r \<noteq> [] \<or> has_body r then protocol 400 ''query or body rejected'' []
      else \<lparr>hp_Status = 200, hp_Header = base_headers @ asset_headers contentType, hp_Body = body\<rparr>)"

definition reply_with :: "('a \<Rightarrow> json option) \<Rightarrow> 'w \<times> (goerr + 'a) \<Rightarrow> 'w \<times> http_response" where
  "reply_with body res =
     (case res of (w, Inl e) \<Rightarrow> (w, fail e) | (w, Inr v) \<Rightarrow> (w, writeJSON 200 (body v) base_headers))"

definition path_job :: "bytes \<Rightarrow> JobID" where
  "path_job path = hd (job_parts path)"

definition serve_get :: "host \<Rightarrow> 'w service \<Rightarrow> http_request \<Rightarrow> 'w \<Rightarrow> 'w \<times> http_response" where
  "serve_get h sv r w =
     (let path = hr_Path r in
      if has_body r then (w, protocol 400 ''body rejected'' [])
      else if path = ''/v1/health'' then
        (w, writeJSON 200 (Some (JObj [(''backend'', JStr ''not_checked''), (''status'', JStr ''serving'')])) base_headers)
      else if path = ''/v1/models'' then reply_with (models_body h) (sv_Models sv w)
      else if path = ''/v1/snapshot'' then reply_with (snapshot_body h) (sv_Snapshot sv w)
      else if path = ''/v1/jobs'' then reply_with (jobs_body h \<circ> sn_Jobs) (sv_Snapshot sv w)
      else if path = ''/v1/queue'' then reply_with (\<lambda>s. Some (queue_json (sn_Queue s))) (sv_Snapshot sv w)
      else reply_with (job_body h) (sv_GetJob sv (path_job path) w))"

definition media_refused :: "handler \<Rightarrow> http_request \<Rightarrow> bool" where
  "media_refused hh r =
     (case hd_Media hh (header_get r ''Content-Type'') of
        None \<Rightarrow> True
      | Some (media, params) \<Rightarrow>
          media \<noteq> ''application/json'' \<or>
          (params \<noteq> [] \<and> (length params \<noteq> 1 \<or>
             lower (case map_of params ''charset'' of None \<Rightarrow> [] | Some v \<Rightarrow> v) \<noteq> ''utf-8'')))"

definition with_command :: "goerr + 'c \<Rightarrow> ('c \<Rightarrow> 'w \<Rightarrow> 'w \<times> http_response) \<Rightarrow> 'w \<Rightarrow> 'w \<times> http_response" where
  "with_command c f w = (case c of Inl e \<Rightarrow> (w, fail e) | Inr cmd \<Rightarrow> f cmd w)"

definition serve_post :: "host \<Rightarrow> handler \<Rightarrow> 'w service \<Rightarrow> http_request \<Rightarrow> 'w \<Rightarrow> 'w \<times> http_response" where
  "serve_post h hh sv r w =
     (let path = hr_Path r; b = hr_Body r in
      if length (header_values r ''Content-Type'') \<noteq> 1 \<or> header_values r ''Content-Encoding'' \<noteq> []
      then (w, protocol 415 ''one application/json Content-Type and no Content-Encoding required'' [])
      else if media_refused hh r then (w, protocol 415 ''application/json required'' [])
      else if hr_BodyErr r \<or> MaxBody < length b then (w, fail (code_fault ErrLimitExceeded))
      else if path = ''/v1/submit'' then with_command (decode_submit h b) (\<lambda>c w. reply_with (job_body h) (sv_Submit sv c w)) w
      else if path = ''/v1/retry'' then with_command (decode_retry b) (\<lambda>c w. reply_with (job_body h) (sv_Retry sv c w)) w
      else if path = ''/v1/branch'' then with_command (decode_branch h b) (\<lambda>c w. reply_with (job_body h) (sv_Branch sv c w)) w
      else with_command (decode_empty b) (\<lambda>_ w.
        if has_prefix path ''/v1/queue/''
        then reply_with (Some \<circ> queue_json) (sv_SetQueuePaused sv (path = ''/v1/queue/pause'') w)
        else reply_with (job_body h) (sv_Cancel sv (path_job path) w)) w)"

subsection \<open>The event stream\<close>

text \<open>
  The connection of a stream: what has been written, and for each write or flush in turn whether
  it succeeds (\<open>None\<close>) or fails after some bytes.
\<close>

record sink =
  sk_out :: bytes
  sk_fail :: "nat \<Rightarrow> nat option"
  sk_ops :: nat

definition sink_put :: "bytes \<Rightarrow> sink \<Rightarrow> sink \<times> bool" where
  "sink_put b sk =
     (case sk_fail sk (sk_ops sk) of
        None \<Rightarrow> (sk\<lparr>sk_out := sk_out sk @ b, sk_ops := Suc (sk_ops sk)\<rparr>, True)
      | Some k \<Rightarrow> (sk\<lparr>sk_out := sk_out sk @ take k b, sk_ops := Suc (sk_ops sk)\<rparr>, False))"

fun sink_puts :: "bytes list \<Rightarrow> sink \<Rightarrow> sink \<times> bool" where
  "sink_puts [] sk = (sk, True)"
| "sink_puts (b # bs) sk = (case sink_put b sk of (sk1, False) \<Rightarrow> (sk1, False) | (sk1, True) \<Rightarrow> sink_puts bs sk1)"

text \<open>A flush is a write of nothing.\<close>

definition send :: "bytes \<Rightarrow> bytes \<Rightarrow> json option \<Rightarrow> sink \<Rightarrow> sink \<times> bool" where
  "send kind i v sk =
     (case sink_puts ((if i = [] then [] else [''id: '' @ i @ [newline]]) @
              [''event: '' @ kind @ [newline] @ ''data: '']) sk of
        (sk1, False) \<Rightarrow> (sk1, False)
      | (sk1, True) \<Rightarrow>
          (case v of None \<Rightarrow> (sk1, False) | Some j \<Rightarrow> sink_puts [json_text j @ [newline], [newline], []] sk1))"

definition event_body :: "host \<Rightarrow> Event \<Rightarrow> json option" where
  "event_body h e = (if event_encodable e then Some (event_json h e) else None)"

text \<open>What the handler does with one result of \<open>stream.Next\<close>; the flag says whether it goes on.\<close>

definition deliver :: "host \<Rightarrow> goerr option \<Rightarrow> goerr + Event \<Rightarrow> sink \<Rightarrow> sink \<times> bool" where
  "deliver h ctx res sk =
     (case res of
        Inl e \<Rightarrow>
          if errors_is e DeadlineExceeded \<and> ctx = None
          then sink_puts ['': heartbeat'' @ [newline, newline], []] sk
          else if e \<noteq> EOF \<and> ctx = None
          then (fst (send ''error'' [] (Some (fault_json (PublicFault e))) sk), False)
          else (sk, False)
      | Inr ev \<Rightarrow> send ''event'' (CursorID (ev_Cursor ev)) (event_body h ev) sk)"

fun deliver_all :: "host \<Rightarrow> (goerr option \<times> (goerr + Event)) list \<Rightarrow> sink \<Rightarrow> sink \<times> bool" where
  "deliver_all h [] sk = (sk, True)"
| "deliver_all h ((ctx, res) # rs) sk =
     (case deliver h ctx res sk of (sk1, False) \<Rightarrow> (sk1, False) | (sk1, True) \<Rightarrow> deliver_all h rs sk1)"

text \<open>One turn of the loop on the service, and the end of the handler.\<close>

definition stream_turn :: "host \<Rightarrow> 'w service \<Rightarrow> nat \<Rightarrow> goerr option \<Rightarrow> 'w \<times> sink \<Rightarrow> ('w \<times> sink) \<times> bool" where
  "stream_turn h sv k ctx c =
     (case sv_Next sv k (fst c) of
        (w, None) \<Rightarrow> ((w, snd c), True)
      | (w, Some res) \<Rightarrow>
          (case deliver h ctx res (snd c) of (sk, go) \<Rightarrow> ((if go then w else sv_Close sv k w, sk), go)))"

text \<open>
  The cursor a request resumes from: \<open>Inl\<close> an error response, \<open>Inr None\<close> to start with a
  snapshot, \<open>Inr (Some raw)\<close> a cursor text.
\<close>

definition resume_point :: "http_request \<Rightarrow> (bytes \<times> bytes) list \<Rightarrow> http_response + bytes option" where
  "resume_point r q =
     (let after = map snd (filter (\<lambda>kv. fst kv = ''after'') q); headers = header_values r ''Last-Event-ID'' in
      if has_body r \<or> 1 < card (set (map fst q)) \<or> (card (set (map fst q)) = 1 \<and> length after \<noteq> 1)
      then Inl (protocol 400 ''event query or body rejected'' [])
      else if 1 < length headers then Inl (fail (code_fault ErrCursorInvalid))
      else if headers \<noteq> [] \<and> after \<noteq> [] \<and> hd after \<noteq> hd headers then Inl (fail (code_fault ErrCursorInvalid))
      else if after = [] \<and> headers = [] then Inr None
      else (let raw = (if headers \<noteq> [] then hd headers else hd after) in
        if raw = [] then Inl (fail (code_fault ErrCursorInvalid)) else Inr (Some raw)))"

datatype http_outcome = HttpReply http_response | HttpStream nat sink bool

definition fresh_sink :: "(nat \<Rightarrow> nat option) \<Rightarrow> sink" where
  "fresh_sink sf = \<lparr>sk_out = [], sk_fail = sf, sk_ops = 0\<rparr>"

text \<open>\<open>events\<close> up to its loop: a reply, or the open stream and whether the first write went out.\<close>

definition open_stream :: "'w service \<Rightarrow> Cursor \<Rightarrow> (sink \<times> bool) \<Rightarrow> 'w \<Rightarrow> 'w \<times> http_outcome" where
  "open_stream sv cur first w =
     (case sv_Watch sv cur w of
        (w1, Inl e) \<Rightarrow> (w1, HttpReply (fail e))
      | (w1, Inr k) \<Rightarrow> (if snd first then w1 else sv_Close sv k w1, HttpStream k (fst first) (snd first)))"

definition events :: "host \<Rightarrow> 'w service \<Rightarrow> (nat \<Rightarrow> nat option) \<Rightarrow> http_request \<Rightarrow> (bytes \<times> bytes) list \<Rightarrow> 'w \<Rightarrow> 'w \<times> http_outcome" where
  "events h sv sf r q w =
     (case resume_point r q of
        Inl resp \<Rightarrow> (w, HttpReply resp)
      | Inr None \<Rightarrow>
          (case sv_Snapshot sv w of
             (w1, Inl e) \<Rightarrow> (w1, HttpReply (fail e))
           | (w1, Inr s) \<Rightarrow>
               open_stream sv (sn_Cursor s)
                 (send ''snapshot'' (CursorID (sn_Cursor s)) (snapshot_body h s) (fresh_sink sf)) w1)
      | Inr (Some raw) \<Rightarrow>
          (case ParseCursor raw of
             Inl e \<Rightarrow> (w, HttpReply (fail e))
           | Inr cur \<Rightarrow>
               open_stream sv cur (sink_puts ['': connected'' @ [newline, newline], []] (fresh_sink sf)) w))"

subsection \<open>Requests\<close>

definition ServeHTTP ::
  "host \<Rightarrow> handler \<Rightarrow> 'w service \<Rightarrow> (nat \<Rightarrow> nat option) \<Rightarrow> http_request \<Rightarrow> 'w \<Rightarrow> 'w \<times> http_outcome" where
  "ServeHTTP h hh sv sf r w =
     (case refusal hh r of
        Some resp \<Rightarrow> (w, HttpReply resp)
      | None \<Rightarrow>
      (case Asset (hd_Assets hh) (hr_Path r) of
        Some (body, contentType) \<Rightarrow> (w, HttpReply (serve_asset r body contentType))
      | None \<Rightarrow>
      (case route (hr_Path r) of
        None \<Rightarrow> (w, HttpReply (fail (code_fault ErrNotFound)))
      | Some method \<Rightarrow>
          if hr_Method r \<noteq> method then (w, HttpReply (protocol 405 ''method rejected'' [(''Allow'', method)]))
          else (case parse_query (hr_RawQuery r) of
              None \<Rightarrow> (w, HttpReply (protocol 400 ''query rejected'' []))
            | Some q \<Rightarrow>
                if hr_Path r = ''/v1/events'' then events h sv sf r q w
                else if q \<noteq> [] then (w, HttpReply (protocol 400 ''query rejected'' []))
                else apsnd HttpReply (if method = ''GET'' then serve_get h sv r w else serve_post h hh sv r w)))))"

end
