(* ===== verification/Http_Service.thy ===== *)
theory Http_Service
  imports Http_Server Runtime
begin

text \<open>
  The HTTP handler on the worker: the worker's operations as a \<open>core.Service\<close>, the contract a
  handler needs from its service to keep a property of the state, and what requests can do.
\<close>

subsection \<open>The worker as a service (\<open>worker.go\<close>)\<close>

definition GetJob :: "call_ctx \<Rightarrow> JobID \<Rightarrow> 'st Worker \<Rightarrow> 'st Worker \<times> (goerr + Job)" where
  "GetJob cc i = call cc (\<lambda>ctx w. (w, getJob ctx i w))"

definition Snapshot_call :: "call_ctx \<Rightarrow> 'st Worker \<Rightarrow> 'st Worker \<times> (goerr + Snapshot)" where
  "Snapshot_call cc = call cc (\<lambda>ctx w. (w, snapshot ctx w))"

text \<open>\<open>models_answer\<close> is what the backend answers.\<close>

definition Models_call :: "call_ctx \<Rightarrow> goerr + Model list \<Rightarrow> 'st Worker \<Rightarrow> 'st Worker \<times> (goerr + Model list)" where
  "Models_call cc models_answer = call cc (\<lambda>_ w. (w, models models_answer))"

definition worker_service ::
  "host \<Rightarrow> 'st store_ops \<Rightarrow> call_ctx \<Rightarrow> next_ctx \<Rightarrow> goerr + Model list \<Rightarrow> 'st Worker service" where
  "worker_service h ops cc nc models_answer =
     \<lparr>sv_Submit = Submit h ops cc, sv_Retry = Retry h ops cc, sv_Branch = Branch h ops cc, sv_Cancel = Cancel h ops cc,
      sv_SetQueuePaused = SetQueuePaused h ops cc, sv_GetJob = GetJob cc, sv_Snapshot = Snapshot_call cc,
      sv_Models = Models_call cc models_answer, sv_Watch = Watch cc, sv_Next = Next ops nc, sv_Close = Close\<rparr>"

subsection \<open>A service that keeps a property\<close>

definition live_outcome :: "(nat \<Rightarrow> 'w \<Rightarrow> bool) \<Rightarrow> 'w \<Rightarrow> http_outcome \<Rightarrow> bool" where
  "live_outcome H w out = (case out of HttpReply _ \<Rightarrow> True | HttpStream k _ go \<Rightarrow> go \<longrightarrow> H k w)"

text \<open>\<open>P\<close> is the property of the state, \<open>H k\<close> says that \<open>k\<close> is the handle of an open stream.\<close>

locale keeping_service =
  fixes sv :: "'w service" and P :: "'w \<Rightarrow> bool" and H :: "nat \<Rightarrow> 'w \<Rightarrow> bool"
  assumes submit: "P w \<Longrightarrow> P (fst (sv_Submit sv sc w))"
    and retry: "P w \<Longrightarrow> P (fst (sv_Retry sv rt w))"
    and branch: "P w \<Longrightarrow> P (fst (sv_Branch sv bc w))"
    and cancel: "P w \<Longrightarrow> P (fst (sv_Cancel sv i w))"
    and pause: "P w \<Longrightarrow> P (fst (sv_SetQueuePaused sv b w))"
    and get: "P w \<Longrightarrow> P (fst (sv_GetJob sv i w))"
    and snapshots: "P w \<Longrightarrow> P (fst (sv_Snapshot sv w))"
    and model_list: "P w \<Longrightarrow> P (fst (sv_Models sv w))"
    and watched: "P w \<Longrightarrow> sv_Watch sv cur w = (w', res) \<Longrightarrow> P w' \<and> (case res of Inl _ \<Rightarrow> True | Inr k \<Rightarrow> H k w')"
    and next_event: "P w \<Longrightarrow> H k w \<Longrightarrow> sv_Next sv k w = (w', ev) \<Longrightarrow> P w' \<and> H k w'"
    and closed: "P w \<Longrightarrow> H k w \<Longrightarrow> P (sv_Close sv k w)"
begin

lemma answered: "P (fst res) \<Longrightarrow> P (fst (reply_with body res))"
  by (auto simp: reply_with_def split: prod.split sum.split)

lemma commanded: "P w \<Longrightarrow> (\<And>c. P (fst (f c w))) \<Longrightarrow> P (fst (with_command c f w))"
  by (simp add: with_command_def split: sum.split)

lemma get_keeps: "P w \<Longrightarrow> P (fst (serve_get h sv r w))"
  unfolding serve_get_def Let_def
  by (simp add: answered get snapshots model_list)

lemma post_keeps: "P w \<Longrightarrow> P (fst (serve_post h hh sv r w))"
  unfolding serve_post_def Let_def
  by (simp add: answered commanded submit retry branch cancel pause)

lemma open_keeps:
  assumes "P w" and "open_stream sv cur first w = (w', out)"
  shows "P w' \<and> live_outcome H w' out"
proof (cases "sv_Watch sv cur w")
  case (Pair w1 res)
  note watched [OF assms(1) Pair]
  then show ?thesis using assms(2) Pair closed
    by (cases res; cases "snd first") (auto simp: open_stream_def live_outcome_def)
qed

lemma events_keeps:
  assumes "P w" and "events h sv sf r q w = (w', out)"
  shows "P w' \<and> live_outcome H w' out"
proof (cases "resume_point r q")
  case (Inr p)
  show ?thesis
  proof (cases p)
    case None
    obtain w1 res where s: "sv_Snapshot sv w = (w1, res)" by fastforce
    then have "P w1" using snapshots [OF assms(1)] by simp
    then show ?thesis using assms(2) Inr None s open_keeps [of w1]
      by (cases res) (auto simp: events_def live_outcome_def)
  next
    case (Some raw)
    then show ?thesis using assms Inr open_keeps [OF assms(1)]
      by (cases "ParseCursor raw") (auto simp: events_def live_outcome_def)
  qed
qed (use assms in \<open>auto simp: events_def live_outcome_def\<close>)

text \<open>A request keeps the property, and the handle of a stream it leaves open is valid.\<close>

lemma ServeHTTP_keeps:
  assumes "P w" and "ServeHTTP h hh sv sf r w = (w', out)"
  shows "P w' \<and> live_outcome H w' out"
proof -
  have "P (fst (serve_get h sv r w))" "P (fst (serve_post h hh sv r w))"
    using assms(1) by (rule get_keeps, rule post_keeps)
  moreover have "P w2" if "P (fst p)" "apsnd HttpReply p = (w2, out')" for p w2 out'
    using that by (cases p) simp
  moreover have "live_outcome H w2 out'" if "apsnd HttpReply p = (w2, out')" for p w2 out'
    using that by (cases p) (auto simp: live_outcome_def)
  ultimately show ?thesis
    using assms events_keeps [OF assms(1)]
    by (simp add: ServeHTTP_def split: option.splits if_splits prod.splits)
      (auto simp: live_outcome_def)
qed

lemma turn_keeps:
  assumes "P w" and "H k w" and "stream_turn h sv k ctx (w, sk) = ((w', sk'), go)"
  shows "P w' \<and> (go \<longrightarrow> H k w')"
  using assms next_event [OF assms(1,2)] closed
  by (fastforce simp: stream_turn_def split: prod.splits option.splits if_splits)

end

subsection \<open>The running worker keeps serving\<close>

lemma finish_observers_length: "length (fold (\<lambda>i ss. ss[i := finish err (ss ! i)]) is ss) = length ss"
  by (induction "is" arbitrary: ss) simp_all

lemma poison_length: "length (w_streams (poison_unless_stopping e w)) = length (w_streams w)"
  by (simp add: poison_unless_stopping_def poison_def finish_observers_def finish_observers_length Let_def)

lemma Next_length: "Next ops nc k w = (w', ev) \<Longrightarrow> length (w_streams w') = length (w_streams w)"
  by (auto simp: Next_def Next_replay_def Let_def poison_length split: option.splits if_splits list.splits prod.splits sum.splits)

lemma Watch_handle: "Watch cc cur w = (w', Inr k) \<Longrightarrow> k < length (w_streams w')"
  by (auto simp: Watch_def call_def watch_def split: option.splits if_splits prod.splits)

lemmas call_reads = GetJob_def Snapshot_call_def Models_call_def call_def

lemma read_calls:
  "fst (GetJob cc i w) = w" "fst (Snapshot_call cc w) = w" "fst (Models_call cc ms w) = w"
  by (auto simp: call_reads split: option.split)

sublocale runtime \<subseteq> http: keeping_service "worker_service h (journal_ops h) cc nc models_answer" "running h"
  "\<lambda>k w. k < length (w_streams w)" for cc nc models_answer
proof
  fix w sc rt bc i b cur k w' ev res
  assume w: "running h w"
  let ?sv = "worker_service h (journal_ops h) cc nc models_answer"
  note run = running_step [OF w]
  show "running h (fst (sv_Submit ?sv sc w))" by (simp add: worker_service_def run [OF submits [OF prod.collapse [symmetric]]])
  show "running h (fst (sv_Retry ?sv rt w))" by (simp add: worker_service_def run [OF retries [OF prod.collapse [symmetric]]])
  show "running h (fst (sv_Branch ?sv bc w))" by (simp add: worker_service_def run [OF branches [OF prod.collapse [symmetric]]])
  show "running h (fst (sv_Cancel ?sv i w))" by (simp add: worker_service_def run [OF cancels [OF prod.collapse [symmetric]]])
  show "running h (fst (sv_SetQueuePaused ?sv b w))" by (simp add: worker_service_def run [OF pauses [OF prod.collapse [symmetric]]])
  show "running h (fst (sv_GetJob ?sv i w))" "running h (fst (sv_Snapshot ?sv w))" "running h (fst (sv_Models ?sv w))"
    using w by (simp_all add: worker_service_def read_calls)
  show "running h w' \<and> (case res of Inl _ \<Rightarrow> True | Inr k \<Rightarrow> k < length (w_streams w'))"
    if "sv_Watch ?sv cur w = (w', res)"
  proof -
    have "Watch cc cur w = (w', res)" using that by (simp add: worker_service_def)
    then show ?thesis using run [OF watches] Watch_handle by (auto split: sum.split)
  qed
  show "running h w' \<and> k < length (w_streams w')"
    if "k < length (w_streams w)" "sv_Next ?sv k w = (w', ev)"
  proof -
    have "Next (journal_ops h) nc k w = (w', ev)" using that by (simp add: worker_service_def)
    then show ?thesis using run [OF reads [OF that(1)]] Next_length that(1) by metis
  qed
  show "running h (sv_Close ?sv k w)" if "k < length (w_streams w)"
    using run [OF closes [OF that]] by (simp add: worker_service_def)
qed

context runtime
begin

lemmas running_request = http.ServeHTTP_keeps
lemmas running_turn = http.turn_keeps

end

text \<open>
  No HTTP request takes the worker out of its transition system: whatever a client sends, with whatever contexts,
  backend answers and connection failures, a running worker is a running worker afterwards, with
  every invariant of the preceding properties; the same holds for each turn of an event stream the
  request has opened, whose handle stays valid until the handler closes it.
\<close>

lemma http_keeps_worker:
  assumes "host_ok h" and "host_text_ok h" and "running h w"
    and "ServeHTTP h hh (worker_service h (journal_ops h) cc nc models_answer) sf r w = (w1, out)"
  shows "running h w1 \<and>
    (case out of
       HttpReply _ \<Rightarrow> True
     | HttpStream k sk go \<Rightarrow>
         go \<longrightarrow> running h (fst (fst (stream_turn h (worker_service h (journal_ops h) cc' nc' models_answer) k ctx (w1, sk)))))"
proof -
  note r = runtime.running_request [OF runtimeI [OF assms(1,2)] assms(3,4)]
  then have w1: "running h w1" by simp
  have "running h (fst (fst (stream_turn h (worker_service h (journal_ops h) cc' nc' models_answer) k ctx (w1, sk))))"
    if "k < length (w_streams w1)" for k sk
    using runtime.running_turn [OF runtimeI [OF assms(1,2)] w1 that]
    by (cases "stream_turn h (worker_service h (journal_ops h) cc' nc' models_answer) k ctx (w1, sk)") auto
  with r show ?thesis by (auto simp: live_outcome_def split: http_outcome.split)
qed

subsection \<open>What reaches the worker\<close>

definition untouched :: "'st Worker \<Rightarrow> 'st Worker \<Rightarrow> bool" where
  "untouched w w' =
     (w_state w' = w_state w \<and> w_store w' = w_store w \<and> w_receipts w' = w_receipts w \<and> w_gens w' = w_gens w \<and>
      w_cancel w' = w_cancel w \<and> w_ctxdone w' = w_ctxdone w \<and> w_fatal w' = w_fatal w \<and> w_stopping w' = w_stopping w)"

lemma untouched_refl [simp]: "untouched w w"
  by (simp add: untouched_def)

lemma reply_fst: "fst (reply_with body res) = fst res"
  by (auto simp: reply_with_def split: prod.split sum.split)

lemma get_reads: "fst (serve_get h (worker_service h ops cc nc ms) r w) = w"
  unfolding serve_get_def Let_def by (simp add: reply_fst worker_service_def read_calls)

lemma watch_untouched: "untouched w (fst (Watch cc cur w))"
  by (auto simp: untouched_def Watch_def call_def watch_def Let_def split: option.split)

lemma close_untouched: "untouched w w' \<Longrightarrow> untouched w (Close k w')"
  by (simp add: untouched_def Close_def)

lemma open_untouched: "untouched w (fst (open_stream (worker_service h ops cc nc ms) cur first w))"
  using watch_untouched [of w cc cur] close_untouched
  by (cases "Watch cc cur w") (auto simp: open_stream_def worker_service_def split: sum.split)

lemma events_untouched: "untouched w (fst (events h (worker_service h ops cc nc ms) sf r q w))"
proof -
  have s: "sv_Snapshot (worker_service h ops cc nc ms) w = (w, snd (Snapshot_call cc w))"
    using read_calls(2) [of cc w] by (cases "Snapshot_call cc w") (simp add: worker_service_def)
  show ?thesis
    by (simp add: events_def s open_untouched split: sum.split option.split)
qed

definition command_read :: "host \<Rightarrow> bytes \<Rightarrow> bool" where
  "command_read h b = (is_ok (decode_submit h b) \<or> is_ok (decode_retry b) \<or> is_ok (decode_branch h b) \<or> is_ok (decode_empty b))"

lemma command_fst: "fst (with_command c f w) = (case c of Inl _ \<Rightarrow> w | Inr x \<Rightarrow> fst (f x w))"
  by (simp add: with_command_def split: sum.split)

lemma post_checked:
  "fst (serve_post h hh sv r w) = w \<or>
     (length (header_values r ''Content-Type'') = 1 \<and> \<not> media_refused hh r \<and> \<not> hr_BodyErr r \<and>
      length (hr_Body r) \<le> MaxBody \<and> command_read h (hr_Body r))"
proof (cases "length (header_values r ''Content-Type'') = 1 \<and> \<not> media_refused hh r \<and> \<not> hr_BodyErr r \<and> length (hr_Body r) \<le> MaxBody")
  case True
  show ?thesis
  proof (cases "command_read h (hr_Body r)")
    case False
    then obtain e1 e2 e3 e4 where "decode_submit h (hr_Body r) = Inl e1" "decode_retry (hr_Body r) = Inl e2"
      "decode_branch h (hr_Body r) = Inl e3" "decode_empty (hr_Body r) = Inl e4"
      unfolding command_read_def is_ok_def by (auto split: sum.splits)
    then have "fst (serve_post h hh sv r w) = w"
      unfolding serve_post_def Let_def by (simp add: command_fst)
    then show ?thesis ..
  qed (use True in blast)
next
  case False
  then have "fst (serve_post h hh sv r w) = w" unfolding serve_post_def Let_def by auto
  then show ?thesis ..
qed

text \<open>
  C38. Only a trusted command changes anything. A request leaves the jobs, the queue, the
  receipts, the store and the running inference as they are unless it addresses the server's own
  authority, comes from its own origin and no other site, asks with POST for a path that takes
  POST, and carries one JSON content type and a bounded body that is a well-formed command: so a
  page of another site can neither submit, cancel nor pause.
\<close>

theorem http_trusted_commands:
  "case ServeHTTP h hh (worker_service h ops cc nc models_answer) sf r w of (w', out) \<Rightarrow>
     untouched w w' \<or>
     (sameAuthority (hr_Host r) (hd_Host hh) \<and> \<not> origin_refused hh r \<and> \<not> site_refused r \<and>
      hr_Method r = ''POST'' \<and> route (hr_Path r) = Some ''POST'' \<and>
      length (header_values r ''Content-Type'') = 1 \<and> \<not> media_refused hh r \<and>
      length (hr_Body r) \<le> MaxBody \<and> command_read h (hr_Body r))"
proof -
  let ?sv = "worker_service h ops cc nc models_answer"
  show ?thesis
  proof (cases "refusal hh r = None \<and> Asset (hd_Assets hh) (hr_Path r) = None \<and> route (hr_Path r) = Some ''POST'' \<and> hr_Method r = ''POST''")
    case True
    then have t: "sameAuthority (hr_Host r) (hd_Host hh) \<and> \<not> origin_refused hh r \<and> \<not> site_refused r"
      by (auto simp: refusal_def split: if_splits)
    have "hr_Path r \<noteq> ''/v1/events''" using True by (auto simp: route_def get_paths_def)
    then have "fst (ServeHTTP h hh ?sv sf r w) \<in> {w, fst (serve_post h hh ?sv r w)}"
      using True by (auto simp: ServeHTTP_def split: option.splits)
    then show ?thesis using post_checked [of h hh ?sv r w] True t by (auto split: prod.split)
  next
    case False
    have "untouched w (fst (ServeHTTP h hh ?sv sf r w))"
    proof (cases "refusal hh r = None \<and> Asset (hd_Assets hh) (hr_Path r) = None \<and> route (hr_Path r) = Some (hr_Method r)")
      case m: True
      have "hr_Method r = ''GET''"
        using False m by (auto simp: route_def Let_def split: if_splits)
      then show ?thesis
        using m by (auto simp: ServeHTTP_def events_untouched get_reads split: option.split)
    qed (auto simp: ServeHTTP_def split: option.split prod.split)
    then show ?thesis by (auto split: prod.split)
  qed
qed

end
