(* ===== verification/Http_Commands.thy ===== *)
theory Http_Commands
  imports Http_Codec
begin

text \<open>
  The commands as a client sends them (\<open>json.Marshal\<close> in \<open>(*Client).Call\<close>) and what the strict
  decoder makes of them: every command within the limits reaches the service unchanged.
\<close>

subsection \<open>Escapes\<close>

definition skips_literal :: "bytes \<Rightarrow> bool" where
  "skips_literal p = (\<forall>r. valid_literal (p @ r) = valid_literal r)"

definition skips :: "bytes \<Rightarrow> bool" where
  "skips p = (\<forall>r. validEscapes (p @ r) = validEscapes r)"

lemma skips_literal_high: "list_all (\<lambda>c. 0x80 \<le> byte c) p \<Longrightarrow> skips_literal p"
proof (induction p)
  case (Cons c p)
  then have "c \<noteq> CHR 0x22" "c \<noteq> CHR 0x5C" by auto
  then show ?case using Cons by (simp add: skips_literal_def)
qed (simp add: skips_literal_def)

interpretation literals: escaped_text skips_literal
proof
  show "skips_literal (take n s)" if "rune_len s = Some n" "n \<noteq> 1" for s n
    using skips_literal_high [OF rune_len_high [OF that]] .
  show "skips_literal [CHR 0x5C, CHR ''u'', w, x, y, z]"
    if "is_hex w" "is_hex x" "is_hex y" "is_hex z" "\<not> surrogate (hex_val [w, x, y, z])" for w x y z
    using that by (auto simp: skips_literal_def surrogate_def Let_def)
qed (auto simp: skips_literal_def)

lemma skips_Nil: "skips []" and skips_append: "skips p \<Longrightarrow> skips q \<Longrightarrow> skips (p @ q)"
  and skips_Cons: "c \<noteq> CHR 0x22 \<Longrightarrow> skips p \<Longrightarrow> skips (c # p)"
  by (simp_all add: skips_def)

lemma skips_plain: "CHR 0x22 \<notin> set p \<Longrightarrow> skips p"
  by (induction p) (auto intro: skips_Nil skips_Cons)

lemma skips_string: "skips (json_string s)"
  using literals.escaped [of s] by (simp add: skips_def skips_literal_def json_string_def)

lemma skips_commas: "list_all skips xs \<Longrightarrow> skips (commas xs)"
  by (induction xs rule: commas.induct) (auto intro!: skips_Nil skips_append skips_Cons)

lemma skips_text: "json_ok v \<Longrightarrow> skips (json_text v)"
proof (induction v)
  case (JNum t)
  have "\<not> num_char (CHR 0x22)" by (simp add: num_char_def)
  with JNum have "CHR 0x22 \<notin> set t" by (auto simp: num_token_def list_all_iff)
  then show ?case by (simp add: skips_plain)
next
  case (JArr vs)
  then have "list_all skips (map json_text vs)" by (auto simp: list_all_iff)
  then show ?case by (auto intro!: skips_Cons skips_append skips_commas skips_Nil)
next
  case (JObj fs)
  then have "list_all skips (map (\<lambda>kv. json_string (fst kv) @ CHR '':'' # json_text (snd kv)) fs)"
    by (fastforce simp: list_all_iff intro!: skips_append skips_string skips_Cons)
  then show ?case by (auto intro!: skips_Cons skips_append skips_commas skips_Nil)
qed (auto intro: skips_plain skips_string)

lemma validEscapes_text: "json_ok v \<Longrightarrow> validEscapes (json_text v)"
  using skips_text [of v] by (simp add: skips_def) (metis append_Nil2 validEscapes.simps(1))

subsection \<open>Decoding a marshalled value\<close>

lemma decode_marshalled:
  assumes "json_ok v" "go_ok v" "raw_depth (raw_of v) \<le> maxNestingDepth" "length (json_text v) \<le> MaxBody"
    and "shape 0 t (raw_of v)" and "into v zero = Some c"
  shows "DecodeCommand t into zero (json_text v) = Inr c"
  using assms parse_go_text [OF assms(2,3)] utf8_text.json_text [OF assms(1)] validEscapes_text [OF assms(1)]
  by (simp add: DecodeCommand_def json_valid_def cook_of)

subsection \<open>The commands of a client\<close>

definition submit_json :: "host \<Rightarrow> SubmitCommand \<Rightarrow> json" where
  "submit_json h c = JObj ([(''idempotency_key'', JStr (sc_Key c))] @ str_field ''origin'' (sc_Origin c) @
     [(''request'', request_json h (sc_Request c))])"

definition retry_json :: "RetryCommand \<Rightarrow> json" where
  "retry_json c = JObj ([(''idempotency_key'', JStr (rt_Key c))] @ str_field ''origin'' (rt_Origin c) @
     [(''parent_id'', JStr (rt_ParentID c))])"

definition branch_json :: "host \<Rightarrow> BranchCommand \<Rightarrow> json" where
  "branch_json h c = JObj ([(''idempotency_key'', JStr (bc_Key c))] @ str_field ''origin'' (bc_Origin c) @
     [(''parent_id'', JStr (bc_ParentID c)), (''request'', request_json h (bc_Request c))])"

text \<open>What Go values are besides: 64-bit integers, and floats whose text is a JSON number.\<close>

definition int64 :: "int \<Rightarrow> bool" where
  "int64 i = (- (2 ^ 63) \<le> i \<and> i < 2 ^ 63)"

definition number_texts :: "host \<Rightarrow> bool" where
  "number_texts h = (\<forall>x. \<not> f64_special x \<longrightarrow> num_ok (h_float h x))"

definition request_sendable :: "Request \<Rightarrow> bool" where
  "request_sendable r =
     (request_canon r \<and> opt_all int64 (op_ContextTokens (rq_Options r)) \<and> int64 (op_MaxOutputTokens (rq_Options r)) \<and>
      opt_all int64 (op_Seed (rq_Options r)))"

lemma into_int_JInt [simp]: "int64 i \<Longrightarrow> into_int (JInt i) old = Some i"
proof -
  assume i: "int64 i"
  have "hd (dec_nat n) \<noteq> CHR ''-''" for n
    using dec_nat_is_digit [of n] dec_nat_nonempty [of n] by (cases "dec_nat n") (auto simp: is_digit_def)
  then show ?thesis
    using i dec_nat_is_digit by (auto simp: into_int_def dec_int_def int64_def Let_def)
qed

lemma key_read: "list_all (\<lambda>c. byte c < 0x80) k \<Longrightarrow> unquote (escape k) = k"
  by (simp add: unquote_escape to_valid_id valid_utf8_ascii)

lemma float_into: "host_text_ok h \<Longrightarrow> \<not> f64_special x \<Longrightarrow> into_float h (JNum (h_float h x)) old = Some x"
  by (simp add: host_text_ok_def into_float_def)

lemmas into_simps = into_struct_def field_named_def slot_def into_string_def into_pointer_def str_field_def

lemma options_into:
  assumes "host_text_ok h" and "options_encodable o'"
    and "opt_all int64 (op_ContextTokens o')" "int64 (op_MaxOutputTokens o')" "opt_all int64 (op_Seed o')"
  shows "into_options h (options_json h o') (rq_Options zero_Request) = Some o'"
  using assms
  by (cases o'; cases "op_ContextTokens o'"; cases "op_Temperature o'"; cases "op_Seed o'")
    (auto simp: into_options_def options_json_def into_simps zero_Request_def float_into options_encodable_def
      float_json_def)

lemma request_into:
  assumes "host_text_ok h" and "request_sendable r"
  shows "into_request h (request_json h r) zero_Request = Some r"
proof -
  have "into_options h (options_json h (rq_Options r)) (rq_Options zero_Request) = Some (rq_Options r)"
    using assms by (intro options_into) (auto simp: request_sendable_def request_canon_def)
  then show ?thesis
    by (cases r) (simp add: into_request_def request_json_def into_simps zero_Request_def)
qed

lemma submit_into:
  assumes "host_text_ok h" and "request_sendable (sc_Request c)"
  shows "into_submit h (submit_json h c) zero_submit = Some c"
  using request_into [OF assms]
  by (cases c) (simp add: into_submit_def submit_json_def into_simps zero_submit_def)

lemma retry_into: "into_retry (retry_json c) zero_retry = Some c"
  by (cases c) (simp add: into_retry_def retry_json_def into_simps zero_retry_def)

lemma branch_into:
  assumes "host_text_ok h" and "request_sendable (bc_Request c)"
  shows "into_branch h (branch_json h c) zero_branch = Some c"
  using request_into [OF assms]
  by (cases c) (simp add: into_branch_def branch_json_def into_simps zero_branch_def)

subsection \<open>Their shapes\<close>

lemma shape_leaf: "d \<le> 16 \<Longrightarrow> shape d Leaf (raw_of (JStr s))" "d \<le> 16 \<Longrightarrow> shape d Leaf (raw_of (JNum t))"
  by simp_all

lemma shape_float: "d \<le> 16 \<Longrightarrow> shape d Leaf (raw_of (float_json h x))"
  by (simp add: float_json_def)

lemmas shape_simps = str_field_def opt_field_def key_read float_json_def

lemma options_shape: "d \<le> 16 \<Longrightarrow> d + 1 \<le> 16 \<Longrightarrow> shape d options_type (raw_of (options_json h o'))"
  by (simp add: options_type_def options_json_def shape_simps split: option.split)

lemma request_shape: "d \<le> 14 \<Longrightarrow> shape d request_type (raw_of (request_json h r))"
  using options_shape [of "Suc d" h "rq_Options r"]
  by (simp add: request_type_def request_json_def shape_simps)

lemma submit_shape: "shape 0 submit_type (raw_of (submit_json h c))"
  using request_shape [of 1] by (simp add: submit_type_def submit_json_def shape_simps)

lemma retry_shape: "shape 0 retry_type (raw_of (retry_json c))"
  by (simp add: retry_type_def retry_json_def shape_simps)

lemma branch_shape: "shape 0 branch_type (raw_of (branch_json h c))"
  using request_shape [of 1] by (simp add: branch_type_def branch_json_def shape_simps)

subsection \<open>Their texts\<close>

lemma go_ok_fields:
  "list_all (\<lambda>kv. valid_utf8 (fst kv) \<and> go_ok (snd kv)) (opt_field k f p) =
    (case p of None \<Rightarrow> True | Some x \<Rightarrow> valid_utf8 k \<and> go_ok (f x))"
  "valid_utf8 s \<Longrightarrow> valid_utf8 k \<Longrightarrow> list_all (\<lambda>kv. valid_utf8 (fst kv) \<and> go_ok (snd kv)) (str_field k s)"
  by (cases p) (auto simp: str_field_def)

lemma options_go: "number_texts h \<Longrightarrow> options_encodable o' \<Longrightarrow> go_ok (options_json h o')"
  by (simp add: options_json_def options_encodable_def go_ok_fields key_ok number_texts_def float_json_def opt_all_def
      split: option.splits)

lemma request_go: "number_texts h \<Longrightarrow> request_canon r \<Longrightarrow> go_ok (request_json h r)"
  by (simp add: request_json_def request_canon_def go_ok_fields key_ok options_go)

lemma request_depth: "raw_depth (raw_of (request_json h r)) \<le> 2"
  by (simp add: request_json_def options_json_def str_field_def opt_field_def float_json_def split: option.split)

subsection \<open>Every command arrives\<close>

lemma submit_arrives:
  assumes "host_text_ok h" and "number_texts h" and "list_all valid_utf8 [sc_Key s, sc_Origin s]"
    and "request_sendable (sc_Request s)" and "length (json_text (submit_json h s)) \<le> MaxBody"
  shows "decode_submit h (json_text (submit_json h s)) = Inr s"
proof -
  have "json_ok (submit_json h s)" "go_ok (submit_json h s)"
    using assms(1-4) request_ok request_go
    by (auto simp: request_sendable_def submit_json_def go_ok_fields json_ok_str_field key_ok)
  moreover have "raw_depth (raw_of (submit_json h s)) \<le> 3"
    using request_depth [of h "sc_Request s"] by (simp add: submit_json_def str_field_def)
  ultimately show ?thesis
    using assms(5) submit_into [OF assms(1,4)] submit_shape [of h s]
    by (simp add: decode_submit_def decode_marshalled maxNestingDepth_def)
qed

lemma retry_arrives:
  assumes "list_all valid_utf8 [rt_Key r, rt_Origin r, rt_ParentID r]" and "length (json_text (retry_json r)) \<le> MaxBody"
  shows "decode_retry (json_text (retry_json r)) = Inr r"
proof -
  have "json_ok (retry_json r)" "go_ok (retry_json r)"
    using assms(1) by (auto simp: retry_json_def go_ok_fields json_ok_str_field key_ok)
  moreover have "raw_depth (raw_of (retry_json r)) \<le> 1" by (simp add: retry_json_def str_field_def)
  ultimately show ?thesis
    using assms(2) retry_into [of r] retry_shape [of r] by (simp add: decode_retry_def decode_marshalled maxNestingDepth_def)
qed

lemma branch_arrives:
  assumes "host_text_ok h" and "number_texts h" and "list_all valid_utf8 [bc_Key b, bc_Origin b, bc_ParentID b]"
    and "request_sendable (bc_Request b)" and "length (json_text (branch_json h b)) \<le> MaxBody"
  shows "decode_branch h (json_text (branch_json h b)) = Inr b"
proof -
  have "json_ok (branch_json h b)" "go_ok (branch_json h b)"
    using assms(1-4) request_ok request_go
    by (auto simp: request_sendable_def branch_json_def go_ok_fields json_ok_str_field key_ok)
  moreover have "raw_depth (raw_of (branch_json h b)) \<le> 3"
    using request_depth [of h "bc_Request b"] by (simp add: branch_json_def str_field_def)
  ultimately show ?thesis
    using assms(5) branch_into [OF assms(1,4)] branch_shape [of h b]
    by (simp add: decode_branch_def decode_marshalled maxNestingDepth_def)
qed

text \<open>
  C37. Commands survive the way from a client to the service: the JSON text of a submit, retry
  or branch command with valid UTF-8 strings, Go integers and an encodable temperature passes
  the strict decoder within the body limit and is decoded to the same command. So the checks
  against duplicate, unknown, null or badly escaped members never refuse a conforming client.
\<close>

theorem commands_arrive:
  assumes "host_text_ok h" and "number_texts h"
    and "list_all valid_utf8 [sc_Key s, sc_Origin s, rt_Key r, rt_Origin r, rt_ParentID r, bc_Key b, bc_Origin b, bc_ParentID b]"
    and "request_sendable (sc_Request s)" "request_sendable (bc_Request b)"
    and "length (json_text (submit_json h s)) \<le> MaxBody" "length (json_text (retry_json r)) \<le> MaxBody"
      "length (json_text (branch_json h b)) \<le> MaxBody"
  shows "decode_submit h (json_text (submit_json h s)) = Inr s \<and> decode_retry (json_text (retry_json r)) = Inr r \<and>
    decode_branch h (json_text (branch_json h b)) = Inr b"
  using assms submit_arrives [of h s] retry_arrives [of r] branch_arrives [of h b] by simp

end
