(* ===== verification/Http_Client.thy ===== *)
theory Http_Client
  imports Http_Commands Http_Server
begin

text \<open>
  \<open>internal/adapters/httpapi/client.go\<close>: what a client makes of the answers of a service. The
  exchange itself is a parameter: the reply to a request, or none when the service cannot be
  reached. Bodies are read up to the limits of the source.
\<close>

subsection \<open>Faults of the client\<close>

definition connectionMessage :: bytes where
  "connectionMessage = ''cannot reach service; start serve or check --server; create acceptance may be uncertain''"

definition connection :: goerr where
  "connection = FaultErr \<lparr>ft_Code = ErrUnavailable, ft_Message = connectionMessage, ft_Retryable = True, ft_Details = []\<rparr>"

definition MessageResponseTooLarge :: bytes where "MessageResponseTooLarge = ''service response too large''"
definition MessageInvalidResponse :: bytes where "MessageInvalidResponse = ''invalid service response''"

definition IsUnreadableResponse :: "goerr \<Rightarrow> bool" where
  "IsUnreadableResponse err =
     (case errors_as err of
        Some (Some f) \<Rightarrow>
          ft_Code f = ErrLimitExceeded \<and> ft_Message f = MessageResponseTooLarge \<or>
          ft_Code f = ErrInternal \<and> ft_Message f = MessageInvalidResponse
      | _ \<Rightarrow> False)"

definition IsConnectionFault :: "goerr \<Rightarrow> bool" where
  "IsConnectionFault err =
     (case errors_as err of
        Some (Some f) \<Rightarrow> ft_Code f = ErrUnavailable \<and> ft_Message f = connectionMessage
      | _ \<Rightarrow> False)"

subsection \<open>Calls\<close>

text \<open>A reply: the bytes of its body, and whether reading fails after them.\<close>

record client_reply =
  cr_Status :: int
  cr_ContentType :: bytes
  cr_Body :: bytes
  cr_ReadErr :: bool

type_synonym exchange = "bytes \<Rightarrow> bytes \<Rightarrow> bytes option \<Rightarrow> client_reply option"

definition into_fault_details :: "json \<Rightarrow> (bytes \<times> bytes) list \<Rightarrow> (bytes \<times> bytes) list option" where
  "into_fault_details v old =
     (case v of
        JNull \<Rightarrow> Some []
      | JObj kvs \<Rightarrow> map_option ((@) old) (those (map (\<lambda>kv. map_option (Pair (fst kv)) (into_string (snd kv) [])) kvs))
      | _ \<Rightarrow> None)"

definition into_code :: "json \<Rightarrow> ErrorCode \<Rightarrow> ErrorCode option" where
  "into_code v old = map_option code_of (into_string v (code_str old))"

definition into_fault :: "json \<Rightarrow> Fault \<Rightarrow> Fault option" where
  "into_fault = into_struct
     [(''code'', slot into_code ft_Code ft_Code_update), (''message'', slot into_string ft_Message ft_Message_update),
      (''retryable'', slot into_bool ft_Retryable ft_Retryable_update),
      (''details'', slot into_fault_details ft_Details ft_Details_update)]"

definition zero_fault :: Fault where
  "zero_fault = fault (code_of []) []"

text \<open>A service fault read from a body is reduced to its public form.\<close>

definition read_fault :: "bytes \<Rightarrow> goerr" where
  "read_fault b =
     (case Option.bind (parse_go b) (\<lambda>v. into_fault v zero_fault) of
        None \<Rightarrow> connection
      | Some f \<Rightarrow> FaultErr (PublicFault (FaultErr f)))"

definition Call ::
  "exchange \<Rightarrow> (json \<Rightarrow> 'a \<Rightarrow> 'a option) \<Rightarrow> 'a \<Rightarrow> bytes \<Rightarrow> bytes \<Rightarrow> json option option \<Rightarrow> goerr + 'a" where
  "Call exch into zero method path command =
     (if command = Some None then Inl invalid
      else case exch method path (case command of Some (Some j) \<Rightarrow> Some (json_text j) | _ \<Rightarrow> None) of
        None \<Rightarrow> Inl connection
      | Some resp \<Rightarrow>
          (let limit = (if cr_Status resp \<noteq> 200 then 4096 else MaxResponse);
               data = take (Suc limit) (cr_Body resp) in
           if cr_ReadErr resp \<and> length (cr_Body resp) \<le> limit then Inl connection
           else if limit < length data then Inl (FaultErr (fault ErrLimitExceeded MessageResponseTooLarge))
           else if cr_Status resp \<noteq> 200 then Inl (read_fault data)
           else (case Option.bind (parse_go data) (\<lambda>v. into v zero) of
               None \<Rightarrow> Inl (FaultErr (fault ErrInternal MessageInvalidResponse))
             | Some x \<Rightarrow> Inr x)))"

text \<open>
  \<open>Wait\<close> polls a job until it is terminal; \<open>get n\<close> is the \<open>n\<close>-th call of \<open>Get\<close>, \<open>gone n\<close> says that
  the caller's context ends before the next tick. \<open>None\<close> is still waiting after the given polls.
\<close>

fun Wait :: "nat \<Rightarrow> (nat \<Rightarrow> goerr + Job) \<Rightarrow> (nat \<Rightarrow> bool) \<Rightarrow> nat \<Rightarrow> (goerr + Job) option" where
  "Wait 0 get gone n = None"
| "Wait (Suc polls) get gone n =
     (case get n of
        Inl e \<Rightarrow> Some (Inl e)
      | Inr j \<Rightarrow>
          if Terminal (jb_State j) then Some (Inr j)
          else if gone n then Some (Inl connection)
          else Wait polls get gone (Suc n))"

subsection \<open>Watching\<close>

record sse_frame =
  fm_Kind :: bytes
  fm_ID :: bytes
  fm_Data :: "bytes option"

definition no_frame :: sse_frame where
  "no_frame = \<lparr>fm_Kind = [], fm_ID = [], fm_Data = None\<rparr>"

text \<open>\<open>Cursor.UnmarshalJSON\<close> in full, and the envelope of a frame.\<close>

definition into_cursor :: "json \<Rightarrow> Cursor option" where
  "into_cursor v =
     (case into_struct [(''store_id'', slot into_string fst apfst), (''sequence'', slot into_string snd apsnd)] v ([], []) of
        None \<Rightarrow> None
      | Some (store, seq) \<Rightarrow> map_option (\<lambda>n. \<lparr>cu_StoreID = store, cu_Sequence = n\<rparr>) (parse_sequence seq))"

definition envelope_cursor :: "bytes \<Rightarrow> Cursor option" where
  "envelope_cursor b =
     Option.bind (parse_go b) (\<lambda>v. into_struct [(''cursor'', \<lambda>x _. into_cursor x)] v \<lparr>cu_StoreID = [], cu_Sequence = 0\<rparr>)"

definition frame_limit :: nat where "frame_limit = MaxResponse + 1024"

text \<open>A complete frame: \<open>Some (Inl e)\<close> ends the watch, \<open>Some (Inr f)\<close> is applied, \<open>None\<close> is no frame.\<close>

definition complete_frame :: "sse_frame \<Rightarrow> (goerr + sse_frame) option" where
  "complete_frame f =
     (if fm_Kind f = [] then None
      else if fm_Kind f = ''error'' then Some (Inl (case fm_Data f of None \<Rightarrow> connection | Some b \<Rightarrow> read_fault b))
      else if fm_Kind f \<noteq> ''snapshot'' \<and> fm_Kind f \<noteq> ''event'' then Some (Inl connection)
      else (case ParseCursor (fm_ID f) of
          Inl e \<Rightarrow> Some (Inl e)
        | Inr cur \<Rightarrow>
            if Option.bind (fm_Data f) envelope_cursor \<noteq> Some cur then Some (Inl connection)
            else if fm_Kind f = ''event'' \<and> MaxEvent < length (the (fm_Data f)) then Some (Inl connection)
            else Some (Inr f)))"

text \<open>A line that is not empty: a comment or one of three fields.\<close>

definition frame_line :: "bytes \<Rightarrow> sse_frame \<Rightarrow> sse_frame option" where
  "frame_line line f =
     (if has_prefix line '':'' then Some f
      else if has_prefix line ''id: '' then Some (f\<lparr>fm_ID := drop 4 line\<rparr>)
      else if has_prefix line ''event: '' then Some (f\<lparr>fm_Kind := drop 7 line\<rparr>)
      else if has_prefix line ''data: '' then
        (if fm_Data f \<noteq> None then None else Some (f\<lparr>fm_Data := Some (drop 6 line)\<rparr>))
      else None)"

text \<open>The loop over the scanned lines; \<open>app fs\<close> is what the call of
  \<open>apply\<close> on the last of the frames \<open>fs\<close> returns after those on the others.\<close>

fun watch_lines ::
  "(sse_frame list \<Rightarrow> goerr option) \<Rightarrow> bytes list \<Rightarrow> sse_frame \<Rightarrow> nat \<Rightarrow> sse_frame list \<Rightarrow> sse_frame list \<times> goerr" where
  "watch_lines app [] f sz done = (done, connection)"
| "watch_lines app (line # ls) f sz done =
     (if frame_limit < sz + length line
      then (done, FaultErr (fault ErrLimitExceeded ''event frame too large''))
      else if line = [] then
        (case complete_frame f of
           None \<Rightarrow> watch_lines app ls no_frame 0 done
         | Some (Inl e) \<Rightarrow> (done, e)
         | Some (Inr g) \<Rightarrow>
             (case app (done @ [g]) of
                Some e \<Rightarrow> (done @ [g], e)
              | None \<Rightarrow> watch_lines app ls no_frame 0 (done @ [g])))
      else (case frame_line line f of
          None \<Rightarrow> (done, connection)
        | Some f' \<Rightarrow> watch_lines app ls f' (sz + length line) done))"

text \<open>\<open>bufio.Scanner\<close> on lines: without the line end, up to a line that exceeds its buffer.\<close>

definition drop_cr :: "bytes \<Rightarrow> bytes" where
  "drop_cr l = (if l \<noteq> [] \<and> last l = CHR 0x0D then butlast l else l)"

definition scan_token :: "bytes \<Rightarrow> bytes" where
  "scan_token l = drop_cr (if l \<noteq> [] \<and> last l = newline then butlast l else l)"

definition fits_buffer :: "bytes \<Rightarrow> bool" where
  "fits_buffer l = (if l \<noteq> [] \<and> last l = newline then length l \<le> frame_limit else length l < frame_limit)"

definition watch_body :: "(sse_frame list \<Rightarrow> goerr option) \<Rightarrow> bytes \<Rightarrow> sse_frame list \<times> goerr" where
  "watch_body app s = watch_lines app (map scan_token (takeWhile fits_buffer (body_lines s))) no_frame 0 []"

text \<open>\<open>url.QueryEscape\<close>, and the first JSON value of a body as \<open>json.Decoder\<close> reads it.\<close>

definition unreserved :: "char \<Rightarrow> bool" where
  "unreserved c = (c \<in> set ''abcdefghijklmnopqrstuvwxyzABCDEFGHIJKLMNOPQRSTUVWXYZ0123456789-_.~'')"

definition upper_hex :: "nat \<Rightarrow> char" where
  "upper_hex d = (if d < 10 then char_of (48 + d) else char_of (55 + d))"

definition query_escape :: "bytes \<Rightarrow> bytes" where
  "query_escape s = concat (map (\<lambda>c.
     if unreserved c then [c] else if c = CHR '' '' then ''+''
     else [CHR 0x25, upper_hex (byte c div 16), upper_hex (byte c mod 16)]) s)"

definition first_value :: "bytes \<Rightarrow> json option" where
  "first_value s = map_option (cook \<circ> fst) (raw_value (2 * length s + 2) 0 s)"

definition client_Watch :: "exchange \<Rightarrow> (sse_frame list \<Rightarrow> goerr option) \<Rightarrow> bytes \<Rightarrow> sse_frame list \<times> goerr" where
  "client_Watch exch app after =
     (case (if after = [] then None else case ParseCursor after of Inl e \<Rightarrow> Some e | Inr _ \<Rightarrow> None) of
        Some e \<Rightarrow> ([], e)
      | None \<Rightarrow>
      (case exch ''GET'' (''/v1/events'' @ (if after = [] then [] else ''?after='' @ query_escape after)) None of
        None \<Rightarrow> ([], connection)
      | Some resp \<Rightarrow>
          if cr_Status resp \<noteq> 200 then
            ([], case Option.bind (first_value (take 4096 (cr_Body resp))) (\<lambda>v. into_fault v zero_fault) of
               None \<Rightarrow> connection | Some f \<Rightarrow> FaultErr (PublicFault (FaultErr f)))
          else if cr_ContentType resp \<noteq> ''text/event-stream'' then ([], connection)
          else watch_body app (cr_Body resp)))"

end
