(* ===== verification/Http_Jobs.thy ===== *)
theory Http_Jobs
  imports Http_Client
begin

text \<open>
  What \<open>json.Unmarshal\<close> makes of the answer of a service: jobs and queue states
  (\<open>core/jobs.go\<close>, \<open>core/events.go\<close>) by the tags of their fields, and the calls of
  \<open>client.go\<close> that read them.
\<close>

definition option_or :: "'a \<Rightarrow> 'a option \<Rightarrow> 'a" where
  "option_or d x = (case x of None \<Rightarrow> d | Some v \<Rightarrow> v)"

definition into_named :: "(bytes \<Rightarrow> 'a) \<Rightarrow> ('a \<Rightarrow> bytes) \<Rightarrow> json \<Rightarrow> 'a \<Rightarrow> 'a option" where
  "into_named of_name name v old = map_option of_name (into_string v (name old))"

definition into_time :: "host \<Rightarrow> json \<Rightarrow> time \<Rightarrow> time option" where
  "into_time h v old = (case v of JNull \<Rightarrow> Some old | JStr t \<Rightarrow> h_untime h t | _ \<Rightarrow> None)"

definition into_chat_message :: "json \<Rightarrow> Message \<Rightarrow> Message option" where
  "into_chat_message = into_struct
     [(''role'', slot (into_named role_of role_str) ms_Role ms_Role_update),
      (''content'', slot into_string ms_Content ms_Content_update)]"

definition zero_message :: Message where
  "zero_message = \<lparr>ms_Role = OtherRole [], ms_Content = []\<rparr>"

definition into_instructions :: "json \<Rightarrow> Instructions \<Rightarrow> Instructions option" where
  "into_instructions = into_struct
     [(''system'', slot into_string in_System in_System_update),
      (''history'', slot (into_slice into_chat_message zero_message) in_History in_History_update),
      (''prompt'', slot into_string in_Prompt in_Prompt_update)]"

definition into_lineage :: "json \<Rightarrow> Lineage \<Rightarrow> Lineage option" where
  "into_lineage = into_struct
     [(''parent_id'', slot into_string ln_ParentID ln_ParentID_update),
      (''relation'', slot (into_named relation_named relation_str) ln_Relation ln_Relation_update)]"

definition zero_lineage :: Lineage where
  "zero_lineage = \<lparr>ln_ParentID = [], ln_Relation = OtherRelation []\<rparr>"

definition into_usage :: "json \<Rightarrow> Usage \<Rightarrow> Usage option" where
  "into_usage = into_struct
     [(''input_tokens'', slot (into_pointer into_int 0) us_InputTokens us_InputTokens_update),
      (''output_tokens'', slot (into_pointer into_int 0) us_OutputTokens us_OutputTokens_update),
      (''total_duration_ns'', slot (into_pointer into_int 0) us_TotalDurationNS us_TotalDurationNS_update),
      (''load_duration_ns'', slot (into_pointer into_int 0) us_LoadDurationNS us_LoadDurationNS_update),
      (''generate_duration_ns'', slot (into_pointer into_int 0) us_GenerateDurationNS us_GenerateDurationNS_update)]"

definition into_estimate :: "json \<Rightarrow> TokenEstimate \<Rightarrow> TokenEstimate option" where
  "into_estimate = into_struct
     [(''tokens'', slot into_int te_Tokens te_Tokens_update), (''method'', slot into_string te_Method te_Method_update),
      (''exact'', slot into_bool te_Exact te_Exact_update)]"

definition into_observation :: "host \<Rightarrow> json \<Rightarrow> ContextObservation \<Rightarrow> ContextObservation option" where
  "into_observation h = into_struct
     [(''tokens'', slot into_int co_Tokens co_Tokens_update), (''model'', slot into_string co_Model co_Model_update),
      (''source'', slot into_string co_Source co_Source_update),
      (''observed_at'', slot (into_time h) co_ObservedAt co_ObservedAt_update)]"

definition into_context :: "host \<Rightarrow> json \<Rightarrow> ContextInfo \<Rightarrow> ContextInfo option" where
  "into_context h = into_struct
     [(''model_capacity_tokens'', slot (into_pointer into_int 0) ci_ModelCapacityTokens ci_ModelCapacityTokens_update),
      (''model_capacity_source'', slot into_string ci_ModelCapacitySource ci_ModelCapacitySource_update),
      (''model_capacity_observed_at'', slot (into_pointer (into_time h) 0) ci_ModelCapacityObservedAt ci_ModelCapacityObservedAt_update),
      (''requested_tokens'', slot (into_pointer into_int 0) ci_RequestedTokens ci_RequestedTokens_update),
      (''loaded'', slot (into_pointer (into_observation h) \<lparr>co_Tokens = 0, co_Model = [], co_Source = [], co_ObservedAt = 0\<rparr>)
         ci_Loaded ci_Loaded_update),
      (''input_estimate'', slot (into_pointer into_estimate \<lparr>te_Tokens = 0, te_Method = [], te_Exact = False\<rparr>)
         ci_InputEstimate ci_InputEstimate_update),
      (''reserved_output_tokens'', slot into_int ci_ReservedOutputTokens ci_ReservedOutputTokens_update)]"

definition into_result :: "host \<Rightarrow> json \<Rightarrow> Result \<Rightarrow> Result option" where
  "into_result h = into_struct
     [(''text'', slot into_string rs_Text rs_Text_update),
      (''finish_reason'', slot into_string rs_FinishReason rs_FinishReason_update),
      (''effective_model'', slot into_string rs_EffectiveModel rs_EffectiveModel_update),
      (''effective_options'', slot (into_pointer (into_options h) (rq_Options zero_Request)) rs_EffectiveOptions rs_EffectiveOptions_update),
      (''context'', slot (into_context h) rs_Context rs_Context_update),
      (''usage'', slot into_usage rs_Usage rs_Usage_update)]"

definition into_job :: "host \<Rightarrow> json \<Rightarrow> Job \<Rightarrow> Job option" where
  "into_job h = into_struct
     [(''id'', slot into_string jb_ID jb_ID_update),
      (''state'', slot (into_named state_of state_str) jb_State jb_State_update),
      (''request'', slot (into_request h) jb_Request jb_Request_update),
      (''instructions'', slot into_instructions jb_Instructions jb_Instructions_update),
      (''origin'', slot into_string jb_Origin jb_Origin_update),
      (''lineage'', slot (into_pointer into_lineage zero_lineage) jb_Lineage jb_Lineage_update),
      (''created_at'', slot (into_time h) jb_CreatedAt jb_CreatedAt_update),
      (''started_at'', slot (into_pointer (into_time h) 0) jb_StartedAt jb_StartedAt_update),
      (''finished_at'', slot (into_pointer (into_time h) 0) jb_FinishedAt jb_FinishedAt_update),
      (''result'', slot (into_result h) jb_Result jb_Result_update),
      (''error'', slot (into_pointer into_fault zero_fault) jb_Error jb_Error_update)]"

definition zero_job :: Job where
  "zero_job = \<lparr>jb_ID = [], jb_State = OtherState [], jb_Request = zero_Request,
     jb_Instructions = \<lparr>in_System = [], in_History = [], in_Prompt = []\<rparr>, jb_Origin = [], jb_Lineage = None,
     jb_CreatedAt = 0, jb_StartedAt = None, jb_FinishedAt = None, jb_Result = zero_Result, jb_Error = None\<rparr>"

definition into_queue :: "json \<Rightarrow> QueueState \<Rightarrow> QueueState option" where
  "into_queue = into_struct
     [(''paused'', slot into_bool qs_Paused qs_Paused_update),
      (''pending'', slot (\<lambda>v old. if v = JNull then Some None
           else map_option Some (into_slice into_string [] v (case old of None \<Rightarrow> [] | Some ids \<Rightarrow> ids))) qs_Pending qs_Pending_update),
      (''active'', slot (into_pointer into_string []) qs_Active qs_Active_update),
      (''max_pending'', slot into_int qs_MaxPending qs_MaxPending_update)]"

definition zero_queue :: QueueState where
  "zero_queue = \<lparr>qs_Paused = False, qs_Pending = None, qs_Active = None, qs_MaxPending = 0\<rparr>"

subsection \<open>Calls that answer with a job\<close>

definition call_job :: "host \<Rightarrow> exchange \<Rightarrow> bytes \<Rightarrow> bytes \<Rightarrow> json option option \<Rightarrow> goerr + Job" where
  "call_job h exch = Call exch (into_job h) zero_job"

definition call_queue :: "exchange \<Rightarrow> bytes \<Rightarrow> bytes \<Rightarrow> json option option \<Rightarrow> goerr + QueueState" where
  "call_queue exch = Call exch into_queue zero_queue"

text \<open>\<open>url.PathEscape\<close>.\<close>

definition path_escape :: "bytes \<Rightarrow> bytes" where
  "path_escape s = concat (map (\<lambda>c.
     if unreserved c \<or> c \<in> set ''$&+=:@'' then [c]
     else [CHR 0x25, upper_hex (byte c div 16), upper_hex (byte c mod 16)]) s)"

definition Get :: "host \<Rightarrow> exchange \<Rightarrow> JobID \<Rightarrow> goerr + Job" where
  "Get h exch i = call_job h exch ''GET'' (''/v1/jobs/'' @ path_escape i) None"

end
