(* ===== verification/Http_Events.thy ===== *)
theory Http_Events
  imports Http_Client "HOL-Library.Sublist"
begin

text \<open>
  The event stream end to end: what the server's handler writes for the events of a stream, and
  what the client's watch makes of any part of it that arrives.
\<close>

subsection \<open>The JSON of events and snapshots\<close>

lemma usage_go: "go_ok (usage_json u)"
  by (simp add: usage_json_def go_ok_fields key_ok split: option.split)

lemma message_go: "message_canon m \<Longrightarrow> go_ok (message_json m)"
  by (simp add: message_json_def message_canon_def key_ok)

lemma instructions_go: "instructions_canon i \<Longrightarrow> go_ok (instructions_json i)"
  by (auto simp: instructions_json_def instructions_canon_def key_ok list_all_iff message_go)

lemma time_go: "host_text_ok h \<Longrightarrow> time_encodable t \<Longrightarrow> go_ok (time_json h t)"
  by (simp add: host_text_ok_def time_json_def)

lemma context_go: "host_text_ok h \<Longrightarrow> context_canon c \<Longrightarrow> go_ok (context_json h c)"
  by (auto simp: context_json_def context_canon_def go_ok_fields key_ok time_go observation_json_def estimate_json_def
      split: option.splits)

lemma result_go: "host_text_ok h \<Longrightarrow> number_texts h \<Longrightarrow> result_canon r \<Longrightarrow> go_ok (result_json h r)"
  by (auto simp: result_json_def result_canon_def go_ok_fields key_ok options_go context_go usage_go split: option.splits)

lemma fault_go: "fault_canon f \<Longrightarrow> go_ok (fault_json f)"
  by (auto simp: fault_json_def fault_canon_def key_ok list_all_iff)

lemma lineage_go: "lineage_canon l \<Longrightarrow> go_ok (lineage_json l)"
  by (simp add: lineage_json_def lineage_canon_def key_ok)

lemma job_go: "host_text_ok h \<Longrightarrow> number_texts h \<Longrightarrow> job_canon j \<Longrightarrow> go_ok (job_json h j)"
  by (auto simp: job_json_def job_canon_def go_ok_fields key_ok time_go request_go instructions_go result_go fault_go
      lineage_go split: option.splits)

lemma queue_go:
  "list_all valid_utf8 (pending_ids q) \<Longrightarrow> opt_all valid_utf8 (qs_Active q) \<Longrightarrow> go_ok (queue_json q)"
  by (cases "qs_Pending q"; cases "qs_Active q") (auto simp: queue_json_def pending_ids_def go_ok_fields key_ok list_all_iff)

lemma event_go: "host_text_ok h \<Longrightarrow> number_texts h \<Longrightarrow> event_canon e \<Longrightarrow> go_ok (event_json h e)"
  by (auto simp: event_json_def event_canon_def go_ok_fields key_ok time_go cursor_json_def dec_nat_valid job_go
      output_json_def queue_go split: option.splits)

definition snapshot_canon :: "Snapshot \<Rightarrow> bool" where
  "snapshot_canon s =
     (list_all job_canon (sn_Jobs s) \<and> list_all valid_utf8 (pending_ids (sn_Queue s)) \<and>
      opt_all valid_utf8 (qs_Active (sn_Queue s)) \<and> valid_utf8 (cu_StoreID (sn_Cursor s)))"

lemma snapshot_go: "host_text_ok h \<Longrightarrow> number_texts h \<Longrightarrow> snapshot_canon s \<Longrightarrow> go_ok (snapshot_json h s)"
  by (auto simp: snapshot_json_def snapshot_canon_def key_ok cursor_json_def dec_nat_valid queue_go list_all_iff job_go)

lemma snapshot_ok: "host_text_ok h \<Longrightarrow> snapshot_canon s \<Longrightarrow> json_ok (snapshot_json h s)"
  by (auto simp: snapshot_json_def snapshot_canon_def ok_simps cursor_json_def dec_nat_valid queue_json_ok list_all_iff job_ok)

lemma depth_list: "(\<And>v. v \<in> set vs \<Longrightarrow> f v \<le> n) \<Longrightarrow> foldr (\<lambda>v. max (f v)) vs 0 \<le> (n :: nat)"
  by (induction vs) auto

text \<open>A bound on the nesting, computed member by member.\<close>

definition depth_le :: "nat \<Rightarrow> json \<Rightarrow> bool" where
  "depth_le n v = (raw_depth (raw_of v) \<le> n)"

lemma depth_le_simps:
  "depth_le n JNull" "depth_le n (JBool b)" "depth_le n (JNum t)" "depth_le n (JStr s)"
  by (simp_all add: depth_le_def)

lemma depth_le_arr: "list_all (depth_le n) vs \<Longrightarrow> depth_le (Suc n) (JArr vs)"
  by (auto simp: depth_le_def list_all_iff comp_def foldr_map intro!: depth_list)

lemma depth_le_obj: "list_all (\<lambda>kv. depth_le n (snd kv)) fs \<Longrightarrow> depth_le (Suc n) (JObj fs)"
  by (auto simp: depth_le_def list_all_iff comp_def foldr_map intro!: depth_list)

lemma depth_le_fields:
  "list_all (\<lambda>kv. depth_le n (snd kv)) (opt_field k f p) = opt_all (\<lambda>x. depth_le n (f x)) p"
  "list_all (\<lambda>kv. depth_le n (snd kv)) (str_field k s)"
  by (cases p) (auto simp: str_field_def depth_le_simps)

lemma depth_options: "depth_le 1 (options_json h o')"
  unfolding One_nat_def options_json_def
  by (rule depth_le_obj) (simp add: depth_le_fields depth_le_simps float_json_def opt_all_def split: option.split)

lemma depth_request: "depth_le 2 (request_json h r)"
  unfolding numeral_2_eq_2 request_json_def
  by (rule depth_le_obj) (use depth_options in \<open>simp add: depth_le_fields depth_le_simps\<close>)

lemma depth_flat: "depth_le 1 (message_json m)" "depth_le 1 (lineage_json l)" "depth_le 1 (usage_json u)" "depth_le 1 (cursor_json c)"
  "depth_le 1 (output_json d)" "depth_le 1 (observation_json h ob)" "depth_le 1 (estimate_json es)"
  unfolding One_nat_def message_json_def lineage_json_def usage_json_def cursor_json_def output_json_def observation_json_def
    estimate_json_def time_json_def
  by (rule depth_le_obj; simp add: depth_le_fields depth_le_simps opt_all_def split: option.split)+

lemma depth_le_mono: "depth_le m v \<Longrightarrow> m \<le> n \<Longrightarrow> depth_le n v"
  by (simp add: depth_le_def)

lemma depth_instructions: "depth_le 3 (instructions_json i)"
proof -
  have "depth_le 2 (JArr (map message_json ms))" for ms
    unfolding numeral_2_eq_2 by (rule depth_le_arr) (use depth_flat(1) in \<open>simp add: list_all_iff\<close>)
  then show ?thesis
    unfolding numeral_3_eq_3 instructions_json_def
    by (intro depth_le_obj) (simp add: depth_le_simps numeral_2_eq_2)
qed

lemma depth_context: "depth_le 2 (context_json h c)"
  unfolding numeral_2_eq_2 context_json_def time_json_def
  by (rule depth_le_obj) (use depth_flat in \<open>simp add: depth_le_fields depth_le_simps opt_all_def split: option.split\<close>)

lemma depth_result: "depth_le 3 (result_json h r)"
  unfolding numeral_3_eq_3 result_json_def
  by (rule depth_le_obj)
    (use depth_context depth_le_mono [OF depth_flat(3)] depth_le_mono [OF depth_options]
      in \<open>simp add: depth_le_fields depth_le_simps opt_all_def numeral_2_eq_2 split: option.split\<close>)

lemma depth_fault: "depth_le 2 (fault_json f)"
proof -
  have "depth_le 1 (JObj (map (\<lambda>(k, v). (k, JStr v)) kvs))" for kvs
    unfolding One_nat_def by (rule depth_le_obj) (auto simp: list_all_iff depth_le_simps)
  then show ?thesis
    unfolding numeral_2_eq_2 fault_json_def by (intro depth_le_obj) (simp add: depth_le_simps)
qed

lemma depth_job: "depth_le 4 (job_json h j)"
proof -
  have four: "4 = Suc 3" by simp
  show ?thesis
    unfolding four job_json_def time_json_def
    by (rule depth_le_obj)
      (use depth_result depth_instructions depth_le_mono [OF depth_request] depth_le_mono [OF depth_flat(2)]
        depth_le_mono [OF depth_fault] in \<open>simp add: depth_le_fields depth_le_simps opt_all_def split: option.split\<close>)
qed

lemma depth_queue: "depth_le 2 (queue_json q)"
proof -
  have "depth_le 1 (JArr (map JStr ids))" for ids
    unfolding One_nat_def by (rule depth_le_arr) (simp add: list_all_iff depth_le_simps)
  then show ?thesis
    unfolding numeral_2_eq_2 queue_json_def
    by (intro depth_le_obj) (simp add: depth_le_fields depth_le_simps opt_all_def split: option.split)
qed

lemma depth_event: "depth_le 5 (event_json h e)"
proof -
  have five: "5 = Suc 4" by simp
  show ?thesis
    unfolding five event_json_def time_json_def
    by (rule depth_le_obj)
      (use depth_job depth_le_mono [OF depth_queue] depth_le_mono [OF depth_flat(4)] depth_le_mono [OF depth_flat(5)]
        in \<open>simp add: depth_le_fields depth_le_simps opt_all_def split: option.split\<close>)
qed

lemma depth_snapshot: "depth_le 6 (snapshot_json h s)"
proof -
  have six: "6 = Suc (Suc 4)" by simp
  have "depth_le (Suc 4) (JArr (map (job_json h) js))" for js
    by (rule depth_le_arr) (use depth_job in \<open>simp add: list_all_iff\<close>)
  then show ?thesis
    unfolding six snapshot_json_def
    by (intro depth_le_obj)
      (use depth_le_mono [OF depth_queue] depth_le_mono [OF depth_flat(4)] in \<open>simp add: depth_le_simps\<close>)
qed

subsection \<open>Reading the cursor of a frame\<close>

lemma into_cursor_json: "into_cursor (cursor_json c) = Some c"
  by (cases c) (simp add: into_cursor_def cursor_json_def into_simps parse_sequence_dec)

lemma skipped_names:
  "fold_name ''at'' \<noteq> fold_name ''cursor''" "fold_name ''kind'' \<noteq> fold_name ''cursor''" "fold_name ''job_id'' \<noteq> fold_name ''cursor''"
  "fold_name ''job'' \<noteq> fold_name ''cursor''" "fold_name ''output'' \<noteq> fold_name ''cursor''" "fold_name ''queue'' \<noteq> fold_name ''cursor''"
  "fold_name ''jobs'' \<noteq> fold_name ''cursor''"
  by code_simp+

definition cursor_slot :: "(bytes \<times> (json \<Rightarrow> Cursor \<Rightarrow> Cursor option)) list" where
  "cursor_slot = [(''cursor'', \<lambda>x _. into_cursor x)]"

lemma set_fields_skip: "list_all (\<lambda>kv. fold_name (fst kv) \<noteq> fold_name ''cursor'') kvs \<Longrightarrow> set_fields cursor_slot kvs c = Some c"
  by (induction kvs) (auto simp: field_named_def cursor_slot_def)

lemma envelope_read:
  assumes "json_ok v" "go_ok v" "depth_le 6 v" and "v = JObj ((''cursor'', cursor_json c) # kvs)"
    and "list_all (\<lambda>kv. fold_name (fst kv) \<noteq> fold_name ''cursor'') kvs"
  shows "envelope_cursor (json_text v) = Some c"
proof -
  have "raw_depth (raw_of v) \<le> maxNestingDepth" using assms(3) by (simp add: depth_le_def maxNestingDepth_def)
  from parse_go_text(2) [OF assms(2) this] have p: "parse_go (json_text v) = Some v" .
  have "set_fields cursor_slot ((''cursor'', cursor_json c) # kvs) x = Some c" for x
    using set_fields_skip [OF assms(5)] by (simp add: field_named_def cursor_slot_def into_cursor_json)
  then show ?thesis unfolding envelope_cursor_def p cursor_slot_def [symmetric] by (simp add: into_struct_def assms(4))
qed

lemma envelope_event:
  assumes "host_text_ok h" "number_texts h" "event_canon e"
  shows "envelope_cursor (json_text (event_json h e)) = Some (ev_Cursor e)"
proof (rule envelope_read)
  show "list_all (\<lambda>kv. fold_name (fst kv) \<noteq> fold_name ''cursor'')
      ((''at'', time_json h (ev_At e)) # (''kind'', JStr (kind_str (ev_Kind e))) # str_field ''job_id'' (ev_JobID e) @
       opt_field ''job'' (job_json h) (ev_Job e) @ opt_field ''output'' output_json (ev_Output e) @ opt_field ''queue'' queue_json (ev_Queue e))"
    using skipped_names by (simp add: str_field_def opt_field_def split: option.split)
qed (use assms event_ok event_go depth_le_mono [OF depth_event] in \<open>auto simp: event_json_def\<close>)

lemma envelope_snapshot:
  assumes "host_text_ok h" "number_texts h" "snapshot_canon s"
  shows "envelope_cursor (json_text (snapshot_json h s)) = Some (sn_Cursor s)"
proof (rule envelope_read)
  show "snapshot_json h s = JObj ((''cursor'', cursor_json (sn_Cursor s)) # [(''queue'', queue_json (sn_Queue s)),
     (''jobs'', if sn_Jobs s = [] then JNull else JArr (map (job_json h) (sn_Jobs s)))])"
    by (simp add: snapshot_json_def)
qed (use assms snapshot_ok snapshot_go depth_snapshot skipped_names in auto)

subsection \<open>What the server writes\<close>

datatype stream_item = Hello | Beat | Snap Snapshot | Ev Event

text \<open>The lines of an item, and the frames it stands for.\<close>

definition frame_lines :: "bytes \<Rightarrow> Cursor \<Rightarrow> json \<Rightarrow> bytes list" where
  "frame_lines kind c j = [''id: '' @ CursorID c, ''event: '' @ kind, ''data: '' @ json_text j, []]"

fun item_lines :: "host \<Rightarrow> stream_item \<Rightarrow> bytes list" where
  "item_lines h Hello = ['': connected'', []]"
| "item_lines h Beat = ['': heartbeat'', []]"
| "item_lines h (Snap s) = frame_lines ''snapshot'' (sn_Cursor s) (snapshot_json h s)"
| "item_lines h (Ev e) = frame_lines ''event'' (ev_Cursor e) (event_json h e)"

definition frame_of :: "bytes \<Rightarrow> Cursor \<Rightarrow> json \<Rightarrow> sse_frame" where
  "frame_of kind c j = \<lparr>fm_Kind = kind, fm_ID = CursorID c, fm_Data = Some (json_text j)\<rparr>"

fun item_frames :: "host \<Rightarrow> stream_item \<Rightarrow> sse_frame list" where
  "item_frames h (Snap s) = [frame_of ''snapshot'' (sn_Cursor s) (snapshot_json h s)]"
| "item_frames h (Ev e) = [frame_of ''event'' (ev_Cursor e) (event_json h e)]"
| "item_frames h _ = []"

definition on_lines :: "bytes list \<Rightarrow> bytes" where
  "on_lines ls = concat (map (\<lambda>l. l @ [newline]) ls)"

lemma on_lines_simps [simp]:
  "on_lines [] = []" "on_lines (l # ls) = l @ newline # on_lines ls" "on_lines (ks @ ls) = on_lines ks @ on_lines ls"
  by (simp_all add: on_lines_def)

text \<open>Writing \<open>t\<close>: all of it, or a part of it and a failure.\<close>

definition writes :: "bytes \<Rightarrow> sink \<Rightarrow> sink \<times> bool \<Rightarrow> bool" where
  "writes t sk res =
     (sk_fail (fst res) = sk_fail sk \<and> prefix (sk_out (fst res)) (sk_out sk @ t) \<and>
      (snd res \<longrightarrow> sk_out (fst res) = sk_out sk @ t) \<and> (sk_fail sk = (\<lambda>_. None) \<longrightarrow> snd res))"

lemma writes_sink_put: "writes b sk (sink_put b sk)"
  by (auto simp: writes_def sink_put_def take_is_prefix split: option.split)

lemma writes_append:
  assumes "writes s sk (sk1, ok)" and "ok \<Longrightarrow> writes t sk1 res" and "\<not> ok \<Longrightarrow> res = (sk1, False)"
  shows "writes (s @ t) sk res"
  using assms prefix_prefix [of "sk_out sk1" "sk_out sk @ s" t] by (cases ok) (auto simp: writes_def)

lemma writes_puts: "writes (concat bs) sk (sink_puts bs sk)"
proof (induction bs arbitrary: sk)
  case (Cons b bs)
  obtain sk1 ok where p: "sink_put b sk = (sk1, ok)" by fastforce
  have "writes (b @ concat bs) sk (sink_puts (b # bs) sk)"
    by (rule writes_append [of b sk sk1 ok]) (use p writes_sink_put [of b sk] Cons in auto)
  then show ?case by simp
qed (simp add: writes_def)

lemma writes_send: "writes (on_lines (frame_lines kind c j)) sk (send kind (CursorID c) (Some j) sk)"
proof -
  let ?bs = "[''id: '' @ CursorID c @ [newline], ''event: '' @ kind @ [newline] @ ''data: '']"
  have n: "CursorID c \<noteq> []" by (simp add: CursorID_def)
  obtain sk1 ok where p: "sink_puts ?bs sk = (sk1, ok)" by fastforce
  have "writes (concat ?bs @ concat [json_text j @ [newline], [newline], []]) sk (send kind (CursorID c) (Some j) sk)"
    by (rule writes_append [of _ sk sk1 ok])
      (use p n writes_puts [of ?bs sk] writes_puts [of "[json_text j @ [newline], [newline], []]" sk1]
        in \<open>auto simp: send_def simp del: sink_puts.simps\<close>)
  then show ?thesis by (simp add: frame_lines_def)
qed

text \<open>The result of \<open>stream.Next\<close> that makes the handler write an item.\<close>

fun item_result :: "stream_item \<Rightarrow> goerr + Event" where
  "item_result (Ev e) = Inr e"
| "item_result _ = Inl DeadlineExceeded"

fun item_ok :: "host \<Rightarrow> stream_item \<Rightarrow> bool" where
  "item_ok h (Snap s) = (snapshot_canon s \<and> store_id (cu_StoreID (sn_Cursor s)) \<and> length (json_text (snapshot_json h s)) \<le> MaxResponse)"
| "item_ok h (Ev e) = (event_canon e \<and> store_id (cu_StoreID (ev_Cursor e)) \<and> length (json_text (event_json h e)) \<le> MaxEvent)"
| "item_ok h _ = True"

fun later_item :: "stream_item \<Rightarrow> bool" where
  "later_item (Ev e) = True" | "later_item Beat = True" | "later_item _ = False"

lemma opt_all_mono: "opt_all p x \<Longrightarrow> (\<And>v. p v \<Longrightarrow> q v) \<Longrightarrow> opt_all q x"
  by (cases x) simp_all

lemma result_canon_encodable: "result_canon r \<Longrightarrow> result_encodable r"
  by (auto simp: result_canon_def result_encodable_def context_canon_def elim: opt_all_mono)

lemma job_canon_encodable: "job_canon j \<Longrightarrow> job_encodable j"
  by (simp add: job_canon_def job_encodable_def request_canon_def result_canon_encodable)

lemma canon_encodable: "event_canon e \<Longrightarrow> event_encodable e"
  unfolding event_canon_def event_encodable_def using job_canon_encodable opt_all_mono by blast

lemma snapshot_canon_encodable: "snapshot_canon s \<Longrightarrow> snapshot_encodable s"
  by (auto simp: snapshot_canon_def snapshot_encodable_def list_all_iff job_canon_encodable)

lemma writes_deliver:
  assumes "later_item x" and "item_ok h x"
  shows "writes (on_lines (item_lines h x)) sk (deliver h None (item_result x) sk)"
proof (cases x)
  case Beat
  then show ?thesis using writes_puts [of "['': heartbeat'' @ [newline, newline], []]" sk]
    by (simp add: deliver_def del: sink_puts.simps)
next
  case (Ev e)
  then have "event_body h e = Some (event_json h e)" using assms canon_encodable by (simp add: event_body_def)
  then show ?thesis using Ev by (simp add: deliver_def writes_send)
qed (use assms in simp_all)

lemma writes_items:
  assumes "list_all later_item xs" and "list_all (item_ok h) xs"
  shows "writes (on_lines (concat (map (item_lines h) xs))) sk (deliver_all h (map (\<lambda>x. (None, item_result x)) xs) sk)"
  using assms
proof (induction xs arbitrary: sk)
  case (Cons x xs)
  obtain sk1 ok where p: "deliver h None (item_result x) sk = (sk1, ok)" by fastforce
  have "writes (on_lines (item_lines h x) @ on_lines (concat (map (item_lines h) xs))) sk
      (deliver_all h (map (\<lambda>x. (None, item_result x)) (x # xs)) sk)"
    by (rule writes_append [of _ sk sk1 ok])
      (use p writes_deliver [of x h sk] Cons in auto)
  then show ?case by simp
qed (simp add: writes_def)

text \<open>The whole output of a stream whose first item is written by \<open>events\<close> itself.\<close>

definition first_write :: "host \<Rightarrow> stream_item \<Rightarrow> (nat \<Rightarrow> nat option) \<Rightarrow> sink \<times> bool" where
  "first_write h x sf =
     (case x of
        Snap s \<Rightarrow> send ''snapshot'' (CursorID (sn_Cursor s)) (snapshot_body h s) (fresh_sink sf)
      | _ \<Rightarrow> sink_puts ['': connected'' @ [newline, newline], []] (fresh_sink sf))"

definition stream_output :: "host \<Rightarrow> stream_item \<Rightarrow> stream_item list \<Rightarrow> (nat \<Rightarrow> nat option) \<Rightarrow> bytes" where
  "stream_output h x xs sf =
     (case first_write h x sf of
        (sk, False) \<Rightarrow> sk_out sk
      | (sk, True) \<Rightarrow> sk_out (fst (deliver_all h (map (\<lambda>x. (None, item_result x)) xs) sk)))"

lemma stream_output_written:
  assumes "item_ok h x" "\<not> later_item x" and "list_all later_item xs" "list_all (item_ok h) xs"
  shows "prefix (stream_output h x xs sf) (on_lines (concat (map (item_lines h) (x # xs)))) \<and>
    (sf = (\<lambda>_. None) \<longrightarrow> stream_output h x xs sf = on_lines (concat (map (item_lines h) (x # xs))))"
proof -
  let ?s = "fresh_sink sf" and ?t = "on_lines (concat (map (item_lines h) xs))"
  have first: "writes (on_lines (item_lines h x)) ?s (first_write h x sf)"
  proof (cases x)
    case Hello
    then show ?thesis using writes_puts [of "['': connected'' @ [newline, newline], []]" ?s]
      by (simp add: first_write_def del: sink_puts.simps)
  next
    case (Snap s)
    then have "snapshot_body h s = Some (snapshot_json h s)"
      using assms(1) snapshot_canon_encodable by (simp add: snapshot_body_def)
    then show ?thesis using Snap by (simp add: first_write_def writes_send)
  qed (use assms(2) in simp_all)
  obtain sk ok where p: "first_write h x sf = (sk, ok)" by fastforce
  let ?res = "if ok then deliver_all h (map (\<lambda>x. (None, item_result x)) xs) sk else (sk, False)"
  have "writes (on_lines (item_lines h x) @ ?t) ?s ?res"
    by (rule writes_append [of _ ?s sk ok]) (use first p writes_items [OF assms(3,4)] in auto)
  moreover have "stream_output h x xs sf = sk_out (fst ?res)" by (simp add: stream_output_def p)
  moreover have "sk_out ?s = []" "sk_fail ?s = sf" by (simp_all add: fresh_sink_def)
  ultimately show ?thesis by (auto simp: writes_def)
qed

subsection \<open>What the client reads\<close>

interpretation cr_text: printable_text "\<lambda>s. CHR 0x0D \<notin> set s"
proof
  show "CHR 0x0D \<notin> set (take n s)" if "rune_len s = Some n" "n \<noteq> 1" for s n
    using rune_len_high [OF that] by (auto simp: list_all_iff)
qed auto

lemma body_lines_on:
  "list_all (\<lambda>l. newline \<notin> set l) ls \<Longrightarrow> body_lines (on_lines ls @ t) = map (\<lambda>l. l @ [newline]) ls @ body_lines t"
  by (induction ls) (simp_all add: body_lines_next)

lemma prefix_on_lines:
  assumes "prefix p (on_lines ls)"
  obtains k t where "p = on_lines (take k ls) @ t" "t = [] \<or> k < length ls \<and> prefix t (ls ! k)"
  using assms
proof (induction ls arbitrary: p thesis)
  case (Cons l ls)
  show ?case
  proof (cases "prefix p l")
    case True
    then show ?thesis using Cons.prems(1) [of 0 p] by simp
  next
    case False
    with Cons.prems(2) obtain p' where p: "p = l @ newline # p'" "prefix p' (on_lines ls)"
      by (auto simp: prefix_append prefix_Cons)
    then obtain k t where "p' = on_lines (take k ls) @ t" "t = [] \<or> k < length ls \<and> prefix t (ls ! k)"
      using Cons.IH by blast
    then show ?thesis using p Cons.prems(1) [of "Suc k" t] by simp
  qed
qed simp

lemma watch_keeps: "prefix d (fst (watch_lines app ls f n d))"
proof (induction ls arbitrary: f n d)
  case (Cons l ls)
  show ?case
  proof (cases "complete_frame f")
    case (Some r)
    have "prefix d (fst (watch_lines app ls no_frame 0 (d @ [g])))" for g
      using Cons [of "d @ [g]" no_frame 0] by (meson prefix_append prefix_order.trans prefixI)
    then show ?thesis using Cons Some by (cases r) (auto split: option.split)
  qed (use Cons in \<open>auto split: option.split\<close>)
qed simp

lemma watch_mono: "prefix (fst (watch_lines app ls f n d)) (fst (watch_lines app (ls @ ms) f n d))"
proof (induction ls arbitrary: f n d)
  case (Cons l ls)
  then show ?case by (auto split: option.split sum.split)
qed (simp add: watch_keeps)

lemma watch_partial: "t \<noteq> [] \<Longrightarrow> fst (watch_lines app (ls @ [t]) f n d) = fst (watch_lines app ls f n d)"
  by (induction ls arbitrary: f n d) (auto split: option.split sum.split)

lemma CursorID_small: "store_id (cu_StoreID c) \<Longrightarrow> length (CursorID c) \<le> 53"
  using dec_nat_length [of "unat (cu_Sequence c)" 20] unat64_less [of "cu_Sequence c"]
  by (simp add: CursorID_def store_id_def)

lemma CursorID_plain:
  assumes "store_id (cu_StoreID c)"
  shows "newline \<notin> set (CursorID c)" and "CHR 0x0D \<notin> set (CursorID c)"
proof -
  have "\<not> hex_lower newline" "\<not> hex_lower (CHR 0x0D)" "\<not> is_digit newline" "\<not> is_digit (CHR 0x0D)"
    by (simp_all add: hex_lower_def is_digit_def newline_def)
  then show "newline \<notin> set (CursorID c)" "CHR 0x0D \<notin> set (CursorID c)"
    using assms dec_nat_is_digit [of "unat (cu_Sequence c)"]
    by (auto simp: CursorID_def store_id_def list_all_iff newline_def)
qed

definition plain_line :: "bytes \<Rightarrow> bool" where
  "plain_line l = (newline \<notin> set l \<and> CHR 0x0D \<notin> set l \<and> length l \<le> MaxResponse + 6)"

lemma plain_literal: "list_all (\<lambda>c. 0x20 \<le> byte c) l \<Longrightarrow> length l \<le> 100 \<Longrightarrow> plain_line l"
  by (auto simp: plain_line_def newline_def list_all_iff MaxResponse_def)

lemma plain_frame:
  assumes "json_ok j" and "store_id (cu_StoreID c)" and "length (json_text j) \<le> MaxResponse"
    and "list_all (\<lambda>c. 0x20 \<le> byte c) kind" "length kind \<le> 20"
  shows "list_all plain_line (frame_lines kind c j)"
proof -
  have "plain_line (''id: '' @ CursorID c)"
    using CursorID_plain [OF assms(2)] CursorID_small [OF assms(2)] by (simp add: plain_line_def newline_def MaxResponse_def)
  moreover have "plain_line (''data: '' @ json_text j)"
    using line_text.json_text [OF assms(1)] cr_text.json_text [OF assms(1)] assms(3) by (simp add: plain_line_def newline_def)
  moreover have "plain_line (''event: '' @ kind)" "plain_line []"
    using assms(4,5) by (auto intro!: plain_literal)
  ultimately show ?thesis by (simp add: frame_lines_def)
qed

lemma plain_item:
  assumes "host_text_ok h" and "item_ok h x"
  shows "list_all plain_line (item_lines h x)"
proof (cases x)
  case (Snap s)
  then show ?thesis using assms by (auto intro!: plain_frame snapshot_ok)
next
  case (Ev e)
  then show ?thesis using assms by (auto intro!: plain_frame event_ok simp: MaxEvent_def MaxResponse_def)
qed (auto intro!: plain_literal)

lemma watch_frame:
  assumes "kind = ''snapshot'' \<or> kind = ''event''" and "store_id (cu_StoreID c)"
    and "envelope_cursor (json_text j) = Some c" and "length (json_text j) \<le> (if kind = ''event'' then MaxEvent else MaxResponse)"
  shows "watch_lines (\<lambda>_. None) (frame_lines kind c j @ ls) no_frame 0 d
    = watch_lines (\<lambda>_. None) ls no_frame 0 (d @ [frame_of kind c j])"
proof -
  have p: "ParseCursor (CursorID c) = Inr c"
    using assms(2) by (simp add: ParseCursor_def split_CursorID parse_digits_dec store_id_def)
  have s: "length (CursorID c) \<le> 53" using assms(2) by (rule CursorID_small)
  have k: "length kind \<le> 8" "kind \<noteq> []" "kind \<noteq> ''error''" using assms(1) by auto
  have m: "length (json_text j) \<le> MaxResponse" using assms(4) by (auto simp: MaxEvent_def MaxResponse_def split: if_splits)
  have "complete_frame (frame_of kind c j) = Some (Inr (frame_of kind c j))"
    using assms p k by (auto simp: complete_frame_def frame_of_def)
  moreover have "frame_line (''id: '' @ CursorID c) no_frame = Some (no_frame\<lparr>fm_ID := CursorID c\<rparr>)"
    "frame_line (''event: '' @ kind) (no_frame\<lparr>fm_ID := CursorID c\<rparr>) = Some (no_frame\<lparr>fm_ID := CursorID c, fm_Kind := kind\<rparr>)"
    "frame_line (''data: '' @ json_text j) (no_frame\<lparr>fm_ID := CursorID c, fm_Kind := kind\<rparr>) = Some (frame_of kind c j)"
    by (simp_all add: frame_line_def has_prefix_def no_frame_def frame_of_def)
  ultimately show ?thesis
    using s k(1) m by (simp add: frame_lines_def frame_limit_def)
qed

lemma watch_item:
  assumes "host_text_ok h" "number_texts h" "item_ok h x"
  shows "watch_lines (\<lambda>_. None) (item_lines h x @ ls) no_frame 0 d = watch_lines (\<lambda>_. None) ls no_frame 0 (d @ item_frames h x)"
proof (cases x)
  case (Snap s)
  then show ?thesis using assms envelope_snapshot [OF assms(1,2)] watch_frame [of "''snapshot''"] by simp
next
  case (Ev e)
  then show ?thesis using assms envelope_event [OF assms(1,2)] watch_frame [of "''event''"] by simp
qed (simp_all add: frame_line_def has_prefix_def frame_limit_def MaxResponse_def complete_frame_def no_frame_def)

lemma watch_items:
  assumes "host_text_ok h" "number_texts h" "list_all (item_ok h) xs"
  shows "watch_lines (\<lambda>_. None) (concat (map (item_lines h) xs)) no_frame 0 d = (d @ concat (map (item_frames h) xs), connection)"
  using assms(3)
proof (induction xs arbitrary: d)
  case (Cons x xs)
  then show ?case using watch_item [OF assms(1,2), of x] by simp
qed simp

lemma plain_tokens:
  assumes "list_all plain_line ls"
  shows "map scan_token (takeWhile fits_buffer (map (\<lambda>l. l @ [newline]) ls @ ms)) = ls @ map scan_token (takeWhile fits_buffer ms)"
  using assms
proof (induction ls)
  case (Cons l ls)
  have "scan_token (l @ [newline]) = l"
    using Cons.prems by (cases "l = []") (auto simp: scan_token_def drop_cr_def plain_line_def dest: last_in_set)
  moreover have "fits_buffer (l @ [newline])"
    using Cons.prems by (simp add: fits_buffer_def plain_line_def frame_limit_def)
  ultimately show ?case using Cons by simp
qed simp

text \<open>Of a cut-off last line nothing is applied.\<close>

lemma watch_body_cut:
  assumes "list_all plain_line ls" and "t = [] \<or> plain_line t"
  shows "fst (watch_body app (on_lines ls @ t)) = fst (watch_lines app ls no_frame 0 [])"
proof -
  have nl: "list_all (\<lambda>l. newline \<notin> set l) ls" using assms(1) by (auto simp: list_all_iff plain_line_def)
  show ?thesis
  proof (cases "t = []")
    case True
    have "map scan_token (takeWhile fits_buffer (map (\<lambda>l. l @ [newline]) ls)) = ls"
      using plain_tokens [OF assms(1), of "[]"] by simp
    then show ?thesis using True body_lines_on [OF nl, of "[]"] body_lines.simps [of "[]"] by (simp add: watch_body_def)
  next
    case False
    then have t: "plain_line t" using assms(2) by simp
    then have b: "body_lines t = [t]" using False by (simp add: body_lines_last plain_line_def)
    have "last t \<noteq> newline" "last t \<noteq> CHR 0x0D" using t last_in_set [OF False] by (auto simp: plain_line_def)
    then have "scan_token t = t" "fits_buffer t"
      using t False by (auto simp: scan_token_def drop_cr_def fits_buffer_def plain_line_def frame_limit_def)
    then have "map scan_token (takeWhile fits_buffer (body_lines (on_lines ls @ t))) = ls @ [t]"
      using plain_tokens [OF assms(1), of "[t]"] body_lines_on [OF nl, of t] b by simp
    then show ?thesis using watch_partial [OF False] by (simp add: watch_body_def)
  qed
qed

lemma plain_prefix: "plain_line l \<Longrightarrow> prefix t l \<Longrightarrow> plain_line t"
  by (auto simp: plain_line_def prefix_def)

text \<open>
  C40. The event stream arrives as sent. Whatever snapshot, events and heartbeats the handler
  writes, however the connection fails for either side, the frames the client applies are an
  initial part of the events sent: in order, each complete, with its cursor as ID, none of them
  twice and none made up; on a connection that does not fail they are all of them, and the watch
  then ends with a connection fault.
\<close>

theorem event_stream_roundtrip:
  assumes "host_text_ok h" "number_texts h" and "item_ok h x" "\<not> later_item x" and "list_all later_item xs" "list_all (item_ok h) xs"
    and "prefix p (stream_output h x xs sf)"
  shows "prefix (fst (watch_body (\<lambda>_. None) p)) (concat (map (item_frames h) (x # xs))) \<and>
    (sf = (\<lambda>_. None) \<and> p = stream_output h x xs sf \<longrightarrow>
       watch_body (\<lambda>_. None) p = (concat (map (item_frames h) (x # xs)), connection))"
proof -
  let ?ls = "concat (map (item_lines h) (x # xs))" and ?fs = "concat (map (item_frames h) (x # xs))"
  have plain: "list_all plain_line ?ls"
    using plain_item [OF assms(1)] assms(3,6) by (auto simp: list_all_iff)
  have w: "watch_lines (\<lambda>_. None) ?ls no_frame 0 [] = (?fs, connection)"
    using watch_items [OF assms(1,2), of "x # xs"] assms(3,6) by simp
  note out = stream_output_written [OF assms(3-6), of sf]
  have "prefix p (on_lines ?ls)" using assms(7) out prefix_order.trans by blast
  then obtain k t where p: "p = on_lines (take k ?ls) @ t" and t: "t = [] \<or> k < length ?ls \<and> prefix t (?ls ! k)"
    by (rule prefix_on_lines)
  have "list_all plain_line (take k ?ls)" using plain by (metis append_take_drop_id list_all_append)
  moreover have "t = [] \<or> plain_line t"
    using t plain_prefix plain by (metis list_all_length)
  ultimately have "fst (watch_body (\<lambda>_. None) p) = fst (watch_lines (\<lambda>_. None) (take k ?ls) no_frame 0 [])"
    unfolding p by (rule watch_body_cut)
  also have "prefix \<dots> ?fs"
    using watch_mono [of "\<lambda>_. None" "take k ?ls" no_frame 0 "[]" "drop k ?ls"] unfolding append_take_drop_id w fst_conv .
  finally have "prefix (fst (watch_body (\<lambda>_. None) p)) ?fs" .
  moreover have "watch_body (\<lambda>_. None) p = (?fs, connection)" if "sf = (\<lambda>_. None)" "p = stream_output h x xs sf"
  proof -
    have "list_all (\<lambda>l. newline \<notin> set l) ?ls" using plain by (auto simp: list_all_iff plain_line_def)
    from body_lines_on [OF this, of "[]"] have "body_lines p = map (\<lambda>l. l @ [newline]) ?ls"
      using that out body_lines.simps [of "[]"] by simp
    then show ?thesis using plain_tokens [OF plain, of "[]"] w by (simp add: watch_body_def)
  qed
  ultimately show ?thesis by blast
qed

end
