(* ===== verification/Http_Link.thy ===== *)
theory Http_Link
  imports Http_Jobs Http_Events
begin

text \<open>
  One exchange between a client and the HTTP server over a connection that may fail, and what the
  client reads when the server reports a fault.
\<close>

subsection \<open>The way of one request\<close>

text \<open>
  What happens to one exchange: the request does not arrive (\<open>None\<close>) or arrives, whole or with its
  body cut off; the reply is lost, or arrives whole or cut off after some bytes.
\<close>

record link =
  ln_Request :: "bool option"
  ln_Reply :: "nat option option"

definition client_request :: "bytes \<Rightarrow> bool \<Rightarrow> bytes \<Rightarrow> bytes \<Rightarrow> bytes option \<Rightarrow> http_request" where
  "client_request authority broken method path body =
     \<lparr>hr_Host = authority,
      hr_Header = (\<lambda>n. if n = ''Content-Type'' \<and> body \<noteq> None then Some [''application/json''] else None),
      hr_Method = method, hr_Path = path, hr_RawPath = [], hr_RawQuery = [],
      hr_ContentLength = int (length (option_or [] body)), hr_TransferEncoding = [],
      hr_Body = option_or [] body, hr_BodyErr = broken\<rparr>"

definition received :: "link \<Rightarrow> http_response \<Rightarrow> client_reply option" where
  "received ln resp =
     (case ln_Reply ln of
        None \<Rightarrow> None
      | Some broken \<Rightarrow> Some
          \<lparr>cr_Status = hp_Status resp, cr_ContentType = option_or [] (map_of (hp_Header resp) ''Content-Type''),
           cr_Body = (case broken of None \<Rightarrow> hp_Body resp | Some n \<Rightarrow> take n (hp_Body resp)), cr_ReadErr = (broken \<noteq> None)\<rparr>)"

text \<open>A path without escapes and query, as every command has.\<close>

definition over_link ::
  "host \<Rightarrow> handler \<Rightarrow> 'w service \<Rightarrow> (nat \<Rightarrow> nat option) \<Rightarrow> bytes \<Rightarrow> link \<Rightarrow> bytes \<Rightarrow> bytes \<Rightarrow> bytes option \<Rightarrow> 'w
    \<Rightarrow> 'w \<times> client_reply option" where
  "over_link h hh sv sf authority ln method path body w =
     (case ln_Request ln of
        None \<Rightarrow> (w, None)
      | Some broken \<Rightarrow>
          (case ServeHTTP h hh sv sf (client_request authority broken method path body) w of
             (w', HttpReply resp) \<Rightarrow> (w', received ln resp)
           | (w', HttpStream _ _ _) \<Rightarrow> (w', None)))"

subsection \<open>Faults on their way to the client\<close>

lemma parse_go_line:
  assumes "go_ok v" and "raw_depth (raw_of v) \<le> maxNestingDepth"
  shows "parse_go (json_text v @ [newline]) = Some v"
  using parse_raw_text_ws [OF raw_ok_of [OF assms(1)] assms(2), of "[newline]"]
  by (simp add: parse_go_def cook_of [OF assms(1)] raw_text_of is_ws_def newline_def)

text \<open>A public fault has a known code, and is its own public form.\<close>

definition public_code :: "ErrorCode \<Rightarrow> bool" where
  "public_code c = (map_of statuses (code_str c) \<noteq> None)"

lemma public_codes: "public_code ErrUnavailable" "public_code ErrInternal" "public_code ErrStorage"
  by (simp_all add: public_code_def statuses_def)

lemma PublicFault_cases:
  obtains (known) f where "errors_as e = Some (Some f)" "public_code (ft_Code f)"
      "PublicFault e = \<lparr>ft_Code = ft_Code f, ft_Message = code_str (ft_Code f), ft_Retryable = ft_Retryable f, ft_Details = []\<rparr>"
  | (ended) "PublicFault e = \<lparr>ft_Code = ErrUnavailable, ft_Message = ''request ended; acceptance may be uncertain'', ft_Retryable = True, ft_Details = []\<rparr>"
  | (other) "PublicFault e = fault ErrInternal ''service operation failed''"
proof -
  have "(\<exists>f. errors_as e = Some (Some f) \<and> public_code (ft_Code f)) \<or> \<not> (\<exists>f. errors_as e = Some (Some f) \<and> public_code (ft_Code f))"
    by blast
  then show thesis
  proof
    assume "\<exists>f. errors_as e = Some (Some f) \<and> public_code (ft_Code f)"
    then show thesis using known by (auto simp: PublicFault_def public_code_def)
  next
    let ?A = "\<lparr>ft_Code = ErrUnavailable, ft_Message = ''request ended; acceptance may be uncertain'', ft_Retryable = True, ft_Details = []\<rparr>"
    assume n: "\<not> (\<exists>f. errors_as e = Some (Some f) \<and> public_code (ft_Code f))"
    have "PublicFault e = (if errors_is e DeadlineExceeded \<or> errors_is e Canceled then ?A else fault ErrInternal ''service operation failed'')"
    proof (cases "errors_as e")
      case (Some x)
      then show ?thesis using n by (cases x) (auto simp: PublicFault_def public_code_def)
    qed (simp add: PublicFault_def)
    then show thesis using ended other by (cases "errors_is e DeadlineExceeded \<or> errors_is e Canceled") (simp_all only: if_True if_False)
  qed
qed

lemma PublicFault_code: "public_code (ft_Code (PublicFault e))"
  by (cases rule: PublicFault_cases [of e]) (auto simp: public_codes fault_def)

lemma PublicFault_Details: "ft_Details (PublicFault e) = []"
  by (cases rule: PublicFault_cases [of e]) (auto simp: fault_def)

lemma PublicFault_again: "public_code (ft_Code f) \<Longrightarrow> ft_Code (PublicFault (FaultErr f)) = ft_Code f"
  by (auto simp: PublicFault_def public_code_def)

lemma statuses_ascii: "list_all (\<lambda>kv. list_all (\<lambda>c. byte c < 0x80) (fst kv)) statuses"
  by code_simp

lemma public_code_ascii: "public_code c \<Longrightarrow> list_all (\<lambda>c. byte c < 0x80) (code_str c)"
  using statuses_ascii by (auto simp: public_code_def list_all_iff dest!: map_of_SomeD)

lemma PublicFault_ascii: "list_all (\<lambda>c. byte c < 0x80) (ft_Message (PublicFault e))"
proof (cases rule: PublicFault_cases [of e])
  case (known f)
  then show ?thesis by (simp add: public_code_ascii)
next
  case ended
  have "list_all (\<lambda>c. byte c < 0x80) ''request ended; acceptance may be uncertain''" by code_simp
  then show ?thesis by (simp only: ended Fault.simps)
next
  case other
  have "list_all (\<lambda>c. byte c < 0x80) ''service operation failed''" by code_simp
  then show ?thesis by (simp only: other fault_def Fault.simps)
qed

lemma statuses_known: "list_all (\<lambda>kv. code_str (code_of (fst kv)) = fst kv \<and> snd kv \<noteq> 200) statuses"
  by code_simp

lemma status_not_ok: "public_code (ft_Code f) \<Longrightarrow> status_of f \<noteq> 200"
  using statuses_known by (cases "map_of statuses (code_str (ft_Code f))")
    (auto simp: public_code_def status_of_def list_all_iff dest!: map_of_SomeD)

lemma code_of_known: "public_code c \<Longrightarrow> code_str (code_of (code_str c)) = code_str c"
  using statuses_known by (auto simp: public_code_def list_all_iff dest!: map_of_SomeD)

text \<open>What the client makes of the fault: the code, whether to retry, and nothing else.\<close>

definition seen_fault :: "goerr \<Rightarrow> Fault" where
  "seen_fault e =
     \<lparr>ft_Code = code_of (code_str (ft_Code (PublicFault e))), ft_Message = code_str (ft_Code (PublicFault e)),
      ft_Retryable = ft_Retryable (PublicFault e), ft_Details = []\<rparr>"

lemma fault_text_go: "go_ok (fault_json (PublicFault e))"
proof -
  have "valid_utf8 (code_str (ft_Code (PublicFault e)))" "valid_utf8 (ft_Message (PublicFault e))"
    using public_code_ascii [OF PublicFault_code] PublicFault_ascii by (simp_all add: valid_utf8_ascii)
  then show ?thesis by (auto simp: fault_json_def PublicFault_Details key_ok)
qed

lemma read_fault_seen: "read_fault (json_text (fault_json (PublicFault e)) @ [newline]) = FaultErr (seen_fault e)"
proof -
  let ?f = "PublicFault e"
  have "raw_depth (raw_of (fault_json ?f)) \<le> maxNestingDepth"
    using depth_fault [of ?f] by (simp add: depth_le_def maxNestingDepth_def)
  with fault_text_go have p: "parse_go (json_text (fault_json ?f) @ [newline]) = Some (fault_json ?f)" by (rule parse_go_line)
  let ?g = "\<lparr>ft_Code = code_of (code_str (ft_Code ?f)), ft_Message = ft_Message ?f, ft_Retryable = ft_Retryable ?f, ft_Details = []\<rparr>"
  have g: "into_fault (fault_json ?f) zero_fault = Some ?g"
    by (simp add: into_fault_def into_simps fault_json_def PublicFault_Details into_code_def into_bool_def zero_fault_def fault_def)
  have c: "code_str (code_of (code_str (ft_Code ?f))) = code_str (ft_Code ?f)" by (rule code_of_known [OF PublicFault_code])
  then have "PublicFault (FaultErr ?g) = seen_fault e"
    using PublicFault_code [of e] by (auto simp: PublicFault_def [of "FaultErr _"] public_code_def seen_fault_def)
  then show ?thesis by (simp add: read_fault_def p g)
qed

lemma read_public_fault:
  "\<exists>f. read_fault (json_text (fault_json (PublicFault e)) @ [newline]) = FaultErr f \<and>
     ft_Code f = code_of (code_str (ft_Code (PublicFault e))) \<and> public_code (ft_Code f)"
  using code_of_known [OF PublicFault_code [of e]] PublicFault_code [of e]
  by (simp add: read_fault_seen seen_fault_def public_code_def)

text \<open>It fits the client's limit for error bodies.\<close>

lemma statuses_short: "list_all (\<lambda>kv. length (fst kv) \<le> 60) statuses"
  by code_simp

lemma public_code_short: "public_code c \<Longrightarrow> length (code_str c) \<le> 60"
  using statuses_short by (auto simp: public_code_def list_all_iff dest!: map_of_SomeD)

lemma PublicFault_short: "length (ft_Message (PublicFault e)) \<le> 60"
  by (cases rule: PublicFault_cases [of e]) (simp_all add: public_code_short fault_def)

lemma fault_text_short: "length (json_text (fault_json (PublicFault e))) < 2000"
proof -
  have "json_bound (fault_json (PublicFault e)) < 2000"
    using PublicFault_short [of e] public_code_short [OF PublicFault_code [of e]]
    by (simp add: fault_json_def PublicFault_Details)
  then show ?thesis using json_bound [of "fault_json (PublicFault e)"] by linarith
qed

lemma fail_reply:
  "hp_Status (fail e) \<noteq> 200" "hp_Body (fail e) = json_text (fault_json (PublicFault e)) @ [newline]"
  using status_not_ok [OF PublicFault_code] by (simp_all add: fail_def Let_def writeJSON_def encoded_def)

end
