(* ===== verification/Http_Answers.thy ===== *)
theory Http_Answers
  imports Http_Link
begin

text \<open>
  Answers on their way back: the JSON of a job or a queue state, decoded by the client, is the value
  the service returned.
\<close>

subsection \<open>What can be sent\<close>

text \<open>The values of Go besides their strings: 64-bit integers.\<close>

definition options_sendable :: "GenerationOptions \<Rightarrow> bool" where
  "options_sendable o' =
     (options_encodable o' \<and> opt_all int64 (op_ContextTokens o') \<and> int64 (op_MaxOutputTokens o') \<and> opt_all int64 (op_Seed o'))"

definition usage_sendable :: "Usage \<Rightarrow> bool" where
  "usage_sendable u =
     (opt_all int64 (us_InputTokens u) \<and> opt_all int64 (us_OutputTokens u) \<and> opt_all int64 (us_TotalDurationNS u) \<and>
      opt_all int64 (us_LoadDurationNS u) \<and> opt_all int64 (us_GenerateDurationNS u))"

definition context_sendable :: "ContextInfo \<Rightarrow> bool" where
  "context_sendable c =
     (context_canon c \<and> opt_all int64 (ci_ModelCapacityTokens c) \<and> opt_all int64 (ci_RequestedTokens c) \<and>
      opt_all (\<lambda>ob. int64 (co_Tokens ob)) (ci_Loaded c) \<and> opt_all (\<lambda>es. int64 (te_Tokens es)) (ci_InputEstimate c) \<and>
      int64 (ci_ReservedOutputTokens c))"

definition result_sendable :: "Result \<Rightarrow> bool" where
  "result_sendable r =
     (opt_all options_sendable (rs_EffectiveOptions r) \<and> context_sendable (rs_Context r) \<and> usage_sendable (rs_Usage r))"

definition job_sendable :: "Job \<Rightarrow> bool" where
  "job_sendable j = (job_canon j \<and> request_sendable (jb_Request j) \<and> result_sendable (jb_Result j))"

definition queue_sendable :: "QueueState \<Rightarrow> bool" where
  "queue_sendable q =
     (list_all valid_utf8 (pending_ids q) \<and> opt_all valid_utf8 (qs_Active q) \<and> int64 (qs_MaxPending q))"

subsection \<open>Reading the parts of a job\<close>

lemma into_named_JStr [simp]: "into_named of_name name (JStr s) old = Some (of_name s)"
  by (simp add: into_named_def into_string_def)

lemma into_time_json [simp]: "host_text_ok h \<Longrightarrow> time_encodable t \<Longrightarrow> into_time h (time_json h t) old = Some t"
  by (simp add: into_time_def time_json_def host_text_ok_def)

lemma time_json_not_null [simp]: "time_json h t \<noteq> JNull" "options_json h o' \<noteq> JNull" "observation_json h ob \<noteq> JNull"
  "estimate_json es \<noteq> JNull" "lineage_json l \<noteq> JNull" "fault_json f \<noteq> JNull"
  by (simp_all add: time_json_def options_json_def observation_json_def estimate_json_def lineage_json_def fault_json_def)

lemma into_slice_map:
  assumes "\<And>x old. x \<in> set xs \<Longrightarrow> f (g x) zero = Some x"
  shows "into_slice f zero (JArr (map g xs)) [] = Some xs"
  using assms by (induction xs) (simp_all add: into_slice_def)

lemma message_into: "message_canon m \<Longrightarrow> into_chat_message (message_json m) zero_message = Some m"
  by (cases m) (simp add: message_canon_def into_chat_message_def message_json_def into_simps zero_message_def)

lemma instructions_into:
  "instructions_canon i \<Longrightarrow> into_instructions (instructions_json i) \<lparr>in_System = [], in_History = [], in_Prompt = []\<rparr> = Some i"
  using into_slice_map [of "in_History i" into_chat_message message_json zero_message] message_into
  by (cases i) (auto simp: instructions_canon_def list_all_iff into_instructions_def instructions_json_def into_simps)

lemma lineage_into: "lineage_canon l \<Longrightarrow> into_lineage (lineage_json l) zero_lineage = Some l"
  by (cases l) (simp add: lineage_canon_def into_lineage_def lineage_json_def into_simps zero_lineage_def)

lemma usage_into: "usage_sendable u \<Longrightarrow> into_usage (usage_json u) (rs_Usage zero_Result) = Some u"
  by (cases u; cases "us_InputTokens u"; cases "us_OutputTokens u"; cases "us_TotalDurationNS u";
      cases "us_LoadDurationNS u"; cases "us_GenerateDurationNS u")
    (simp_all add: usage_sendable_def into_usage_def usage_json_def into_simps zero_Result_def zero_Usage_def)

lemma estimate_into:
  "int64 (te_Tokens es) \<Longrightarrow> into_estimate (estimate_json es) \<lparr>te_Tokens = 0, te_Method = [], te_Exact = False\<rparr> = Some es"
  by (cases es) (simp add: into_estimate_def estimate_json_def into_simps into_bool_def)

lemma observation_into:
  assumes "host_text_ok h" and "int64 (co_Tokens ob)" and "time_encodable (co_ObservedAt ob)"
  shows "into_observation h (observation_json h ob) \<lparr>co_Tokens = 0, co_Model = [], co_Source = [], co_ObservedAt = 0\<rparr> = Some ob"
  using assms by (cases ob) (simp add: into_observation_def observation_json_def into_simps)

lemma context_into:
  assumes "host_text_ok h" and "context_sendable c"
  shows "into_context h (context_json h c) (rs_Context zero_Result) = Some c"
  using assms
  by (cases c; cases "ci_ModelCapacityTokens c"; cases "ci_ModelCapacityObservedAt c"; cases "ci_RequestedTokens c";
      cases "ci_Loaded c"; cases "ci_InputEstimate c")
    (simp_all add: context_sendable_def context_canon_def into_context_def context_json_def into_simps zero_Result_def
      zero_ContextInfo_def observation_into estimate_into)

lemma result_into:
  assumes "host_text_ok h" and "result_sendable r"
  shows "into_result h (result_json h r) zero_Result = Some r"
proof -
  have "into_context h (context_json h (rs_Context r)) (rs_Context zero_Result) = Some (rs_Context r)"
    "into_usage (usage_json (rs_Usage r)) (rs_Usage zero_Result) = Some (rs_Usage r)"
    "opt_all (\<lambda>o'. into_options h (options_json h o') (rq_Options zero_Request) = Some o') (rs_EffectiveOptions r)"
    using assms context_into usage_into options_into
    by (auto simp: result_sendable_def options_sendable_def opt_all_def split: option.splits)
  then show ?thesis
    by (cases r; cases "rs_EffectiveOptions r") (simp_all add: into_result_def result_json_def into_simps zero_Result_def)
qed

lemma details_into: "into_fault_details (JObj (map (\<lambda>(k, v). (k, JStr v)) kvs)) [] = Some kvs"
  by (induction kvs) (auto simp: into_fault_details_def into_string_def)

lemma fault_into: "fault_canon f \<Longrightarrow> into_fault (fault_json f) zero_fault = Some f"
  using details_into [of "ft_Details f"]
  by (cases f) (auto simp: fault_canon_def into_fault_def fault_json_def into_simps into_code_def into_bool_def
      zero_fault_def fault_def)

text \<open>A job and a queue state.\<close>

lemma job_into:
  assumes "host_text_ok h" and "job_sendable j"
  shows "into_job h (job_json h j) zero_job = Some j"
proof -
  have parts: "into_request h (request_json h (jb_Request j)) zero_Request = Some (jb_Request j)"
    "into_instructions (instructions_json (jb_Instructions j)) \<lparr>in_System = [], in_History = [], in_Prompt = []\<rparr> = Some (jb_Instructions j)"
    "into_result h (result_json h (jb_Result j)) zero_Result = Some (jb_Result j)"
    "opt_all (\<lambda>l. into_lineage (lineage_json l) zero_lineage = Some l) (jb_Lineage j)"
    "opt_all (\<lambda>f. into_fault (fault_json f) zero_fault = Some f) (jb_Error j)"
    using assms request_into result_into instructions_into lineage_into fault_into
    by (auto simp: job_sendable_def job_canon_def opt_all_def split: option.splits)
  have times: "time_encodable (jb_CreatedAt j)" "opt_all time_encodable (jb_StartedAt j)" "opt_all time_encodable (jb_FinishedAt j)"
    "state_of (state_str (jb_State j)) = jb_State j"
    using assms(2) by (simp_all add: job_sendable_def job_canon_def)
  show ?thesis
    using parts times assms(1)
    by (cases j; cases "jb_Lineage j"; cases "jb_StartedAt j"; cases "jb_FinishedAt j"; cases "jb_Error j")
      (simp_all add: into_job_def job_json_def into_simps zero_job_def)
qed

lemma queue_into:
  assumes "queue_sendable q"
  shows "into_queue (queue_json q) zero_queue = Some q"
proof -
  have "into_slice into_string [] (JArr (map JStr ids)) [] = Some ids" for ids
    by (rule into_slice_map) (simp add: into_string_def)
  then show ?thesis
    using assms by (cases q; cases "qs_Pending q"; cases "qs_Active q")
      (simp_all add: queue_sendable_def into_queue_def queue_json_def into_simps into_bool_def zero_queue_def)
qed

end
