(* ===== verification/Http_Remote.thy ===== *)
theory Http_Remote
  imports Http_Answers
begin

text \<open>
  A command given to the client, carried to the server and performed by the service behind it: over
  HTTP a command is the service's own operation, whatever the connection does.
\<close>

subsection \<open>Commands\<close>

datatype remote_command =
    RemoteSubmit SubmitCommand | RemoteRetry RetryCommand | RemoteBranch BranchCommand
  | RemoteCancel JobID | RemotePause bool | RemoteGet JobID

text \<open>How a client asks for them (\<open>docs/http.md\<close>).\<close>

fun remote_path :: "remote_command \<Rightarrow> bytes" where
  "remote_path (RemoteSubmit _) = ''/v1/submit''"
| "remote_path (RemoteRetry _) = ''/v1/retry''"
| "remote_path (RemoteBranch _) = ''/v1/branch''"
| "remote_path (RemoteCancel i) = ''/v1/jobs/'' @ i @ ''/cancel''"
| "remote_path (RemotePause b) = ''/v1/queue/'' @ (if b then ''pause'' else ''resume'')"
| "remote_path (RemoteGet i) = ''/v1/jobs/'' @ path_escape i"

fun remote_body :: "host \<Rightarrow> remote_command \<Rightarrow> json option" where
  "remote_body h (RemoteSubmit c) = Some (submit_json h c)"
| "remote_body h (RemoteRetry c) = Some (retry_json c)"
| "remote_body h (RemoteBranch c) = Some (branch_json h c)"
| "remote_body h (RemoteGet _) = None"
| "remote_body h _ = Some (JObj [])"

definition remote_method :: "host \<Rightarrow> remote_command \<Rightarrow> bytes" where
  "remote_method h c = (if remote_body h c = None then ''GET'' else ''POST'')"

text \<open>The client's call, with the answer it decodes.\<close>

definition remote_call :: "host \<Rightarrow> exchange \<Rightarrow> remote_command \<Rightarrow> goerr + (Job + QueueState)" where
  "remote_call h exch c =
     (let body = map_option Some (remote_body h c) in
      case c of
        RemotePause _ \<Rightarrow> map_sum id Inr (call_queue exch (remote_method h c) (remote_path c) body)
      | _ \<Rightarrow> map_sum id Inl (call_job h exch (remote_method h c) (remote_path c) body))"

text \<open>The call over a link: the server's state afterwards and what the client is told.\<close>

definition remote ::
  "host \<Rightarrow> handler \<Rightarrow> 'w service \<Rightarrow> (nat \<Rightarrow> nat option) \<Rightarrow> bytes \<Rightarrow> link \<Rightarrow> remote_command \<Rightarrow> 'w
    \<Rightarrow> 'w \<times> (goerr + (Job + QueueState))" where
  "remote h hh sv sf authority ln c w =
     (fst (over_link h hh sv sf authority ln (remote_method h c) (remote_path c) (map_option json_text (remote_body h c)) w),
      remote_call h (\<lambda>m p b. snd (over_link h hh sv sf authority ln m p b w)) c)"

subsection \<open>What it should be\<close>

text \<open>The operation of the service that the command names.\<close>

fun performed :: "'w service \<Rightarrow> remote_command \<Rightarrow> 'w \<Rightarrow> 'w \<times> (goerr + (Job + QueueState))" where
  "performed sv (RemoteSubmit c) w = apsnd (map_sum id Inl) (sv_Submit sv c w)"
| "performed sv (RemoteRetry c) w = apsnd (map_sum id Inl) (sv_Retry sv c w)"
| "performed sv (RemoteBranch c) w = apsnd (map_sum id Inl) (sv_Branch sv c w)"
| "performed sv (RemoteCancel i) w = apsnd (map_sum id Inl) (sv_Cancel sv i w)"
| "performed sv (RemotePause b) w = apsnd (map_sum id Inr) (sv_SetQueuePaused sv b w)"
| "performed sv (RemoteGet i) w = apsnd (map_sum id Inl) (sv_GetJob sv i w)"

text \<open>
  What the connection lets through: a request that does not arrive does nothing, one whose body is
  cut off is refused, and any other is performed; the client is told the outcome, with a fault in its
  public form, if the reply arrives whole.
\<close>

definition through_link :: "link \<Rightarrow> bool \<Rightarrow> ('w \<Rightarrow> 'w \<times> (goerr + 'a)) \<Rightarrow> 'w \<Rightarrow> 'w \<times> (goerr + 'a)" where
  "through_link ln has_payload op w =
     (let told = (\<lambda>res. if ln_Reply ln \<noteq> Some None then Inl connection
          else map_sum (\<lambda>e. FaultErr (seen_fault e)) id res) in
      case ln_Request ln of
        None \<Rightarrow> (w, Inl connection)
      | Some broken \<Rightarrow> if broken \<and> has_payload then (w, told (Inl (code_fault ErrLimitExceeded))) else apsnd told (op w))"

subsection \<open>Conditions\<close>

definition handler_ready :: "handler \<Rightarrow> bytes \<Rightarrow> bool" where
  "handler_ready hh authority =
     (sameAuthority authority (hd_Host hh) \<and> hd_Busy hh < slot_count \<and>
      hd_Media hh ''application/json'' = Some (''application/json'', []))"

fun command_sendable :: "host \<Rightarrow> remote_command \<Rightarrow> bool" where
  "command_sendable h (RemoteSubmit c) =
     (list_all valid_utf8 [sc_Key c, sc_Origin c] \<and> request_sendable (sc_Request c) \<and> length (json_text (submit_json h c)) \<le> MaxBody)"
| "command_sendable h (RemoteRetry c) =
     (list_all valid_utf8 [rt_Key c, rt_Origin c, rt_ParentID c] \<and> length (json_text (retry_json c)) \<le> MaxBody)"
| "command_sendable h (RemoteBranch c) =
     (list_all valid_utf8 [bc_Key c, bc_Origin c, bc_ParentID c] \<and> request_sendable (bc_Request c) \<and>
      length (json_text (branch_json h c)) \<le> MaxBody)"
| "command_sendable h (RemoteCancel i) = jobID i"
| "command_sendable h (RemotePause b) = True"
| "command_sendable h (RemoteGet i) = jobID i"

fun answer_sendable :: "host \<Rightarrow> goerr + (Job + QueueState) \<Rightarrow> bool" where
  "answer_sendable h (Inl e) = True"
| "answer_sendable h (Inr (Inl j)) = (job_sendable j \<and> length (json_text (job_json h j)) < MaxResponse)"
| "answer_sendable h (Inr (Inr q)) = (queue_sendable q \<and> length (json_text (queue_json q)) < MaxResponse)"

subsection \<open>The request arrives\<close>

lemma jobID_plain:
  assumes "jobID i"
  shows "CHR ''/'' \<notin> set i" and "path_escape i = i" and "i \<noteq> []"
proof -
  have c: "unreserved c \<and> c \<noteq> CHR ''/''" if "c \<in> set i" for c
  proof -
    have "hex_lower c" using that assms by (simp add: jobID_def list_all_iff)
    moreover have "list_all (\<lambda>c. unreserved c \<and> c \<noteq> CHR ''/'') ''0123456789abcdef''" by code_simp
    ultimately show ?thesis unfolding hex_lower_def list_all_iff by blast
  qed
  then show "CHR ''/'' \<notin> set i" by blast
  have "path_escape i = concat (map (\<lambda>x. [x]) i)"
    unfolding path_escape_def using c by (intro arg_cong [where f = concat] map_cong) simp_all
  then show "path_escape i = i" by simp
  show "i \<noteq> []" using assms by (auto simp: jobID_def)
qed

lemma job_path_parts:
  assumes "jobID i"
  shows "job_parts (''/v1/jobs/'' @ i @ ''/cancel'') = [i, ''cancel'']" and "job_parts (''/v1/jobs/'' @ i) = [i]"
  using split_at_append [of "CHR ''/''" i "''cancel''"] split_at_none [of "CHR ''/''" i] jobID_plain [OF assms]
  by (simp_all add: job_parts_def trim_prefix_def has_prefix_def)

lemma remote_route:
  assumes "command_sendable h c"
  shows "route (remote_path c) = Some (remote_method h c)" and "Asset a (remote_path c) = None"
    and "remote_path c \<noteq> ''/v1/events''"
proof -
  have post: "list_all (\<lambda>p. route p = Some ''POST'') post_paths" by code_simp
  have "route (remote_path c) = Some (remote_method h c)"
  proof (cases c)
    case (RemoteCancel i)
    then show ?thesis using assms job_path_parts(1) [of i] by (simp add: route_def remote_method_def get_paths_def post_paths_def has_prefix_def)
  next
    case (RemoteGet i)
    then show ?thesis using assms job_path_parts(2) [of i] jobID_plain [of i]
      by (simp add: route_def remote_method_def get_paths_def post_paths_def has_prefix_def)
  qed (use post in \<open>auto simp: post_paths_def remote_method_def\<close>)
  then show "route (remote_path c) = Some (remote_method h c)" .
  show "Asset a (remote_path c) = None" "remote_path c \<noteq> ''/v1/events''"
    by (cases c; simp add: Asset_def)+
qed

lemma ready_refusal:
  "handler_ready hh authority \<Longrightarrow> refusal hh (client_request authority broken method path body) = None"
  by (simp add: handler_ready_def refusal_def client_request_def origin_refused_def site_refused_def)

lemma remote_served:
  assumes "handler_ready hh authority" and "command_sendable h c"
  shows "ServeHTTP h hh sv sf (client_request authority broken (remote_method h c) (remote_path c) body) w =
    apsnd HttpReply
      ((if remote_method h c = ''GET'' then serve_get h sv else serve_post h hh sv)
        (client_request authority broken (remote_method h c) (remote_path c) body) w)"
proof -
  have q: "parse_query [] = Some []" by code_simp
  let ?r = "client_request authority broken (remote_method h c) (remote_path c) body"
  have r: "hr_Path ?r = remote_path c" "hr_Method ?r = remote_method h c" "hr_RawQuery ?r = []"
    by (simp_all add: client_request_def)
  show ?thesis
    unfolding ServeHTTP_def ready_refusal [OF assms(1)] r remote_route [OF assms(2)] option.case q
    using remote_route(3) [OF assms(2)] by simp
qed

text \<open>The service's operation runs with the command, once, and its result is the body of the reply.\<close>

definition answer_json :: "host \<Rightarrow> Job + QueueState \<Rightarrow> json option" where
  "answer_json h x = (case x of Inl j \<Rightarrow> job_body h j | Inr q \<Rightarrow> Some (queue_json q))"

lemma reply_with_sum:
  "reply_with (job_body h) res = reply_with (answer_json h) (apsnd (map_sum id Inl) res)"
  "reply_with (Some \<circ> queue_json) res' = reply_with (answer_json h) (apsnd (map_sum id Inr) res')"
  by (cases res; cases "snd res"; simp add: reply_with_def answer_json_def)
    (cases res'; cases "snd res'"; simp add: reply_with_def answer_json_def)

lemma client_headers:
  "header_values (client_request authority broken m p (Some b)) ''Content-Type'' = [''application/json'']"
  "header_values (client_request authority broken m p (Some b)) ''Content-Encoding'' = []"
  by (simp_all add: header_values_def client_request_def)

lemma ready_media:
  "handler_ready hh authority \<Longrightarrow> \<not> media_refused hh (client_request authority broken m p (Some b))"
  by (simp add: media_refused_def header_get_def client_headers handler_ready_def)

lemma body_fits: "command_sendable h c \<Longrightarrow> remote_body h c = Some j \<Longrightarrow> length (json_text j) \<le> MaxBody"
  by (cases c) (auto simp: MaxBody_def)

text \<open>What is left of \<open>serve_post\<close> for a request of the client.\<close>

lemma client_post:
  assumes "handler_ready hh authority" and "length b \<le> MaxBody"
  shows "serve_post h hh sv (client_request authority broken m p (Some b)) w =
    (if broken then (w, fail (code_fault ErrLimitExceeded))
     else if p = ''/v1/submit'' then with_command (decode_submit h b) (\<lambda>c w. reply_with (job_body h) (sv_Submit sv c w)) w
     else if p = ''/v1/retry'' then with_command (decode_retry b) (\<lambda>c w. reply_with (job_body h) (sv_Retry sv c w)) w
     else if p = ''/v1/branch'' then with_command (decode_branch h b) (\<lambda>c w. reply_with (job_body h) (sv_Branch sv c w)) w
     else with_command (decode_empty b) (\<lambda>_ w.
       if has_prefix p ''/v1/queue/''
       then reply_with (Some \<circ> queue_json) (sv_SetQueuePaused sv (p = ''/v1/queue/pause'') w)
       else reply_with (job_body h) (sv_Cancel sv (path_job p) w)) w)"
proof -
  let ?r = "client_request authority broken m p (Some b)"
  have r: "hr_Path ?r = p" "hr_Body ?r = b" "hr_BodyErr ?r = broken" by (simp_all add: client_request_def option_or_def)
  show ?thesis
    unfolding serve_post_def Let_def r client_headers using ready_media [OF assms(1)] assms(2) by simp
qed

lemma empty_arrives: "decode_empty (json_text (JObj [])) = Inr ()"
  unfolding decode_empty_def by (rule decode_marshalled) (simp_all add: MaxBody_def maxNestingDepth_def into_empty_def into_struct_def)

lemma posted:
  assumes "host_text_ok h" "number_texts h" "handler_ready hh authority" "command_sendable h c" "remote_body h c = Some j"
  shows "serve_post h hh sv (client_request authority broken m (remote_path c) (Some (json_text j))) w =
    (if broken then (w, fail (code_fault ErrLimitExceeded)) else reply_with (answer_json h) (performed sv c w))"
proof (cases c)
  case (RemoteSubmit s)
  then have "decode_submit h (json_text (submit_json h s)) = Inr s" using assms(1,2,4) by (intro submit_arrives) auto
  then show ?thesis unfolding client_post [OF assms(3) body_fits [OF assms(4,5)]]
    using RemoteSubmit assms(5) by (auto simp: with_command_def reply_with_sum)
next
  case (RemoteRetry s)
  then have "decode_retry (json_text (retry_json s)) = Inr s" using assms(4) by (intro retry_arrives) auto
  then show ?thesis unfolding client_post [OF assms(3) body_fits [OF assms(4,5)]]
    using RemoteRetry assms(5) by (auto simp: with_command_def reply_with_sum)
next
  case (RemoteBranch s)
  then have "decode_branch h (json_text (branch_json h s)) = Inr s" using assms(1,2,4) by (intro branch_arrives) auto
  then show ?thesis unfolding client_post [OF assms(3) body_fits [OF assms(4,5)]]
    using RemoteBranch assms(5) by (auto simp: with_command_def reply_with_sum)
next
  case (RemoteCancel i)
  then have "path_job (remote_path c) = i" using assms(4) job_path_parts(1) [of i] by (simp add: path_job_def)
  moreover have "j = JObj []" using RemoteCancel assms(5) by simp
  ultimately show ?thesis unfolding client_post [OF assms(3) body_fits [OF assms(4,5)]]
    using RemoteCancel empty_arrives by (auto simp: with_command_def reply_with_sum has_prefix_def simp del: json_text.simps)
next
  case (RemotePause b)
  then have "j = JObj []" using assms(5) by simp
  then show ?thesis unfolding client_post [OF assms(3) body_fits [OF assms(4,5)]]
    using RemotePause empty_arrives by (auto simp: with_command_def reply_with_sum has_prefix_def simp del: json_text.simps)
qed (use assms(5) in simp)

lemma gotten:
  assumes "jobID i"
  shows "serve_get h sv (client_request authority broken (remote_method h (RemoteGet i)) (remote_path (RemoteGet i)) None) w =
    reply_with (answer_json h) (performed sv (RemoteGet i) w)"
proof -
  have "path_job (''/v1/jobs/'' @ i) = i" using job_path_parts(2) [OF assms] by (simp add: path_job_def)
  then show ?thesis
    using jobID_plain [OF assms]
    by (simp add: serve_get_def client_request_def has_body_def option_or_def reply_with_sum)
qed

lemma remote_over:
  assumes "host_text_ok h" "number_texts h" "handler_ready hh authority" "command_sendable h c"
  shows "over_link h hh sv sf authority ln (remote_method h c) (remote_path c) (map_option json_text (remote_body h c)) w =
    (case ln_Request ln of
       None \<Rightarrow> (w, None)
     | Some broken \<Rightarrow> apsnd (received ln)
         (if broken \<and> remote_body h c \<noteq> None then (w, fail (code_fault ErrLimitExceeded))
          else reply_with (answer_json h) (performed sv c w)))"
proof (cases "ln_Request ln")
  case (Some broken)
  let ?r = "client_request authority broken (remote_method h c) (remote_path c) (map_option json_text (remote_body h c))"
  have "ServeHTTP h hh sv sf ?r w = apsnd HttpReply
      (if broken \<and> remote_body h c \<noteq> None then (w, fail (code_fault ErrLimitExceeded))
       else reply_with (answer_json h) (performed sv c w))"
  proof (cases "remote_body h c")
    case None
    then obtain i where i: "c = RemoteGet i" by (cases c) auto
    show ?thesis
      unfolding remote_served [OF assms(3,4)] using gotten [of i h sv authority broken w] None i assms(4)
      by (simp add: remote_method_def)
  next
    case (Some j)
    then have "remote_method h c \<noteq> ''GET''" by (simp add: remote_method_def)
    then show ?thesis
      unfolding remote_served [OF assms(3,4)] using posted [OF assms Some, of sv broken "remote_method h c" w] Some by simp
  qed
  then show ?thesis using Some by (simp add: over_link_def apsnd_def map_prod_def split: prod.split)
qed (simp add: over_link_def)

subsection \<open>The reply is read\<close>

definition payload_text :: "json option option \<Rightarrow> bytes option" where
  "payload_text body = (case body of Some (Some j) \<Rightarrow> Some (json_text j) | _ \<Rightarrow> None)"

lemma payload_text_map: "payload_text (map_option Some b) = map_option json_text b"
  by (cases b) (simp_all add: payload_text_def)

lemma Call_unanswered: "exch m p (payload_text body) = None \<Longrightarrow> body \<noteq> Some None \<Longrightarrow> Call exch into zero m p body = Inl connection"
  by (simp add: Call_def payload_text_def)

lemma Call_cut:
  assumes "exch m p (payload_text body) = received ln resp" and "body \<noteq> Some None"
    and "ln_Reply ln = Some (Some n)" and "length (hp_Body resp) \<le> (if hp_Status resp \<noteq> 200 then 4096 else MaxResponse)"
  shows "Call exch into zero m p body = Inl connection"
proof -
  let ?b = "take n (hp_Body resp)"
  have "length ?b \<le> (if hp_Status resp \<noteq> 200 then 4096 else MaxResponse)"
    using assms(4) by (simp add: min.coboundedI1 split: if_splits)
  then show ?thesis
    using assms(1-3) unfolding Call_def payload_text_def [symmetric] Let_def received_def by (simp del: length_take take_append)
qed

lemma Call_faulted:
  assumes "exch m p (payload_text body) = received ln (fail e)" and "body \<noteq> Some None"
  shows "Call exch into zero m p body = Inl (if ln_Reply ln = Some None then FaultErr (seen_fault e) else connection)"
proof (cases "ln_Reply ln")
  case (Some broken)
  note body = fail_reply [of e] fault_text_short [of e]
  show ?thesis
  proof (cases broken)
    case None
    then show ?thesis
      using assms Some body read_fault_seen [of e] by (simp add: Call_def payload_text_def [symmetric] received_def)
  next
    case (Some n)
    then show ?thesis using Call_cut [of exch m p body ln "fail e" n] assms \<open>ln_Reply ln = Some broken\<close> body by simp
  qed
qed (use assms in \<open>simp add: received_def Call_unanswered\<close>)

lemma Call_answered:
  assumes "exch m p (payload_text body) = received ln (writeJSON 200 (Some v) base_headers)" and "body \<noteq> Some None"
    and "parse_go (json_text v @ [newline]) = Some v" and "length (json_text v) < MaxResponse" and "into v zero = Some x"
  shows "Call exch into zero m p body = (if ln_Reply ln = Some None then Inr x else Inl connection)"
proof (cases "ln_Reply ln")
  case (Some broken)
  show ?thesis
  proof (cases broken)
    case None
    then show ?thesis
      using assms Some by (simp add: Call_def payload_text_def [symmetric] received_def writeJSON_def encoded_def)
  next
    case (Some n)
    then show ?thesis
      using Call_cut [of exch m p body ln "writeJSON 200 (Some v) base_headers" n] assms(1,2,4) \<open>ln_Reply ln = Some broken\<close> by (simp add: writeJSON_def encoded_def)
  qed
qed (use assms in \<open>simp add: received_def Call_unanswered\<close>)

lemma answer_read:
  assumes "host_text_ok h" and "number_texts h"
  shows "job_sendable j \<Longrightarrow> parse_go (json_text (job_json h j) @ [newline]) = Some (job_json h j)"
    and "queue_sendable q \<Longrightarrow> parse_go (json_text (queue_json q) @ [newline]) = Some (queue_json q)"
proof -
  assume "job_sendable j"
  then have "go_ok (job_json h j)" using job_go assms by (simp add: job_sendable_def)
  then show "parse_go (json_text (job_json h j) @ [newline]) = Some (job_json h j)"
    using depth_job [of h j] by (intro parse_go_line) (auto simp: depth_le_def maxNestingDepth_def)
next
  assume "queue_sendable q"
  then have "go_ok (queue_json q)" using queue_go by (simp add: queue_sendable_def)
  then show "parse_go (json_text (queue_json q) @ [newline]) = Some (queue_json q)"
    using depth_queue [of q] by (intro parse_go_line) (auto simp: depth_le_def maxNestingDepth_def)
qed

subsection \<open>The whole way\<close>

lemma performed_kind: "performed sv c w = (w', Inr x) \<Longrightarrow> isl x = (case c of RemotePause _ \<Rightarrow> False | _ \<Rightarrow> True)"
  by (cases c) (auto simp: apsnd_def map_prod_def map_sum_def split: prod.splits sum.splits)

abbreviation request_payload :: "host \<Rightarrow> remote_command \<Rightarrow> json option option" where
  "request_payload h c \<equiv> map_option Some (remote_body h c)"

lemma payload_sent: "request_payload h c \<noteq> Some None"
  by (cases "remote_body h c") simp_all

lemma remote_call_cases:
  "remote_call h exch c =
     (if (case c of RemotePause _ \<Rightarrow> True | _ \<Rightarrow> False)
      then map_sum id Inr (Call exch into_queue zero_queue (remote_method h c) (remote_path c) (request_payload h c))
      else map_sum id Inl (Call exch (into_job h) zero_job (remote_method h c) (remote_path c) (request_payload h c)))"
  by (simp add: remote_call_def call_job_def call_queue_def Let_def split: remote_command.split)

lemma remote_call_unanswered:
  assumes "exch (remote_method h c) (remote_path c) (map_option json_text (remote_body h c)) = None"
  shows "remote_call h exch c = Inl connection"
proof -
  note answer = Call_unanswered [of exch "remote_method h c" "remote_path c" "request_payload h c", unfolded payload_text_map,
    OF assms payload_sent]
  show ?thesis by (simp only: remote_call_cases answer map_sum.simps id_apply if_cancel)
qed

lemma remote_call_faulted:
  assumes "exch (remote_method h c) (remote_path c) (map_option json_text (remote_body h c)) = received ln (fail e)"
  shows "remote_call h exch c = Inl (if ln_Reply ln = Some None then FaultErr (seen_fault e) else connection)"
proof -
  note answer = Call_faulted [of exch "remote_method h c" "remote_path c" "request_payload h c", unfolded payload_text_map,
    OF assms payload_sent]
  show ?thesis by (simp only: remote_call_cases answer map_sum.simps id_apply if_cancel)
qed

lemma remote_call_answered:
  assumes "host_text_ok h" "number_texts h" and "answer_sendable h (Inr x)" and "performed sv c w = (w', Inr x)"
    and "exch (remote_method h c) (remote_path c) (map_option json_text (remote_body h c)) =
      received ln (writeJSON 200 (answer_json h x) base_headers)"
  shows "remote_call h exch c = (if ln_Reply ln = Some None then Inr x else Inl connection)"
proof -
  note n = payload_sent [of h c]
  show ?thesis
  proof (cases x)
    case (Inl j)
    then have s: "job_sendable j" "length (json_text (job_json h j)) < MaxResponse" using assms(3) by simp_all
    then have "job_encodable j" by (simp add: job_sendable_def job_canon_encodable)
    then have "answer_json h x = Some (job_json h j)" by (simp add: answer_json_def Inl job_body_def)
    note a = Call_answered [where into = "into_job h" and zero = zero_job, OF _ n answer_read(1) [OF assms(1,2) s(1)] s(2) job_into [OF assms(1) s(1)],
        of exch "remote_method h c" "remote_path c" ln, unfolded payload_text_map, OF assms(5) [unfolded this]]
    then show ?thesis
      using performed_kind [OF assms(4)] Inl by (cases c) (simp_all add: remote_call_cases)
  next
    case (Inr q)
    then have s: "queue_sendable q" "length (json_text (queue_json q)) < MaxResponse" using assms(3) by simp_all
    have "answer_json h x = Some (queue_json q)" by (simp add: answer_json_def Inr)
    note a = Call_answered [where into = into_queue and zero = zero_queue, OF _ n answer_read(2) [OF assms(1,2) s(1)] s(2) queue_into [OF s(1)],
        of exch "remote_method h c" "remote_path c" ln, unfolded payload_text_map, OF assms(5) [unfolded this]]
    then show ?thesis
      using performed_kind [OF assms(4)] Inr by (cases c) (simp_all add: remote_call_cases)
  qed
qed

lemma remote_through:
  assumes "host_text_ok h" and "number_texts h" and "handler_ready hh authority"
    and "command_sendable h c" and "answer_sendable h (snd (performed sv c w))"
  shows "remote h hh sv sf authority ln c w = through_link ln (remote_body h c \<noteq> None) (performed sv c) w"
proof -
  let ?exch = "\<lambda>m p b. snd (over_link h hh sv sf authority ln m p b w)"
  note over = remote_over [OF assms(1-4), of sv sf ln w]
  show ?thesis
  proof (cases "ln_Request ln")
    case None
    have "remote_call h ?exch c = Inl connection" using over None by (intro remote_call_unanswered) simp
    then show ?thesis using over None by (simp add: remote_def through_link_def)
  next
    case (Some broken)
    show ?thesis
    proof (cases "broken \<and> remote_body h c \<noteq> None")
      case True
      then have "remote_call h ?exch c =
          Inl (if ln_Reply ln = Some None then FaultErr (seen_fault (code_fault ErrLimitExceeded)) else connection)"
        using over Some by (intro remote_call_faulted) simp
      then show ?thesis using over Some True by (simp add: remote_def through_link_def)
    next
      case False
      obtain w' res where p: "performed sv c w = (w', res)" by fastforce
      show ?thesis
      proof (cases res)
        case (Inl e)
        then have "remote_call h ?exch c = Inl (if ln_Reply ln = Some None then FaultErr (seen_fault e) else connection)"
          using over Some False p by (intro remote_call_faulted) (auto simp: reply_with_def)
        then show ?thesis using over Some False p Inl by (auto simp: remote_def through_link_def reply_with_def)
      next
        case (Inr x)
        then have "remote_call h ?exch c = (if ln_Reply ln = Some None then Inr x else Inl connection)"
          using over Some False p assms(5) by (intro remote_call_answered [OF assms(1,2)]) (auto simp: reply_with_def)
        then show ?thesis using over Some False p Inr by (auto simp: remote_def through_link_def reply_with_def)
      qed
    qed
  qed
qed

text \<open>
  C39. A command sent over HTTP is the service's own command. For every service behind the handler and
  every connection: a submit, retry, branch, cancel, pause, resume or get that the client sends runs
  the operation of the service it names, with its own arguments, exactly once, if the request arrives whole, and
  nothing otherwise; the state afterwards is the one that operation leaves. The client gets exactly the job or
  queue state that the operation returned, or its fault with the public code and no other detail, if
  the reply arrives whole; a lost or cut reply, and a request that does not arrive, is the client's own connection
  fault, and a body that was cut is refused with \<open>limit_exceeded\<close>.
\<close>

theorem remote_is_local:
  assumes "host_text_ok h" and "number_texts h" and "handler_ready hh authority"
    and "command_sendable h c" and "answer_sendable h (snd (performed sv c w))"
  shows "remote h hh sv sf authority ln c w = through_link ln (remote_body h c \<noteq> None) (performed sv c) w"
  by (rule remote_through [OF assms])

end
