(* ===== verification/Http_Samples.thy ===== *)
theory Http_Samples
  imports Http_Service Http_Remote Samples
begin

text \<open>
  Concrete commands, requests and streams on which the HTTP properties are exercised.
\<close>

lemma sample_numbers: "number_texts sample_host"
  by (simp add: number_texts_def sample_host_def num_ok_dec_nat)

subsection \<open>Commands\<close>

definition sample_submit :: SubmitCommand where
  "sample_submit = \<lparr>sc_Key = ''k'', sc_Origin = ''cli'', sc_Request = sample_request\<rparr>"

definition sample_retry :: RetryCommand where
  "sample_retry = \<lparr>rt_Key = ''k2'', rt_Origin = [], rt_ParentID = ''a''\<rparr>"

definition sample_branch :: BranchCommand where
  "sample_branch = \<lparr>bc_Key = ''k3'', bc_Origin = [], bc_ParentID = ''a'',
     bc_Request = sample_request\<lparr>rq_Options := \<lparr>op_ContextTokens = Some 4096, op_MaxOutputTokens = 16, op_Temperature = Some 5,
       op_Seed = Some (- 7)\<rparr>\<rparr>\<rparr>"

lemma sample_sendable:
  "request_sendable (sc_Request sample_submit)" "request_sendable (bc_Request sample_branch)"
  by code_simp+

lemma sample_command_bounds:
  "json_bound (submit_json sample_host sample_submit) < 10000" "json_bound (retry_json sample_retry) < 10000"
  "json_bound (branch_json sample_host sample_branch) < 10000"
  by code_simp+

theorem commands_arrive_witness:
  "decode_submit sample_host (json_text (submit_json sample_host sample_submit)) = Inr sample_submit \<and>
   decode_retry (json_text (retry_json sample_retry)) = Inr sample_retry \<and>
   decode_branch sample_host (json_text (branch_json sample_host sample_branch)) = Inr sample_branch"
proof (rule commands_arrive [OF sample_host_text sample_numbers])
  show "list_all valid_utf8 [sc_Key sample_submit, sc_Origin sample_submit, rt_Key sample_retry, rt_Origin sample_retry,
      rt_ParentID sample_retry, bc_Key sample_branch, bc_Origin sample_branch, bc_ParentID sample_branch]"
    by code_simp
qed (use sample_sendable sample_command_bounds json_bound [of "submit_json sample_host sample_submit"]
    json_bound [of "retry_json sample_retry"] json_bound [of "branch_json sample_host sample_branch"]
    in \<open>simp_all add: MaxBody_def\<close>)

subsection \<open>A request to the running worker\<close>

definition sample_handler :: handler where
  "sample_handler = \<lparr>hd_Host = ''127.0.0.1:8765'', hd_Assets = \<lparr>as_page = [], as_style = [], as_app = [], as_state = []\<rparr>,
     hd_Media = (\<lambda>v. Some (v, [])), hd_Busy = 0\<rparr>"

definition sample_pause :: http_request where
  "sample_pause = \<lparr>hr_Host = ''127.0.0.1:8765'', hr_Header = [''Content-Type'' \<mapsto> [''application/json'']], hr_Method = ''POST'',
     hr_Path = ''/v1/queue/pause'', hr_RawPath = [], hr_RawQuery = [], hr_ContentLength = 2, hr_TransferEncoding = [],
     hr_Body = [CHR 0x7B, CHR 0x7D], hr_BodyErr = False\<rparr>"

definition sample_calls :: call_ctx where
  "sample_calls = \<lparr>cc_entry = None, cc_locked = None, cc_detached = None\<rparr>"

definition sample_next :: next_ctx where
  "sample_next = \<lparr>nc_head = None, nc_call = sample_calls, nc_after = None\<rparr>"

abbreviation sample_service :: "Journal Worker service" where
  "sample_service \<equiv> worker_service sample_host (journal_ops sample_host) sample_calls sample_next (Inr [])"

lemma sample_pause_keeps:
  "running sample_host (fst (ServeHTTP sample_host sample_handler sample_service (\<lambda>_. None) sample_pause sample_busy))"
  using http_keeps_worker [OF sample_host_ok sample_host_text, of sample_busy sample_handler sample_calls sample_next "Inr []"
      "\<lambda>_. None" sample_pause] sample_runs
  by (metis prod.collapse)

lemma sample_pause_effect:
  "refusal sample_handler sample_pause = None" "route (hr_Path sample_pause) = Some ''POST''"
  "decode_empty (hr_Body sample_pause) = Inr ()" "parse_query (hr_RawQuery sample_pause) = Some []"
  by code_simp+

subsection \<open>A command over the network\<close>

definition sample_link :: link where
  "sample_link = \<lparr>ln_Request = Some False, ln_Reply = Some None\<rparr>"

lemma sample_resume:
  "performed sample_service (RemotePause False) sample_busy = (sample_busy, Inr (Inr sample_busy_queue))"
proof -
  have "clone_queue sample_busy_queue = sample_busy_queue" "\<not> qs_Paused sample_busy_queue" by code_simp+
  moreover have "idle sample_busy" by (simp add: idle_def sample_busy_simps sample_running_def sample_busy_queue_def)
  ultimately show ?thesis
    by (simp add: worker_service_def sample_calls_def SetQueuePaused_def call_def setQueuePaused_def available_def
        sample_busy_simps sample_running_def dispatch_def Let_def)
qed

theorem remote_is_local_witness:
  "remote sample_host sample_handler sample_service (\<lambda>_. None) ''127.0.0.1:8765'' sample_link (RemotePause False) sample_busy =
     (sample_busy, Inr (Inr sample_busy_queue))"
proof -
  have r: "handler_ready sample_handler ''127.0.0.1:8765''"
    by (simp add: handler_ready_def sample_handler_def sameAuthority_def slot_count_def)
  have "queue_sendable sample_busy_queue"
    by (simp add: queue_sendable_def sample_busy_queue_def pending_ids_def int64_def valid_utf8_ascii)
  moreover have "length (json_text (queue_json sample_busy_queue)) < MaxResponse"
    using sample_bounds(10) json_bound [of "queue_json sample_busy_queue"] by (simp add: MaxResponse_def del: json_text.simps)
  ultimately have s: "answer_sendable sample_host (snd (performed sample_service (RemotePause False) sample_busy))"
    unfolding sample_resume by simp
  show ?thesis
    using remote_is_local [OF sample_host_text sample_numbers r _ s, of "\<lambda>_. None" sample_link] sample_resume
    by (simp add: through_link_def sample_link_def)
qed

subsection \<open>A stream\<close>

lemma sample_accept_small: "length (json_text (event_json sample_host sample_accept)) < 8000"
  using event_bound [of sample_host sample_accept] sample_bounds json_bound [of "event_json sample_host sample_accept"]
  by (simp add: sample_accept_def opt_bound_def)

lemma sample_accept_item: "item_ok sample_host (Ev sample_accept)"
proof -
  have "event_canon sample_accept" "store_id (cu_StoreID (ev_Cursor sample_accept))" by code_simp+
  then show ?thesis using sample_accept_small by (simp add: MaxEvent_def)
qed

theorem event_stream_roundtrip_witness:
  "watch_body (\<lambda>_. None) (stream_output sample_host Hello [Beat, Ev sample_accept] (\<lambda>_. None)) =
     ([frame_of ''event'' (sample_cursor 1) (event_json sample_host sample_accept)], connection)"
  using event_stream_roundtrip [OF sample_host_text sample_numbers, of Hello "[Beat, Ev sample_accept]"
      "stream_output sample_host Hello [Beat, Ev sample_accept] (\<lambda>_. None)" "\<lambda>_. None"] sample_accept_item
  by (simp add: sample_accept_def)

end
