(* ===== verification/Mcp_View.thy ===== *)
theory Mcp_View
  imports Http_Client
begin

text \<open>
  \<open>internal/adapters/mcpbridge/view.go\<close>: how service jobs become tool results. An object of type
  \<open>map[string]any\<close> is the list of its members sorted by key, as \<open>json.Marshal\<close> writes it; a nil
  map reads as an empty one.
\<close>

definition MaxMessageBytes :: nat where "MaxMessageBytes = 9437184"
definition MaxResultBytes :: nat where "MaxResultBytes = 262144"
definition MaxInlineEvent :: nat where "MaxInlineEvent = 131072"

subsection \<open>Objects\<close>

type_synonym object = "(bytes \<times> json) list"

fun set_key :: "bytes \<Rightarrow> json \<Rightarrow> object \<Rightarrow> object" where
  "set_key k v [] = [(k, v)]"
| "set_key k v (kv # m) =
     (if k = fst kv then (k, v) # m else if bytes_less k (fst kv) then (k, v) # kv # m else kv # set_key k v m)"

definition delete_key :: "bytes \<Rightarrow> object \<Rightarrow> object" where
  "delete_key k m = filter (\<lambda>kv. fst kv \<noteq> k) m"

text \<open>A decoded value: of members with the same key the last counts.\<close>

fun as_any :: "json \<Rightarrow> json" where
  "as_any (JArr vs) = JArr (map as_any vs)"
| "as_any (JObj kvs) = JObj (fold (\<lambda>kv m. set_key (fst kv) (snd kv) m) (map (\<lambda>kv. (fst kv, as_any (snd kv))) kvs) [])"
| "as_any v = v"

definition invalid_response :: goerr where
  "invalid_response = FaultErr (fault ErrInternal MessageInvalidResponse)"

definition decode_value :: "json \<Rightarrow> goerr + object" where
  "decode_value v = (case as_any v of JObj m \<Rightarrow> Inr m | _ \<Rightarrow> Inl invalid_response)"

definition decodeObject :: "bytes \<Rightarrow> goerr + object" where
  "decodeObject b = (case first_value b of None \<Rightarrow> Inl invalid_response | Some v \<Rightarrow> decode_value v)"

definition objectAt :: "object \<Rightarrow> bytes \<Rightarrow> object option" where
  "objectAt m key = (case map_of m key of Some (JObj o') \<Rightarrow> Some o' | _ \<Rightarrow> None)"

definition members :: "object option \<Rightarrow> object" where
  "members x = (case x of None \<Rightarrow> [] | Some m \<Rightarrow> m)"

definition stringAt :: "object \<Rightarrow> bytes \<Rightarrow> bytes" where
  "stringAt m key = (case map_of m key of Some (JStr s) \<Rightarrow> s | _ \<Rightarrow> [])"

definition stateOf :: "object \<Rightarrow> JobState" where
  "stateOf job = state_of (stringAt job ''state'')"

definition outputOf :: "object \<Rightarrow> bytes" where
  "outputOf job = stringAt (members (objectAt job ''result'')) ''text''"

subsection \<open>The view of a job\<close>

record omission =
  om_Part :: bytes
  om_Reason :: bytes
  om_Bytes :: nat
  om_RetrieveVia :: bytes

definition omission_json :: "omission \<Rightarrow> json" where
  "omission_json x = JObj ([(''part'', JStr (om_Part x)), (''reason'', JStr (om_Reason x))] @
     (if om_Bytes x = 0 then [] else [(''bytes'', JInt (int (om_Bytes x)))]) @ str_field ''retrieve_via'' (om_RetrieveVia x))"

definition strip_output :: "bytes \<Rightarrow> nat \<Rightarrow> object \<times> omission list \<Rightarrow> object \<times> omission list" where
  "strip_output reason total_bytes s =
     (case s of (view, om) \<Rightarrow>
        (set_key ''result'' (JObj (delete_key ''text'' (members (objectAt view ''result'')))) view,
         om @ [\<lparr>om_Part = ''output'', om_Reason = reason, om_Bytes = total_bytes, om_RetrieveVia = ''read_job_output''\<rparr>]))"

definition input_keys :: "bytes list" where
  "input_keys = [''prompt'', ''role'', ''system_prompt'']"

definition string_size :: "json \<Rightarrow> nat" where
  "string_size v = (case v of JStr s \<Rightarrow> length s | _ \<Rightarrow> 0)"

definition strip_inputs :: "bytes \<Rightarrow> object \<times> omission list \<Rightarrow> object \<times> omission list" where
  "strip_inputs reason s =
     (case s of (view, om) \<Rightarrow>
        (let req = members (objectAt view ''request'');
             inputs = filter (\<lambda>kv. fst kv \<in> set input_keys) req;
             rest = filter (\<lambda>kv. fst kv \<notin> set input_keys) req;
             ins = (case map_of view ''instructions'' of None \<Rightarrow> JNull | Some v \<Rightarrow> v);
             size_bytes = sum_list (map (string_size \<circ> snd) inputs) + length (json_text ins) in
         (delete_key ''instructions'' (set_key ''request'' (JObj rest) view),
          om @ [\<lparr>om_Part = ''inputs'', om_Reason = reason, om_Bytes = size_bytes,
                 om_RetrieveVia = ''HTTP GET /v1/jobs/ID or taskworker get''\<rparr>])))"

definition view_size :: "object \<times> omission list \<Rightarrow> nat" where
  "view_size s = length (json_text (JObj (fst s)))"

text \<open>The view and what it leaves out.\<close>

definition stripped :: "object \<Rightarrow> bool \<Rightarrow> bool \<Rightarrow> object \<times> omission list" where
  "stripped job includeOutput includeInputs =
     (let n = length (outputOf job);
          s1 = (if includeOutput then (job, []) else strip_output ''not_requested'' n (job, []));
          s2 = (if includeInputs then s1 else strip_inputs ''not_requested'' s1);
          s3 = (if MaxResultBytes < view_size s2 \<and> includeOutput then strip_output ''exceeds_result_bound'' n s2 else s2)
      in if MaxResultBytes < view_size s3 \<and> includeInputs then strip_inputs ''exceeds_result_bound'' s3 else s3)"

definition jobView :: "object \<Rightarrow> bool \<Rightarrow> bool \<Rightarrow> object" where
  "jobView job includeOutput includeInputs =
     (case stripped job includeOutput includeInputs of (view, om) \<Rightarrow>
        [(''job'', JObj view)] @
        (if om = [] then [] else [(''omitted'', JArr (map omission_json om))]) @
        [(''output_bytes'', JInt (int (length (outputOf job))))])"

definition summary_keys :: "bytes list" where
  "summary_keys = [''origin'', ''lineage'', ''created_at'', ''started_at'', ''finished_at'']"

definition value_or_null :: "json option \<Rightarrow> json" where
  "value_or_null v = (case v of None \<Rightarrow> JNull | Some x \<Rightarrow> x)"

definition job_summary :: "object \<Rightarrow> object" where
  "job_summary job =
     (let m0 = [(''id'', value_or_null (map_of job ''id'')), (''output_bytes'', JInt (int (length (outputOf job)))),
                (''state'', value_or_null (map_of job ''state''))];
          m1 = fold (\<lambda>k m. case map_of job k of None \<Rightarrow> m | Some v \<Rightarrow> set_key k v m) summary_keys m0;
          m2 = (case map_of (members (objectAt job ''request'')) ''model'' of None \<Rightarrow> m1 | Some v \<Rightarrow> set_key ''model'' v m1)
      in case objectAt job ''error'' of
           None \<Rightarrow> m2 | Some e \<Rightarrow> set_key ''error_code'' (value_or_null (map_of e ''code'')) m2)"

subsection \<open>Faults of a tool call\<close>

text \<open>
  The errors of a tool call: the bridge's own deadline (\<open>timeoutErr\<close>, which hides what it wraps),
  a validation failure of the bridge (\<open>localErr\<close>), anything else.
\<close>

datatype tool_err = TimeoutErr | LocalErr Fault | OtherFailure goerr

definition tool_fault :: "tool_err \<Rightarrow> Fault" where
  "tool_fault err = (case err of OtherFailure e \<Rightarrow> PublicFault e | _ \<Rightarrow> PublicFault (OtherErr []))"

definition fault_kind :: "tool_err \<Rightarrow> bytes" where
  "fault_kind err =
     (case err of
        TimeoutErr \<Rightarrow> ''timeout''
      | LocalErr f \<Rightarrow> ''service_fault''
      | OtherFailure e \<Rightarrow>
          if IsConnectionFault e then ''service_unreachable''
          else if IsUnreadableResponse e then ''response_unreadable'' else ''service_fault'')"

definition acceptance_uncertain :: "tool_err \<Rightarrow> bool" where
  "acceptance_uncertain err =
     (fault_kind err \<noteq> ''service_fault'' \<or> ft_Code (tool_fault err) \<in> {ErrUnavailable, ErrStorage, ErrInternal})"

definition recovery_text :: bytes where
  "recovery_text = ''Call the same tool again with identical arguments and the same idempotency_key to resolve to the original job. Do not use a new key. retryable is advice only.''"

definition faultBody :: "tool_err \<Rightarrow> bool \<Rightarrow> object" where
  "faultBody err creates =
     (let f = tool_fault err;
          e = [(''error'', JObj [(''code'', JStr (code_str (ft_Code f))), (''kind'', JStr (fault_kind err)),
                 (''message'', JStr (ft_Message f)), (''retryable'', JBool (ft_Retryable f))])] in
      if \<not> creates then e
      else if acceptance_uncertain err then (''acceptance_uncertain'', JBool True) # e @ [(''recovery'', JStr recovery_text)]
      else (''acceptance_uncertain'', JBool False) # e)"

subsection \<open>Pages of output\<close>

definition offset_fault :: goerr where
  "offset_fault = FaultErr (fault ErrInvalidRequest ''offset_bytes must be within output and on a UTF-8 character boundary'')"

definition small_fault :: goerr where
  "small_fault = FaultErr (fault ErrInvalidRequest ''max_bytes is smaller than one character at offset_bytes'')"

text \<open>\<open>for end > offset && !utf8.RuneStart(text[end]) { end-- }\<close>\<close>

fun back_to :: "bytes \<Rightarrow> nat \<Rightarrow> nat \<Rightarrow> nat" where
  "back_to s off 0 = 0"
| "back_to s off (Suc n) = (if off < Suc n \<and> \<not> rune_start (s ! Suc n) then back_to s off n else Suc n)"

text \<open>\<open>max\<close> is at least 4 by the tool's schema; \<open>offset + max\<close> does not overflow an \<open>int\<close>.\<close>

definition pageOutput :: "bytes \<Rightarrow> int \<Rightarrow> nat \<Rightarrow> goerr + bytes \<times> nat" where
  "pageOutput s offset max_bytes =
     (if offset < 0 \<or> int (length s) < offset \<or> (nat offset < length s \<and> \<not> rune_start (s ! nat offset)) then Inl offset_fault
      else (let off = nat offset; stop = off + max_bytes in
        if length s \<le> stop then Inr (drop off s, length s)
        else (let e = back_to s off stop in
          if e = off then Inl small_fault else Inr (drop off (take e s), e))))"

subsection \<open>Reading all pages\<close>

text \<open>
  The client of the tool: it starts at 0 and continues at \<open>next_offset_bytes\<close> until that is the
  total. The first argument bounds the number of calls.
\<close>

fun read_pages :: "nat \<Rightarrow> bytes \<Rightarrow> nat \<Rightarrow> nat \<Rightarrow> bytes option" where
  "read_pages 0 s max_bytes off = None"
| "read_pages (Suc calls) s max_bytes off =
     (case pageOutput s (int off) max_bytes of
        Inl e \<Rightarrow> None
      | Inr (page, nxt) \<Rightarrow> if nxt = length s then Some page else map_option ((@) page) (read_pages calls s max_bytes nxt))"

lemma back_to_props:
  assumes "off \<le> n"
  shows "off \<le> back_to s off n \<and> back_to s off n \<le> n \<and>
    (back_to s off n = off \<or> rune_start (s ! back_to s off n)) \<and> (\<forall>j. back_to s off n < j \<and> j \<le> n \<longrightarrow> \<not> rune_start (s ! j))"
  using assms
proof (induction n)
  case (Suc n)
  show ?case
  proof (cases "off < Suc n \<and> \<not> rune_start (s ! Suc n)")
    case True
    then have "\<not> rune_start (s ! j)" if "back_to s off n < j" "j \<le> Suc n" for j
      using that Suc by (cases "j = Suc n") auto
    then show ?thesis using True Suc by auto
  qed (use Suc.prems in auto)
qed simp

lemma back_to_close:
  assumes "valid_utf8 s" and "off + m < length s" and "4 \<le> m"
  shows "off + m - 3 \<le> back_to s off (off + m) \<and> rune_start (s ! back_to s off (off + m))"
proof -
  obtain k where k: "k \<le> 3" "rune_start (s ! (off + m - k))"
    using valid_utf8_back [OF assms(1,2)] by blast
  note p = back_to_props [of off "off + m" s, simplified]
  have "off + m - k \<le> back_to s off (off + m)"
  proof (rule ccontr)
    assume "\<not> off + m - k \<le> back_to s off (off + m)"
    then show False using p k by auto
  qed
  then have b: "off + m - 3 \<le> back_to s off (off + m)" using k(1) by linarith
  then have "back_to s off (off + m) \<noteq> off" using assms(3) by linarith
  then show ?thesis using b p by blast
qed

lemma pageOutput_cases:
  assumes v: "valid_utf8 s" and m: "4 \<le> max_bytes" and off: "off = length s \<or> off < length s \<and> rune_start (s ! off)"
  obtains (last) "length s \<le> off + max_bytes" "pageOutput s (int off) max_bytes = Inr (drop off s, length s)"
  | (page) e where "off + max_bytes < length s" "pageOutput s (int off) max_bytes = Inr (drop off (take e s), e)"
      "off + max_bytes - 3 \<le> e" "e < length s" "rune_start (s ! e)"
proof (cases "length s \<le> off + max_bytes")
  case True
  then show thesis using off last by (auto simp: pageOutput_def Let_def)
next
  case False
  then have l: "off + max_bytes < length s" by simp
  let ?e = "back_to s off (off + max_bytes)"
  note c = back_to_close [OF v l m]
  have "?e \<le> off + max_bytes" using back_to_props [of off "off + max_bytes" s] by simp
  then have e: "?e < length s" "?e \<noteq> off" using l c m by linarith+
  show thesis by (rule page [of ?e]) (use l e c off in \<open>auto simp: pageOutput_def Let_def\<close>)
qed

lemma read_pages_from:
  assumes v: "valid_utf8 s" and m: "4 \<le> max_bytes" and off: "off = length s \<or> off < length s \<and> rune_start (s ! off)"
    and "length s - off < calls * (max_bytes - 3)"
  shows "read_pages calls s max_bytes off = Some (drop off s)"
  using off assms(4)
proof (induction calls arbitrary: off)
  case (Suc calls)
  from v m Suc.prems(1) show ?case
  proof (cases rule: pageOutput_cases)
    case (page e)
    have "drop off (take e s @ drop e s) = drop off (take e s) @ drop e s"
      using page m by (simp only: drop_append) simp
    then have d: "drop off (take e s) @ drop e s = drop off s" by simp
    have "length s - e < calls * (max_bytes - 3)" using Suc.prems(2) page m by auto
    then have "read_pages calls s max_bytes e = Some (drop e s)" using Suc.IH [of e] page by blast
    then show ?thesis using page d by simp
  qed simp
qed simp

text \<open>
  C26. Reading the output of a job page by page ends and loses nothing: for any page size the tool
  admits, following \<open>next_offset_bytes\<close> from 0 reaches the end within one more call than the text
  has units of the page size less three bytes, no call is refused, and the pages put together
  are the whole text.
\<close>

theorem paging_complete:
  assumes "valid_utf8 s" and "4 \<le> max_bytes"
  shows "read_pages (Suc (length s div (max_bytes - 3))) s max_bytes 0 = Some s"
proof -
  have "0 = length s \<or> 0 < length s \<and> rune_start (s ! 0)"
    using valid_utf8_rune [OF assms(1)] rune_len_start [of s] by (cases "s = []") auto
  moreover have "length s - 0 < Suc (length s div (max_bytes - 3)) * (max_bytes - 3)"
    using dividend_less_div_times [of "max_bytes - 3" "length s"] assms(2) unfolding mult_Suc by simp
  ultimately have "read_pages (Suc (length s div (max_bytes - 3))) s max_bytes 0 = Some (drop 0 s)"
    by (rule read_pages_from [OF assms])
  then show ?thesis by (simp del: read_pages.simps)
qed

theorem paging_complete_witness:
  "read_pages 1 ''hello'' 4 0 = None \<and> read_pages 6 ''hello'' 4 0 = Some ''hello''"
proof -
  have "valid_utf8 ''hello''" by code_simp
  moreover have "Suc (length ''hello'' div (4 - 3)) = 6" by simp
  ultimately have "read_pages 6 ''hello'' 4 0 = Some ''hello''" using paging_complete [of "''hello''" 4] by (metis order_refl)
  moreover have "read_pages 1 ''hello'' 4 0 = None" by code_simp
  ultimately show ?thesis by blast
qed

subsection \<open>Nothing is dropped silently\<close>

lemma map_of_set_key: "map_of (set_key k v m) = (map_of m)(k \<mapsto> v)"
  by (induction m) (auto simp: fun_eq_iff)

lemma map_of_delete_key: "map_of (delete_key k m) = (map_of m)(k := None)"
  by (induction m) (auto simp: delete_key_def fun_eq_iff)

text \<open>What a view that leaves out the parts \<open>P\<close> shows of each member of the job.\<close>

definition shown :: "object \<Rightarrow> bytes set \<Rightarrow> bytes \<Rightarrow> json option" where
  "shown job P k =
     (if ''output'' \<in> P \<and> k = ''result'' then Some (JObj (delete_key ''text'' (members (objectAt job ''result''))))
      else if ''inputs'' \<in> P \<and> k = ''request''
      then Some (JObj (filter (\<lambda>kv. fst kv \<notin> set input_keys) (members (objectAt job ''request''))))
      else if ''inputs'' \<in> P \<and> k = ''instructions'' then None
      else map_of job k)"

definition parts_of :: "omission list \<Rightarrow> bytes set" where
  "parts_of om = set (map om_Part om)"

definition shows_job :: "object \<Rightarrow> object \<times> omission list \<Rightarrow> bool" where
  "shows_job job s = (\<forall>k. map_of (fst s) k = shown job (parts_of (snd s)) k)"

lemma shows_start: "shows_job job (job, [])"
  by (simp add: shows_job_def shown_def parts_of_def)

lemma shows_output:
  assumes "shows_job job s" and "''output'' \<notin> parts_of (snd s)"
  shows "shows_job job (strip_output r n s) \<and> parts_of (snd (strip_output r n s)) = insert ''output'' (parts_of (snd s))"
proof -
  obtain view om where s: "s = (view, om)" by fastforce
  have "objectAt view ''result'' = objectAt job ''result''"
    using assms s by (simp add: shows_job_def objectAt_def shown_def)
  then show ?thesis
    using assms s by (auto simp: shows_job_def strip_output_def map_of_set_key shown_def parts_of_def)
qed

lemma shows_inputs:
  assumes "shows_job job s" and "''inputs'' \<notin> parts_of (snd s)"
  shows "shows_job job (strip_inputs r s) \<and> parts_of (snd (strip_inputs r s)) = insert ''inputs'' (parts_of (snd s))"
proof -
  obtain view om where s: "s = (view, om)" by fastforce
  have "objectAt view ''request'' = objectAt job ''request''"
    using assms s by (simp add: shows_job_def objectAt_def shown_def)
  then show ?thesis
    using assms s by (auto simp: shows_job_def strip_inputs_def Let_def map_of_set_key map_of_delete_key shown_def parts_of_def)
qed

text \<open>
  C24. A job's view never drops anything silently. Each member of the job is shown as it is
  unless the list of omissions names its part: without \<open>output\<close> only the text of the result is
  missing, without \<open>inputs\<close> only the instructions and the prompts of the request. Nothing is
  omitted exactly when everything was asked for and fits, and a view above the result bound has
  both parts left out.
\<close>

theorem jobView_omissions:
  "case stripped job includeOutput includeInputs of (view, om) \<Rightarrow>
     (\<forall>k. map_of view k = shown job (parts_of om) k) \<and>
     (om = [] \<longleftrightarrow> includeOutput \<and> includeInputs \<and> view_size (job, []) \<le> MaxResultBytes) \<and>
     (view_size (view, om) \<le> MaxResultBytes \<or> parts_of om = {''output'', ''inputs''})"
proof -
  let ?n = "length (outputOf job)"
  define s1 where "s1 = (if includeOutput then (job, []) else strip_output ''not_requested'' ?n (job, []))"
  define s2 where "s2 = (if includeInputs then s1 else strip_inputs ''not_requested'' s1)"
  define s3 where "s3 = (if MaxResultBytes < view_size s2 \<and> includeOutput then strip_output ''exceeds_result_bound'' ?n s2 else s2)"
  define s4 where "s4 = (if MaxResultBytes < view_size s3 \<and> includeInputs then strip_inputs ''exceeds_result_bound'' s3 else s3)"
  have p0: "parts_of [] = {}" by (simp add: parts_of_def)
  have 1: "shows_job job s1" "parts_of (snd s1) = (if includeOutput then {} else {''output''})"
    using shows_output [OF shows_start] shows_start by (simp_all add: s1_def p0)
  have 2: "shows_job job s2"
    "parts_of (snd s2) = (if includeOutput then {} else {''output''}) \<union> (if includeInputs then {} else {''inputs''})"
    using shows_inputs [OF 1(1)] 1 by (auto simp: s2_def)
  have 3: "shows_job job s3"
    "parts_of (snd s3) = (if includeOutput \<and> view_size s2 \<le> MaxResultBytes then {} else {''output''}) \<union> (if includeInputs then {} else {''inputs''})"
    using shows_output [OF 2(1)] 2 by (auto simp: s3_def)
  have 4: "shows_job job s4"
    "parts_of (snd s4) = (if includeOutput \<and> view_size s2 \<le> MaxResultBytes then {} else {''output''}) \<union>
       (if includeInputs \<and> view_size s3 \<le> MaxResultBytes then {} else {''inputs''})"
    using shows_inputs [OF 3(1)] 3 by (auto simp: s4_def)
  have e: "snd s4 = [] \<longleftrightarrow> parts_of (snd s4) = {}" by (simp add: parts_of_def)
  have b: "view_size s4 \<le> MaxResultBytes \<or> parts_of (snd s4) = {''output'', ''inputs''}"
  proof (cases "MaxResultBytes < view_size s4")
    case True
    show ?thesis
    proof (cases "MaxResultBytes < view_size s3 \<and> includeInputs")
      case big: True
      have "\<not> (includeOutput \<and> view_size s2 \<le> MaxResultBytes)"
        using big by (auto simp: s3_def)
      then show ?thesis using 4(2) big by auto
    next
      case False
      then have "s4 = s3" by (auto simp: s4_def)
      then have "\<not> includeInputs" "MaxResultBytes < view_size s3" using True False by auto
      moreover from this have "\<not> (includeOutput \<and> view_size s2 \<le> MaxResultBytes)" by (auto simp: s3_def)
      ultimately show ?thesis using 4(2) by auto
    qed
  qed simp
  have "includeOutput \<and> view_size s2 \<le> MaxResultBytes \<and> includeInputs \<and> view_size s3 \<le> MaxResultBytes \<longleftrightarrow>
      includeOutput \<and> includeInputs \<and> view_size (job, []) \<le> MaxResultBytes"
    by (auto simp: s1_def s2_def s3_def)
  then have "snd s4 = [] \<longleftrightarrow> includeOutput \<and> includeInputs \<and> view_size (job, []) \<le> MaxResultBytes"
    unfolding e 4(2) by auto
  moreover have "stripped job includeOutput includeInputs = s4"
    unfolding stripped_def Let_def s1_def s2_def s3_def s4_def by (rule refl)
  moreover obtain view om where "s4 = (view, om)" by fastforce
  ultimately show ?thesis using 4(1) b by (simp add: shows_job_def)
qed

end
