(* ===== verification/Mcp_Tools.thy ===== *)
theory Mcp_Tools
  imports Mcp_View Http_Commands Http_Jobs
begin

text \<open>
  \<open>internal/adapters/mcpbridge/tools.go\<close> and the limits of \<open>bridge.go\<close>: the tools of the bridge as
  clients of the service. Each tool is a function of its decoded arguments, of the exchanges it
  makes and of whether the deadline of its own call passes during one (\<open>expired\<close>). The JSON schemas
  are checked by a library and are a parameter of \<open>decodeArgs\<close>; its range checks (a page size
  between 4 and 131072, say) are where the arguments below are naturals.
\<close>

subsection \<open>Slots\<close>

datatype slotKind = Plain | Blocking

definition MaxConcurrent :: nat where "MaxConcurrent = 16"
definition MaxWaiters :: nat where "MaxWaiters = 4"

text \<open>How many slots and how many waiters' slots are taken.\<close>

record bridge_load =
  bl_Slots :: nat
  bl_Waiters :: nat

definition acquire :: "slotKind \<Rightarrow> bridge_load \<Rightarrow> bridge_load \<times> bool" where
  "acquire k b =
     (if MaxConcurrent \<le> bl_Slots b then (b, False)
      else (let b1 = b\<lparr>bl_Slots := bl_Slots b + 1\<rparr> in
        if k = Blocking then
          (if MaxWaiters \<le> bl_Waiters b1 then (b1\<lparr>bl_Slots := bl_Slots b1 - 1\<rparr>, False)
           else (b1\<lparr>bl_Waiters := bl_Waiters b1 + 1\<rparr>, True))
        else (b1, True)))"

definition release :: "slotKind \<Rightarrow> bridge_load \<Rightarrow> bridge_load" where
  "release k b =
     (let b1 = (if k = Blocking then b\<lparr>bl_Waiters := bl_Waiters b - 1\<rparr> else b) in b1\<lparr>bl_Slots := bl_Slots b1 - 1\<rparr>)"

text \<open>
  The calls in flight, in any interleaving: a call starts if it gets its slots, and ends by giving
  them back. The counters are exactly the calls in flight, so blocking calls never take more than
  their share.
\<close>

inductive tool_step :: "bridge_load \<times> slotKind list \<Rightarrow> bridge_load \<times> slotKind list \<Rightarrow> bool" where
  starts: "acquire k b = (b', True) \<Longrightarrow> tool_step (b, ks) (b', k # ks)"
| refused: "acquire k b = (b', False) \<Longrightarrow> tool_step (b, ks) (b', ks)"
| ends: "tool_step (b, ks @ k # ls) (release k b, ks @ ls)"

definition slots_ok :: "bridge_load \<times> slotKind list \<Rightarrow> bool" where
  "slots_ok c =
     (bl_Slots (fst c) = length (snd c) \<and> bl_Waiters (fst c) = count_list (snd c) Blocking \<and>
      length (snd c) \<le> MaxConcurrent \<and> count_list (snd c) Blocking \<le> MaxWaiters)"

lemma tool_step_ok: "tool_step c c' \<Longrightarrow> slots_ok c \<Longrightarrow> slots_ok c'"
proof (induction rule: tool_step.induct)
  case (ends b ks k ls)
  then show ?case by (cases k) (auto simp: slots_ok_def release_def Let_def)
qed (auto simp: slots_ok_def acquire_def Let_def split: if_splits)

theorem slots_bounded:
  "tool_step\<^sup>*\<^sup>* (\<lparr>bl_Slots = 0, bl_Waiters = 0\<rparr>, []) c \<Longrightarrow> slots_ok c"
proof (induction rule: rtranclp_induct)
  case base
  then show ?case by (simp add: slots_ok_def)
qed (rule tool_step_ok)

text \<open>So a call that does not block is refused only if twelve others that do not are in flight.\<close>

lemma plain_starts:
  assumes "slots_ok (b, ks)" and "count_list ks Plain < MaxConcurrent - MaxWaiters"
  shows "snd (acquire Plain b)"
proof -
  have "length ks = count_list ks Plain + count_list ks Blocking"
  proof (induction ks)
    case (Cons k ks)
    then show ?case by (cases k) auto
  qed simp
  then show ?thesis using assms by (simp add: slots_ok_def acquire_def MaxConcurrent_def MaxWaiters_def Let_def)
qed

subsection \<open>Calls to the service\<close>

definition doFor :: "exchange \<Rightarrow> bool \<Rightarrow> bytes \<Rightarrow> bytes \<Rightarrow> json option option \<Rightarrow> tool_err + json" where
  "doFor exch expired method path body =
     (case Call exch (\<lambda>v _. Some v) JNull method path body of
        Inl e \<Rightarrow> Inl (if expired then TimeoutErr else OtherFailure e)
      | Inr v \<Rightarrow> Inr v)"

definition doObjectFor :: "exchange \<Rightarrow> bool \<Rightarrow> bytes \<Rightarrow> bytes \<Rightarrow> json option option \<Rightarrow> tool_err + object" where
  "doObjectFor exch expired method path body =
     (case doFor exch expired method path body of
        Inl e \<Rightarrow> Inl e
      | Inr v \<Rightarrow> (case decode_value v of Inl e \<Rightarrow> Inl (OtherFailure e) | Inr m \<Rightarrow> Inr m))"

definition doJobFor :: "exchange \<Rightarrow> bool \<Rightarrow> bytes \<Rightarrow> bytes \<Rightarrow> json option option \<Rightarrow> tool_err + object" where
  "doJobFor exch expired method path body =
     (case doObjectFor exch expired method path body of
        Inl e \<Rightarrow> Inl e
      | Inr job \<Rightarrow>
          if length (stringAt job ''id'') \<noteq> 32 \<or> stringAt job ''state'' = []
          then Inl (OtherFailure invalid_response) else Inr job)"

subsection \<open>Results\<close>

record tool_result =
  tr_IsError :: bool
  tr_Value :: object

definition faults :: "tool_err \<Rightarrow> bool \<Rightarrow> object" where
  "faults err creates =
     (case err of
        LocalErr f \<Rightarrow>
          [(''error'', JObj [(''code'', JStr (code_str (ft_Code f))), (''kind'', JStr ''bridge_validation''),
             (''message'', JStr (ft_Message f)), (''retryable'', JBool False)])]
      | _ \<Rightarrow> faultBody err creates)"

definition textJSON :: "object \<Rightarrow> bytes" where
  "textJSON v = json_text (JObj v)"

definition busy_result :: tool_result where
  "busy_result = \<lparr>tr_IsError = True, tr_Value =
     [(''error'', JObj [(''code'', JStr (code_str ErrUnavailable)), (''kind'', JStr ''bridge_busy''),
        (''message'', JStr ''too many concurrent tool calls; retry this call later''), (''retryable'', JBool True)])]\<rparr>"

definition local_fault :: "ErrorCode \<Rightarrow> bytes \<Rightarrow> tool_err" where
  "local_fault code msg = LocalErr (fault code msg)"

definition trim_ws :: "bytes \<Rightarrow> bytes" where
  "trim_ws s = rev (dropWhile is_ws (rev (dropWhile is_ws s)))"

text \<open>
  \<open>schema\<close> is the validator of the tool (an error text or none), \<open>strict\<close> the decoder into its
  argument type that refuses unknown fields, \<open>zero\<close> the arguments when nothing is given.
\<close>

definition decodeArgs :: "bytes \<Rightarrow> (object \<Rightarrow> bytes option) \<Rightarrow> (json \<Rightarrow> bytes + 'i) \<Rightarrow> 'i \<Rightarrow> tool_err + 'i" where
  "decodeArgs raw schema strict zero =
     (let trimmed = trim_ws raw; given = trimmed \<noteq> [] \<and> trimmed \<noteq> ''null'' in
      case (if given then Option.bind (parse_go raw) (\<lambda>v. case as_any v of JObj m \<Rightarrow> Some m | _ \<Rightarrow> None) else Some []) of
        None \<Rightarrow> Inl (local_fault ErrInvalidRequest ''arguments must be a JSON object'')
      | Some doc \<Rightarrow>
          (case schema doc of
             Some e \<Rightarrow> Inl (local_fault ErrInvalidRequest (''arguments do not match the tool schema: '' @ e))
           | None \<Rightarrow>
               if \<not> given then Inr zero
               else (case strict (the (parse_go raw)) of
                  Inl e \<Rightarrow> Inl (local_fault ErrInvalidRequest
                    (''arguments not representable exactly (integers must be integral and in range): '' @ e))
                | Inr i \<Rightarrow> Inr i)))"

text \<open>A registered tool: the load while it runs, and its result.\<close>

definition call_tool ::
  "slotKind \<Rightarrow> bool \<Rightarrow> (tool_err + 'i) \<Rightarrow> ('i \<Rightarrow> tool_err + object) \<Rightarrow> bridge_load \<Rightarrow> bridge_load \<times> tool_result" where
  "call_tool k creates args handle b =
     (case args of
        Inl e \<Rightarrow> (b, \<lparr>tr_IsError = True, tr_Value = faults e False\<rparr>)
      | Inr i \<Rightarrow>
          (case acquire k b of
             (b1, False) \<Rightarrow> (b1, busy_result)
           | (b1, True) \<Rightarrow>
               (b1, (case handle i of
                  Inl e \<Rightarrow> \<lparr>tr_IsError = True, tr_Value = faults e creates\<rparr>
                | Inr out \<Rightarrow> \<lparr>tr_IsError = False, tr_Value = out\<rparr>))))"

subsection \<open>Creating jobs\<close>

record create_in =
  ci_Key :: bytes
  ci_Origin :: bytes
  ci_ParentID :: bytes
  ci_Request :: "Request option"

definition create_origin :: "create_in \<Rightarrow> bytes" where
  "create_origin i = (if ci_Origin i = [] then ''mcp'' else ci_Origin i)"

definition sendable :: "Request \<Rightarrow> json \<Rightarrow> json option" where
  "sendable r j = (if options_encodable (rq_Options r) then Some j else None)"

text \<open>The command a create sends: \<open>Some None\<close> when it cannot be encoded.\<close>

definition create_command :: "host \<Rightarrow> bytes \<Rightarrow> create_in \<Rightarrow> tool_err + json option option" where
  "create_command h op i =
     (if ci_Key i = [] \<or> 128 < length (ci_Key i)
      then Inl (local_fault ErrInvalidRequest ''idempotency_key must be 1..128 UTF-8 bytes'')
      else let missing = Inl (local_fault ErrInvalidRequest ''request is required'') in
        if op = ''submit'' then
          (case ci_Request i of None \<Rightarrow> missing
           | Some r \<Rightarrow> Inr (Some (sendable r (submit_json h \<lparr>sc_Key = ci_Key i, sc_Origin = create_origin i, sc_Request = r\<rparr>))))
        else if op = ''retry'' then
          Inr (Some (Some (retry_json \<lparr>rt_Key = ci_Key i, rt_Origin = create_origin i, rt_ParentID = ci_ParentID i\<rparr>)))
        else if op = ''branch'' then
          (case ci_Request i of None \<Rightarrow> missing
           | Some r \<Rightarrow> Inr (Some (sendable r (branch_json h
               \<lparr>bc_Key = ci_Key i, bc_Origin = create_origin i, bc_ParentID = ci_ParentID i, bc_Request = r\<rparr>))))
        else Inr None)"

definition create_tool :: "host \<Rightarrow> exchange \<Rightarrow> bool \<Rightarrow> bytes \<Rightarrow> create_in \<Rightarrow> tool_err + object" where
  "create_tool h exch expired op i =
     (case create_command h op i of
        Inl e \<Rightarrow> Inl e
      | Inr body \<Rightarrow>
          (case doJobFor exch expired ''POST'' (''/v1/'' @ op) body of
             Inl e \<Rightarrow> Inl e
           | Inr job \<Rightarrow>
               Inr (set_key ''origin'' (JStr (create_origin i)) (set_key ''idempotency_key'' (JStr (ci_Key i))
                 (set_key ''operation'' (JStr op) (jobView job True True))))))"

subsection \<open>Observing jobs\<close>

definition job_path :: "bytes \<Rightarrow> bytes" where
  "job_path i = ''/v1/jobs/'' @ path_escape i"

definition getJob_for :: "exchange \<Rightarrow> bool \<Rightarrow> bytes \<Rightarrow> tool_err + object" where
  "getJob_for exch expired i = doJobFor exch expired ''GET'' (job_path i) None"

definition flag :: "bool option \<Rightarrow> bool" where
  "flag p = (case p of None \<Rightarrow> True | Some b \<Rightarrow> b)"

record job_in =
  ji_JobID :: bytes
  ji_IncludeOutput :: "bool option"
  ji_IncludeInputs :: "bool option"

definition service_health :: "exchange \<Rightarrow> bool \<Rightarrow> bytes \<Rightarrow> tool_err + object" where
  "service_health exch expired server =
     map_sum id (set_key ''service'' (JStr server)) (doObjectFor exch expired ''GET'' ''/v1/health'' None)"

definition list_models :: "exchange \<Rightarrow> bool \<Rightarrow> tool_err + object" where
  "list_models exch expired =
     (case doFor exch expired ''GET'' ''/v1/models'' None of
        Inl e \<Rightarrow> Inl e
      | Inr v \<Rightarrow>
          (case v of
             JArr _ \<Rightarrow> Inr [(''models'', v)]
           | JNull \<Rightarrow> Inr [(''models'', v)]
           | _ \<Rightarrow> Inl (OtherFailure invalid_response)))"

definition get_job :: "exchange \<Rightarrow> bool \<Rightarrow> job_in \<Rightarrow> tool_err + object" where
  "get_job exch expired i =
     (case getJob_for exch expired (ji_JobID i) of
        Inl e \<Rightarrow> Inl e
      | Inr job \<Rightarrow>
          Inr (set_key ''terminal'' (JBool (Terminal (stateOf job)))
            (jobView job (flag (ji_IncludeOutput i)) (flag (ji_IncludeInputs i)))))"

record output_in =
  oi_JobID :: bytes
  oi_Offset :: "int option"
  oi_Max :: "nat option"

definition read_job_output :: "exchange \<Rightarrow> bool \<Rightarrow> output_in \<Rightarrow> tool_err + object" where
  "read_job_output exch expired i =
     (let off = option_or 0 (oi_Offset i); m = option_or 32768 (oi_Max i) in
      case getJob_for exch expired (oi_JobID i) of
        Inl e \<Rightarrow> Inl e
      | Inr job \<Rightarrow>
          (let s = outputOf job in
           case pageOutput s off m of
             Inl e \<Rightarrow> Inl (OtherFailure e)
           | Inr (page, nxt) \<Rightarrow>
               Inr [(''end_of_output'', JBool (Terminal (stateOf job) \<and> nxt = length s)), (''job_id'', JStr (oi_JobID i)),
                 (''next_offset_bytes'', JInt (int nxt)), (''offset_bytes'', JInt off),
                 (''state'', JStr (stringAt job ''state'')), (''text'', JStr page), (''total_bytes'', JInt (int (length s)))]))"

record list_in =
  li_Limit :: "nat option"
  li_Offset :: "nat option"
  li_NewestFirst :: "bool option"

text \<open>The loop over the jobs in the chosen order, from the offset on; what is no object is skipped.\<close>

fun summaries :: "nat \<Rightarrow> json list \<Rightarrow> json list" where
  "summaries n [] = []"
| "summaries 0 (v # vs) = []"
| "summaries (Suc n) (v # vs) =
     (case v of JObj j \<Rightarrow> JObj (job_summary j) # summaries n vs | _ \<Rightarrow> summaries (Suc n) vs)"

definition list_jobs :: "exchange \<Rightarrow> bool \<Rightarrow> list_in \<Rightarrow> tool_err + object" where
  "list_jobs exch expired i =
     (let lim = option_or 50 (li_Limit i); off = option_or 0 (li_Offset i) in
      case doObjectFor exch expired ''GET'' ''/v1/snapshot'' None of
        Inl e \<Rightarrow> Inl e
      | Inr snap \<Rightarrow>
          (let all_jobs = (case map_of snap ''jobs'' of Some (JArr vs) \<Rightarrow> vs | _ \<Rightarrow> []);
               newest = flag (li_NewestFirst i) in
           Inr [(''cursor'', value_or_null (map_of snap ''cursor'')),
             (''jobs'', JArr (summaries lim (drop off (if newest then rev all_jobs else all_jobs)))),
             (''limit'', JInt (int lim)), (''newest_first'', JBool newest), (''offset'', JInt (int off)),
             (''queue'', value_or_null (map_of snap ''queue'')), (''total'', JInt (int (length all_jobs)))]))"

definition cancel_job :: "exchange \<Rightarrow> bool \<Rightarrow> bytes \<Rightarrow> tool_err + object" where
  "cancel_job exch expired i =
     (case doJobFor exch expired ''POST'' (job_path i @ ''/cancel'') (Some (Some (JObj []))) of
        Inl e \<Rightarrow> Inl e
      | Inr job \<Rightarrow> Inr (set_key ''terminal'' (JBool (Terminal (stateOf job))) (jobView job True False)))"

definition queue_status :: "exchange \<Rightarrow> bool \<Rightarrow> tool_err + object" where
  "queue_status exch expired = doObjectFor exch expired ''GET'' ''/v1/queue'' None"

definition queue_control :: "exchange \<Rightarrow> bool \<Rightarrow> bytes \<Rightarrow> tool_err + object" where
  "queue_control exch expired verb = doObjectFor exch expired ''POST'' (''/v1/queue/'' @ verb) (Some (Some (JObj [])))"

end
