(* ===== verification/Mcp_Create.thy ===== *)
theory Mcp_Create
  imports Mcp_Tools Http_Service Http_Link
begin

text \<open>
  A create tool, the network, the HTTP server and the worker together: what the bridge may say
  about a create that failed.
\<close>

subsection \<open>A create over the network\<close>

definition create_served ::
  "host \<Rightarrow> handler \<Rightarrow> 'w service \<Rightarrow> (nat \<Rightarrow> nat option) \<Rightarrow> bytes \<Rightarrow> link \<Rightarrow> bool \<Rightarrow> bytes \<Rightarrow> create_in \<Rightarrow> 'w
    \<Rightarrow> 'w \<times> (tool_err + object)" where
  "create_served h hh sv sf authority ln expired op i w =
     (case create_command h op i of
        Inl e \<Rightarrow> (w, Inl e)
      | Inr (Some None) \<Rightarrow> (w, create_tool h (\<lambda>_ _ _. None) expired op i)
      | Inr body \<Rightarrow>
          (case over_link h hh sv sf authority ln ''POST'' (''/v1/'' @ op) (map_option (json_text \<circ> the) body) w of
             (w', reply) \<Rightarrow> (w', create_tool h (\<lambda>_ _ _. reply) expired op i)))"

subsection \<open>Vague faults\<close>

definition vague_codes :: "bytes list" where
  "vague_codes = [''unavailable'', ''storage_failure'', ''internal'']"

definition vague :: "goerr \<Rightarrow> bool" where
  "vague e = (code_str (ft_Code (PublicFault e)) \<in> set vague_codes)"

lemma vague_storage: "vague (storage e)"
  by (simp add: vague_def PublicFault_def storage_def statuses_def vague_codes_def fault_def)

lemma vague_plain: "vague Panicked" "vague Canceled" "vague DeadlineExceeded"
  by (simp_all add: vague_def PublicFault_def vague_codes_def fault_def)

subsection \<open>What the bridge makes of a reply\<close>

definition too_large :: goerr where
  "too_large = FaultErr (fault ErrLimitExceeded MessageResponseTooLarge)"

lemma uncertain_own:
  "acceptance_uncertain TimeoutErr" "acceptance_uncertain (OtherFailure connection)"
  "acceptance_uncertain (OtherFailure too_large)" "acceptance_uncertain (OtherFailure invalid_response)"
  by (simp_all add: acceptance_uncertain_def fault_kind_def connection_def too_large_def invalid_response_def
      IsConnectionFault_def IsUnreadableResponse_def fault_def)

lemma vague_code_of: "s \<in> set vague_codes \<Longrightarrow> code_of s \<in> {ErrUnavailable, ErrStorage, ErrInternal}"
proof -
  have "list_all (\<lambda>s. code_of s \<in> {ErrUnavailable, ErrStorage, ErrInternal}) vague_codes" by code_simp
  then show "s \<in> set vague_codes \<Longrightarrow> ?thesis" by (simp only: list_all_iff)
qed

lemma vague_fault_uncertain:
  assumes "vague e"
  shows "acceptance_uncertain (OtherFailure (read_fault (json_text (fault_json (PublicFault e)) @ [newline])))"
proof -
  obtain f where f: "read_fault (json_text (fault_json (PublicFault e)) @ [newline]) = FaultErr f"
    "ft_Code f = code_of (code_str (ft_Code (PublicFault e)))" "public_code (ft_Code f)"
    using read_public_fault by blast
  have "ft_Code f \<in> {ErrUnavailable, ErrStorage, ErrInternal}"
    using vague_code_of assms unfolding f(2) by (simp add: vague_def)
  then show ?thesis by (simp add: acceptance_uncertain_def tool_fault_def f(1) PublicFault_again [OF f(3)])
qed

lemma Call_fail:
  assumes "Call (\<lambda>_ _ _. received ln (fail e)) into zero m p body = Inl err" and "body \<noteq> Some None"
  shows "err \<in> {connection, too_large, read_fault (json_text (fault_json (PublicFault e)) @ [newline])}"
  using assms fail_reply [of e]
  by (cases "ln_Reply ln") (auto simp: Call_def received_def too_large_def Let_def split: option.splits if_splits)

lemma Call_fail_fails:
  "body \<noteq> Some None \<Longrightarrow> \<exists>err. Call (\<lambda>_ _ _. received ln (fail e)) into zero m p body = Inl err"
  using fail_reply [of e] by (cases "ln_Reply ln") (auto simp: Call_def received_def Let_def)

lemma Call_ok:
  assumes "Call (\<lambda>_ _ _. received ln resp) into zero m p body = Inl err" and "body \<noteq> Some None" and "hp_Status resp = 200"
  shows "err \<in> {connection, too_large, invalid_response}"
  using assms by (cases "ln_Reply ln")
    (auto simp: Call_def received_def too_large_def invalid_response_def Let_def split: option.splits if_splits)

lemma doJob_errors:
  "doJobFor exch expired m p body = Inl err \<Longrightarrow>
     err = TimeoutErr \<or> err = OtherFailure invalid_response \<or>
     (\<exists>e. err = OtherFailure e \<and> Call exch (\<lambda>v _. Some v) JNull m p body = Inl e)"
  by (auto simp: doJobFor_def doObjectFor_def doFor_def decode_value_def split: sum.splits json.splits if_splits)

lemma create_errors:
  assumes "create_command h op i = Inr body" and "create_tool h exch expired op i = Inl err"
  shows "doJobFor exch expired ''POST'' (''/v1/'' @ op) body = Inl err"
  using assms by (auto simp: create_tool_def split: sum.splits)

lemma uncertain_faults:
  assumes "create_command h op i = Inr body" and "create_tool h exch expired op i = Inl err" and "acceptance_uncertain err"
  shows "map_of (faults err True) ''acceptance_uncertain'' = Some (JBool True)"
  using doJob_errors [OF create_errors [OF assms(1,2)]] assms(3) by (auto simp: faults_def faultBody_def Let_def)

text \<open>A failed create is certain only after a readable answer that names a definite fault.\<close>

lemma create_certain_answer:
  assumes "create_command h op i = Inr body" and "body \<noteq> Some None"
    and "create_tool h (\<lambda>_ _ _. received ln resp) expired op i = Inl err" and "\<not> acceptance_uncertain err"
    and "resp = fail e \<or> hp_Status resp = 200"
  shows "resp = fail e \<and> \<not> vague e"
proof -
  have "\<exists>e. err = OtherFailure e \<and> Call (\<lambda>_ _ _. received ln resp) (\<lambda>v _. Some v) JNull ''POST'' (''/v1/'' @ op) body = Inl e"
    using doJob_errors [OF create_errors [OF assms(1,3)]] assms(4) uncertain_own by blast
  then obtain e1 where e1: "err = OtherFailure e1"
    "Call (\<lambda>_ _ _. received ln resp) (\<lambda>v _. Some v) JNull ''POST'' (''/v1/'' @ op) body = Inl e1" by blast
  have "hp_Status resp \<noteq> 200" using Call_ok [OF e1(2) assms(2)] uncertain_own e1(1) assms(4) by blast
  then have r: "resp = fail e" using assms(5) by blast
  show ?thesis
    using Call_fail [OF e1(2) [unfolded r] assms(2)] uncertain_own vague_fault_uncertain [of e] e1(1) assms(4) r by blast
qed

subsection \<open>What the worker keeps\<close>

definition kept :: "'st Worker \<Rightarrow> 'st Worker \<Rightarrow> bool" where
  "kept w w' = (w_state w' = w_state w \<and> w_store w' = w_store w \<and> w_receipts w' = w_receipts w \<and> w_gens w' = w_gens w)"

lemma kept_refl [simp]: "kept w w"
  by (simp add: kept_def)

lemma kept_poison [simp]: "kept w (poison e w') = kept w w'"
  by (simp add: kept_def poison_def finish_observers_def)

lemma kept_panic [simp]: "kept w (panic w') = kept w w'"
  by (simp add: kept_def panic_def)

lemma kept_counters [simp]:
  "kept w (w'\<lparr>w_ticks := t\<rparr>) = kept w w'" "kept w (w'\<lparr>w_draws := d\<rparr>) = kept w w'"
  by (simp_all add: kept_def)

lemma kept_append_failed [simp]: "kept w (append_failed e w') = kept w w'"
  by (simp add: append_failed_def split: option.split)

lemma Append_definite:
  assumes "Append h j ctx c = (j', Some e)" and "\<not> vague e"
  shows "j' = j"
  using assms vague_storage
  by (auto simp: Append_def Let_def vague_plain split: option.splits if_splits sum.splits prod.splits)

lemma commit_definite:
  assumes "commit h (journal_ops h) es r w = (w', Some e)" and "\<not> vague e"
  shows "kept w w'"
proof -
  have a: "st = w_store w" if "so_Append (journal_ops h) (w_store w) None c = (st, Some e)" for st c
    using that Append_definite [of h "w_store w" None c st e] assms(2) by (simp add: journal_ops_def)
  show ?thesis
  proof (cases "stamp h (cu_StoreID (sn_Cursor (w_state w))) (cu_Sequence (sn_Cursor (w_state w))) (w_ticks w) es")
    case (Pair es' t)
    show ?thesis
    proof (cases es')
      case None
      then show ?thesis using assms(1) Pair by (auto simp: commit_def)
    next
      case (Some es1)
      let ?c = "\<lparr>cm_Version = 1, cm_Events = es1, cm_Receipt = r\<rparr>"
      show ?thesis
      proof (cases "ApplyCommit h (w_state w) ?c")
        case (Inl e1)
        then show ?thesis using assms(1) Pair Some by (cases e1) (auto simp: commit_def Let_def)
      next
        case (Inr next')
        obtain st x where st: "so_Append (journal_ops h) (w_store w) None ?c = (st, x)" by fastforce
        show ?thesis
        proof (cases x)
          case None
          then show ?thesis using assms(1) Pair Some Inr st by (simp add: commit_def Let_def)
        next
          case x: (Some e2)
          then have "w' = append_failed e2 (w\<lparr>w_ticks := t, w_store := st\<rparr>)" "e2 = e"
            using assms(1) Pair Some Inr st by (auto simp: commit_def Let_def)
          moreover have "kept w (w\<lparr>w_ticks := t, w_store := w_store w\<rparr>)" by (simp add: kept_def)
          ultimately show ?thesis using a [of ?c st] st x by (simp only: kept_append_failed)
        qed
      qed
    qed
  qed
qed

lemma admit_definite:
  assumes "admit h (journal_ops h) key d origin r ins l w = (w', Inl e)" and "\<not> vague e"
  shows "kept w w'"
proof -
  have w1: "kept w (w\<lparr>w_draws := Suc (w_draws w), w_ticks := Suc (w_ticks w)\<rparr>)" by (simp add: kept_def)
  have trans: "kept w w2" if "kept (w\<lparr>w_draws := Suc (w_draws w), w_ticks := Suc (w_ticks w)\<rparr>) w2" for w2
    using that w1 by (simp add: kept_def)
  show ?thesis
    using assms trans [OF commit_definite] w1 vague_plain(1)
    by (auto simp: admit_def Let_def split: option.splits if_splits prod.splits)
qed

lemma create_definite:
  assumes "create h (journal_ops h) ctx op key origin parent r w = (w', Inl e)" and "\<not> vague e"
  shows "kept w w'"
  using assms admit_definite vague_plain(1)
  by (auto simp: create_def split: option.splits if_splits sum.splits prod.splits goerr.splits)

definition context_error :: "goerr \<Rightarrow> bool" where
  "context_error e = (e = Canceled \<or> e = DeadlineExceeded)"

lemma call_definite:
  assumes "call cc f w = (w', Inl e)" and "opt_all context_error (cc_detached cc)" and "\<not> vague e"
    and "\<And>ctx w1 e1. f ctx w = (w1, Inl e1) \<Longrightarrow> \<not> vague e1 \<Longrightarrow> kept w w1"
  shows "kept w w'"
  using assms vague_plain
  by (auto simp: call_def context_error_def opt_all_def split: option.splits prod.splits)

subsection \<open>The whole way of a create\<close>

definition create_ops :: "bytes list" where
  "create_ops = [''submit'', ''retry'', ''branch'']"

definition create_calls :: "'w service \<Rightarrow> ('w \<Rightarrow> 'w \<times> (goerr + Job)) set" where
  "create_calls sv = range (sv_Submit sv) \<union> range (sv_Retry sv) \<union> range (sv_Branch sv)"

lemma worker_create_definite:
  assumes "f \<in> create_calls (worker_service h (journal_ops h) cc nc ms)" and "opt_all context_error (cc_detached cc)"
    and "f w = (w', Inl e)" and "\<not> vague e"
  shows "kept w w'"
  using assms call_definite [OF _ assms(2,4) create_definite]
  by (auto simp: create_calls_def worker_service_def Submit_def Retry_def Branch_def)

lemma post_creates:
  assumes "hr_Path r = ''/v1/'' @ op" and "op \<in> set create_ops" and "serve_post h hh sv r w = (w', resp)"
  shows "w' = w \<or> (\<exists>f \<in> create_calls sv. (w', resp) = reply_with (job_body h) (f w))"
proof -
  have c: "sv_Submit sv c1 \<in> create_calls sv" "sv_Retry sv c2 \<in> create_calls sv" "sv_Branch sv c3 \<in> create_calls sv" for c1 c2 c3
    by (simp_all add: create_calls_def)
  from assms(1,2) consider "hr_Path r = ''/v1/submit''" | "hr_Path r = ''/v1/retry''" | "hr_Path r = ''/v1/branch''"
    by (auto simp: create_ops_def)
  then show ?thesis
    by cases (use assms(3) c in \<open>auto simp: serve_post_def with_command_def Let_def split: if_splits sum.splits dest!: sym [of "reply_with _ _"]\<close>)
qed

lemma create_route:
  assumes "op \<in> set create_ops"
  shows "Asset a (''/v1/'' @ op) = None" and "''/v1/'' @ op \<noteq> ''/v1/events''" and "route (''/v1/'' @ op) = Some ''POST''"
  using assms by (auto simp: create_ops_def Asset_def route_def get_paths_def post_paths_def)

lemma request_creates:
  assumes "op \<in> set create_ops"
    and "over_link h hh sv sf authority ln ''POST'' (''/v1/'' @ op) body w = (w', reply)"
  shows "w' = w \<or> (\<exists>f resp. f \<in> create_calls sv \<and> (w', resp) = reply_with (job_body h) (f w) \<and> reply = received ln resp)"
proof (cases "ln_Request ln")
  case (Some broken)
  let ?r = "client_request authority broken ''POST'' (''/v1/'' @ op) body"
  have path: "hr_Path ?r = ''/v1/'' @ op" "hr_Method ?r = ''POST''" by (simp_all add: client_request_def)
  obtain w1 out where s: "ServeHTTP h hh sv sf ?r w = (w1, out)" by fastforce
  then have w1: "w1 = w'" using assms(2) Some by (auto simp: over_link_def split: http_outcome.splits)
  have "w1 = w \<or> (w1, out) = apsnd HttpReply (serve_post h hh sv ?r w)"
    using s unfolding ServeHTTP_def path create_route(1,3) [OF assms(1)] option.case if_not_P [OF create_route(2) [OF assms(1)]]
    by (auto split: option.splits if_splits)
  then show ?thesis
  proof
    assume "(w1, out) = apsnd HttpReply (serve_post h hh sv ?r w)"
    then obtain resp where p: "serve_post h hh sv ?r w = (w1, resp)" "out = HttpReply resp"
      by (cases "serve_post h hh sv ?r w") auto
    have "reply = received ln resp" using assms(2) Some s p(2) by (simp add: over_link_def)
    then show ?thesis using post_creates [OF path(1) assms(1) p(1)] w1 by blast
  qed (use w1 in simp)
qed (use assms(2) in \<open>simp add: over_link_def\<close>)

lemma certain_kept:
  assumes "op \<in> set create_ops" and "opt_all context_error (cc_detached cc)"
    and "create_command h op i = Inr body" and "body \<noteq> Some None"
    and "over_link h hh (worker_service h (journal_ops h) cc nc ms) sf authority ln ''POST'' (''/v1/'' @ op) payload w = (w', reply)"
    and "create_tool h (\<lambda>_ _ _. reply) expired op i = Inl err" and "\<not> acceptance_uncertain err"
  shows "kept w w'"
proof (cases "w' = w")
  case False
  obtain f resp where f: "f \<in> create_calls (worker_service h (journal_ops h) cc nc ms)"
    "(w', resp) = reply_with (job_body h) (f w)" "reply = received ln resp"
    using request_creates [OF assms(1,5)] False by blast
  obtain w1 x where x: "f w = (w1, x)" by fastforce
  have t: "create_tool h (\<lambda>_ _ _. received ln resp) expired op i = Inl err" using assms(6) f(3) by simp
  note answer = create_certain_answer [OF assms(3,4) t assms(7)]
  show ?thesis
  proof (cases x)
    case (Inl e)
    then have "resp = fail e" "w1 = w'" using f(2) x by (simp_all add: reply_with_def)
    with answer [of e] have "\<not> vague e" by simp
    then show ?thesis using worker_create_definite [OF f(1) assms(2)] x Inl \<open>w1 = w'\<close> by blast
  next
    case (Inr j)
    then have "hp_Status resp = 200" using f(2) x by (simp add: reply_with_def writeJSON_def)
    then show ?thesis using answer [of undefined] fail_reply(1) by auto
  qed
qed simp

text \<open>
  C4. What the bridge says about a failed create is true. A create may fail anywhere on its way:
  in the bridge, on the network, which may lose or cut the request or the reply, in the
  handler, in the worker or in the journal. Unless the error result tells the client that
  acceptance is uncertain, and to repeat the same call, nothing was accepted: the jobs, the queue, the
  receipts, the journal and the running inference are as they were before.
\<close>

theorem create_certain:
  assumes "op \<in> set create_ops" and "opt_all context_error (cc_detached cc)"
  shows "case create_served h hh (worker_service h (journal_ops h) cc nc ms) sf authority ln expired op i w of
      (w', Inl err) \<Rightarrow> map_of (faults err True) ''acceptance_uncertain'' = Some (JBool True) \<or> kept w w'
    | (w', Inr _) \<Rightarrow> True"
proof -
  let ?sv = "worker_service h (journal_ops h) cc nc ms"
  obtain w' res where s: "create_served h hh ?sv sf authority ln expired op i w = (w', res)" by fastforce
  have "map_of (faults err True) ''acceptance_uncertain'' = Some (JBool True) \<or> kept w w'" if r: "res = Inl err" for err
  proof (cases "w' = w")
    case False
    obtain body where b: "create_command h op i = Inr body"
      using s False by (auto simp: create_served_def split: sum.splits)
    have n: "body \<noteq> Some None" using s False b by (auto simp: create_served_def)
    obtain payload reply where o': "over_link h hh ?sv sf authority ln ''POST'' (''/v1/'' @ op) payload w = (w', reply)"
      "create_tool h (\<lambda>_ _ _. reply) expired op i = Inl err"
      using s b n r by (auto simp: create_served_def split: option.splits prod.splits)
    then show ?thesis
      using certain_kept [OF assms b n] uncertain_faults [OF b] by blast
  qed simp
  then show ?thesis unfolding s prod.case by (cases res) auto
qed

end
