(* ===== verification/Mcp_Wait.thy ===== *)
theory Mcp_Wait
  imports Mcp_Tools
begin

text \<open>
  \<open>wait_job\<close> of \<open>tools.go\<close>: its loop against an arbitrary clock and arbitrary replies, and that it
  always answers.
\<close>

text \<open>Times and limits are in nanoseconds.\<close>

definition pollInterval :: int where "pollInterval = 250000000"
definition DefaultCallLimit :: int where "DefaultCallLimit = 30000000000"

record wait_in =
  wi_JobID :: bytes
  wi_IncludeOutput :: "bool option"
  wi_IncludeInputs :: "bool option"
  wi_TimeoutSeconds :: "nat option"

text \<open>
  One round of the loop: the clock at its head, its poll, the clock after the poll, the clock when
  an answer is built, and the error of the caller's context if that ends before the timer does.
\<close>

record wait_round =
  wr_Now :: int
  wr_Exch :: exchange
  wr_Expired :: bool
  wr_After :: int
  wr_Answer :: int
  wr_Gone :: "goerr option"

definition unknown_note :: bytes where
  "unknown_note = ''no poll completed within the budget; the job state is unknown; call wait_job or get_job again''"

definition wait_answer :: "wait_in \<Rightarrow> int \<Rightarrow> int \<Rightarrow> object option \<Rightarrow> bool \<Rightarrow> object" where
  "wait_answer i start now job terminal =
     set_key ''waited_ms'' (JInt ((now - start) div 1000000)) (set_key ''timed_out'' (JBool (\<not> terminal))
       (set_key ''terminal'' (JBool terminal) (set_key ''observed'' (JBool (job \<noteq> None))
         (case job of
            Some j \<Rightarrow> jobView j (flag (wi_IncludeOutput i)) (flag (wi_IncludeInputs i))
          | None \<Rightarrow> [(''job_id'', JStr (wi_JobID i)), (''note'', JStr unknown_note)]))))"

definition poll :: "wait_in \<Rightarrow> wait_round \<Rightarrow> tool_err + object" where
  "poll i r = getJob_for (wr_Exch r) (wr_Expired r) (wi_JobID i)"

text \<open>\<open>None\<close> is still waiting after the given rounds.\<close>

fun wait_loop :: "wait_in \<Rightarrow> int \<Rightarrow> int \<Rightarrow> int \<Rightarrow> object option \<Rightarrow> wait_round list \<Rightarrow> (tool_err + object) option" where
  "wait_loop i timeout start deadline latest [] = None"
| "wait_loop i timeout start deadline latest (r # rs) =
     (let left = deadline - wr_Now r; answer = wait_answer i start (wr_Answer r) in
      if left \<le> 0 then Some (Inr (answer latest False))
      else (case poll i r of
          Inl e \<Rightarrow>
            if left \<le> timeout \<and> e = TimeoutErr then Some (Inr (answer latest False)) else Some (Inl e)
        | Inr job \<Rightarrow>
            if deadline \<le> wr_After r then Some (Inr (answer latest False))
            else if Terminal (stateOf job) then Some (Inr (answer (Some job) True))
            else (case wr_Gone r of
                Some e \<Rightarrow> Some (Inl (OtherFailure e))
              | None \<Rightarrow> wait_loop i timeout start deadline (Some job) rs)))"

definition wait_limit :: "wait_in \<Rightarrow> int" where
  "wait_limit i = (case wi_TimeoutSeconds i of None \<Rightarrow> 25 | Some n \<Rightarrow> int n) * 1000000000"

text \<open>The tool: a wait of 0 seconds checks once.\<close>

definition wait_job :: "wait_in \<Rightarrow> int \<Rightarrow> int \<Rightarrow> wait_round list \<Rightarrow> (tool_err + object) option" where
  "wait_job i timeout start rs =
     (if wait_limit i = 0 then
        (case rs of
           [] \<Rightarrow> None
         | r # _ \<Rightarrow>
             Some (case poll i r of
                 Inl e \<Rightarrow> Inl e
               | Inr job \<Rightarrow> Inr (wait_answer i start (wr_Answer r) (Some job) (Terminal (stateOf job)))))
      else wait_loop i timeout start (start + wait_limit i) None rs)"

subsection \<open>The rounds of the clock\<close>

text \<open>
  What the clock and the timer promise: time does not run backwards, and the next round starts
  when the poll interval has passed or the deadline is reached.
\<close>

fun paced :: "int \<Rightarrow> wait_round list \<Rightarrow> bool" where
  "paced deadline (r # s # rs) =
     (wr_Now r \<le> wr_After r \<and> min (wr_After r + pollInterval) deadline \<le> wr_Now s \<and> paced deadline (s # rs))"
| "paced deadline rs = True"

text \<open>The last job a poll returned before the deadline.\<close>

fun last_seen :: "wait_in \<Rightarrow> int \<Rightarrow> object option \<Rightarrow> wait_round list \<Rightarrow> object option" where
  "last_seen i deadline latest [] = latest"
| "last_seen i deadline latest (r # rs) =
     last_seen i deadline
       (case poll i r of Inl _ \<Rightarrow> latest
        | Inr job \<Rightarrow> if wr_Now r < deadline \<and> wr_After r < deadline then Some job else latest) rs"

definition running_poll :: "wait_in \<Rightarrow> int \<Rightarrow> wait_round \<Rightarrow> bool" where
  "running_poll i deadline r =
     (wr_Now r < deadline \<and> wr_After r < deadline \<and> wr_Gone r = None \<and>
      (case poll i r of Inl _ \<Rightarrow> False | Inr job \<Rightarrow> \<not> Terminal (stateOf job)))"

lemma wait_loop_running:
  "running_poll i deadline r \<Longrightarrow>
     wait_loop i timeout start deadline latest (r # rs) = wait_loop i timeout start deadline (Some (projr (poll i r))) rs"
  by (auto simp: running_poll_def split: sum.splits)

lemma wait_loop_running_iff:
  "wait_loop i timeout start deadline latest (r # rs) = None \<longleftrightarrow>
     running_poll i deadline r \<and> wait_loop i timeout start deadline (Some (projr (poll i r))) rs = None"
  by (auto simp: running_poll_def Let_def split: sum.splits option.splits)

lemma paced_step:
  assumes "paced deadline (r # rs)" and "running_poll i deadline r" and "rs \<noteq> []"
  shows "paced deadline rs" and "min (wr_Now r + pollInterval) deadline \<le> wr_Now (hd rs)"
  using assms by (cases rs; auto simp: running_poll_def)+

lemma wait_loop_answers:
  assumes "paced deadline rs" and "rs \<noteq> []" and "deadline - wr_Now (hd rs) \<le> int (length rs - 1) * pollInterval"
  shows "wait_loop i timeout start deadline latest rs \<noteq> None"
  using assms
proof (induction rs arbitrary: latest)
  case (Cons r rs)
  show ?case
  proof (cases "running_poll i deadline r")
    case True
    then have now: "wr_Now r < deadline" by (simp add: running_poll_def)
    then have ne: "rs \<noteq> []" using Cons.prems(3) by auto
    note p = paced_step [OF Cons.prems(1) True ne]
    obtain n where n: "length rs = Suc n" using ne by (cases rs) auto
    have "deadline - wr_Now r \<le> int n * pollInterval + pollInterval"
      using Cons.prems(3) by (simp add: n algebra_simps)
    moreover have "0 \<le> int n * pollInterval" by (simp add: pollInterval_def)
    ultimately have "deadline - wr_Now (hd rs) \<le> int n * pollInterval"
      using p(2) by linarith
    then have "deadline - wr_Now (hd rs) \<le> int (length rs - 1) * pollInterval" by (simp add: n)
    from Cons.IH [OF p(1) ne this] show ?thesis unfolding wait_loop_running [OF True] .
  next
    case False
    then show ?thesis unfolding wait_loop_running_iff by blast
  qed
qed simp

text \<open>What is reported: the last job seen within the budget, terminal exactly if that job is.\<close>

definition live_job :: "object option \<Rightarrow> bool" where
  "live_job x = (case x of None \<Rightarrow> True | Some j \<Rightarrow> \<not> Terminal (stateOf j))"

text \<open>The round in which the loop ends, and what it answers there.\<close>

definition stop_round :: "wait_in \<Rightarrow> int \<Rightarrow> wait_round list \<Rightarrow> nat" where
  "stop_round i deadline rs = length (takeWhile (running_poll i deadline) rs)"

lemma wait_loop_None:
  "wait_loop i timeout start deadline latest rs = None \<longleftrightarrow> stop_round i deadline rs = length rs"
proof (induction rs arbitrary: latest)
  case (Cons r rs)
  show ?case unfolding wait_loop_running_iff Cons.IH by (simp add: stop_round_def)
qed (simp add: stop_round_def)

lemma stop_round_stops:
  "stop_round i deadline rs < length rs \<Longrightarrow> \<not> running_poll i deadline (rs ! stop_round i deadline rs)"
  unfolding stop_round_def by (rule nth_length_takeWhile)

lemma last_seen_snoc:
  "last_seen i deadline latest (rs @ [r]) =
     (case poll i r of Inl _ \<Rightarrow> last_seen i deadline latest rs
      | Inr job \<Rightarrow> if wr_Now r < deadline \<and> wr_After r < deadline then Some job else last_seen i deadline latest rs)"
  by (induction rs arbitrary: latest) (auto split: sum.split)

lemma last_seen_running:
  assumes "running_poll i deadline r"
  shows "last_seen i deadline latest (r # rs) = last_seen i deadline (Some (projr (poll i r))) rs"
    and "live_job (Some (projr (poll i r)))"
  using assms by (auto simp: running_poll_def live_job_def split: sum.splits)

lemma last_seen_live:
  "live_job latest \<Longrightarrow> live_job (last_seen i deadline latest (take (stop_round i deadline rs) rs))"
proof (induction rs arbitrary: latest)
  case (Cons r rs)
  show ?case
  proof (cases "running_poll i deadline r")
    case True
    then show ?thesis
      using Cons.IH [OF last_seen_running(2) [OF True]] last_seen_running(1) [OF True]
      by (simp add: stop_round_def del: last_seen.simps)
  qed (use Cons.prems in \<open>simp add: stop_round_def\<close>)
qed simp

text \<open>Up to that round only the last job matters: the loop goes on as if it began there.\<close>

lemma wait_loop_at:
  assumes "stop_round i deadline rs < length rs"
  shows "wait_loop i timeout start deadline latest rs =
    wait_loop i timeout start deadline (last_seen i deadline latest (take (stop_round i deadline rs) rs))
      [rs ! stop_round i deadline rs]"
  using assms
proof (induction rs arbitrary: latest)
  case (Cons r rs)
  show ?case
  proof (cases "running_poll i deadline r")
    case True
    then have "stop_round i deadline (r # rs) = Suc (stop_round i deadline rs)" by (simp add: stop_round_def)
    then show ?thesis
      using Cons wait_loop_running [OF True] last_seen_running(1) [OF True] by (simp del: wait_loop.simps last_seen.simps)
  next
    case False
    then have z: "stop_round i deadline (r # rs) = 0" by (simp add: stop_round_def)
    have "wait_loop i timeout start deadline latest (r # rs) = wait_loop i timeout start deadline latest [r]"
      using False by (auto simp: running_poll_def Let_def split: sum.splits option.splits)
    then show ?thesis by (simp add: z del: wait_loop.simps)
  qed
qed simp

text \<open>The members of an answer.\<close>

definition view_keys :: "bytes list" where
  "view_keys = [''job'', ''omitted'', ''output_bytes'']"

lemma wait_answer_members:
  "map_of (wait_answer i start now job b) ''observed'' = Some (JBool (job \<noteq> None))"
  "map_of (wait_answer i start now job b) ''terminal'' = Some (JBool b)"
  "map_of (wait_answer i start now job b) ''timed_out'' = Some (JBool (\<not> b))"
  "map_of (wait_answer i start now None b) ''job_id'' = Some (JStr (wi_JobID i))"
  "map_of (wait_answer i start now None b) ''note'' = Some (JStr unknown_note)"
  "map_of (wait_answer i start now job b) ''waited_ms'' = Some (JInt ((now - start) div 1000000))"
  "k \<in> set view_keys \<Longrightarrow> map_of (wait_answer i start now (Some j) b) k =
     map_of (jobView j (flag (wi_IncludeOutput i)) (flag (wi_IncludeInputs i))) k"
  by (auto simp: wait_answer_def map_of_set_key view_keys_def)

text \<open>
  The last round: \<open>job\<close> is the last job seen. An error is that of the poll, unless it only says that
  the rest of the budget is over, or that of the caller's context; an answer gives the job if it is terminal,
  and else says that the time is up, which it is.
\<close>

definition time_up :: "wait_in \<Rightarrow> int \<Rightarrow> int \<Rightarrow> wait_round \<Rightarrow> bool" where
  "time_up i timeout deadline r =
     (deadline \<le> wr_Now r \<or> (if is_ok (poll i r) then deadline \<le> wr_After r
        else deadline - wr_Now r \<le> timeout \<and> poll i r = Inl TimeoutErr))"

definition failed_poll :: "wait_in \<Rightarrow> int \<Rightarrow> int \<Rightarrow> wait_round \<Rightarrow> tool_err \<Rightarrow> bool" where
  "failed_poll i timeout deadline r e =
     (\<not> time_up i timeout deadline r \<and>
      (case poll i r of
         Inl e1 \<Rightarrow> e = e1
       | Inr job \<Rightarrow> \<not> Terminal (stateOf job) \<and> map_option OtherFailure (wr_Gone r) = Some e))"

definition wait_shows :: "wait_in \<Rightarrow> int \<Rightarrow> object option \<Rightarrow> object \<Rightarrow> bool" where
  "wait_shows i waited job out =
     (map_of out ''waited_ms'' = Some (JInt (waited div 1000000)) \<and>
      map_of out ''observed'' = Some (JBool (job \<noteq> None)) \<and> map_of out ''terminal'' = Some (JBool (\<not> live_job job)) \<and>
      map_of out ''timed_out'' = Some (JBool (live_job job)) \<and>
      (case job of
         None \<Rightarrow> map_of out ''job_id'' = Some (JStr (wi_JobID i)) \<and> map_of out ''note'' = Some (JStr unknown_note)
       | Some j \<Rightarrow>
           map (map_of out) view_keys = map (map_of (jobView j (flag (wi_IncludeOutput i)) (flag (wi_IncludeInputs i)))) view_keys))"

lemma wait_answer_shows: "wait_shows i (now - start) job (wait_answer i start now job (\<not> live_job job))"
  by (cases job) (simp_all add: wait_shows_def wait_answer_members)

lemma wait_loop_last:
  assumes "\<not> running_poll i deadline r" and "live_job latest"
  shows "\<exists>res. wait_loop i timeout start deadline latest [r] = Some res \<and>
    (case res of
       Inl e \<Rightarrow> failed_poll i timeout deadline r e
     | Inr out \<Rightarrow> wait_shows i (wr_Answer r - start) (last_seen i deadline latest [r]) out \<and>
         (live_job (last_seen i deadline latest [r]) \<longrightarrow> time_up i timeout deadline r))"
proof (cases "time_up i timeout deadline r")
  case True
  then have "wait_loop i timeout start deadline latest [r] = Some (Inr (wait_answer i start (wr_Answer r) latest False))"
      "last_seen i deadline latest [r] = latest"
    by (auto simp: time_up_def is_ok_def Let_def split: sum.splits if_splits)
  then show ?thesis using wait_answer_shows [of i "wr_Answer r" start latest] assms(2) True by simp
next
  case False
  show ?thesis
  proof (cases "poll i r")
    case (Inl e)
    then show ?thesis using False by (auto simp: time_up_def failed_poll_def is_ok_def Let_def)
  next
    case (Inr job)
    show ?thesis
    proof (cases "Terminal (stateOf job)")
      case True
      then have t: "\<not> live_job (Some job)" by (simp add: live_job_def)
      have "wait_loop i timeout start deadline latest [r] = Some (Inr (wait_answer i start (wr_Answer r) (Some job) True))"
          "last_seen i deadline latest [r] = Some job"
        using False Inr True by (auto simp: time_up_def is_ok_def Let_def)
      then show ?thesis using t wait_answer_shows [of i "wr_Answer r" start "Some job"] by simp
    qed (use assms(1) False Inr in \<open>auto simp: time_up_def failed_poll_def running_poll_def is_ok_def Let_def split: option.split\<close>)
  qed
qed

text \<open>
  C21. Waiting for a job always ends, and what it reports is true: with a clock that does not run
  backwards and a timer that fires, \<open>wait_job\<close> answers within one round more than the budget has
  poll intervals, whatever the service replies. It ends in the first round that does not find the job
  still running within the budget. An answer that is no error shows the last job that a poll up to and
  including this round returned within the budget, says that it is observed exactly if there is one,
  terminal exactly if that job is, and timed out in all other cases, which occur only when the
  budget is used up; the job is never forgotten for a later poll that was late or ran out of time. Without
  a job the answer names the job asked for and says that its state is unknown. An error is
  the one the last poll met while there was time left, or that of the caller's own context.
\<close>

theorem wait_job_answers:
  assumes "0 < wait_limit i" and "rs \<noteq> []" and "start \<le> wr_Now (hd rs)"
    and "paced (start + wait_limit i) rs" and "wait_limit i \<le> int (length rs - 1) * pollInterval"
  shows "stop_round i (start + wait_limit i) rs < length rs \<and>
    (\<exists>res. wait_job i timeout start rs = Some res \<and>
      (case res of
         Inl e \<Rightarrow> failed_poll i timeout (start + wait_limit i) (rs ! stop_round i (start + wait_limit i) rs) e
       | Inr out \<Rightarrow>
           (let job = last_seen i (start + wait_limit i) None (take (Suc (stop_round i (start + wait_limit i) rs)) rs) in
            wait_shows i (wr_Answer (rs ! stop_round i (start + wait_limit i) rs) - start) job out \<and>
            (live_job job \<longrightarrow> time_up i timeout (start + wait_limit i) (rs ! stop_round i (start + wait_limit i) rs)))))"
proof -
  let ?d = "start + wait_limit i"
  let ?k = "stop_round i ?d rs"
  obtain n where n: "length rs = Suc n" using assms(2) by (cases rs) auto
  have "wait_loop i timeout start ?d None rs \<noteq> None" using assms by (intro wait_loop_answers) (auto simp: n)
  then have k: "?k < length rs"
    using length_takeWhile_le [of "running_poll i ?d" rs] unfolding wait_loop_None by (simp add: stop_round_def)
  let ?latest = "last_seen i ?d None (take ?k rs)"
  have "live_job ?latest" by (rule last_seen_live) (simp add: live_job_def)
  note last_round = wait_loop_last [OF stop_round_stops [OF k] this, of timeout start]
  have "last_seen i ?d None (take (Suc ?k) rs) = last_seen i ?d ?latest [rs ! ?k]"
    by (simp add: take_Suc_conv_app_nth [OF k] last_seen_snoc)
  moreover have "wait_job i timeout start rs = wait_loop i timeout start ?d ?latest [rs ! ?k]"
    using assms(1) wait_loop_at [OF k] by (simp add: wait_job_def del: wait_loop.simps)
  ultimately show ?thesis using k last_round by (simp only: Let_def simp_thms)
qed

end
