(* ===== verification/Mcp_Events.thy ===== *)
theory Mcp_Events
  imports Mcp_Tools
begin

text \<open>
  \<open>readEvents\<close> of \<open>tools.go\<close>: a bounded batch of the frames of a watch, and what its cursor covers.
\<close>

subsection \<open>\<open>strconv.Quote\<close>\<close>

text \<open>\<open>unicode.IsPrint\<close> above ASCII is the parameter \<open>printable\<close>.\<close>

definition rune_value :: "bytes \<Rightarrow> nat" where
  "rune_value p =
     (case p of
        [] \<Rightarrow> 0
      | c # cs \<Rightarrow>
          foldl (\<lambda>v x. 64 * v + byte x mod 64)
            (if cs = [] then byte c else byte c mod 2 ^ (6 - length cs)) cs)"

definition hex_digits :: "nat \<Rightarrow> nat \<Rightarrow> bytes" where
  "hex_digits k n = map (\<lambda>i. hex_digit (n div 16 ^ i mod 16)) (rev [0..<k])"

definition short_escapes :: "(char \<times> char) list" where
  "short_escapes = [(CHR 0x07, CHR ''a''), (CHR 0x08, CHR ''b''), (CHR 0x0C, CHR ''f''), (CHR 0x0A, CHR ''n''),
     (CHR 0x0D, CHR ''r''), (CHR 0x09, CHR ''t''), (CHR 0x0B, CHR ''v'')]"

definition quote_rune :: "(nat \<Rightarrow> bool) \<Rightarrow> bytes \<Rightarrow> bytes" where
  "quote_rune printable p =
     (let r = rune_value p in
      if p = [CHR 0x22] \<or> p = [CHR 0x5C] then CHR 0x5C # p
      else if r < 0x80 \<and> 0x20 \<le> r \<and> r < 0x7F \<or> 0x80 \<le> r \<and> printable r then p
      else case (if length p = 1 then map_of short_escapes (hd p) else None) of
        Some c \<Rightarrow> [CHR 0x5C, c]
      | None \<Rightarrow>
          if r < 0x80 then [CHR 0x5C, CHR ''x''] @ hex_digits 2 r
          else if r < 0x10000 then [CHR 0x5C, CHR ''u''] @ hex_digits 4 r
          else [CHR 0x5C, CHR ''U''] @ hex_digits 8 r)"

text \<open>The first argument bounds the runes; the length of the string is enough.\<close>

fun quote_runes :: "nat \<Rightarrow> (nat \<Rightarrow> bool) \<Rightarrow> bytes \<Rightarrow> bytes" where
  "quote_runes 0 printable s = []"
| "quote_runes (Suc n) printable s =
     (if s = [] then []
      else case rune_len s of
        None \<Rightarrow> [CHR 0x5C, CHR ''x''] @ hex_digits 2 (byte (hd s)) @ quote_runes n printable (tl s)
      | Some k \<Rightarrow> quote_rune printable (take k s) @ quote_runes n printable (drop k s))"

definition Quote :: "(nat \<Rightarrow> bool) \<Rightarrow> bytes \<Rightarrow> bytes" where
  "Quote printable s = [CHR 0x22] @ quote_runes (length s) printable s @ [CHR 0x22]"

subsection \<open>The batch\<close>

record events_in =
  ei_After :: bytes
  ei_JobID :: bytes
  ei_MaxEvents :: "nat option"
  ei_TimeoutSeconds :: "nat option"

definition errStop :: goerr where "errStop = OtherErr ''stop''"

text \<open>The kind and job of an event; other members do not matter.\<close>

definition frame_head :: "sse_frame \<Rightarrow> (bytes \<times> bytes) option" where
  "frame_head f =
     Option.bind (Option.bind (fm_Data f) parse_go)
       (\<lambda>v. into_struct [(''kind'', slot into_string fst apfst), (''job_id'', slot into_string snd apsnd)] v ([], []))"

definition frame_data :: "sse_frame \<Rightarrow> bytes" where
  "frame_data f = option_or [] (fm_Data f)"

text \<open>The cursor is written back as the text of its value.\<close>

definition cursorOf :: "bytes \<Rightarrow> json" where
  "cursorOf b =
     option_or JNull (Option.bind (parse_go b) (\<lambda>v. into_struct [(''cursor'', \<lambda>x _. Some x)] v JNull))"

definition member_text :: "char \<Rightarrow> bytes \<Rightarrow> bytes \<Rightarrow> bytes" where
  "member_text opener key v = opener # json_string key @ '':'' @ v"

definition oversized_marker :: "(nat \<Rightarrow> bool) \<Rightarrow> bytes \<Rightarrow> bytes \<times> bytes \<Rightarrow> bytes" where
  "oversized_marker printable b head =
     member_text (CHR 0x7B) ''cursor'' (json_text (cursorOf b)) @
     member_text (CHR '','') ''kind'' (Quote printable (fst head)) @
     member_text (CHR '','') ''job_id'' (Quote printable (snd head)) @
     member_text (CHR '','') ''omitted'' ''true'' @
     member_text (CHR '','') ''reason'' (json_string ''event_exceeds_inline_bound'') @
     member_text (CHR '','') ''bytes'' (dec_nat (length b)) @
     member_text (CHR '','') ''retrieve_via'' (json_string ''get_job'') @ [CHR 0x7D]"

definition event_item :: "(nat \<Rightarrow> bool) \<Rightarrow> bytes \<Rightarrow> bytes \<times> bytes \<Rightarrow> bytes" where
  "event_item printable b head = (if MaxInlineEvent < length b then oversized_marker printable b head else b)"

text \<open>The variables the callback of the watch works on.\<close>

record batch =
  ba_Events :: "bytes list"
  ba_Next :: bytes
  ba_Size :: nat
  ba_Stopped :: bytes

definition batch_frame :: "(nat \<Rightarrow> bool) \<Rightarrow> events_in \<Rightarrow> sse_frame \<Rightarrow> batch \<Rightarrow> batch \<times> goerr option" where
  "batch_frame printable i f b =
     (case frame_head f of
        None \<Rightarrow> (b, Some (OtherErr ''bad frame''))
      | Some head \<Rightarrow>
          if fm_Kind f \<noteq> ''event'' then (b, Some (OtherErr ''unexpected frame''))
          else if ei_JobID i \<noteq> [] \<and> snd head \<noteq> ei_JobID i then (b\<lparr>ba_Next := fm_ID f\<rparr>, None)
          else (let item = event_item printable (frame_data f) head in
            if MaxResultBytes < ba_Size b + length item \<and> ba_Events b \<noteq> []
            then (b\<lparr>ba_Stopped := ''max_bytes''\<rparr>, Some errStop)
            else (let b1 = b\<lparr>ba_Events := ba_Events b @ [item], ba_Size := ba_Size b + length item, ba_Next := fm_ID f\<rparr> in
              if option_or 100 (ei_MaxEvents i) \<le> length (ba_Events b1)
              then (b1\<lparr>ba_Stopped := ''max_events''\<rparr>, Some errStop) else (b1, None))))"

text \<open>The callback over the frames so far: it is not called again once it has failed.\<close>

fun batch_frames :: "(nat \<Rightarrow> bool) \<Rightarrow> events_in \<Rightarrow> sse_frame list \<Rightarrow> batch \<Rightarrow> batch \<times> goerr option" where
  "batch_frames printable i [] b = (b, None)"
| "batch_frames printable i (f # fs) b =
     (case batch_frame printable i f b of (b1, None) \<Rightarrow> batch_frames printable i fs b1 | (b1, Some e) \<Rightarrow> (b1, Some e))"

definition empty_batch :: "events_in \<Rightarrow> batch" where
  "empty_batch i = \<lparr>ba_Events = [], ba_Next = ei_After i, ba_Size = 0, ba_Stopped = ''timeout''\<rparr>"

record event_batch =
  eb_Events :: "bytes list"
  eb_Count :: nat
  eb_NextCursor :: bytes
  eb_StoppedBy :: bytes
  eb_StreamError :: "json option"

definition batch_result :: "batch \<Rightarrow> bytes \<Rightarrow> json option \<Rightarrow> event_batch" where
  "batch_result b stopped e =
     \<lparr>eb_Events = ba_Events b, eb_Count = length (ba_Events b), eb_NextCursor = ba_Next b,
      eb_StoppedBy = stopped, eb_StreamError = e\<rparr>"

definition timed_out :: "event_batch \<Rightarrow> bool" where
  "timed_out e = (eb_StoppedBy e = ''timeout'')"

text \<open>
  \<open>gone\<close> is the error of the caller's context after the watch, \<open>over\<close> says that the deadline of
  the watch has passed. A watch never ends without an error.
\<close>

definition readEvents ::
  "(nat \<Rightarrow> bool) \<Rightarrow> exchange \<Rightarrow> goerr option \<Rightarrow> bool \<Rightarrow> events_in \<Rightarrow> tool_err + event_batch" where
  "readEvents printable exch gone over i =
     (if \<not> is_ok (ParseCursor (ei_After i))
      then Inl (local_fault ErrCursorInvalid ''after must be a canonical STORE:SEQUENCE cursor'')
      else (case client_Watch exch (\<lambda>fs. snd (batch_frames printable i fs (empty_batch i))) (ei_After i) of
          (fs, err) \<Rightarrow>
            (let b = fst (batch_frames printable i fs (empty_batch i)) in
             if err = errStop then Inr (batch_result b (ba_Stopped b) None)
             else case gone of
               Some e \<Rightarrow> Inl (OtherFailure e)
             | None \<Rightarrow>
                 if over then Inr (batch_result b (ba_Stopped b) None)
                 else if ba_Events b = [] \<and> ba_Next b = ei_After i then Inl (OtherFailure err)
                 else Inr (batch_result b ''stream_error'' (map_of (faultBody (OtherFailure err) False) ''error'')))))"

subsection \<open>What a batch covers\<close>

lemma batch_frames_append:
  "batch_frames printable i (fs @ gs) b =
     (case batch_frames printable i fs b of (b1, None) \<Rightarrow> batch_frames printable i gs b1 | (b1, Some e) \<Rightarrow> (b1, Some e))"
  by (induction fs arbitrary: b) (auto split: prod.splits option.splits)

lemma batch_frames_snoc:
  "batch_frames printable i (fs @ [f]) b =
     (case batch_frames printable i fs b of (b1, None) \<Rightarrow> batch_frame printable i f b1 | (b1, Some e) \<Rightarrow> (b1, Some e))"
  by (auto simp: batch_frames_append split: prod.splits option.splits)

text \<open>The watch applies a frame only while the callback has not failed, and ends with its error.\<close>

lemma watch_applies:
  "watch_lines app ls f n d = (fs, err) \<Longrightarrow> app d = None \<Longrightarrow>
     app fs = None \<or> (fs \<noteq> [] \<and> app (butlast fs) = None \<and> app fs = Some err)"
proof (induction ls arbitrary: f n d)
  case (Cons line ls)
  show ?case
  proof (cases "frame_limit < n + length line")
    case False
    show ?thesis
    proof (cases "line = []")
      case True
      show ?thesis
      proof (cases "complete_frame f")
        case (Some r)
        show ?thesis
        proof (cases r)
          case (Inr g)
          then show ?thesis using Cons False True Some by (cases "app (d @ [g])") auto
        qed (use Cons.prems False True Some in auto)
      qed (use Cons False True in auto)
    next
      case nonempty: False
      then show ?thesis using Cons False by (cases "frame_line line f") auto
    qed
  qed (use Cons.prems in auto)
qed simp

definition wanted :: "events_in \<Rightarrow> sse_frame \<Rightarrow> bool" where
  "wanted i f = (case frame_head f of None \<Rightarrow> False | Some head \<Rightarrow> ei_JobID i = [] \<or> snd head = ei_JobID i)"

definition batch_items :: "(nat \<Rightarrow> bool) \<Rightarrow> events_in \<Rightarrow> sse_frame list \<Rightarrow> bytes list" where
  "batch_items printable i fs =
     map (\<lambda>f. event_item printable (frame_data f) (the (frame_head f))) (filter (wanted i) fs)"

definition reached :: "events_in \<Rightarrow> sse_frame list \<Rightarrow> bytes" where
  "reached i fs = (if fs = [] then ei_After i else fm_ID (last fs))"

definition within_bounds :: "events_in \<Rightarrow> bytes list \<Rightarrow> bool" where
  "within_bounds i es =
     (length es \<le> max 1 (option_or 100 (ei_MaxEvents i)) \<and>
      (sum_list (map length es) \<le> MaxResultBytes \<or> length es \<le> 1))"

definition covers :: "(nat \<Rightarrow> bool) \<Rightarrow> events_in \<Rightarrow> sse_frame list \<Rightarrow> batch \<Rightarrow> bool" where
  "covers printable i fs b =
     (ba_Events b = batch_items printable i fs \<and> ba_Next b = reached i fs \<and>
      ba_Size b = sum_list (map length (ba_Events b)) \<and> within_bounds i (ba_Events b))"

lemma batch_frame_covers:
  assumes "covers printable i fs b" and "ba_Events b = [] \<or> length (ba_Events b) < option_or 100 (ei_MaxEvents i)"
    and "batch_frame printable i f b = (b1, r)"
  shows "case r of
      None \<Rightarrow> covers printable i (fs @ [f]) b1 \<and> (ba_Events b1 = [] \<or> length (ba_Events b1) < option_or 100 (ei_MaxEvents i))
    | Some e \<Rightarrow> covers printable i fs b1 \<or> covers printable i (fs @ [f]) b1"
proof (cases "frame_head f")
  case (Some head)
  show ?thesis
  proof (cases "fm_Kind f = ''event''")
    case kind: True
    show ?thesis
    proof (cases "wanted i f")
      case True
      then have w: "\<not> (ei_JobID i \<noteq> [] \<and> snd head \<noteq> ei_JobID i)" by (auto simp: wanted_def Some)
      define item where "item = event_item printable (frame_data f) head"
      have items: "batch_items printable i (fs @ [f]) = batch_items printable i fs @ [item]"
        by (simp add: batch_items_def True item_def Some)
      show ?thesis
      proof (cases "MaxResultBytes < ba_Size b + length item \<and> ba_Events b \<noteq> []")
        case True
        then show ?thesis using assms w by (auto simp: batch_frame_def Some kind item_def [symmetric] Let_def covers_def)
      next
        case False
        define b2 where "b2 = b\<lparr>ba_Events := ba_Events b @ [item], ba_Size := ba_Size b + length item, ba_Next := fm_ID f\<rparr>"
        have c: "covers printable i (fs @ [f]) b2"
          using assms(1,2) False by (auto simp: covers_def b2_def items reached_def within_bounds_def)
        have "batch_frame printable i f b =
            (if option_or 100 (ei_MaxEvents i) \<le> length (ba_Events b2) then (b2\<lparr>ba_Stopped := ''max_events''\<rparr>, Some errStop) else (b2, None))"
          unfolding batch_frame_def Some option.case kind Let_def item_def [symmetric] b2_def [symmetric]
            if_not_P [OF w] if_not_P [OF False] by simp
        then show ?thesis using assms(3) c by (auto simp: covers_def split: if_splits)
      qed
    next
      case False
      then have "ei_JobID i \<noteq> [] \<and> snd head \<noteq> ei_JobID i" by (auto simp: wanted_def Some)
      then show ?thesis using assms False
        by (auto simp: batch_frame_def Some kind covers_def batch_items_def reached_def)
    qed
  qed (use assms in \<open>auto simp: batch_frame_def Some\<close>)
qed (use assms in \<open>auto simp: batch_frame_def\<close>)

lemma batch_frames_covers:
  "batch_frames printable i fs (empty_batch i) = (b, None) \<Longrightarrow>
     covers printable i fs b \<and> (ba_Events b = [] \<or> length (ba_Events b) < option_or 100 (ei_MaxEvents i))"
proof (induction fs arbitrary: b rule: rev_induct)
  case Nil
  then show ?case by (auto simp: empty_batch_def covers_def batch_items_def reached_def within_bounds_def)
next
  case (snoc f fs)
  then obtain b0 where b0: "batch_frames printable i fs (empty_batch i) = (b0, None)" "batch_frame printable i f b0 = (b, None)"
    by (auto simp: batch_frames_snoc split: prod.splits option.splits)
  note ih = snoc.IH [OF b0(1)]
  show ?case using batch_frame_covers [OF conjunct1 [OF ih] conjunct2 [OF ih] b0(2)] by simp
qed

lemma watch_covers:
  assumes "client_Watch exch (\<lambda>fs. snd (batch_frames printable i fs (empty_batch i))) after = (fs, err)"
    and "batch_frames printable i fs (empty_batch i) = (b, r)"
  shows "\<exists>covered rest. fs = covered @ rest \<and> length rest \<le> 1 \<and> covers printable i covered b"
proof -
  let ?app = "\<lambda>fs. snd (batch_frames printable i fs (empty_batch i))"
  have "?app fs = None \<or> (fs \<noteq> [] \<and> ?app (butlast fs) = None \<and> ?app fs = Some err)"
    using assms(1) watch_applies [of ?app _ no_frame 0 "[]" fs err]
    by (auto simp: client_Watch_def watch_body_def split: option.splits if_splits sum.splits)
  then consider (whole) "r = None" | (part) "fs \<noteq> []" "?app (butlast fs) = None" using assms(2) by auto
  then show ?thesis
  proof cases
    case whole
    then show ?thesis using batch_frames_covers assms(2)
      by (intro exI [of _ fs] exI [of _ "[]"]) auto
  next
    case part
    then obtain b0 where b0: "batch_frames printable i (butlast fs) (empty_batch i) = (b0, None)"
      by (cases "batch_frames printable i (butlast fs) (empty_batch i)") auto
    note ih = batch_frames_covers [OF b0]
    have f: "butlast fs @ [last fs] = fs" using part(1) by simp
    have s: "batch_frame printable i (last fs) b0 = (b, r)"
      using assms(2) b0 batch_frames_snoc [of printable i "butlast fs" "last fs"] unfolding f by simp
    have "covers printable i (butlast fs) b \<or> covers printable i fs b"
      using batch_frame_covers [OF conjunct1 [OF ih] conjunct2 [OF ih] s] unfolding f by (cases r) auto
    then show ?thesis
    proof
      assume "covers printable i (butlast fs) b"
      then show ?thesis using f by (intro exI [of _ "butlast fs"] exI [of _ "[last fs]"]) simp
    next
      assume "covers printable i fs b"
      then show ?thesis by (intro exI [of _ fs] exI [of _ "[]"]) simp
    qed
  qed
qed

text \<open>
  C23. A batch of events and its cursor agree. Whatever the service streams, the events
  \<open>read_events\<close> returns are those of an initial part of the frames that arrived, in order
  and with none left out but those of other jobs, \<open>next_cursor\<close> is the cursor of the last frame of
  exactly that part (or the one asked for), at most one arrived frame is left for the next call,
  and the batch respects the event limit and the bound on its bytes unless it is a single event.
\<close>

theorem readEvents_covers:
  "case readEvents printable exch gone over i of
     Inl _ \<Rightarrow> True
   | Inr e \<Rightarrow> \<exists>covered rest err.
       client_Watch exch (\<lambda>fs. snd (batch_frames printable i fs (empty_batch i))) (ei_After i) = (covered @ rest, err) \<and>
       length rest \<le> 1 \<and> eb_Events e = batch_items printable i covered \<and> eb_NextCursor e = reached i covered \<and>
       eb_Count e = length (eb_Events e) \<and> within_bounds i (eb_Events e)"
proof -
  obtain fs err where w: "client_Watch exch (\<lambda>fs. snd (batch_frames printable i fs (empty_batch i))) (ei_After i) = (fs, err)"
    by fastforce
  obtain b r where b: "batch_frames printable i fs (empty_batch i) = (b, r)" by fastforce
  obtain covered rest where c: "fs = covered @ rest" "length rest \<le> 1" "covers printable i covered b"
    using watch_covers [OF w b] by blast
  have "eb_Events e = ba_Events b \<and> eb_NextCursor e = ba_Next b \<and> eb_Count e = length (ba_Events b)"
    if "readEvents printable exch gone over i = Inr e" for e
    using that by (auto simp: readEvents_def w b batch_result_def Let_def split: option.splits if_splits)
  then show ?thesis using w c
    by (cases "readEvents printable exch gone over i") (force simp: covers_def)+
qed

end
