(* ===== verification/Cli.thy ===== *)
theory Cli
  imports Http_Jobs Http_Commands "HOL-Library.Sublist"
begin

text \<open>
  \<open>internal/adapters/cli/cli.go\<close>: the command line. A run is a function of its arguments and of the
  world it meets: environment, files, the exchanges with the service, and whether writes to
  stdout succeed. Its result records the exit code, both outputs and the requests it made.
  \<open>time.ParseDuration\<close> and the address check of \<open>NewClient\<close> (\<open>net/url\<close>) are parameters.
\<close>

subsection \<open>Flags (package \<open>flag\<close>)\<close>

definition flag_names :: "bytes list" where
  "flag_names = [''server'', ''timeout'', ''command'', ''wait'', ''after'', ''data-dir'', ''ollama'']"

text \<open>\<open>strconv.ParseBool\<close>.\<close>

definition parse_bool :: "bytes \<Rightarrow> bool option" where
  "parse_bool s =
     (if s \<in> set [''1'', ''t'', ''T'', ''TRUE'', ''true'', ''True''] then Some True
      else if s \<in> set [''0'', ''f'', ''F'', ''FALSE'', ''false'', ''False''] then Some False else None)"

definition value_ok :: "(bytes \<Rightarrow> int option) \<Rightarrow> bytes \<Rightarrow> bytes \<Rightarrow> bool" where
  "value_ok duration name v =
     (if name = ''timeout'' then duration v \<noteq> None else if name = ''wait'' then parse_bool v \<noteq> None else True)"

text \<open>A flag's name and the value after \<open>=\<close>, if there is one.\<close>

definition split_flag :: "bytes \<Rightarrow> bytes \<times> bytes option" where
  "split_flag s =
     (let name = takeWhile (\<lambda>c. c \<noteq> CHR ''='') s in
      (name, if length name = length s then None else Some (drop (Suc (length name)) s)))"

definition flag_text :: "bytes \<Rightarrow> bytes option" where
  "flag_text a =
     (if length a < 2 \<or> hd a \<noteq> CHR ''-'' then None
      else Some (if a ! 1 = CHR ''-'' then drop 2 a else drop 1 a))"

text \<open>
  \<open>(*FlagSet).Parse\<close>: the flags that were set, in order, and the remaining arguments. Parsing ends at
  the first argument that is no flag, or after \<open>--\<close>.
\<close>

fun parse_flags :: "(bytes \<Rightarrow> int option) \<Rightarrow> bytes list \<Rightarrow> ((bytes \<times> bytes) list \<times> bytes list) option" where
  "parse_flags duration [] = Some ([], [])"
| "parse_flags duration (a # args) =
     (case flag_text a of
        None \<Rightarrow> Some ([], a # args)
      | Some s \<Rightarrow>
          if a = ''--'' then Some ([], args)
          else if s = [] \<or> hd s = CHR ''-'' \<or> hd s = CHR ''='' then None
          else (case split_flag s of (name, v) \<Rightarrow>
            if name \<notin> set flag_names then None
            else if name = ''wait'' \<or> v \<noteq> None then
              (let x = (case v of None \<Rightarrow> ''true'' | Some y \<Rightarrow> y) in
               if value_ok duration name x then map_option (apfst ((#) (name, x))) (parse_flags duration args) else None)
            else (case args of
                [] \<Rightarrow> None
              | x # args' \<Rightarrow>
                  if value_ok duration name x then map_option (apfst ((#) (name, x))) (parse_flags duration args') else None)))"

definition flag_value :: "(bytes \<times> bytes) list \<Rightarrow> bytes \<Rightarrow> bytes \<Rightarrow> bytes" where
  "flag_value fs name dflt_value = option_or dflt_value (map_of (rev fs) name)"

subsection \<open>The world of a run\<close>

record serve_config =
  sf_Server :: bytes
  sf_DataDir :: bytes
  sf_Ollama :: bytes

text \<open>
  A reader is its bytes and whether reading fails after them. \<open>cw_Exch n\<close> is the \<open>n\<close>-th exchange
  with the service, \<open>cw_Gone n\<close> ends the caller's context before the \<open>n\<close>-th tick of a wait, whose
  polls are bounded by \<open>cw_Polls\<close>, and \<open>cw_OutFails n\<close> is the fate of the \<open>n\<close>-th write to stdout.
\<close>

record cli_world =
  cw_Env :: "bytes \<Rightarrow> bytes"
  cw_Duration :: "bytes \<Rightarrow> int option"
  cw_ConfigDir :: "bytes option"
  cw_Join :: "bytes \<Rightarrow> bytes"
  cw_File :: "bytes \<Rightarrow> (bytes \<times> bool) option"
  cw_Stdin :: "bytes \<times> bool"
  cw_Serve :: "(serve_config \<Rightarrow> goerr option) option"
  cw_Address :: "bytes \<Rightarrow> bool"
  cw_Mcp :: "bytes \<Rightarrow> goerr option"
  cw_Done :: bool
  cw_Exch :: "nat \<Rightarrow> exchange"
  cw_Gone :: "nat \<Rightarrow> bool"
  cw_Polls :: nat
  cw_OutFails :: "nat \<Rightarrow> bool"

text \<open>A request: method, path and body.\<close>

type_synonym service_call = "bytes \<times> bytes \<times> json option"

text \<open>The requests made; the polls of a wait are one entry. No exit code: still waiting.\<close>

record cli_result =
  cx_Exit :: "int option"
  cx_Out :: bytes
  cx_Err :: bytes
  cx_Sent :: "service_call list"

definition run_ends :: "int \<Rightarrow> bytes \<Rightarrow> bytes \<Rightarrow> service_call list \<Rightarrow> cli_result" where
  "run_ends code out err sent = \<lparr>cx_Exit = Some code, cx_Out = out, cx_Err = err, cx_Sent = sent\<rparr>"

definition env_or :: "cli_world \<Rightarrow> bytes \<Rightarrow> bytes \<Rightarrow> bytes" where
  "env_or cw name fallback = (if cw_Env cw name \<noteq> [] then cw_Env cw name else fallback)"

text \<open>An error on stderr: a fault is written as its JSON value, other errors have no exported field.\<close>

definition error_line :: "goerr \<Rightarrow> bytes" where
  "error_line e =
     encoded (Some (case e of FaultErr f \<Rightarrow> fault_json f | NilFault \<Rightarrow> JNull | _ \<Rightarrow> JObj []))"

definition usage_line :: bytes where
  "usage_line = error_line (FaultErr (fault ErrInvalidRequest ''invalid arguments; run taskworker help''))"

definition usage_error :: cli_result where
  "usage_error = run_ends 2 [] usage_line []"

definition create_commands :: "bytes list" where
  "create_commands = [''submit'', ''retry'', ''branch'']"

definition known_commands :: "bytes list" where
  "known_commands = [''serve'', ''submit'', ''retry'', ''branch'', ''watch'', ''wait'', ''list'', ''get'', ''result'',
     ''cancel'', ''models'', ''health'', ''queue'', ''mcp'']"

definition allowed_flags :: "bytes \<Rightarrow> bytes list" where
  "allowed_flags cmd =
     (if cmd = ''serve'' then [''server'', ''data-dir'', ''ollama'']
      else [''server'', ''timeout''] @
        (if cmd \<in> set create_commands then [''command'', ''wait''] else if cmd = ''watch'' then [''after''] else []))"

definition Version :: bytes where "Version = ''0.1.1''"

text \<open>The exit code of a printed job.\<close>

definition job_exit :: "Job \<Rightarrow> int" where
  "job_exit j =
     (if \<not> Terminal (jb_State j) then 0
      else if jb_State j = JobSucceeded then 0 else if jb_State j = JobCancelled then 5 else 4)"

subsection \<open>Output\<close>

definition print_result :: "cli_world \<Rightarrow> json option \<Rightarrow> int \<Rightarrow> bytes \<Rightarrow> service_call list \<Rightarrow> cli_result" where
  "print_result cw v code err sent =
     (if v = None \<or> cw_OutFails cw 0
      then run_ends 1 [] (err @ error_line (FaultErr (fault ErrUnavailable ''output write failed''))) sent
      else run_ends code (encoded v) err sent)"

definition print_job :: "host \<Rightarrow> cli_world \<Rightarrow> goerr + Job \<Rightarrow> bytes \<Rightarrow> service_call list \<Rightarrow> cli_result" where
  "print_job h cw res err sent =
     (case res of
        Inl e \<Rightarrow> run_ends 1 [] (err @ error_line e) sent
      | Inr j \<Rightarrow> print_result cw (job_body h j) (job_exit j) err sent)"

text \<open>\<open>Wait\<close> on the exchanges from the \<open>n\<close>-th on; without an answer the run has no exit code.\<close>

definition wait_result :: "host \<Rightarrow> cli_world \<Rightarrow> JobID \<Rightarrow> nat \<Rightarrow> bytes \<Rightarrow> service_call list \<Rightarrow> cli_result" where
  "wait_result h cw i n err sent =
     (let sent' = sent @ [(''GET'', ''/v1/jobs/'' @ path_escape i, None)] in
      case Wait (cw_Polls cw) (\<lambda>k. Get h (cw_Exch cw k) i) (cw_Gone cw) n of
        None \<Rightarrow> \<lparr>cx_Exit = None, cx_Out = [], cx_Err = err, cx_Sent = sent'\<rparr>
      | Some res \<Rightarrow> print_job h cw res err sent')"

subsection \<open>Commands\<close>

text \<open>The saved command of a create: its key and the value that is sent.\<close>

definition saved_command :: "host \<Rightarrow> bytes \<Rightarrow> bytes \<Rightarrow> goerr + bytes \<times> json option" where
  "saved_command h cmd b =
     (if cmd = ''submit'' then map_sum id (\<lambda>c. (sc_Key c,
        if options_encodable (rq_Options (sc_Request c)) then Some (submit_json h c) else None)) (decode_submit h b)
      else if cmd = ''retry'' then map_sum id (\<lambda>c. (rt_Key c, Some (retry_json c))) (decode_retry b)
      else map_sum id (\<lambda>c. (bc_Key c,
        if options_encodable (rq_Options (bc_Request c)) then Some (branch_json h c) else None)) (decode_branch h b))"

definition key_line :: "bytes \<Rightarrow> bytes \<Rightarrow> bytes" where
  "key_line key cmd = encoded (Some (JObj [(''idempotency_key'', JStr key), (''operation'', JStr cmd)]))"

text \<open>The key goes to stderr before the command is sent.\<close>

definition send_create :: "host \<Rightarrow> cli_world \<Rightarrow> bytes \<Rightarrow> bool \<Rightarrow> bytes \<Rightarrow> json option \<Rightarrow> cli_result" where
  "send_create h cw cmd wait key body =
     (let err = key_line key cmd; sent = (case body of None \<Rightarrow> [] | Some j \<Rightarrow> [(''POST'', ''/v1/'' @ cmd, Some j)]) in
      case call_job h (cw_Exch cw 0) ''POST'' (''/v1/'' @ cmd) (Some body) of
        Inl e \<Rightarrow> run_ends 1 [] (err @ error_line e) sent
      | Inr j \<Rightarrow> if wait then wait_result h cw (jb_ID j) 1 err sent else print_job h cw (Inr j) err sent)"

definition run_create :: "host \<Rightarrow> cli_world \<Rightarrow> bytes \<Rightarrow> (bytes \<times> bytes) list \<Rightarrow> bytes list \<Rightarrow> cli_result" where
  "run_create h cw cmd fs rest =
     (let file = flag_value fs ''command'' [] in
      if rest \<noteq> [] \<or> file = [] then usage_error
      else (case (if file = ''-'' then Some (cw_Stdin cw) else cw_File cw file) of
        None \<Rightarrow> run_ends 2 [] (error_line (FaultErr (fault ErrInvalidRequest ''cannot read command file''))) []
      | Some (content, fails) \<Rightarrow>
          if fails \<and> length content \<le> MaxBody then usage_error
          else (case saved_command h cmd (take (MaxBody + 1) content) of
            Inl e \<Rightarrow> run_ends 2 [] (error_line e) []
          | Inr (key, body) \<Rightarrow>
              if key = [] \<or> 128 < length key
              then run_ends 2 [] (error_line (FaultErr (fault ErrInvalidRequest ''idempotency_key required in saved command''))) []
              else send_create h cw cmd (parse_bool (flag_value fs ''wait'' ''false'') = Some True) key body)))"

text \<open>A canonical job ID: what \<open>hex.DecodeString\<close> reads to 16 bytes and \<open>hex.EncodeToString\<close> writes back.\<close>

definition run_job :: "host \<Rightarrow> cli_world \<Rightarrow> bytes \<Rightarrow> bytes list \<Rightarrow> cli_result" where
  "run_job h cw cmd rest =
     (case rest of
        [i] \<Rightarrow>
          if \<not> jobID i then usage_error
          else if cmd = ''cancel'' then
            print_job h cw (call_job h (cw_Exch cw 0) ''POST'' (''/v1/jobs/'' @ i @ ''/cancel'') (Some (Some (JObj [])))) []
              [(''POST'', ''/v1/jobs/'' @ i @ ''/cancel'', Some (JObj []))]
          else if cmd = ''wait'' then wait_result h cw i 0 [] []
          else print_job h cw (Get h (cw_Exch cw 0) i) [] [(''GET'', ''/v1/jobs/'' @ path_escape i, None)]
      | _ \<Rightarrow> usage_error)"

definition frame_json :: "sse_frame \<Rightarrow> json" where
  "frame_json f = JObj ([(''kind'', JStr (fm_Kind f))] @ str_field ''id'' (fm_ID f) @
     [(''data'', option_or JNull (Option.bind (fm_Data f) parse_go))])"

text \<open>Every applied frame is a line of stdout; the callback fails with its write.\<close>

definition run_watch :: "cli_world \<Rightarrow> bytes \<Rightarrow> bytes list \<Rightarrow> cli_result" where
  "run_watch cw after rest =
     (if rest \<noteq> [] then usage_error
      else (case client_Watch (cw_Exch cw 0) (\<lambda>fs. if cw_OutFails cw (length fs - 1) then Some (OtherErr ''write'') else None) after of
        (fs, e) \<Rightarrow>
          (let written = (if fs \<noteq> [] \<and> cw_OutFails cw (length fs - 1) then butlast fs else fs) in
           run_ends 1 (concat (map (encoded \<circ> Some \<circ> frame_json) written)) (error_line (FaultErr (PublicFault e)))
             (if after \<noteq> [] \<and> \<not> is_ok (ParseCursor after) then [] else [(''GET'', ''/v1/events'', None)]))))"

definition run_queue :: "cli_world \<Rightarrow> bytes list \<Rightarrow> cli_result" where
  "run_queue cw rest =
     (case rest of
        [verb] \<Rightarrow>
          (let command = verb = ''pause'' \<or> verb = ''resume'';
               method = (if command then ''POST'' else ''GET'');
               path = ''/v1/queue'' @ (if command then ''/'' @ verb else []);
               body = (if command then Some (JObj []) else None) in
           if \<not> command \<and> verb \<noteq> ''status'' then usage_error
           else (case call_queue (cw_Exch cw 0) method path (map_option Some body) of
               Inl e \<Rightarrow> run_ends 1 [] (error_line e) [(method, path, body)]
             | Inr q \<Rightarrow> print_result cw (Some (queue_json q)) 0 [] [(method, path, body)]))
      | _ \<Rightarrow> usage_error)"

text \<open>The remaining commands print the value the service answers.\<close>

definition run_read :: "cli_world \<Rightarrow> bytes \<Rightarrow> bytes list \<Rightarrow> cli_result" where
  "run_read cw cmd rest =
     (let path = (if cmd = ''list'' then ''/v1/jobs'' else ''/v1/'' @ cmd) in
      if rest \<noteq> [] then usage_error
      else (case Call (cw_Exch cw 0) (\<lambda>v _. Some v) JNull ''GET'' path None of
          Inl e \<Rightarrow> run_ends 1 [] (error_line e) [(''GET'', path, None)]
        | Inr v \<Rightarrow> print_result cw (Some v) 0 [] [(''GET'', path, None)]))"

definition run_serve :: "cli_world \<Rightarrow> (bytes \<times> bytes) list \<Rightarrow> bytes \<Rightarrow> bytes list \<Rightarrow> cli_result" where
  "run_serve cw fs address rest =
     (case cw_Serve cw of
        None \<Rightarrow> usage_error
      | Some serve \<Rightarrow>
          if rest \<noteq> [] then usage_error
          else (let given = flag_value fs ''data-dir'' (env_or cw ''TASKWORKER_DATA_DIR'' []);
                    ollama = flag_value fs ''ollama'' (env_or cw ''TASKWORKER_OLLAMA_ENDPOINT'' ''http://127.0.0.1:11434'') in
            case (if given \<noteq> [] then Some given else map_option (cw_Join cw) (cw_ConfigDir cw)) of
              None \<Rightarrow> run_ends 1 [] (error_line (FaultErr (PublicFault (OtherErr ''config directory'')))) []
            | Some dir \<Rightarrow>
                (case serve \<lparr>sf_Server = address, sf_DataDir = dir, sf_Ollama = ollama\<rparr> of
                   Some e \<Rightarrow> run_ends 1 [] (error_line e) []
                 | None \<Rightarrow> run_ends 0 [] [] [])))"

text \<open>The help text, with its dash in UTF-8.\<close>

definition usage :: bytes where
  "usage = concat (map (\<lambda>l. l @ [newline])
     [''TaskWorker '' @ [CHR 0xE2, CHR 0x80, CHR 0x94] @ '' shared local inference worker'',
      ''Usage: taskworker COMMAND [flags] [arguments]'',
      ''  serve [--server URL] [--data-dir DIR] [--ollama URL]'',
      ''  submit|retry|branch --command FILE [--wait] [--timeout 30s]'',
      ''  wait ID [flags must precede ID]; watch [--after STORE:SEQUENCE]'',
      ''  list; get ID; result ID; cancel ID; models; health'',
      ''  queue status|pause|resume'',
      ''  mcp [--server URL] [--timeout DURATION]   MCP stdio bridge to the running service'',
      ''Common client flags: --server URL --timeout DURATION (0 = no total deadline)'',
      ''Create commands require a complete JSON command file, including idempotency_key.'',
      ''Use --command - for stdin. Keep the exact original command/key for retries.'',
      ''All client output is JSON; diagnostics are JSON on stderr. watch emits NDJSON.'',
      ''See docs/http.md for command schemas, reconnect, security and exit codes.'',
      ''The mcp command speaks MCP on stdout only; see docs/mcp.md. It never starts a service.''])"

text \<open>The outputs of \<open>serve\<close> and of the bridge themselves are not included.\<close>

definition RunContext :: "host \<Rightarrow> cli_world \<Rightarrow> bytes list \<Rightarrow> cli_result" where
  "RunContext h cw args =
     (if args = [] \<or> args \<in> set [[''help''], [''--help''], [''-h'']] then run_ends 0 usage [] []
      else if args \<in> set [[''version''], [''--version'']] then run_ends 0 (''taskworker '' @ Version @ [newline]) [] []
      else (let cmd = hd args in
        case parse_flags (cw_Duration cw) (tl args) of
          None \<Rightarrow> usage_error
        | Some (fs, rest) \<Rightarrow>
            (let address = flag_value fs ''server'' (env_or cw ''TASKWORKER_SERVER'' ''http://127.0.0.1:7433'') in
             if (case map_of (rev fs) ''timeout'' of None \<Rightarrow> False | Some v \<Rightarrow> the (cw_Duration cw v) < 0) then usage_error
             else if cmd \<notin> set known_commands then usage_error
             else if \<not> set (map fst fs) \<subseteq> set (allowed_flags cmd) then usage_error
             else if cmd = ''serve'' then run_serve cw fs address rest
             else if \<not> cw_Address cw address then usage_error
             else if cmd = ''mcp'' then
               (if rest \<noteq> [] then usage_error
                else (case cw_Mcp cw address of
                    Some e \<Rightarrow> if cw_Done cw then run_ends 0 [] [] [] else run_ends 1 [] (error_line (FaultErr (PublicFault e))) []
                  | None \<Rightarrow> run_ends 0 [] [] []))
             else if cmd \<in> set create_commands then run_create h cw cmd fs rest
             else if cmd \<in> set [''get'', ''result'', ''cancel'', ''wait''] then run_job h cw cmd rest
             else if cmd = ''watch'' then run_watch cw (flag_value fs ''after'' []) rest
             else if cmd = ''queue'' then run_queue cw rest
             else run_read cw cmd rest)))"

subsection \<open>What a run may do\<close>

definition commands_sent :: "cli_result \<Rightarrow> (bytes \<times> json option) list" where
  "commands_sent r = map snd (filter (\<lambda>s. fst s = ''POST'') (cx_Sent r))"

definition create_paths :: "bytes list" where
  "create_paths = [''/v1/submit'', ''/v1/retry'', ''/v1/branch'']"

text \<open>What the command file or stdin holds.\<close>

definition command_text :: "cli_world \<Rightarrow> bytes \<Rightarrow> bool" where
  "command_text cw content = (fst (cw_Stdin cw) = content \<or> (\<exists>file fails. cw_File cw file = Some (content, fails)))"

definition key_shown :: "host \<Rightarrow> cli_world \<Rightarrow> cli_result \<Rightarrow> bool" where
  "key_shown h cw r =
     (\<exists>content key cmd body. command_text cw content \<and> saved_command h cmd (take (MaxBody + 1) content) = Inr (key, Some body) \<and>
        key \<noteq> [] \<and> length key \<le> 128 \<and> commands_sent r = [(''/v1/'' @ cmd, Some body)] \<and> prefix (key_line key cmd) (cx_Err r))"

definition orderly :: "host \<Rightarrow> cli_world \<Rightarrow> cli_result \<Rightarrow> bool" where
  "orderly h cw r =
     ((cx_Exit r = Some 2 \<longrightarrow> cx_Sent r = [] \<and> cx_Out r = []) \<and> length (commands_sent r) \<le> 1 \<and>
      (\<forall>p \<in> fst ` set (commands_sent r). p \<in> set create_paths \<longrightarrow> key_shown h cw r))"

lemma orderly_usage: "orderly h cw usage_error"
  by (simp add: orderly_def usage_error_def run_ends_def commands_sent_def)

lemma orderly_unsent: "n \<noteq> 2 \<or> out = [] \<Longrightarrow> orderly h cw (run_ends n out err [])"
  by (auto simp: orderly_def run_ends_def commands_sent_def)

lemma orderly_other:
  "cx_Exit r \<noteq> Some 2 \<Longrightarrow> cx_Sent r = [(m, p, b)] \<Longrightarrow> p \<notin> set create_paths \<Longrightarrow> orderly h cw r"
  by (simp add: orderly_def commands_sent_def)

lemma print_result_parts:
  "cx_Sent (print_result cw v n err sent) = sent" "prefix err (cx_Err (print_result cw v n err sent))"
  "n \<noteq> 2 \<Longrightarrow> cx_Exit (print_result cw v n err sent) \<noteq> Some 2"
  by (simp_all add: print_result_def run_ends_def)

lemma job_exit_range: "job_exit j \<noteq> 2"
  by (simp add: job_exit_def)

lemma print_job_parts:
  "cx_Sent (print_job h cw res err sent) = sent" "prefix err (cx_Err (print_job h cw res err sent))"
  "cx_Exit (print_job h cw res err sent) \<noteq> Some 2"
  using print_result_parts job_exit_range by (simp_all add: print_job_def run_ends_def split: sum.split)

lemma wait_result_parts:
  "cx_Sent (wait_result h cw i n err sent) = sent @ [(''GET'', ''/v1/jobs/'' @ path_escape i, None)]"
  "prefix err (cx_Err (wait_result h cw i n err sent))" "cx_Exit (wait_result h cw i n err sent) \<noteq> Some 2"
  using print_job_parts by (simp_all add: wait_result_def Let_def split: option.split)

lemma send_create_orderly:
  assumes "key \<noteq> []" and "length key \<le> 128" and "command_text cw content"
    and "saved_command h cmd (take (MaxBody + 1) content) = Inr (key, body)"
  shows "orderly h cw (send_create h cw cmd wait key body)"
proof -
  let ?r = "send_create h cw cmd wait key body"
  have r: "cx_Exit ?r \<noteq> Some 2" "prefix (key_line key cmd) (cx_Err ?r)"
    using print_job_parts wait_result_parts by (simp_all add: send_create_def Let_def run_ends_def split: sum.split)
  have s: "commands_sent ?r = (case body of None \<Rightarrow> [] | Some j \<Rightarrow> [(''/v1/'' @ cmd, Some j)])"
    by (simp add: commands_sent_def send_create_def Let_def run_ends_def print_job_parts wait_result_parts split: sum.split option.split)
  show ?thesis
  proof (cases body)
    case (Some j)
    then have "key_shown h cw ?r" using assms r(2) s unfolding key_shown_def by (simp only: option.case) blast
    then show ?thesis using r(1) s Some by (simp add: orderly_def)
  qed (use r(1) s in \<open>simp add: orderly_def\<close>)
qed

lemma run_create_orderly: "orderly h cw (run_create h cw cmd fs rest)"
proof -
  have r: "orderly h cw (case saved_command h cmd (take (MaxBody + 1) content) of
      Inl e \<Rightarrow> run_ends 2 [] (error_line e) []
    | Inr (key, body) \<Rightarrow>
        if key = [] \<or> 128 < length key then run_ends 2 [] err [] else send_create h cw cmd wait key body)"
    if "command_text cw content" for content err wait
    using that by (auto simp: orderly_unsent not_less intro!: send_create_orderly split: sum.split)
  let ?path = "flag_value fs ''command'' []"
  let ?input = "if ?path = ''-'' then Some (cw_Stdin cw) else cw_File cw ?path"
  show ?thesis
  proof (cases "rest \<noteq> [] \<or> ?path = []")
    case given: False
    show ?thesis
    proof (cases ?input)
      case None
      then show ?thesis unfolding run_create_def Let_def if_not_P [OF given] None by (simp add: orderly_unsent)
    next
      case (Some x)
      obtain content fails where x: "x = (content, fails)" by (cases x)
      have f: "command_text cw content" using Some x by (auto simp: command_text_def split: if_splits)
      show ?thesis
        unfolding run_create_def Let_def if_not_P [OF given] Some x option.case prod.case
        by (cases "fails \<and> length content \<le> MaxBody") (simp_all only: if_True if_False simp_thms orderly_usage r [OF f])
    qed
  qed (simp add: run_create_def Let_def orderly_usage)
qed

lemma run_job_orderly: "orderly h cw (run_job h cw cmd rest)"
proof -
  have p: "''/v1/jobs/'' @ x \<notin> set create_paths" for x by (simp add: create_paths_def)
  have "orderly h cw (print_job h cw res [] [(m, ''/v1/jobs/'' @ x, b)])" for res m x b
    by (rule orderly_other [OF print_job_parts(3,1) p])
  moreover have "orderly h cw (wait_result h cw i 0 [] [])" for i
    by (rule orderly_other [OF wait_result_parts(3) _ p]) (simp add: wait_result_parts)
  ultimately show ?thesis
    by (auto simp: run_job_def orderly_usage split: list.split)
qed

lemma run_watch_orderly: "orderly h cw (run_watch cw after rest)"
proof -
  have "orderly h cw (run_ends 1 out e (if c then [] else [(''GET'', ''/v1/events'', None)]))" for out e c
    by (simp add: orderly_def run_ends_def commands_sent_def)
  then have "orderly h cw (let written = (p :: sse_frame list) in run_ends 1 (out written) e (if c then [] else [(''GET'', ''/v1/events'', None)]))"
    for p out e c by (simp only: Let_def)
  then show ?thesis unfolding run_watch_def
    by (cases "rest \<noteq> []"; cases "client_Watch (cw_Exch cw 0)
        (\<lambda>fs. if cw_OutFails cw (length fs - 1) then Some (OtherErr ''write'') else None) after")
      (simp_all only: orderly_usage if_True if_False prod.case not_True_eq_False not_False_eq_True)
qed

lemma run_queue_orderly: "orderly h cw (run_queue cw rest)"
proof -
  have p: "''/v1/queue'' @ x \<notin> set create_paths" for x by (simp add: create_paths_def)
  have "orderly h cw (print_result cw v 0 [] [(m, ''/v1/queue'' @ x, b)])" "orderly h cw (run_ends 1 [] e [(m, ''/v1/queue'' @ x, b)])" for v m x e b
    by (rule orderly_other [OF print_result_parts(3,1) p]; simp) (rule orderly_other [OF _ _ p]; simp add: run_ends_def)
  then show ?thesis
    by (auto simp: run_queue_def Let_def orderly_usage split: list.split sum.split)
qed

lemma run_read_orderly:
  assumes "cmd \<notin> set create_commands"
  shows "orderly h cw (run_read cw cmd rest)"
proof -
  have p: "''/v1/jobs'' \<notin> set create_paths" "''/v1/'' @ cmd \<notin> set create_paths"
    using assms by (auto simp: create_paths_def create_commands_def)
  have "orderly h cw (print_result cw v 0 [] [(''GET'', x, None)])" "orderly h cw (run_ends 1 [] e [(''GET'', x, None)])"
    if "x \<notin> set create_paths" for v e x
    by (rule orderly_other [OF print_result_parts(3,1) that]; simp) (rule orderly_other [OF _ _ that]; simp add: run_ends_def)
  note f = this [OF p(1)] this [OF p(2)]
  show ?thesis
    by (cases "cmd = ''list''") (use f in \<open>simp_all add: run_read_def Let_def orderly_usage split: sum.split\<close>)
qed

text \<open>
  C22. The command line keeps its promises. Exit code 2 means that nothing was asked of the
  service and nothing was printed; a run sends at most one command; and where it sends one that
  creates a job, that is exactly the saved command of the user, and its idempotency key, of 1 to 128
  bytes, is the first thing on stderr, so that whoever loses the reply can repeat the command and get the
  same job.
\<close>

theorem cli_orderly:
  assumes "RunContext h cw args = r"
  shows "(cx_Exit r = Some 2 \<longrightarrow> cx_Sent r = [] \<and> cx_Out r = []) \<and> length (commands_sent r) \<le> 1 \<and>
    (\<forall>p \<in> fst ` set (commands_sent r). p \<in> set create_paths \<longrightarrow> key_shown h cw r)"
proof -
  have "orderly h cw (run_serve cw fs address rest)" for fs address rest
    by (auto simp: run_serve_def Let_def orderly_usage orderly_unsent split: option.split)
  then have "orderly h cw (RunContext h cw args)"
    by (auto simp: RunContext_def Let_def orderly_usage orderly_unsent run_create_orderly run_job_orderly run_watch_orderly
        run_queue_orderly intro!: run_read_orderly split: option.split prod.split)
  then show ?thesis unfolding assms orderly_def .
qed

end
