(* ===== verification/Mcp_Samples.thy ===== *)
theory Mcp_Samples
  imports Http_Samples Mcp_Create Mcp_Wait Mcp_Events Cli
begin

text \<open>Concrete calls of the bridge's tools and of the command line, at which their properties apply.\<close>

definition sample_link :: link where
  "sample_link = \<lparr>ln_Request = Some False, ln_Reply = Some None\<rparr>"

definition sample_create :: create_in where
  "sample_create = \<lparr>ci_Key = ''n'', ci_Origin = [], ci_ParentID = [], ci_Request = Some sample_request\<rparr>"

theorem create_certain_witness:
  "case create_served sample_host sample_handler sample_service (\<lambda>_. None) ''127.0.0.1:8765'' sample_link False
       ''submit'' sample_create sample_busy of
     (w', Inl err) \<Rightarrow> map_of (faults err True) ''acceptance_uncertain'' = Some (JBool True) \<or> kept sample_busy w'
   | (w', Inr _) \<Rightarrow> True"
proof -
  have "''submit'' \<in> set create_ops" "opt_all context_error (cc_detached sample_calls)" by code_simp+
  from create_certain [OF this] show ?thesis .
qed

definition sample_wait :: wait_in where
  "sample_wait = \<lparr>wi_JobID = ''a'', wi_IncludeOutput = None, wi_IncludeInputs = None, wi_TimeoutSeconds = Some 1\<rparr>"

definition sample_reply :: client_reply where
  "sample_reply = \<lparr>cr_Status = 200, cr_ContentType = ''application/json'',
     cr_Body = json_text (JObj [(''id'', JStr (replicate 32 (CHR ''a''))), (''state'', JStr ''running'')]), cr_ReadErr = False\<rparr>"

definition sample_round :: "int \<Rightarrow> wait_round" where
  "sample_round n = \<lparr>wr_Now = n * pollInterval, wr_Exch = (\<lambda>_ _ _. Some sample_reply), wr_Expired = False,
     wr_After = n * pollInterval, wr_Answer = n * pollInterval, wr_Gone = None\<rparr>"

definition sample_rounds :: "wait_round list" where
  "sample_rounds = map sample_round [0, 1, 2, 3, 4]"

theorem wait_job_answers_witness:
  "stop_round sample_wait 1000000000 sample_rounds < length sample_rounds \<and>
    (\<exists>res. wait_job sample_wait DefaultCallLimit 0 sample_rounds = Some res \<and>
      (case res of
         Inl e \<Rightarrow> failed_poll sample_wait DefaultCallLimit 1000000000
           (sample_rounds ! stop_round sample_wait 1000000000 sample_rounds) e
       | Inr out \<Rightarrow>
           (let job = last_seen sample_wait 1000000000 None
               (take (Suc (stop_round sample_wait 1000000000 sample_rounds)) sample_rounds) in
            wait_shows sample_wait (wr_Answer (sample_rounds ! stop_round sample_wait 1000000000 sample_rounds) - 0) job out \<and>
            (live_job job \<longrightarrow> time_up sample_wait DefaultCallLimit 1000000000
               (sample_rounds ! stop_round sample_wait 1000000000 sample_rounds)))))"
proof -
  have l: "wait_limit sample_wait = 1000000000" by (simp add: wait_limit_def sample_wait_def)
  have h: "0 < wait_limit sample_wait" "sample_rounds \<noteq> []" "0 \<le> wr_Now (hd sample_rounds)" "paced (0 + wait_limit sample_wait) sample_rounds"
    "wait_limit sample_wait \<le> int (length sample_rounds - 1) * pollInterval"
    unfolding l by (simp_all add: sample_rounds_def sample_round_def pollInterval_def)
  have z: "(0::int) + 1000000000 = 1000000000" by simp
  show ?thesis by (rule wait_job_answers [OF h, where timeout = DefaultCallLimit, unfolded l z])
qed

text \<open>In these rounds the job is seen in each poll, and still running when the budget is used up.\<close>

lemma sample_rounds_end:
  "stop_round sample_wait 1000000000 sample_rounds = 4"
  "last_seen sample_wait 1000000000 None (take 5 sample_rounds) \<noteq> None"
  "live_job (last_seen sample_wait 1000000000 None (take 5 sample_rounds))"
  by code_simp+

definition sample_world :: cli_world where
  "sample_world = \<lparr>cw_Env = (\<lambda>_. []), cw_Duration = (\<lambda>_. None), cw_ConfigDir = None, cw_Join = (\<lambda>d. d),
     cw_File = (\<lambda>_. None), cw_Stdin = (json_text (retry_json \<lparr>rt_Key = ''n'', rt_Origin = [], rt_ParentID = ''a''\<rparr>), False),
     cw_Serve = None, cw_Address = (\<lambda>_. True), cw_Mcp = (\<lambda>_. None), cw_Done = False,
     cw_Exch = (\<lambda>_ _ _ _. None), cw_Gone = (\<lambda>_. False), cw_Polls = 1, cw_OutFails = (\<lambda>_. False)\<rparr>"

lemma sample_retry_sent: "commands_sent (RunContext sample_host sample_world [''retry'', ''--command'', ''-'']) =
    [(''/v1/retry'', Some (retry_json \<lparr>rt_Key = ''n'', rt_Origin = [], rt_ParentID = ''a''\<rparr>))]"
  by code_simp

theorem cli_orderly_witness:
  "cx_Sent (RunContext sample_host sample_world [''get'']) = [] \<and>
   key_shown sample_host sample_world (RunContext sample_host sample_world [''retry'', ''--command'', ''-''])"
proof
  have "cx_Exit (RunContext sample_host sample_world [''get'']) = Some 2" by code_simp
  then show "cx_Sent (RunContext sample_host sample_world [''get'']) = []"
    using cli_orderly [of sample_host sample_world "[''get'']", OF refl] by simp
  have "''/v1/retry'' \<in> fst ` set (commands_sent (RunContext sample_host sample_world [''retry'', ''--command'', ''-'']))"
    "''/v1/retry'' \<in> set create_paths"
    unfolding sample_retry_sent by (simp_all add: create_paths_def)
  then show "key_shown sample_host sample_world (RunContext sample_host sample_world [''retry'', ''--command'', ''-''])"
    using cli_orderly [of sample_host sample_world "[''retry'', ''--command'', ''-'']", OF refl] by blast
qed

end
