(* ===== verification/Cli_Remote.thy ===== *)
theory Cli_Remote
  imports Cli Http_Remote
begin

text \<open>
  The command line makes the calls that \<open>remote_call\<close> describes: what holds of a command sent over HTTP
  holds of the commands of \<open>cli.go\<close>.
\<close>

lemma projl_call: "map_sum id projl (map_sum id Inl x) = x" and projr_call: "map_sum id projr (map_sum id Inr y) = y"
  by (cases x; simp) (cases y; simp)

lemma cli_cancels:
  assumes "jobID i"
  shows "run_job h cw ''cancel'' [i] =
    print_job h cw (map_sum id projl (remote_call h (cw_Exch cw 0) (RemoteCancel i))) []
      [(''POST'', remote_path (RemoteCancel i), remote_body h (RemoteCancel i))]"
  using assms by (simp add: run_job_def remote_call_def remote_method_def projl_call)

lemma cli_gets:
  assumes "jobID i" and "cmd \<noteq> ''cancel''" and "cmd \<noteq> ''wait''"
  shows "run_job h cw cmd [i] =
    print_job h cw (map_sum id projl (remote_call h (cw_Exch cw 0) (RemoteGet i))) []
      [(''GET'', remote_path (RemoteGet i), remote_body h (RemoteGet i))]"
  using assms by (simp add: run_job_def Get_def remote_call_def remote_method_def projl_call)

lemma cli_pauses:
  "run_queue cw [if b then ''pause'' else ''resume''] =
    (case map_sum id projr (remote_call h (cw_Exch cw 0) (RemotePause b)) of
       Inl e \<Rightarrow> run_ends 1 [] (error_line e) [(''POST'', remote_path (RemotePause b), Some (JObj []))]
     | Inr q \<Rightarrow> print_result cw (Some (queue_json q)) 0 [] [(''POST'', remote_path (RemotePause b), Some (JObj []))])"
  by (cases b) (simp_all add: run_queue_def Let_def remote_call_def remote_method_def projr_call split: sum.split)

text \<open>A create sends the command it was given, and its answer is what is printed.\<close>

lemma cli_creates:
  assumes "c \<in> {RemoteSubmit s, RemoteRetry r, RemoteBranch b}" and "remote_path c = ''/v1/'' @ cmd"
  shows "send_create h cw cmd False key (remote_body h c) =
    (case map_sum id projl (remote_call h (cw_Exch cw 0) c) of
       Inl e \<Rightarrow> run_ends 1 [] (key_line key cmd @ error_line e) [(''POST'', remote_path c, remote_body h c)]
     | Inr j \<Rightarrow> print_job h cw (Inr j) (key_line key cmd) [(''POST'', remote_path c, remote_body h c)])"
  using assms by (auto simp: send_create_def Let_def remote_call_def remote_method_def projl_call split: sum.split)

text \<open>So \<open>queue pause\<close> and \<open>queue resume\<close> on an intact connection set the flag of the service and print its queue.\<close>

lemma cli_queue_performed:
  assumes "host_text_ok h" and "number_texts h" and "handler_ready hh authority"
    and "sv_SetQueuePaused sv b w = (w', Inr q)" and "queue_sendable q" and "length (json_text (queue_json q)) < MaxResponse"
    and "ln_Request ln = Some False" and "ln_Reply ln = Some None"
    and "cw_Exch cw 0 = (\<lambda>m p body. snd (over_link h hh sv sf authority ln m p body w))"
  shows "run_queue cw [if b then ''pause'' else ''resume''] =
    print_result cw (Some (queue_json q)) 0 [] [(''POST'', remote_path (RemotePause b), Some (JObj []))]"
proof -
  have "remote h hh sv sf authority ln (RemotePause b) w = (w', Inr (Inr q))"
    using assms(4-8) remote_through [OF assms(1-3), of "RemotePause b" sv w sf ln] by (simp add: through_link_def)
  then have "remote_call h (cw_Exch cw 0) (RemotePause b) = Inr (Inr q)" by (simp add: remote_def assms(9))
  then show ?thesis unfolding cli_pauses [of cw b h] by simp
qed

end
