(* ===== verification/Service_Run.thy ===== *)
theory Service_Run
  imports Cli Http_Service Ollama
begin

text \<open>
  \<open>internal/service/service.go\<close> and the endpoint checks of \<open>httpapi/server.go\<close> and
  \<open>ollama/http.go\<close>: how one process puts journal, worker and handler together and takes them
  down again. \<open>url.Parse\<close>, \<open>net.ParseIP\<close> and the listener are parameters.
\<close>

subsection \<open>Endpoints\<close>

record parsed_url =
  pu_Scheme :: bytes
  pu_User :: bool
  pu_Opaque :: bytes
  pu_RawQuery :: bytes
  pu_ForceQuery :: bool
  pu_Fragment :: bytes
  pu_RawPath :: bytes
  pu_Path :: bytes
  pu_Hostname :: bytes
  pu_Port :: bytes

text \<open>\<open>nt_IP h\<close> is the canonical text of the IP address \<open>h\<close> and whether it is a loopback address.\<close>

record net_text =
  nt_Parse :: "bytes \<Rightarrow> parsed_url option"
  nt_IP :: "bytes \<Rightarrow> (bytes \<times> bool) option"

definition plain_url :: "parsed_url \<Rightarrow> bool" where
  "plain_url u =
     (pu_Scheme u = ''http'' \<and> \<not> pu_User u \<and> pu_Opaque u = [] \<and> pu_RawQuery u = [] \<and> pu_Fragment u = [] \<and>
      (pu_Path u = [] \<or> pu_Path u = ''/''))"

definition pinned_host :: "net_text \<Rightarrow> bytes \<Rightarrow> bytes option" where
  "pinned_host n host =
     (case nt_IP n (if host = ''localhost'' then ''127.0.0.1'' else host) of
        Some (ip, True) \<Rightarrow> Some ip
      | _ \<Rightarrow> None)"

definition default_port :: "bytes \<Rightarrow> bytes" where
  "default_port p = (if p = [] then ''80'' else p)"

text \<open>\<open>strconv.Atoi\<close>, in range, and \<open>strconv.Itoa\<close> gives the text back.\<close>

definition port_ok :: "bytes \<Rightarrow> bool" where
  "port_ok p = (case parse_int p of None \<Rightarrow> False | Some n \<Rightarrow> 1 \<le> n \<and> n \<le> 65535 \<and> dec_int n = p)"

text \<open>\<open>net.JoinHostPort\<close>.\<close>

definition join_host_port :: "bytes \<Rightarrow> bytes \<Rightarrow> bytes" where
  "join_host_port host port =
     (if CHR '':'' \<in> set host \<or> CHR 0x25 \<in> set host then ''['' @ host @ '']:'' @ port else host @ '':'' @ port)"

text \<open>\<open>Endpoint\<close>: the authority of the URL it returns.\<close>

definition Endpoint :: "net_text \<Rightarrow> bytes \<Rightarrow> goerr + bytes" where
  "Endpoint n s =
     (case nt_Parse n s of
        None \<Rightarrow> Inl invalid
      | Some u \<Rightarrow>
          if \<not> plain_url u \<or> pu_ForceQuery u \<or> pu_RawPath u \<noteq> [] then Inl invalid
          else (case pinned_host n (pu_Hostname u) of
              None \<Rightarrow> Inl invalid
            | Some ip \<Rightarrow>
                (let p = default_port (pu_Port u) in
                 if \<not> port_ok p then Inl invalid else Inr (join_host_port ip p))))"

text \<open>\<open>New\<close> of the Ollama adapter without an injected client: the address every dial is pinned to.\<close>

definition backend_New :: "net_text \<Rightarrow> bytes \<Rightarrow> int \<Rightarrow> goerr + bytes" where
  "backend_New n endpoint timeout =
     (case nt_Parse n (if endpoint = [] then ''http://127.0.0.1:11434'' else endpoint) of
        None \<Rightarrow> Inl (ollama_fault ErrInvalidRequest)
      | Some u \<Rightarrow>
          if \<not> plain_url u then Inl (ollama_fault ErrInvalidRequest)
          else (case pinned_host n (pu_Hostname u) of
              None \<Rightarrow> Inl (ollama_fault ErrInvalidRequest)
            | Some ip \<Rightarrow>
                if timeout < 0 then Inl (ollama_fault ErrInvalidRequest)
                else Inr (join_host_port ip (default_port (pu_Port u)))))"

text \<open>Neither the service nor the backend ever leaves the loopback interface.\<close>

lemma endpoints_loopback:
  assumes "Endpoint n s = Inr a \<or> backend_New n s t = Inr a"
  shows "\<exists>host ip port. nt_IP n host = Some (ip, True) \<and> a = join_host_port ip port"
proof -
  from assms obtain h ip port where h: "pinned_host n h = Some ip" "a = join_host_port ip port"
    by (auto simp: Endpoint_def backend_New_def Let_def split: option.splits if_splits)
  then have "\<exists>x. nt_IP n x = Some (ip, True)"
    by (auto simp: pinned_host_def split: option.splits bool.splits if_splits)
  with h(2) show ?thesis by blast
qed

subsection \<open>Running the service\<close>

text \<open>
  What the process meets: whether it can listen, what \<open>journal.Open\<close> meets in the data directory, and
  how serving ends (\<open>None\<close>: the context ends first; \<open>Some e\<close>: the server returns \<open>e\<close>).
\<close>

record service_world =
  sw_Net :: net_text
  sw_Listen :: "bytes \<Rightarrow> bool"
  sw_Env :: "bytes \<Rightarrow> open_env"
  sw_Path :: "bytes \<Rightarrow> path"
  sw_Served :: "goerr option option"

text \<open>The start: an error, or the worker behind the handler. A store that was opened and is not
  handed to a worker is closed.\<close>

definition service_start :: "host \<Rightarrow> service_world \<Rightarrow> serve_config \<Rightarrow> Journal option \<times> (goerr + bytes \<times> Journal Worker)" where
  "service_start h sw c =
     (case Endpoint (sw_Net sw) (sf_Server c) of
        Inl e \<Rightarrow> (None, Inl e)
      | Inr address \<Rightarrow>
      (case backend_New (sw_Net sw) (sf_Ollama c) 0 of
        Inl e \<Rightarrow> (None, Inl e)
      | Inr _ \<Rightarrow>
          if \<not> sw_Listen sw address
          then (None, Inl (FaultErr (fault ErrUnavailable ''cannot listen; address may already be in use'')))
          else (case Open h (sw_Env sw (sf_DataDir c)) (sw_Path sw (sf_DataDir c)) of
              (j, Some _) \<Rightarrow> (Some j, Inl (FaultErr (fault ErrStorage
                  ''cannot open data directory; check ownership, access and journal integrity'')))
            | (j, None) \<Rightarrow>
                (case NewWorker h (journal_ops h) j of
                   (st, Inl e) \<Rightarrow> (Some (fst (CloseJournal st)), Inl (FaultErr (PublicFault e)))
                 | (st, Inr w) \<Rightarrow> (Some st, Inr (address, w))))))"

text \<open>
  The end: the server is closed, the worker is asked to stop, and the process waits until the
  store is closed; the first wait may time out, which only starts another. \<open>returns\<close> is what
  becomes of the worker when the running inference returns. The result is \<open>None\<close> while it waits.
\<close>

definition service_stop ::
  "host \<Rightarrow> goerr option option \<Rightarrow> bool \<Rightarrow> (Journal Worker \<Rightarrow> Journal Worker) \<Rightarrow> Journal Worker \<Rightarrow> Journal Worker \<times> goerr option option" where
  "service_stop h served late returns w =
     (let w1 = Shutdown (journal_ops h) w;
          first = Shutdown_wait (if late then Some DeadlineExceeded else None) w1;
          (w2, answer) = (if first = Some (Some DeadlineExceeded) \<or> first = None
             then (let w' = returns w1 in (w', Shutdown_wait None w')) else (w1, first)) in
      (w2, map_option (\<lambda>e. case e of
             Some err \<Rightarrow> Some (FaultErr (PublicFault err))
           | None \<Rightarrow> (case served of
                 None \<Rightarrow> None | Some None \<Rightarrow> None
               | Some (Some err) \<Rightarrow> Some (FaultErr (PublicFault err)))) answer))"

text \<open>A service that starts serves a running worker, and one that stops has closed its store.\<close>

lemma service_starts:
  assumes "host_ok h" and "host_text_ok h" and "service_start h sw c = (st, Inr (address, w))"
    and "\<And>j. Open h (sw_Env sw (sf_DataDir c)) (sw_Path sw (sf_DataDir c)) = (j, None) \<Longrightarrow> journal_ok h j"
  shows "running h w \<and> w_fatal w = None \<and> Endpoint (sw_Net sw) (sf_Server c) = Inr address \<and> sw_Listen sw address"
proof -
  obtain j s where "Open h (sw_Env sw (sf_DataDir c)) (sw_Path sw (sf_DataDir c)) = (j, None)"
    "NewWorker h (journal_ops h) j = (s, Inr w)" "Endpoint (sw_Net sw) (sf_Server c) = Inr address" "sw_Listen sw address"
    using assms(3) by (auto simp: service_start_def split: sum.splits if_splits prod.splits option.splits)
  then show ?thesis using runtime.running_new [OF runtimeI [OF assms(1,2)]] assms(4) by blast
qed

lemma service_stops:
  assumes "service_stop h served late returns w = (w', Some e)"
  shows "w_closed w'"
  using assms
  by (auto simp: service_stop_def Shutdown_wait_def Let_def split: if_splits option.splits)

end
