(* ===== verification/Spec2Isabelle.thy ===== *)
theory Spec2Isabelle
  imports Samples Ollama_Stream Mcp_Filter Http_Samples Mcp_Samples Cli_Remote Service_Run
begin

text \<open>
  TaskWorker: a verification library of the Go program under \<open>src/\<close>.

  The program. One process (\<open>taskworker serve\<close>) owns a queue of inference jobs. The worker
  (\<open>internal/core\<close>) accepts commands one at a time, records every change as a commit in a
  journal, keeps the snapshot of all jobs in memory, runs at most one inference on a backend,
  and lets observers follow its events. The journal (\<open>adapters/journal\<close>) is an append-only file
  with checksums, from which a restart recovers the snapshot. The backend (\<open>adapters/ollama\<close>) talks
  to a local Ollama server. Clients reach the worker over HTTP (\<open>adapters/httpapi\<close>, server and
  client), through the command line (\<open>adapters/cli\<close>) or through a Model Context Protocol bridge on
  stdin and stdout (\<open>adapters/mcpbridge\<close>); \<open>service\<close> puts one process together.

  Conventions. Strings and byte slices are lists of characters; \<open>uint64\<close> sequences are 64-bit
  words; Go's \<open>int\<close> is \<open>int\<close>, with the range written out where the code depends on it; errors are
  the datatype \<open>goerr\<close> and fallible calls return \<open>goerr + 'a\<close>; a panic is the value \<open>Panicked\<close>. State
  is passed explicitly. Whatever the environment decides (a failing or short write, a lost reply, the end of
  a context, the clock, random bytes) is an argument or an oracle about which nothing is assumed
  unless a property says so; \<open>host_ok\<close>, \<open>host_text_ok\<close> and \<open>number_texts\<close> state what is documented of
  \<open>crypto/rand\<close>, \<open>crypto/sha256\<close>, \<open>strconv\<close> and \<open>time\<close>.

  Foundations. \<open>Prelude\<close> has the collections and lemmas everything shares, \<open>Utf8\<close> and \<open>Go_Strings\<close> the
  parts of \<open>unicode/utf8\<close> and \<open>strings\<close>, \<open>Lines\<close> the reading of lines. \<open>Json\<close>, \<open>Parse\<close> and \<open>Roundtrip\<close> are the
  text \<open>encoding/json\<close> writes and its inverse, \<open>Go_Json\<close> and \<open>Go_Roundtrip\<close> the grammar it accepts and the
  decoding into Go values, with \<open>null\<close>, folded names and repeated members; its recursion has fuel
  twice the length of the input plus two, which \<open>raw_fuel\<close> shows is always enough. \<open>Json_Texts\<close> is the
  locale of properties that every marshalled text has because its pieces have them.

  The core. \<open>Contract\<close>, \<open>Encoding\<close> and \<open>Decode\<close> are the types of \<open>errors.go\<close>, \<open>jobs.go\<close>, \<open>events.go\<close> and
  \<open>ports.go\<close> with their JSON forms and \<open>Clone\<close>. \<open>Reducer\<close> is \<open>state.go\<close>: validation, the job lifecycle and
  \<open>ApplyCommit\<close> (C1 to C3: its invariant, append-only history, contiguous cursors). \<open>Worker\<close> is
  \<open>worker.go\<close>, one function per critical section; \<open>Streams\<close> and \<open>Watch\<close> are \<open>watch.go\<close> (C5: bounded backlogs).
  \<open>Lifecycle\<close> states the contract of \<open>core.Store\<close> as the locale \<open>store_contract\<close> and the worker's
  invariant; \<open>Commits\<close>, \<open>Operations\<close>, \<open>Admission\<close>, \<open>Execution\<close>, \<open>Outcomes\<close>, \<open>Progress\<close> and \<open>Canonical\<close> prove it and the effect
  of every operation within that locale; \<open>Machine\<close> is the transition system of all interleavings.

  The journal. \<open>Disk\<close> is a file whose every call may fail or write short, \<open>Journal\<close> is \<open>journal.go\<close> with the
  directory lock of \<open>lock_unix.go\<close>. \<open>Journal_Log\<close>, \<open>Journal_Store\<close>, \<open>Journal_Open\<close> and \<open>Journal_Contract\<close> show what its
  bytes mean, recovery and replay, and that it meets \<open>store_contract\<close>: the sublocale of \<open>runtime\<close>
  there carries everything proved about the worker over to the worker on its journal.
  \<open>Runtime\<close> collects those facts, and this theory states the properties that span both: C6 to C20 and C25 (safety of
  every run, crash recovery, atomic appends, exact replay, idempotent creates, durable output, the
  record of a finished job, cancellation, restart, gap-free observation, shutdown, the disk budget, no lost
  wake-up).

  The backend. \<open>Modelfile\<close> is the check of generated Modelfiles (C27), \<open>Ollama\<close> and \<open>Ollama_Generate\<close> are the
  requests, model selection, generation and its stream; \<open>Ollama_Safety\<close> (C28, C29) and \<open>Ollama_Stream\<close> (C30 to C32) bound
  what it sends, fails with, emits and returns. The exchanges with Ollama are an arbitrary list of answers.

  HTTP. \<open>Http_Codec\<close> is \<open>codec.go\<close> (C36), \<open>Http_Commands\<close> the commands as clients marshal them (C37),
  \<open>Http_Server\<close> the whole handler of \<open>server.go\<close> with its event stream and the assets, \<open>Http_Service\<close> the handler on the
  worker: the locale \<open>keeping_service\<close> says what a handler needs of its service to keep a property, and
  \<open>runtime\<close> is a sublocale of it (C38: only trusted commands change anything). \<open>Http_Client\<close> and \<open>Http_Jobs\<close> are \<open>client.go\<close> with the decoders of its answers, \<open>Http_Events\<close> the stream
  from the server's writes to the client's frames (C40). \<open>Http_Link\<close> is one exchange over a connection that
  may lose or cut request and reply, \<open>Http_Answers\<close> shows that jobs and queue states survive the way back, and \<open>Http_Remote\<close>
  puts client, connection and handler together over an arbitrary service: a command sent over HTTP is the service's own
  operation (C39). \<open>Cli_Remote\<close> shows that the commands of the command line are such calls.

  Bridge and command line. \<open>Mcp_Framing\<close> and \<open>Mcp_Filter\<close> are \<open>framing.go\<close> (C33 to C35), \<open>Mcp_View\<close> is \<open>view.go\<close>
  (C24, C26: pages end and lose nothing), \<open>Mcp_Tools\<close>, \<open>Mcp_Wait\<close> and \<open>Mcp_Events\<close> are the slots and tools of \<open>tools.go\<close>
  (C21: a wait ends in the first round it can and reports the last job seen; C23: a batch and its cursor agree). \<open>Mcp_Create\<close> puts bridge,
  network, handler, worker and journal together for one create (C4: what the bridge calls certain is certain).
  \<open>Cli\<close> is \<open>cli.go\<close> (C22), \<open>Service_Run\<close> is \<open>service.go\<close> with the endpoint checks. \<open>Samples\<close>, \<open>Http_Samples\<close> and
  \<open>Mcp_Samples\<close> hold the concrete inputs and the witnesses.

  Bounds. The limits of the source are constants of the model under their own names. Loops that may not
  end are bounded by an argument or by the list of rounds, with \<open>None\<close> for not ended: the polls of
  \<open>Wait\<close>, the rounds of \<open>wait_job\<close> (C21 gives the number that is enough) and the calls of \<open>read_pages\<close> (C26 likewise).

  Simplifications. A round of \<open>Next\<close> is atomic. Decoding a number outside the range of \<open>int\<close> is refused by the
  decoders of the network adapters and not by those of the journal, which only reads what it wrote. The texts of
  errors of \<open>encoding/json\<close> are not modelled. Raw JSON that the bridge and the command line pass on is
  written back as the text of its value, so the spelling of escapes and spaces in it is not kept, except for the events of
  \<open>read_events\<close>. A tool call takes its two slots in
  one step. The log lines the bridge and the service write are left out.

  Not modelled. The Windows lock (\<open>lock_windows.go\<close>: the same interface on other system calls); transport
  and timeout settings of \<open>net/http\<close> (\<open>Server\<close>, \<open>NewClient\<close>, most of \<open>New\<close>), and so write deadlines and heartbeat
  timing; \<open>url.Parse\<close>, \<open>net.ParseIP\<close>, \<open>mime.ParseMediaType\<close>, \<open>time.ParseDuration\<close>, \<open>unicode.IsPrint\<close>, which are parameters; the MCP
  SDK (registration, negotiation, dispatch) and the JSON schema library, whose verdict is a parameter of
  \<open>decodeArgs\<close>; the static texts of tool descriptions; signal handling in \<open>main\<close>; the scripted backend under
  \<open>testservice\<close>; the contents of the web assets and the Python client.
\<close>

section \<open>The worker on its journal\<close>

text \<open>
  C6. Safety of every run. However callers, the backend goroutine, observers and shutdown
  interleave after a start on an open journal, the worker never panics, its snapshot keeps the
  invariant (job lifecycle, queue order and bounds), at most one inference runs, and on a
  healthy worker it is exactly the job the queue names as active.
\<close>

theorem worker_safe:
  assumes "host_ok h" and "host_text_ok h" and "running h w"
  shows "\<not> w_panicked w \<and> snap_inv (w_state w) \<and> list_all stream_inv (w_streams w) \<and> length (w_gens w) \<le> 1 \<and>
    (w_fatal w = None \<longrightarrow>
       map (Some \<circ> fst) (w_gens w) = (case qs_Active (sn_Queue (w_state w)) of None \<Rightarrow> [] | Some i \<Rightarrow> [Some i]))"
proof -
  have i: "base_inv w" "run_inv w" using runtime.running_base [OF runtimeI] assms by blast+
  then show ?thesis by (cases "w_gens w") (auto simp: base_inv_def observers_ok_def run_inv_def)
qed

theorem worker_safe_witness:
  "running sample_host sample_busy \<and> \<not> w_panicked sample_busy \<and> map (Some \<circ> fst) (w_gens sample_busy) = [Some ''a'']"
  using worker_safe [OF sample_host_ok sample_host_text sample_runs] sample_runs
  by (simp add: sample_busy_simps sample_running_def sample_busy_queue_def)

text \<open>
  C7. Crash recovery refines the worker's memory. At any moment of a run of a healthy worker,
  the file it leaves behind, even with an incomplete frame after its end, opens to a journal
  that recovers exactly the snapshot and the receipts the worker had; a worker started on it
  has every job: finished and waiting ones unchanged or started, the running one interrupted
  with its text.
\<close>

theorem crash_recovery:
  assumes "host_ok h" and "host_text_ok h" and "running h w" and "healthy w" and "jn_file (w_store w) = Some f"
    and "quiet env dir" and "oe_create env = AlreadyExists" and "oe_open env = Inr g" and "calm g"
    and "f_bytes g = f_bytes f @ tail" and "tail = [] \<or> torn h tail" and "length (f_bytes g) \<le> HardBytes"
  shows "\<exists>j. Open h env dir = (j, None) \<and> Recover j None = (j, Inr (jn_state j)) \<and>
    rv_Snapshot (jn_state j) = w_state w \<and> receipt_map (rv_Receipts (jn_state j)) = w_receipts w \<and>
    (\<forall>st w'. NewWorker h (journal_ops h) j = (st, Inr w') \<longrightarrow> running h w' \<and> w_receipts w' = w_receipts w \<and>
      (\<forall>b\<in>set (sn_Jobs (w_state w)). \<exists>b'. find_job (sn_Jobs (w_state w')) (jb_ID b) = Some b' \<and>
        (if is_active b then \<exists>t. b' = interrupted t b else b' = b \<or> (\<exists>t. b' = start_job t b))))"
proof -
  note rt = runtimeI [OF assms(1,2)]
  obtain j where j: "Open h env dir = (j, None)" "journal_ok h j" "rv_Snapshot (jn_state j) = w_state w"
    "receipt_map (rv_Receipts (jn_state j)) = w_receipts w"
    using runtime.running_reopens [OF rt assms(3-)] by blast
  have "Recover j None = (j, Inr (jn_state j))" using j(2) Recover_ok by (auto simp: journal_ok_def)
  with j runtime.running_new [OF rt j(2)] show ?thesis by auto
qed

theorem crash_recovery_witness:
  "running sample_host sample_busy \<and> healthy sample_busy \<and>
   (\<exists>f j. jn_file (w_store sample_busy) = Some f \<and>
      Open sample_host (sample_env AlreadyExists (f_bytes f)) [''data''] = (j, None) \<and>
      rv_Snapshot (jn_state j) = sample_running)"
proof -
  obtain f where f: "jn_file (w_store sample_busy) = Some f" "length (f_bytes f) \<le> HardBytes"
    using sample_busy_represents by (auto simp: represents_def)
  have g: "f_bytes (sample_file (f_bytes f)) = f_bytes f @ []" "length (f_bytes (sample_file (f_bytes f))) \<le> HardBytes"
    using f(2) by (simp_all add: sample_file_def)
  show ?thesis
    using crash_recovery [OF sample_host_ok sample_host_text sample_runs sample_healthy f(1) sample_quiet sample_env_simps
      sample_calm g(1) disjI1 [OF refl] g(2)] f(1) sample_runs sample_healthy sample_busy_simps(1) by metis
qed

text \<open>
  C8. Recovery of the log. Opening a file that holds a header and the frames of a valid list
  of commits, followed by nothing or by an incomplete frame, yields a journal that represents
  exactly these commits; the incomplete frame is cut off and its length reported.
\<close>

theorem Open_recovers:
  assumes "host_ok h" and "host_text_ok h" and "quiet env dir" and "oe_create env = AlreadyExists" and "oe_open env = Inr f"
    and "calm f" and "f_bytes f = log_bytes h store cs @ tail" and "length (f_bytes f) \<le> HardBytes"
    and "log_ok h store cs" and "tail = [] \<or> torn h tail"
  shows "\<exists>j. Open h env dir = (j, None) \<and> represents h store j cs \<and> jn_tail j = length tail"
  using Open_existing [OF assms] by blast

theorem Open_recovers_witness:
  "log_ok sample_host sample_store [sample_commit] \<and> torn sample_host sample_tail \<and>
   (\<exists>j. Open sample_host (sample_env AlreadyExists (sample_log @ sample_tail)) [''data''] = (j, None) \<and>
      represents sample_host sample_store j [sample_commit] \<and> jn_tail j = length sample_tail)"
  using Open_recovers [OF sample_host_ok sample_host_text sample_quiet sample_env_simps sample_calm
      sample_tail_file sample_log_ok disjI2 [OF sample_torn]] sample_log_ok sample_torn by blast

text \<open>
  C9. Atomic appends. Whatever the disk does during \<open>Append\<close> (short writes, errors, a failed
  sync), reopening the bytes it left yields either the old list of commits or the old list and
  the whole new commit, and the new list for sure once \<open>Append\<close> has returned success.
\<close>

theorem Append_atomic:
  assumes "host_ok h" and "host_text_ok h" and "represents h store j cs" and "commit_canon c"
    and "Append h j None c = (j', x)" and "jn_file j' = Some f'"
    and "quiet env dir" and "oe_create env = AlreadyExists" and "oe_open env = Inr g"
    and "calm g" and "f_bytes g = f_bytes f'"
  shows "\<exists>j1 cs'. Open h env dir = (j1, None) \<and> represents h store j1 cs' \<and> (cs' = cs @ [c] \<or> cs' = cs \<and> x \<noteq> None)"
proof -
  let ?j = "zero_Journal\<lparr>jn_lock := Some (oe_lock_close env)\<rparr>"
  have "Open h env dir = open_log h ?j g"
    by (rule Open_quiet [OF assms(7), of h]) (simp add: assms(8,9) Let_def)
  with Append_reopen [OF assms(1-6,10,11) pristine_zero] show ?thesis by simp
qed

theorem Append_atomic_witness:
  "represents sample_host sample_store sample_journal [sample_commit] \<and> commit_canon sample_start \<and>
   (\<exists>j' f' j1. Append sample_host sample_journal None sample_start = (j', None) \<and> jn_file j' = Some f' \<and>
      Open sample_host (sample_env AlreadyExists (f_bytes f')) [''data''] = (j1, None) \<and>
      represents sample_host sample_store j1 [sample_commit, sample_start])"
proof -
  obtain j' where a: "Append sample_host sample_journal None sample_start = (j', None)" using sample_append by blast
  obtain f' where f': "jn_file j' = Some f'"
    using Append_represents [OF sample_host_ok sample_open(2) sample_start_canon a] by (auto simp: represents_def)
  have "f_bytes (sample_file (f_bytes f')) = f_bytes f'" by (simp add: sample_file_def)
  from Append_atomic [OF sample_host_ok sample_host_text sample_open(2) sample_start_canon a f' sample_quiet
      sample_env_simps sample_calm this]
  show ?thesis using sample_open(2) sample_start_canon a f' by auto
qed

text \<open>
  C10. Replay pages are exact. On a valid cursor and page size, \<open>ReadEvents\<close> returns the events
  of the log that follow the cursor: the longest prefix of them within the requested count and
  the byte bound, in order and without a gap. Only an I/O failure prevents this, and then the
  journal is poisoned and reports an error.
\<close>

theorem ReadEvents_exact:
  assumes "host_ok h" and "host_text_ok h" and "represents h store j cs"
    and "ValidateCursor cur (sn_Cursor (rv_Snapshot (jn_state j))) = None" and "1 \<le> n" and "n \<le> int MaxObserverEvents"
    and "ReadEvents h j None cur n = (j', x)"
  shows "(x = Inr (page h (nat n) 0 (drop (unat (cu_Sequence cur)) (log_events cs))) \<and>
      represents h store j' cs \<and> jn_state j' = jn_state j) \<or>
    ((\<exists>f. jn_file j = Some f \<and> \<not> calm f) \<and> journal_dead j' \<and> (\<exists>e. x = Inl e))"
  using ReadEvents_page [OF assms] .

theorem ReadEvents_exact_witness:
  "represents sample_host sample_store sample_journal [sample_commit] \<and>
   ValidateCursor (sample_cursor 1) (sample_cursor 2) = None \<and>
   snd (ReadEvents sample_host sample_journal None (sample_cursor 1) 5) = Inr [sample_enqueue]"
proof -
  have c: "ValidateCursor (sample_cursor 1) (sn_Cursor (rv_Snapshot (jn_state sample_journal))) = None"
    unfolding sample_state by (simp add: sample_snapshot_def sample_valid_cursor [simplified])
  obtain j' x where r: "ReadEvents sample_host sample_journal None (sample_cursor 1) 5 = (j', x)" by fastforce
  have "x = Inr (page sample_host (nat 5) 0 (drop (unat (cu_Sequence (sample_cursor 1))) (log_events [sample_commit])))"
    using ReadEvents_exact [OF sample_host_ok sample_host_text sample_open(2) c _ _ r] sample_open(3)
    by (auto simp: MaxObserverEvents_def)
  then show ?thesis using r sample_open(2) sample_valid_cursor sample_page by (simp only: snd_conv simp_thms)
qed

text \<open>
  C11. Idempotent commands. A command whose key has a receipt changes nothing, whatever else
  has happened since: with the content the receipt was written for it returns the job that
  was created then, with any other content it is refused as a conflict.
\<close>

theorem create_repeated:
  assumes "host_ok h" and "host_text_ok h" and "running h w" and "available w = None" and "valid_utf8 key"
    and "0 < length key" and "length key \<le> 128" and "valid_utf8 origin" and "length origin \<le> 1024"
    and "op = ''retry'' \<or> ValidateRequest r (Compose r) = None" and "digest_of h op parent origin r = Some d"
    and "w_receipts w key = Some rc"
  shows "\<exists>j. find_job (sn_Jobs (w_state w)) (rc_JobID rc) = Some j \<and>
    create h (journal_ops h) None op key origin parent r w =
      (w, if rc_Digest rc = d then Inr j
          else Inl (FaultErr (fault ErrConflict ''idempotency key reused for different content'')))"
proof -
  have b: "base_inv w" using runtime.running_base [OF runtimeI] assms(1-3) by blast
  then have "rc_JobID rc \<in> jb_ID ` set (sn_Jobs (w_state w))" using assms(12) by (simp add: base_inv_def receipts_ok_def)
  then obtain j where "clone_of w (rc_JobID rc) = Some j" "find_job (sn_Jobs (w_state w)) (rc_JobID rc) = Some j"
    using clone_of_inv [OF b] by (cases "find_job (sn_Jobs (w_state w)) (rc_JobID rc)") (auto simp: find_job_None)
  moreover have "(if op \<noteq> ''retry'' then ValidateRequest r (Compose r) else None) = None" using assms(10) by auto
  ultimately show ?thesis using assms(4-9,11,12) by (simp add: create_def not_le)
qed

theorem create_repeated_witness:
  "running sample_host sample_busy \<and>
   create sample_host (journal_ops sample_host) None ''submit'' ''k'' [] [] sample_request sample_busy =
     (sample_busy, Inr sample_running_job)"
proof -
  have "available sample_busy = None" by (simp add: available_def sample_busy_simps)
  moreover have "valid_utf8 ''k''" "valid_utf8 []" by code_simp+
  ultimately show ?thesis
    using create_repeated [OF sample_host_ok sample_host_text sample_runs _ _ _ _ _ _ _ sample_repeat_guards(1) sample_receipt]
      sample_repeat_guards(2,4) sample_runs by (simp add: sample_busy_simps)
qed

text \<open>
  C12. New commands. A command with a fresh key either is refused, and then snapshot,
  receipts and running inference are untouched, or it adds exactly one job: the request and
  the instructions derived from the command and its parent, under a new identity, recorded
  together with its receipt, waiting or already started.
\<close>

theorem create_fresh:
  assumes "host_ok h" and "host_text_ok h" and "running h w" and "operation op parent" and "w_receipts w key = None"
    and "create h (journal_ops h) ctx op key origin parent r w = (w', res)"
  shows "case res of Inl e \<Rightarrow> unchanged w w'
    | Inr j \<Rightarrow> \<exists>d b t r' ins l. digest_of h op parent origin r = Some d \<and> derive (w_state w) op parent r = Inr (r', ins, l) \<and>
        h_rand h (w_draws w) = Some b \<and> ValidateRequest r' ins = None \<and>
        Admission.created w w' key d (new_job (hex_encode b) t origin r' ins l) j"
  using runtime.running_create [OF runtimeI [OF assms(1,2)] assms(3,4,6)] assms(5) by (auto split: sum.splits)

theorem create_fresh_witness:
  "running sample_host sample_busy \<and> w_receipts sample_busy ''n'' = None \<and>
   (let (w', res) = create sample_host (journal_ops sample_host) None ''submit'' ''n'' [] [] sample_request sample_busy in
    case res of Inl e \<Rightarrow> unchanged sample_busy w'
    | Inr j \<Rightarrow> \<exists>d b t r' ins l. digest_of sample_host ''submit'' [] [] sample_request = Some d \<and>
        derive sample_running ''submit'' [] sample_request = Inr (r', ins, l) \<and>
        h_rand sample_host (w_draws sample_busy) = Some b \<and> ValidateRequest r' ins = None \<and>
        Admission.created sample_busy w' ''n'' d (new_job (hex_encode b) t [] r' ins l) j)"
proof -
  have n: "w_receipts sample_busy ''n'' = None"
    unfolding sample_busy_simps(9) by (simp add: sample_commit_def receipts_in_def receipt_list_def receipt_map_def)
  obtain w' res where c: "create sample_host (journal_ops sample_host) None ''submit'' ''n'' [] [] sample_request sample_busy = (w', res)"
    by fastforce
  show ?thesis
    using create_fresh [OF sample_host_ok sample_host_text sample_runs sample_repeat_guards(3) n c] n sample_runs
    unfolding c Let_def prod.case sample_busy_simps(1) by blast
qed

text \<open>
  C13. Streamed output is durable in order. Whatever the backend emits, the active job grows by
  a prefix of the text, all other jobs and the queue stay as they are, and when \<open>emit\<close>
  reports success the job has grown by the whole text.
\<close>

theorem emit_exact:
  assumes "host_ok h" and "host_text_ok h" and "running h w" and "w_gens w = [(i, inp)]"
    and "emit h (journal_ops h) i xs w = (w', r)"
  shows "\<exists>p q. xs = p @ q \<and> grown i p (w_state w) (w_state w') \<and> (r = None \<longrightarrow> q = [])"
  using runtime.running_emit [OF runtimeI [OF assms(1,2)] assms(3-5)] by blast

theorem emit_exact_witness:
  "running sample_host sample_busy \<and> map fst (w_gens sample_busy) = [''a''] \<and>
   (let (w', r) = emit sample_host (journal_ops sample_host) ''a'' ''hello'' sample_busy in
    \<exists>p q. ''hello'' = p @ q \<and> grown ''a'' p sample_running (w_state w') \<and> (r = None \<longrightarrow> q = []))"
proof -
  obtain w' r where e: "emit sample_host (journal_ops sample_host) ''a'' ''hello'' sample_busy = (w', r)" by fastforce
  show ?thesis
    using emit_exact [OF sample_host_ok sample_host_text sample_runs sample_busy_simps(7) e] sample_runs
    unfolding e Let_def prod.case sample_busy_simps(1) by (simp add: sample_busy_simps(7))
qed



text \<open>
  C15. Backend errors do not leak. Whatever text, details or wrapped error a backend returns,
  the fault recorded for the job has one of five fixed messages and no details; its code is
  one of the five public ones, and it is retryable exactly if the backend reported an
  unavailability or a failure and said so.
\<close>

theorem publicBackendError_private:
  "ft_Details (publicBackendError e) = [] \<and>
   (ft_Code (publicBackendError e), ft_Message (publicBackendError e)) \<in>
     {(ErrInvalidRequest, ''backend rejected the request''),
      (ErrUnsupported, ''backend does not support the requested operation or option''),
      (ErrLimitExceeded, ''backend or worker resource limit exceeded''),
      (ErrBackendUnavailable, ''backend is unavailable''), (ErrBackendFailure, ''backend operation failed'')} \<and>
   ft_Retryable (publicBackendError e) = (case errors_as e of
       Some (Some f) \<Rightarrow> ft_Retryable f \<and> ft_Code f \<in> {ErrBackendUnavailable, ErrBackendFailure} | _ \<Rightarrow> False)"
  by (simp add: publicBackendError_def fault_def split: option.split ErrorCode.split)

text \<open>
  C16. Cancelling. Cancelling a finished or already cancelling job returns it and changes
  nothing; a queued job is cancelled at once and leaves the queue; a running one is marked
  cancelling and its context is cancelled. A refused cancellation changes nothing durable.
\<close>

theorem cancel_effect:
  assumes "host_ok h" and "host_text_ok h" and "running h w" and "cancelJob h (journal_ops h) ctx i w = (w', res)"
  shows "w_receipts w' = w_receipts w \<and> (case res of
      Inl e \<Rightarrow> w_state w' = w_state w
    | Inr j \<Rightarrow> \<exists>p n. find_job (sn_Jobs (w_state w)) i = Some p \<and> n < length (sn_Jobs (w_state w)) \<and>
        sn_Jobs (w_state w) ! n = p \<and>
        (if Terminal (jb_State p) \<or> jb_State p = JobCancelling then w' = w \<and> j = p
         else j = cancelled_job (h_now h (w_ticks w)) p \<and>
           w_state w' = updated (w_state w) n j (cancelled_queue p (sn_Queue (w_state w))) \<and>
           (jb_State p = JobRunning \<longrightarrow> w_ctxdone w')))"
  using runtime.running_cancel [OF runtimeI [OF assms(1,2)] assms(3,4)] by blast

theorem cancel_effect_witness:
  "running sample_host sample_busy \<and>
   cancelJob sample_host (journal_ops sample_host) None ''b'' sample_busy =
     (sample_busy, Inl (FaultErr (fault ErrNotFound ''job not found''))) \<and> w_receipts sample_busy ''k'' \<noteq> None"
proof -
  have "find_job (sn_Jobs sample_running) ''b'' = None" by code_simp
  then have c: "cancelJob sample_host (journal_ops sample_host) None ''b'' sample_busy =
     (sample_busy, Inl (FaultErr (fault ErrNotFound ''job not found'')))"
    by (simp add: cancelJob_def available_def sample_busy_simps)
  show ?thesis using cancel_effect [OF sample_host_ok sample_host_text sample_runs c] sample_runs c sample_receipt by simp
qed

text \<open>
  C17. Restart. A worker that starts on an open journal is healthy, remembers every receipt and
  every job: a job that was running or cancelling when the service stopped is recorded as
  interrupted, with its text; every other job is as the journal has it, or just started.
\<close>

theorem restart_interrupts:
  assumes "host_ok h" and "host_text_ok h" and "represents h store j cs" and "NewWorker h (journal_ops h) j = (st, Inr w)"
  shows "w_fatal w = None \<and> w_receipts w = receipt_map (receipts_in cs) \<and>
    (\<forall>b\<in>set (sn_Jobs (rv_Snapshot (jn_state j))). \<exists>b'. find_job (sn_Jobs (w_state w)) (jb_ID b) = Some b' \<and>
      (if is_active b then \<exists>t. b' = interrupted t b else b' = b \<or> (\<exists>t. b' = start_job t b)))"
proof -
  have "journal_ok h j" using assms(3) by (auto simp: journal_ok_def)
  from runtime.running_new [OF runtimeI [OF assms(1,2)] this assms(4)] represents_state(5) [OF assms(3)]
  show ?thesis by simp
qed

theorem restart_interrupts_witness:
  "represents sample_host sample_store sample_journal [sample_commit] \<and>
   (\<exists>st. NewWorker sample_host (journal_ops sample_host) sample_journal = (st, Inr sample_busy)) \<and>
   w_receipts sample_busy = receipt_map (receipts_in [sample_commit]) \<and>
   (\<exists>b'. find_job (sn_Jobs (w_state sample_busy)) ''a'' = Some b' \<and>
      (b' = sample_job ''a'' \<or> (\<exists>t. b' = start_job t (sample_job ''a''))))"
proof -
  obtain st where n: "NewWorker sample_host (journal_ops sample_host) sample_journal = (st, Inr sample_busy)"
    using sample_new by blast
  have "sample_job ''a'' \<in> set (sn_Jobs (rv_Snapshot (jn_state sample_journal)))" "jb_ID (sample_job ''a'') = ''a''"
    "\<not> is_active (sample_job ''a'')"
    unfolding sample_state by (simp_all add: sample_snapshot_def sample_job_def is_active_def)
  with restart_interrupts [OF sample_host_ok sample_host_text sample_open(2) n] sample_open(2) n
  show ?thesis by fastforce
qed

text \<open>
  C18. Observers see every event once, in order. An event that \<open>Next\<close> delivers is the one
  right after the stream's cursor, and the cursor moves onto it; a reader is made to wait only
  when it has seen the whole log; a closed stream delivers nothing.
\<close>

theorem Next_gap_free:
  assumes "host_ok h" and "host_text_ok h" and "running h w" and "i < length (w_streams w)"
    and "Next (journal_ops h) nc i w = (w', r)"
  shows "w_state w' = w_state w \<and> (case r of
      None \<Rightarrow> unat (cu_Sequence (st_cursor (w_streams w ! i))) = unat (cu_Sequence (sn_Cursor (w_state w)))
    | Some (Inl e) \<Rightarrow> True
    | Some (Inr e) \<Rightarrow> \<not> st_closed (w_streams w ! i) \<and>
        unat (cu_Sequence (ev_Cursor e)) = Suc (unat (cu_Sequence (st_cursor (w_streams w ! i)))) \<and>
        st_cursor (w_streams w' ! i) = ev_Cursor e)"
  using runtime.running_next [OF runtimeI [OF assms(1,2)] assms(3-5)] by (simp add: seq_of_def log_end_def split: option.splits sum.splits)

theorem Next_gap_free_witness:
  "running sample_host sample_watched \<and>
   (let k = length (w_streams sample_busy);
        (w', r) = Next (journal_ops sample_host) \<lparr>nc_head = None, nc_call = sample_call, nc_after = None\<rparr> k sample_watched in
    k < length (w_streams sample_watched) \<and> r = None \<and> w_state w' = sample_running \<and>
    unat (cu_Sequence (st_cursor (w_streams sample_watched ! k))) = unat (cu_Sequence (sn_Cursor sample_running)))"
proof -
  let ?k = "length (w_streams sample_busy)"
  have k: "?k < length (w_streams sample_watched)" by (simp add: sample_watched_simps)
  obtain w' where n: "Next (journal_ops sample_host) \<lparr>nc_head = None, nc_call = sample_call, nc_after = None\<rparr> ?k sample_watched = (w', None)"
    by (auto simp: Next_def sample_watched_simps new_stream_def Let_def)
  show ?thesis
    using Next_gap_free [OF sample_host_ok sample_host_text sample_watched_runs k n] sample_watched_runs k n
    by (simp add: sample_watched_simps(2))
qed

text \<open>
  C19. Shutdown ends. After \<open>Shutdown\<close> the worker is stopping; with nothing running it is closed
  at once, and otherwise the end of the one running inference closes it and all its streams,
  whatever the backend returned.
\<close>

theorem shutdown_closes:
  assumes "host_ok h" and "host_text_ok h" and "running h w"
  shows "w_stopping (Shutdown (journal_ops h) w) \<and>
    (if w_gens w = [] then w_closed (Shutdown (journal_ops h) w)
     else \<exists>i inp. w_gens w = [(i, inp)] \<and>
       (\<forall>result be. let w' = complete h (journal_ops h) i result be (Shutdown (journal_ops h) w) in
          w_closed w' \<and> w_gens w' = [] \<and> w_observers w' = []))"
proof -
  note rt = runtimeI [OF assms(1,2)]
  let ?w = "Shutdown (journal_ops h) w"
  note sd = runtime.running_shutdown [OF rt assms(3)]
  show ?thesis
  proof (cases "w_gens w")
    case (Cons g gs)
    have "length (w_gens w) \<le> 1" using runtime.running_base [OF rt assms(3)] by (simp add: run_inv_def)
    then obtain i inp where g: "w_gens w = [(i, inp)]" using Cons by (cases g) auto
    have "running h ?w" using runtime.running_step [OF rt assms(3) shuts] .
    from runtime.running_completes [OF rt this] sd g show ?thesis by (auto simp: Let_def)
  qed (use sd in simp)
qed

theorem shutdown_closes_witness:
  "running sample_host sample_busy \<and>
   w_closed (complete sample_host (journal_ops sample_host) ''a'' zero_Result None (Shutdown (journal_ops sample_host) sample_busy))"
  using shutdown_closes [OF sample_host_ok sample_host_text sample_runs] sample_runs
  by (simp add: sample_busy_simps(7) Let_def)

text \<open>
  C20. The disk budget. A commit that is accepted extends the log and leaves room in the
  journal's hard limit for the reserve of every unfinished job of the resulting snapshot.
\<close>

theorem Append_reserve:
  assumes "host_ok h" and "represents h store j cs" and "commit_canon c" and "Append h j None c = (j', None)"
  shows "jn_size j' + TerminalReserve h (rv_Snapshot (jn_state j')) \<le> HardBytes \<and>
    represents h store j' (cs @ [c]) \<and>
    ApplyCommit h (rv_Snapshot (jn_state j)) c = Inr (rv_Snapshot (jn_state j'))"
  using Append_represents [OF assms] by auto

theorem Append_reserve_witness:
  "represents sample_host sample_store sample_journal [sample_commit] \<and> commit_canon sample_start \<and>
   Append sample_host sample_journal None sample_start = (w_store sample_busy, None) \<and>
   jn_size (w_store sample_busy) + TerminalReserve sample_host sample_running \<le> HardBytes"
  using Append_reserve [OF sample_host_ok sample_open(2) sample_start_canon sample_busy_simps(8)] sample_open(2)
    sample_start_canon sample_busy_simps(8) by (simp add: sample_busy_size(3))

text \<open>
  One receipt per key. A commit whose receipt repeats a key of the log is refused, and the
  journal is exactly as it was.
\<close>

theorem Append_duplicate:
  assumes "represents h store j cs" and "cm_Receipt c = Some r" and "rc_Key r \<in> set (map rc_Key (receipts_in cs))"
  shows "\<exists>e. Append h j ctx c = (j, Some e)"
proof -
  have "duplicate (rv_Receipts (jn_state j)) (cm_Receipt c)"
    using assms(2,3) represents_state(5) [OF assms(1)] by (auto simp: duplicate_def list_ex_iff)
  then show ?thesis
    using represents_check [OF assms(1)] by (auto simp: Append_def Let_def split: option.split sum.split)
qed

theorem Append_duplicate_witness:
  "represents sample_host sample_store sample_journal [sample_commit] \<and>
   (\<exists>e. Append sample_host sample_journal None sample_commit = (sample_journal, Some e))"
proof -
  obtain r where r: "cm_Receipt sample_commit = Some r" by (simp add: sample_commit_def)
  then have "rc_Key r \<in> set (map rc_Key (receipts_in [sample_commit]))" by (simp add: receipts_in_def receipt_list_def)
  from Append_duplicate [OF sample_open(2) r this] sample_open(2) show ?thesis by blast
qed

text \<open>
  Canonical encoding. For a canonical commit, reading bytes yields the commit exactly when
  the bytes are its JSON text: what is written is read back, and nothing else is accepted for it.
\<close>

theorem decode_marshal:
  assumes "host_text_ok h" and "commit_canon c"
  shows "decode h b = Inr c \<longleftrightarrow> marshal_commit h c = Some b"
proof
  assume m: "marshal_commit h c = Some b"
  with unmarshal_marshal [OF assms m] show "decode h b = Inr c" by (simp add: decode_def)
qed (auto simp: decode_def split: option.splits if_splits)

theorem decode_marshal_witness:
  "commit_canon sample_start \<and> decode sample_host (commit_text sample_host sample_start) = Inr sample_start"
proof -
  have "list_all event_encodable (cm_Events sample_start)" by code_simp
  then have "marshal_commit sample_host sample_start = Some (commit_text sample_host sample_start)"
    by (simp add: marshal_commit_def commit_text_def)
  then show ?thesis using decode_marshal [OF sample_host_text sample_start_canon] sample_start_canon by simp
qed

text \<open>
  Chunks. Valid non-empty output is cut into a non-empty chunk of at most 16384 bytes that
  ends at a character boundary: chunk and rest are valid UTF-8, and a text that fits is one chunk.
\<close>

theorem chunk_boundaries:
  assumes "valid_utf8 t" and "t \<noteq> []"
  shows "\<exists>n. chunk_len t = Some n \<and> 0 < n \<and> n \<le> length t \<and> n \<le> MaxChunkBytes \<and> valid_utf8 (take n t) \<and>
    valid_utf8 (drop n t) \<and> (length t \<le> MaxChunkBytes \<longrightarrow> n = length t)"
proof -
  obtain n where "chunk_len t = Some n" "0 < n" "n \<le> length t" "n \<le> MaxChunkBytes"
    "valid_utf8 (take n t)" "valid_utf8 (drop n t)" using assms by (rule chunk_len_valid)
  moreover have "n = length t" if "length t \<le> MaxChunkBytes"
    using that calculation(1) assms(2) by (cases "length t") (auto simp: chunk_len_def)
  ultimately show ?thesis by blast
qed

theorem chunk_boundaries_witness:
  "valid_utf8 ''hello'' \<and> chunk_len ''hello'' = Some 5"
proof -
  have v: "valid_utf8 ''hello''" by code_simp
  obtain n where "chunk_len ''hello'' = Some n" "length ''hello'' \<le> MaxChunkBytes \<longrightarrow> n = length ''hello''"
    using chunk_boundaries [OF v] by blast
  then show ?thesis using v by (simp add: MaxChunkBytes_def)
qed

text \<open>
  The binary search that positions a replay finds what a linear scan finds: for a
  predicate that stays true once true, the number of leading indices without it.
\<close>

theorem search_linear:
  assumes "\<And>m m'. m \<le> m' \<Longrightarrow> m' < n \<Longrightarrow> p m \<Longrightarrow> p m'"
  shows "search p 0 n = length (takeWhile (\<lambda>i. \<not> p i) [0..<n])"
proof -
  let ?k = "search p 0 n"
  have k: "?k \<le> n" "\<forall>m<?k. \<not> p m" "?k < n \<longrightarrow> p ?k"
    using search_first [of 0 n p] assms by auto
  have "takeWhile (\<lambda>i. \<not> p i) [0..<n] = take ?k [0..<n]"
    using k by (intro takeWhile_eq_take_P_nth) auto
  then show ?thesis using k(1) by simp
qed

theorem search_linear_witness:
  "search (\<lambda>i. i \<ge> (3::nat)) 0 7 = length (takeWhile (\<lambda>i. \<not> i \<ge> 3) [0..<7])"
  by (rule search_linear) simp

text \<open>
  C25. No lost wake-up. In every state a run can reach there is nothing left to dispatch: the
  worker is stopping, poisoned or paused, or no job is pending, or the active job is running.
\<close>

theorem no_lost_wakeup:
  assumes "host_ok h" and "host_text_ok h" and "running h w"
  shows "dispatch h (journal_ops h) w = w \<and>
    (w_stopping w \<or> w_fatal w \<noteq> None \<or> qs_Paused (sn_Queue (w_state w)) \<or> pending_ids (sn_Queue (w_state w)) = [] \<or>
     (\<exists>i inp. qs_Active (sn_Queue (w_state w)) = Some i \<and> w_gens w = [(i, inp)]))"
proof -
  have i: "idle w" using runtime.running_idle [OF runtimeI [OF assms(1,2)] assms(3)] .
  have "run_inv w" using runtime.running_base [OF runtimeI [OF assms(1,2)] assms(3)] by blast
  then have "w_fatal w = None \<Longrightarrow> qs_Active (sn_Queue (w_state w)) \<noteq> None \<Longrightarrow>
      \<exists>i inp. qs_Active (sn_Queue (w_state w)) = Some i \<and> w_gens w = [(i, inp)]"
    by (cases "w_gens w") (auto simp: run_inv_def)
  with i show ?thesis by (auto simp: dispatch_def idle_def)
qed

theorem no_lost_wakeup_witness:
  "running sample_host sample_busy \<and> dispatch sample_host (journal_ops sample_host) sample_busy = sample_busy"
  using no_lost_wakeup [OF sample_host_ok sample_host_text sample_runs] sample_runs by blast

text \<open>
  Pausing. An accepted pause command returns the queue as it now is, with the requested
  flag; a refused one leaves the snapshot as it was; receipts are never touched.
\<close>

theorem setQueuePaused_effect:
  assumes "host_ok h" and "host_text_ok h" and "running h w" and "setQueuePaused h (journal_ops h) ctx paused w = (w', res)"
  shows "w_receipts w' = w_receipts w \<and>
    (case res of Inl e \<Rightarrow> w_state w' = w_state w | Inr q \<Rightarrow> q = sn_Queue (w_state w') \<and> qs_Paused q = paused)"
  using runtime.running_pause [OF runtimeI [OF assms(1,2)] assms(3,4)] .

theorem setQueuePaused_effect_witness:
  "running sample_host sample_busy \<and>
   (\<exists>w' q. setQueuePaused sample_host (journal_ops sample_host) None False sample_busy = (w', Inr q) \<and>
      q = sn_Queue (w_state w') \<and> \<not> qs_Paused q)"
proof -
  have "\<not> qs_Paused (clone_queue (sn_Queue sample_running))" "idle sample_busy"
    by (simp_all add: idle_def sample_busy_simps sample_running_def sample_busy_queue_def clone_queue_def)
  then have c: "setQueuePaused sample_host (journal_ops sample_host) None False sample_busy =
      (sample_busy, Inr (clone_queue (sn_Queue sample_running)))"
    by (simp add: setQueuePaused_def available_def sample_busy_simps dispatch_def Let_def)
  show ?thesis using setQueuePaused_effect [OF sample_host_ok sample_host_text sample_runs c] c sample_runs by auto
qed

end
